(* ===== verification/Prelude.thy ===== *)
theory Prelude
  imports Main "HOL-Library.List_Lexorder" "HOL-Library.Product_Lexorder" "HOL-Library.Char_ord"
begin

text \<open>
  Shared vocabulary of the development: the errors the Python code raises as values of a sum
  type, the JSON values it stores, the few string operations it uses, the SQL statements it runs
  on a table (a list of row records in row order), and two interfaces that several components
  meet: holders of a shared resource that never conflict, and a load that never passes a limit.

  Conventions. A string is a list of code points below 256. A timestamp is an \<open>int\<close>, the
  milliseconds of the fixed-width UTC text the code stores, whose text order is the order of
  time. A transaction that raises is rolled back, so an operation on a store returns either an
  error (and the store is what it was) or the new store with the result.
\<close>

named_theorems sql_simps "rewrite rules for the SQL statements of the store models"
named_theorems frame_simps "what a statement or an operation leaves alone"

subsection \<open>Errors as values\<close>

datatype py_error =
    ToolError string
  | ValueError
  | IndexError
  | KeyError
  | LookupError
  | TypeError
  | IntegrityError
  | TimeoutError
  | RuntimeError
  | OverflowError
  | OSError string

type_synonym 'a res = "py_error + 'a"

type_synonym time = int

definition is_error :: "'a res \<Rightarrow> bool" where
  "is_error r \<longleftrightarrow> (case r of Inl _ \<Rightarrow> True | Inr _ \<Rightarrow> False)"

lemma is_error_simps [simp]: "is_error (Inl e)" "\<not> is_error (Inr x)"
  by (simp_all add: is_error_def)

text \<open>Calling on, and calling for every element in order; the first error ends the run.\<close>

definition bind_res :: "'a res \<Rightarrow> ('a \<Rightarrow> 'b res) \<Rightarrow> 'b res" where
  "bind_res r f = (case r of Inl e \<Rightarrow> Inl e | Inr x \<Rightarrow> f x)"

fun map_res :: "('a \<Rightarrow> 'b res) \<Rightarrow> 'a list \<Rightarrow> 'b list res" where
  "map_res f [] = Inr []"
| "map_res f (x # xs) = bind_res (f x) (\<lambda>y. bind_res (map_res f xs) (\<lambda>ys. Inr (y # ys)))"

lemma bind_res_simps [simp]: "bind_res (Inl e) f = Inl e" "bind_res (Inr x) f = f x"
  by (simp_all add: bind_res_def)

lemma bind_res_Inr: "bind_res r f = Inr y \<longleftrightarrow> (\<exists>x. r = Inr x \<and> f x = Inr y)"
  by (cases r) auto

lemma map_res_total: "(\<And>x. x \<in> set xs \<Longrightarrow> f x = Inr (g x)) \<Longrightarrow> map_res f xs = Inr (map g xs)"
  by (induction xs) auto

subsection \<open>Strings\<close>

definition py_isspace :: "char \<Rightarrow> bool" where
  "py_isspace c \<longleftrightarrow>
     (let n = of_char c :: nat
      in (9 \<le> n \<and> n \<le> 13) \<or> (28 \<le> n \<and> n \<le> 32) \<or> n = 133 \<or> n = 160)"

definition py_strip :: "string \<Rightarrow> string" where
  "py_strip s = rev (dropWhile py_isspace (rev (dropWhile py_isspace s)))"

definition utf8_size :: "string \<Rightarrow> nat" where
  "utf8_size s = sum_list (map (\<lambda>c. if (of_char c :: nat) < 128 then 1 else 2) s)"

fun split_on :: "char \<Rightarrow> string \<Rightarrow> string list" where
  "split_on d [] = [[]]"
| "split_on d (c # cs) =
     (if c = d then [] # split_on d cs
      else (case split_on d cs of [] \<Rightarrow> [[c]] | w # ws \<Rightarrow> (c # w) # ws))"

fun join_with :: "string \<Rightarrow> string list \<Rightarrow> string" where
  "join_with sep [] = []"
| "join_with sep [w] = w"
| "join_with sep (w # v # ws) = w @ sep @ join_with sep (v # ws)"

lemma split_on_not_Nil [simp]: "split_on d s \<noteq> []"
  by (induction s) (auto split: list.splits)

lemma split_on_no_delim: "w \<in> set (split_on d s) \<Longrightarrow> d \<notin> set w"
proof (induction s arbitrary: w)
  case (Cons c cs)
  obtain v vs where s: "split_on d cs = v # vs"
    by (cases "split_on d cs") auto
  with Cons show ?case by (auto split: if_splits)
qed simp

lemma split_on_word: "d \<notin> set w \<Longrightarrow> split_on d w = [w]"
  by (induction w) auto

lemma split_on_append:
  "d \<notin> set w \<Longrightarrow> split_on d (w @ d # s) = w # split_on d s"
  by (induction w) auto

lemma split_on_join:
  assumes "ws \<noteq> []" "\<forall>w \<in> set ws. d \<notin> set w"
  shows "split_on d (join_with [d] ws) = ws"
  using assms
  by (induction "[d]" ws rule: join_with.induct) (auto simp: split_on_word split_on_append)

subsection \<open>JSON values\<close>

text \<open>
  A JSON column holds the text \<open>_canonical\<close> writes: keys sorted, no blanks. The model keeps the
  value that text denotes, with the keys of every object in order; two texts are equal exactly
  when these values are. A float is kept as the digits Python prints.
\<close>

datatype json =
    JNull
  | JBool bool
  | JInt int
  | JFloat string
  | JStr string
  | JList "json list"
  | JObj "(string \<times> json) list"

subsection \<open>Tables and the statements run on them\<close>

definition sql_one :: "('r \<Rightarrow> bool) \<Rightarrow> 'r list \<Rightarrow> 'r option" where
  "sql_one P rows = find P rows"

definition sql_exists :: "('r \<Rightarrow> bool) \<Rightarrow> 'r list \<Rightarrow> bool" where
  "sql_exists P rows = list_ex P rows"

definition sql_update :: "('r \<Rightarrow> bool) \<Rightarrow> ('r \<Rightarrow> 'r) \<Rightarrow> 'r list \<Rightarrow> 'r list" where
  "sql_update P f rows = map (\<lambda>r. if P r then f r else r) rows"

definition sql_delete :: "('r \<Rightarrow> bool) \<Rightarrow> 'r list \<Rightarrow> 'r list" where
  "sql_delete P rows = filter (\<lambda>r. \<not> P r) rows"

definition sql_count :: "('r \<Rightarrow> bool) \<Rightarrow> 'r list \<Rightarrow> nat" where
  "sql_count P rows = length (filter P rows)"

definition sql_sum :: "('r \<Rightarrow> int) \<Rightarrow> ('r \<Rightarrow> bool) \<Rightarrow> 'r list \<Rightarrow> int" where
  "sql_sum w P rows = sum_list (map w (filter P rows))"

definition unique_by :: "('r \<Rightarrow> 'k) \<Rightarrow> 'r list \<Rightarrow> bool" where
  "unique_by k rows \<longleftrightarrow> distinct (map k rows)"

lemma sql_one_Some:
  "sql_one P rows = Some r \<Longrightarrow> r \<in> set rows \<and> P r"
  by (induction rows) (auto simp: sql_one_def split: if_splits)

lemma sql_one_None [simp]: "sql_one P rows = None \<longleftrightarrow> (\<forall>r \<in> set rows. \<not> P r)"
  by (induction rows) (auto simp: sql_one_def)

lemma sql_exists_iff [simp]: "sql_exists P rows \<longleftrightarrow> (\<exists>r \<in> set rows. P r)"
  by (simp add: sql_exists_def list_ex_iff)

lemma set_sql_update: "set (sql_update P f rows) = (\<lambda>r. if P r then f r else r) ` set rows"
  by (simp add: sql_update_def)

lemma image_sql_update:
  assumes "\<And>r. k (f r) = k r"
  shows "k ` set (sql_update P f rows) = k ` set rows"
proof -
  have "map k (sql_update P f rows) = map k rows" using assms by (simp add: sql_update_def)
  then show ?thesis by (metis set_map)
qed

lemma bex_sql_update:
  assumes "\<And>r. Q (f r) = Q r"
  shows "(\<exists>r \<in> set (sql_update P f rows). Q r) \<longleftrightarrow> (\<exists>r \<in> set rows. Q r)"
  using assms by (induction rows) (simp_all add: sql_update_def)

lemma set_sql_delete [simp]: "set (sql_delete P rows) = {r \<in> set rows. \<not> P r}"
  by (auto simp: sql_delete_def)

lemma length_sql_update [simp]: "length (sql_update P f rows) = length rows"
  by (simp add: sql_update_def)

lemma unique_by_update:
  assumes "unique_by k rows" "\<And>r. k (f r) = k r"
  shows "unique_by k (sql_update P f rows)"
proof -
  have "map k (sql_update P f rows) = map k rows"
    using assms(2) by (simp add: sql_update_def)
  with assms(1) show ?thesis by (simp add: unique_by_def)
qed

lemma unique_by_delete: "unique_by k rows \<Longrightarrow> unique_by k (sql_delete P rows)"
  by (simp add: unique_by_def sql_delete_def distinct_map_filter)

lemma unique_by_insert:
  "unique_by k rows \<Longrightarrow> k r \<notin> k ` set rows \<Longrightarrow> unique_by k (rows @ [r])"
  by (auto simp: unique_by_def)

lemma unique_by_Cons: "unique_by k (x # xs) \<longleftrightarrow> k x \<notin> k ` set xs \<and> unique_by k xs"
  by (simp add: unique_by_def)

lemma unique_byD:
  "unique_by k rows \<Longrightarrow> r \<in> set rows \<Longrightarrow> s \<in> set rows \<Longrightarrow> k r = k s \<Longrightarrow> r = s"
  by (auto simp: unique_by_def distinct_map dest: inj_onD)

lemma sql_one_unique:
  assumes "unique_by k rows" "r \<in> set rows"
  shows "sql_one (\<lambda>x. k x = k r) rows = Some r"
proof (cases "sql_one (\<lambda>x. k x = k r) rows")
  case None
  with assms(2) show ?thesis by auto
next
  case (Some x)
  with sql_one_Some [OF Some] assms show ?thesis by (auto dest: unique_byD)
qed

lemma sql_one_update:
  assumes "\<And>r. Q (f r) = Q r"
  shows "sql_one Q (sql_update P f rows) = map_option (\<lambda>r. if P r then f r else r) (sql_one Q rows)"
  using assms by (induction rows) (auto simp: sql_one_def sql_update_def)

lemma sum_rows_mono:
  assumes "\<And>r. r \<in> set rows \<Longrightarrow> P r \<Longrightarrow> Q r" "\<And>r. r \<in> set rows \<Longrightarrow> 0 \<le> w r"
  shows "sql_sum w P rows \<le> sql_sum w Q rows"
  using assms by (induction rows) (auto simp: sql_sum_def add_increasing)

lemma sum_rows_update:
  assumes "\<And>r. r \<in> set rows \<Longrightarrow> P r \<Longrightarrow> w (f r) = w r \<and> (Q (f r) \<longrightarrow> Q r)" "\<And>r. r \<in> set rows \<Longrightarrow> 0 \<le> w r"
  shows "sql_sum w Q (sql_update P f rows) \<le> sql_sum w Q rows"
  using assms by (induction rows) (force simp: sql_sum_def sql_update_def)+

lemma sum_rows_delete:
  assumes "\<And>r. r \<in> set rows \<Longrightarrow> 0 \<le> w r"
  shows "sql_sum w Q (sql_delete P rows) \<le> sql_sum w Q rows"
  using assms by (induction rows) (force simp: sql_sum_def sql_delete_def)+

lemma sum_rows_update_one:
  assumes "unique_by k rows" "\<And>r. r \<in> set rows \<Longrightarrow> P r \<Longrightarrow> k r = a \<and> w (f r) = v"
    "\<And>r. r \<in> set rows \<Longrightarrow> 0 \<le> w r" "0 \<le> v"
  shows "sql_sum w Q (sql_update P f rows) \<le> sql_sum w Q rows + v"
  using assms
proof (induction rows)
  case (Cons x rows)
  show ?case
  proof (cases "P x")
    case True
    have "k r \<noteq> k x" if "r \<in> set rows" for r
      using Cons.prems(1) that by (auto simp: unique_by_def rev_image_eqI)
    then have "\<not> P r" if "r \<in> set rows" for r
      using Cons.prems(2) [of r] Cons.prems(2) [of x] True that by auto
    then have "sql_update P f rows = rows" by (simp add: sql_update_def map_idI)
    moreover have "0 \<le> w x" "w (f x) = v" using Cons.prems True by auto
    ultimately show ?thesis using True Cons.prems(4) by (simp add: sql_sum_def sql_update_def)
  next
    case False
    have "sql_sum w Q (sql_update P f rows) \<le> sql_sum w Q rows + v"
      using Cons by (auto simp: unique_by_def)
    with False show ?thesis by (simp add: sql_sum_def sql_update_def)
  qed
qed (simp add: sql_sum_def sql_update_def)

subsection \<open>Reachable states\<close>

inductive reach :: "('s \<Rightarrow> bool) \<Rightarrow> ('s \<Rightarrow> 's \<Rightarrow> bool) \<Rightarrow> 's \<Rightarrow> bool"
  for start :: "'s \<Rightarrow> bool" and step :: "'s \<Rightarrow> 's \<Rightarrow> bool" where
  reach_start: "start s \<Longrightarrow> reach start step s"
| reach_step: "reach start step s \<Longrightarrow> step s t \<Longrightarrow> reach start step t"

lemma reach_invariant:
  assumes "reach start step s" "\<And>s. start s \<Longrightarrow> I s" "\<And>s t. I s \<Longrightarrow> step s t \<Longrightarrow> I t"
  shows "I s"
  using assms by (induction rule: reach.induct) blast+

subsection \<open>Interface: holders that never conflict\<close>

text \<open>
  A shared resource is protected by a table of holders. Every step either keeps or drops holders,
  or admits one new holder that is compatible with each holder there is. The client's law: in
  every reachable state any two different holders are compatible.
\<close>

locale exclusive_holders =
  fixes start :: "'s \<Rightarrow> bool"
    and step :: "'s \<Rightarrow> 's \<Rightarrow> bool"
    and inv :: "'s \<Rightarrow> bool"
    and holders :: "'s \<Rightarrow> 'h set"
    and compatible :: "'h \<Rightarrow> 'h \<Rightarrow> bool"
  assumes compatible_sym: "compatible a b \<Longrightarrow> compatible b a"
    and start_inv: "start s \<Longrightarrow> inv s"
    and start_holders: "start s \<Longrightarrow> holders s = {}"
    and step_inv: "inv s \<Longrightarrow> step s t \<Longrightarrow> inv t"
    and step_holders: "inv s \<Longrightarrow> step s t \<Longrightarrow> holders t \<subseteq> holders s \<or>
      (\<exists>h. holders t \<subseteq> insert h (holders s) \<and> (\<forall>g \<in> holders t. g \<noteq> h \<longrightarrow> compatible h g))"
begin

definition exclusive :: "'s \<Rightarrow> bool" where
  "exclusive s \<longleftrightarrow> (\<forall>a \<in> holders s. \<forall>b \<in> holders s. a \<noteq> b \<longrightarrow> compatible a b)"

lemma reach_inv: "reach start step s \<Longrightarrow> inv s"
  by (erule reach_invariant) (auto intro: start_inv step_inv)

lemma exclusive_step:
  assumes "inv s" "step s t" "exclusive s"
  shows "exclusive t"
  unfolding exclusive_def
proof (intro ballI impI)
  fix a b
  assume ab: "a \<in> holders t" "b \<in> holders t" "a \<noteq> b"
  from step_holders [OF assms(1,2)] show "compatible a b"
  proof (elim disjE exE conjE)
    assume "holders t \<subseteq> holders s"
    with ab assms(3) show ?thesis by (auto simp: exclusive_def)
  next
    fix h
    assume h: "holders t \<subseteq> insert h (holders s)"
      "\<forall>g \<in> holders t. g \<noteq> h \<longrightarrow> compatible h g"
    show ?thesis
    proof (cases "a = h")
      case True
      with h ab show ?thesis by auto
    next
      case a: False
      show ?thesis
      proof (cases "b = h")
        case True
        with h ab a show ?thesis by (auto intro: compatible_sym)
      next
        case False
        with h ab a assms(3) show ?thesis by (auto simp: exclusive_def)
      qed
    qed
  qed
qed

lemma reach_exclusive: "reach start step s \<Longrightarrow> exclusive s"
proof (induction rule: reach.induct)
  case (reach_start s)
  then show ?case by (simp add: exclusive_def start_holders)
next
  case (reach_step s t)
  then show ?case by (blast intro: exclusive_step reach_inv)
qed

end

subsection \<open>Interface: a load that stays within its limit\<close>

text \<open>
  A budget is protected by an admission check. Every step either does not raise the load or
  leaves it within the limit. The client's law: the load is within the limit in every reachable
  state.
\<close>

locale bounded_load =
  fixes start :: "'s \<Rightarrow> bool"
    and step :: "'s \<Rightarrow> 's \<Rightarrow> bool"
    and inv :: "'s \<Rightarrow> bool"
    and load :: "'s \<Rightarrow> int"
    and limit :: int
  assumes load_start: "start s \<Longrightarrow> inv s \<and> load s \<le> limit"
    and load_inv: "inv s \<Longrightarrow> step s t \<Longrightarrow> inv t"
    and load_step: "inv s \<Longrightarrow> step s t \<Longrightarrow> load t \<le> load s \<or> load t \<le> limit"
begin

lemma reach_load: "reach start step s \<Longrightarrow> inv s \<and> load s \<le> limit"
proof (erule reach_invariant)
  show "inv s \<and> load s \<le> limit" if "start s" for s
    using that by (rule load_start)
  show "inv t \<and> load t \<le> limit" if "inv s \<and> load s \<le> limit" "step s t" for s t
    using that load_step [of s t] by (auto intro: load_inv)
qed

end

subsection \<open>Polling under a deadline\<close>

text \<open>Readings of a clock between which a poller sleeps \<open>pause\<close> or until the deadline, whichever is sooner: after
  \<open>k\<close> rounds the deadline has passed or at least \<open>k\<close> pauses have.\<close>

lemma poll_deadline:
  fixes clock :: "nat \<Rightarrow> 'a :: linordered_field"
  assumes "\<And>k. clock k \<le> clock (Suc k)" "\<And>k. clock k < deadline \<Longrightarrow> min (clock k + pause) deadline \<le> clock (Suc k)"
  shows "deadline \<le> clock k \<or> clock 0 + of_nat k * pause \<le> clock k"
proof (induction k)
  case (Suc k)
  consider "deadline \<le> clock k" | "clock k < deadline" "clock 0 + of_nat k * pause \<le> clock k" using Suc.IH by linarith
  then show ?case
  proof cases
    case 1
    with assms(1) [of k] show ?thesis by linarith
  next
    case 2
    have "clock 0 + of_nat (Suc k) * pause = clock 0 + of_nat k * pause + pause" by (simp add: algebra_simps)
    with 2 assms(2) [of k] show ?thesis by (auto simp: min_def split: if_splits)
  qed
qed simp

end
