(* ===== verification/Workflow_Models.thy ===== *)
theory Workflow_Models
  imports Complex_Main Prelude
begin

text \<open>
  \<open>core/workflow_models.py\<close>: the lifecycle states of workflows, steps and operations with their
  transition tables and guards, the step and workflow definitions, and
  \<open>workflow_topological_order\<close>, which validates the dependency metadata of a definition and
  returns the stable execution order. Seconds are rational numbers; \<open>heapq\<close> is seen only through
  its least element, so a heap of step indices is the ascending list of them.
\<close>

subsection \<open>Lifecycle states and their transition tables\<close>

datatype workflow_state =
    WCreated | WQueued | WRunning | WCancelling | WWaiting | WPaused | WFailed | WUncertain
  | WReconciling | WCompleted | WCancelled

datatype step_state =
    SCreated | SRunning | SWaiting | SFailed | SUncertain | SReconciling | SCompleted | SCancelled

datatype operation_state =
    OCreated | ORunning | OWaiting | OSucceeded | OFailed | OUncertain | OReconciling
  | OAcknowledged | OUnresolvable | OCancelled

fun workflow_transitions :: "workflow_state \<Rightarrow> workflow_state list" where
  "workflow_transitions WCreated = [WQueued, WCancelled]"
| "workflow_transitions WQueued = [WRunning, WCancelled]"
| "workflow_transitions WRunning =
     [WWaiting, WCancelling, WPaused, WFailed, WUncertain, WCompleted, WCancelled]"
| "workflow_transitions WCancelling = [WCancelled, WFailed, WUncertain]"
| "workflow_transitions WWaiting = [WRunning, WPaused, WFailed, WUncertain, WCancelled]"
| "workflow_transitions WPaused = [WQueued, WCancelled]"
| "workflow_transitions WFailed = [WQueued, WCancelled]"
| "workflow_transitions WUncertain = [WReconciling, WCancelled]"
| "workflow_transitions WReconciling = [WPaused, WFailed, WUncertain, WCompleted, WCancelled]"
| "workflow_transitions WCompleted = []"
| "workflow_transitions WCancelled = []"

fun step_transitions :: "step_state \<Rightarrow> step_state list" where
  "step_transitions SCreated = [SRunning, SCancelled]"
| "step_transitions SRunning = [SWaiting, SFailed, SUncertain, SCompleted, SCancelled]"
| "step_transitions SWaiting = [SRunning, SFailed, SUncertain, SCancelled]"
| "step_transitions SUncertain = [SReconciling, SCancelled]"
| "step_transitions SReconciling = [SFailed, SUncertain, SCompleted]"
| "step_transitions SFailed = [SRunning, SCancelled]"
| "step_transitions SCompleted = []"
| "step_transitions SCancelled = []"

fun operation_transitions :: "operation_state \<Rightarrow> operation_state list" where
  "operation_transitions OCreated = [ORunning, OCancelled]"
| "operation_transitions ORunning = [OWaiting, OSucceeded, OFailed, OUncertain, OCancelled]"
| "operation_transitions OWaiting = [ORunning, OSucceeded, OFailed, OUncertain, OCancelled]"
| "operation_transitions OUncertain = [OReconciling, OAcknowledged, OUnresolvable, OCancelled]"
| "operation_transitions OReconciling =
     [OSucceeded, OFailed, OUncertain, OAcknowledged, OUnresolvable]"
| "operation_transitions OFailed = [ORunning, OCancelled]"
| "operation_transitions OSucceeded = []"
| "operation_transitions OAcknowledged = []"
| "operation_transitions OUnresolvable = []"
| "operation_transitions OCancelled = []"

definition require_transition :: "string \<Rightarrow> 's \<Rightarrow> 's \<Rightarrow> ('s \<Rightarrow> 's list) \<Rightarrow> unit res" where
  "require_transition entity current target allowed =
     (if target \<notin> set (allowed current)
      then Inl (ToolError (''invalid_'' @ entity @ ''_transition'')) else Inr ())"

definition validate_workflow_transition :: "workflow_state \<Rightarrow> workflow_state \<Rightarrow> unit res" where
  "validate_workflow_transition current target =
     require_transition ''workflow'' current target workflow_transitions"

definition validate_step_transition :: "step_state \<Rightarrow> step_state \<Rightarrow> unit res" where
  "validate_step_transition current target =
     require_transition ''step'' current target step_transitions"

definition validate_operation_transition :: "operation_state \<Rightarrow> operation_state \<Rightarrow> unit res" where
  "validate_operation_transition current target =
     require_transition ''operation'' current target operation_transitions"

subsection \<open>Definitions of steps and workflows\<close>

record step_definition =
  sd_name :: string
  sd_action :: string
  sd_arguments :: json
  sd_timeout_sec :: rat
  sd_max_retries :: int
  sd_postcondition :: "json option"
  sd_execution_intent :: "json option"
  sd_step_id :: "string option"
  sd_depends_on :: "string list"

record workflow_definition =
  wd_name :: string
  wd_steps :: "step_definition list"
  wd_description :: string
  wd_execution_mode :: string
  wd_max_parallel_steps :: int
  wd_total_timeout_sec :: "rat option"

definition workflow_definition_post_init :: "workflow_definition \<Rightarrow> workflow_definition" where
  "workflow_definition_post_init d =
     (if wd_execution_mode d = ''dag'' \<and> wd_total_timeout_sec d = None
      then d\<lparr>wd_total_timeout_sec := Some 7200\<rparr> else d)"

definition step_id_char :: "char \<Rightarrow> bool" where
  "step_id_char c \<longleftrightarrow>
     (let n = of_char c :: nat
      in (65 \<le> n \<and> n \<le> 90) \<or> (97 \<le> n \<and> n \<le> 122) \<or> (48 \<le> n \<and> n \<le> 57) \<or> n = 95 \<or> n = 45)"

definition step_id_re :: "string \<Rightarrow> bool" where
  "step_id_re s \<longleftrightarrow> 1 \<le> length s \<and> length s \<le> 100 \<and> list_all step_id_char s"

subsection \<open>The stable topological order\<close>

fun index_step_ids ::
  "nat \<Rightarrow> step_definition list \<Rightarrow> (string \<Rightarrow> nat option) \<Rightarrow> (string \<Rightarrow> nat option) res" where
  "index_step_ids index [] by_id = Inr by_id"
| "index_step_ids index (step # steps) by_id =
     (case sd_step_id step of
        None \<Rightarrow> Inl (ToolError ''invalid_workflow_step_id'')
      | Some step_id \<Rightarrow>
          if \<not> step_id_re step_id then Inl (ToolError ''invalid_workflow_step_id'')
          else if by_id step_id \<noteq> None then Inl (ToolError ''duplicate_workflow_step_id'')
          else index_step_ids (Suc index) steps (by_id(step_id := Some index)))"

fun scan_dependencies ::
  "(string \<Rightarrow> nat option) \<Rightarrow> string option \<Rightarrow> nat \<Rightarrow> string list \<Rightarrow> int list \<Rightarrow> nat list list
   \<Rightarrow> (int list \<times> nat list list) res" where
  "scan_dependencies by_id own index [] indegree children = Inr (indegree, children)"
| "scan_dependencies by_id own index (dependency # rest) indegree children =
     (if Some dependency = own then Inl (ToolError ''self_workflow_dependency'')
      else case by_id dependency of
        None \<Rightarrow> Inl (ToolError ''unknown_workflow_dependency'')
      | Some parent \<Rightarrow>
          scan_dependencies by_id own index rest
            (indegree[index := indegree ! index + 1])
            (children[parent := children ! parent @ [index]]))"

fun scan_steps ::
  "(string \<Rightarrow> nat option) \<Rightarrow> nat \<Rightarrow> step_definition list \<Rightarrow> int list \<Rightarrow> nat list list
   \<Rightarrow> (int list \<times> nat list list) res" where
  "scan_steps by_id index [] indegree children = Inr (indegree, children)"
| "scan_steps by_id index (step # steps) indegree children =
     (if 99 < length (sd_depends_on step)
      then Inl (ToolError ''too_many_workflow_dependencies'')
      else if length (remdups (sd_depends_on step)) \<noteq> length (sd_depends_on step)
      then Inl (ToolError ''duplicate_workflow_dependency'')
      else case scan_dependencies by_id (sd_step_id step) index (sd_depends_on step) indegree children of
        Inl e \<Rightarrow> Inl e
      | Inr (indegree', children') \<Rightarrow> scan_steps by_id (Suc index) steps indegree' children')"

fun relax_children ::
  "nat list \<Rightarrow> int list \<Rightarrow> nat list \<Rightarrow> (int list \<times> nat list) res" where
  "relax_children [] indegree ready = Inr (indegree, ready)"
| "relax_children (child # rest) indegree ready =
     (if length indegree \<le> child then Inl IndexError
      else let degree = indegree ! child - 1
           in relax_children rest (indegree[child := degree])
                (if degree = 0 then insort child ready else ready))"

abbreviation positive_count :: "int list \<Rightarrow> nat" where
  "positive_count ds \<equiv> length (filter (\<lambda>d. 0 < d) ds)"

lemma positive_count_update:
  "i < length ds \<Longrightarrow>
   positive_count (ds[i := d]) + (if 0 < ds ! i then 1 else 0) = positive_count ds + (if 0 < d then 1 else 0)"
proof (induction ds arbitrary: i)
  case (Cons x xs)
  then show ?case by (cases i) auto
qed simp

lemma relax_children_measure:
  "relax_children cs ds ready = Inr (ds', ready') \<Longrightarrow>
   2 * positive_count ds' + length ready' \<le> 2 * positive_count ds + length ready"
proof (induction cs arbitrary: ds ready)
  case (Cons c cs)
  let ?d = "ds ! c - 1"
  let ?r = "if ?d = 0 then insort c ready else ready"
  from Cons.prems have c: "c < length ds"
    and rest: "relax_children cs (ds[c := ?d]) ?r = Inr (ds', ready')"
    by (auto simp: Let_def split: if_splits)
  from positive_count_update [OF c, of ?d] Cons.IH [OF rest] show ?case
    by (auto split: if_splits)
qed simp

function (sequential) topological_loop ::
  "nat list list \<Rightarrow> int list \<Rightarrow> nat list \<Rightarrow> nat list \<Rightarrow> (int list \<times> nat list) res" where
  "topological_loop children indegree [] order = Inr (indegree, order)"
| "topological_loop children indegree (index # ready) order =
     (if length children \<le> index then Inl IndexError
      else case relax_children (children ! index) indegree ready of
        Inl e \<Rightarrow> Inl e
      | Inr (indegree', ready') \<Rightarrow>
          topological_loop children indegree' ready' (order @ [index]))"
  by pat_completeness auto
termination
  by (relation "measure (\<lambda>(children, ds, ready, order). 2 * positive_count ds + length ready)")
     (auto dest!: relax_children_measure)

definition workflow_topological_order :: "workflow_definition \<Rightarrow> nat list res" where
  "workflow_topological_order d =
     (let steps = wd_steps d; n = length steps in
      if steps = [] then Inl (ToolError ''empty_workflow'')
      else if wd_execution_mode d = ''sequential'' then
        (if list_ex (\<lambda>s. sd_step_id s \<noteq> None \<or> sd_depends_on s \<noteq> []) steps
         then Inl (ToolError ''workflow_dag_metadata_requires_dag_mode'')
         else if wd_max_parallel_steps d \<noteq> 1 \<or> wd_total_timeout_sec d \<noteq> None
         then Inl (ToolError ''workflow_parallel_metadata_requires_dag_mode'')
         else Inr [0..<n])
      else if wd_execution_mode d \<noteq> ''dag'' then Inl (ToolError ''invalid_workflow_execution_mode'')
      else if 100 < n then Inl (ToolError ''workflow_too_large'')
      else if \<not> (1 \<le> wd_max_parallel_steps d \<and> wd_max_parallel_steps d \<le> 16)
      then Inl (ToolError ''invalid_workflow_parallel_cap'')
      else if (case wd_total_timeout_sec d of None \<Rightarrow> True | Some t \<Rightarrow> \<not> (0 < t \<and> t \<le> 86400))
      then Inl (ToolError ''invalid_workflow_total_timeout'')
      else case index_step_ids 0 steps (\<lambda>_. None) of
        Inl e \<Rightarrow> Inl e
      | Inr by_id \<Rightarrow>
         (case scan_steps by_id 0 steps (replicate n 0) (replicate n []) of
            Inl e \<Rightarrow> Inl e
          | Inr (indegree, children) \<Rightarrow>
             (case topological_loop children indegree (filter (\<lambda>i. indegree ! i = 0) [0..<n]) [] of
                Inl e \<Rightarrow> Inl e
              | Inr (_, order) \<Rightarrow>
                  if length order \<noteq> n then Inl (ToolError ''cyclic_workflow_dependencies'')
                  else Inr order)))"

subsection \<open>The work list of the topological loop\<close>

text \<open>
  \<open>free_steps n ch out\<close> are the steps not yet in \<open>out\<close> all of whose parents are (\<open>i\<close> is a child
  of \<open>p\<close> when it occurs in \<open>ch ! p\<close>), least first. The loop's heap always holds exactly these.
\<close>

definition free_steps :: "nat \<Rightarrow> nat list list \<Rightarrow> nat list \<Rightarrow> nat list" where
  "free_steps n ch out =
     filter (\<lambda>i. i \<notin> set out \<and> (\<forall>p \<in> {..<n}. i \<in> set (ch ! p) \<longrightarrow> p \<in> set out)) [0..<n]"

definition pending_degree :: "nat \<Rightarrow> nat list list \<Rightarrow> nat list \<Rightarrow> nat \<Rightarrow> int" where
  "pending_degree n ch out i = (\<Sum>p \<in> {..<n} - set out. int (count_list (ch ! p) i))"

lemma pending_degree_zero:
  "pending_degree n ch out i = 0 \<longleftrightarrow> (\<forall>p \<in> {..<n}. i \<in> set (ch ! p) \<longrightarrow> p \<in> set out)"
  by (auto simp: pending_degree_def sum_nonneg_eq_0_iff count_list_0_iff)

lemma pending_degree_pop:
  assumes "p < n" "p \<notin> set out"
  shows "pending_degree n ch out i = int (count_list (ch ! p) i) + pending_degree n ch (out @ [p]) i"
proof -
  have "{..<n} - set out - {p} = {..<n} - set (out @ [p])" by auto
  moreover have "p \<in> {..<n} - set out" using assms by simp
  ultimately show ?thesis
    unfolding pending_degree_def by (subst sum.remove [of _ p]) simp_all
qed

lemma relax_children_spec:
  assumes "\<forall>c \<in> set cs. c < length ds" "\<forall>j < length ds. int (count_list cs j) \<le> ds ! j"
    "sorted ready" "distinct ready" "\<forall>j \<in> set ready. j < length ds \<and> ds ! j = 0"
  shows "\<exists>ds' ready'. relax_children cs ds ready = Inr (ds', ready') \<and> length ds' = length ds \<and>
    (\<forall>j < length ds. ds' ! j = ds ! j - int (count_list cs j)) \<and> sorted ready' \<and> distinct ready' \<and>
    set ready' = set ready \<union> {j \<in> set cs. ds' ! j = 0}"
  using assms
proof (induction cs arbitrary: ds ready)
  case (Cons c cs)
  define ds1 where "ds1 = ds[c := ds ! c - 1]"
  define r1 where "r1 = (if ds ! c - 1 = 0 then insort c ready else ready)"
  have c: "c < length ds" "1 \<le> ds ! c"
    using Cons.prems(1,2) by (auto dest: spec [of _ c] split: if_splits)
  have len: "length ds1 = length ds" by (simp add: ds1_def)
  have cnt: "\<forall>j < length ds1. int (count_list cs j) \<le> ds1 ! j"
  proof (intro allI impI)
    fix j assume "j < length ds1"
    with Cons.prems(2) c show "int (count_list cs j) \<le> ds1 ! j"
      by (cases "j = c") (auto simp: ds1_def dest: spec [of _ j])
  qed
  have c_new: "c \<notin> set ready" using Cons.prems(5) c by auto
  have r1: "sorted r1" "distinct r1" "\<forall>j \<in> set r1. j < length ds1 \<and> ds1 ! j = 0"
    using Cons.prems(3-5) c c_new
    by (auto simp: r1_def ds1_def sorted_insort distinct_insort set_insort_key nth_list_update)
  obtain ds' ready' where IH: "relax_children cs ds1 r1 = Inr (ds', ready')" "length ds' = length ds1"
    "\<forall>j < length ds1. ds' ! j = ds1 ! j - int (count_list cs j)" "sorted ready'" "distinct ready'"
    "set ready' = set r1 \<union> {j \<in> set cs. ds' ! j = 0}"
    using Cons.IH [OF _ cnt r1] Cons.prems(1) len by auto
  have "relax_children (c # cs) ds ready = Inr (ds', ready')"
    using IH(1) c by (simp add: ds1_def r1_def Let_def)
  moreover have vals: "\<forall>j < length ds. ds' ! j = ds ! j - int (count_list (c # cs) j)"
    using IH(3) len by (auto simp: ds1_def nth_list_update)
  moreover have "set ready' = set ready \<union> {j \<in> set (c # cs). ds' ! j = 0}"
  proof -
    have "c \<in> set cs \<or> (ds' ! c = 0 \<longleftrightarrow> ds ! c = 1)"
      using vals c by (auto simp: count_list_0_iff)
    moreover have "ds ! c = 1 \<Longrightarrow> ds' ! c = 0"
      using vals c Cons.prems(2) by (auto dest: spec [of _ c])
    ultimately show ?thesis
      using IH(6) by (auto simp: r1_def set_insort_key)
  qed
  ultimately show ?case using IH(2,4,5) len by auto
qed simp

lemma free_steps_iff:
  "i \<in> set (free_steps n ch out) \<longleftrightarrow>
     i < n \<and> i \<notin> set out \<and> pending_degree n ch out i = 0"
  by (auto simp: free_steps_def pending_degree_zero)

lemma free_steps_sorted: "sorted (free_steps n ch out)" "distinct (free_steps n ch out)"
  by (simp_all add: free_steps_def sorted_wrt_filter)

lemma pending_degree_nonneg: "0 \<le> pending_degree n ch out i"
  by (simp add: pending_degree_def sum_nonneg)

definition greedy :: "nat \<Rightarrow> nat list list \<Rightarrow> nat list \<Rightarrow> bool" where
  "greedy n ch out \<longleftrightarrow>
     (\<forall>k < length out. \<exists>rest. free_steps n ch (take k out) = out ! k # rest)"

lemma greedy_snoc:
  "greedy n ch out \<Longrightarrow> free_steps n ch out = i # rest \<Longrightarrow> greedy n ch (out @ [i])"
  by (auto simp: greedy_def nth_append less_Suc_eq)

lemma greedy_parents:
  assumes "greedy n ch out" "i \<in> set out" "p < n" "i \<in> set (ch ! p)"
  shows "p \<in> set out"
proof -
  from assms(2) obtain k where k: "k < length out" "out ! k = i"
    by (auto simp: in_set_conv_nth)
  with assms(1) have "i \<in> set (free_steps n ch (take k out))"
    by (auto simp: greedy_def dest!: spec [of _ k])
  with assms(3,4) have "p \<in> set (take k out)"
    by (auto simp: free_steps_def)
  then show ?thesis by (rule in_set_takeD)
qed

lemma free_steps_pop:
  assumes "greedy n ch out" "free_steps n ch out = i # rest"
    "sorted r" "distinct r"
    "set r = set rest \<union> {j \<in> set (ch ! i). pending_degree n ch (out @ [i]) j = 0}"
    "\<forall>c \<in> set (ch ! i). c < n"
  shows "r = free_steps n ch (out @ [i])"
proof (rule sorted_distinct_set_unique)
  have i: "i < n" "i \<notin> set out" "pending_degree n ch out i = 0"
    using assms(2) free_steps_iff [of i n ch out] by auto
  have rest: "j \<in> set rest \<longleftrightarrow> j < n \<and> j \<notin> set out \<and> j \<noteq> i \<and> pending_degree n ch out j = 0" for j
    using assms(2) free_steps_iff [of j n ch out] free_steps_sorted(2) [of n ch out] by auto
  have pop: "pending_degree n ch out j = int (count_list (ch ! i) j) + pending_degree n ch (out @ [i]) j" for j
    using i by (intro pending_degree_pop)
  have child: "j \<notin> set (out @ [i])" if "j \<in> set (ch ! i)" for j
    using that i greedy_parents [OF assms(1), of j i] by (auto simp: pending_degree_zero)
  have new: "j \<in> set (ch ! i) \<or> pending_degree n ch out j = 0"
    if "pending_degree n ch (out @ [i]) j = 0" for j
    using that pop [of j] by (auto simp: count_list_0_iff)
  have old: "pending_degree n ch (out @ [i]) j = 0" if "pending_degree n ch out j = 0" for j
    using that pop [of j] pending_degree_nonneg [of n ch "out @ [i]" j] by linarith
  show "set r = set (free_steps n ch (out @ [i]))"
    using assms(5,6) rest child old by (auto simp: free_steps_iff dest: new)
qed (use assms free_steps_sorted in auto)

lemma topological_loop_spec:
  assumes "n = length ch" "\<forall>p < n. \<forall>c \<in> set (ch ! p). c < n"
    "length ds = n" "\<forall>i < n. ds ! i = pending_degree n ch out i"
    "ready = free_steps n ch out" "greedy n ch out"
  shows "\<exists>ds' order. topological_loop ch ds ready out = Inr (ds', order) \<and>
    greedy n ch order \<and> free_steps n ch order = []"
  using assms
proof (induction ch ds ready out rule: topological_loop.induct)
  case (2 ch ds i ready out)
  from 2(6) free_steps_iff [of i n ch out]
  have i: "i < n" "i \<notin> set out" by (auto dest: sym)
  have pop: "pending_degree n ch out j = int (count_list (ch ! i) j) + pending_degree n ch (out @ [i]) j" for j
    using i by (intro pending_degree_pop)
  have ready: "sorted ready" "distinct ready" "\<forall>j \<in> set ready. j < n \<and> pending_degree n ch out j = 0"
    using 2(6) free_steps_sorted [of n ch out] free_steps_iff [of _ n ch out]
    by (auto simp flip: 2(6))
  have cs: "\<forall>c \<in> set (ch ! i). c < n" using 2(3) i by blast
  have "\<exists>ds' r. relax_children (ch ! i) ds ready = Inr (ds', r) \<and> length ds' = length ds \<and>
    (\<forall>j < length ds. ds' ! j = ds ! j - int (count_list (ch ! i) j)) \<and> sorted r \<and> distinct r \<and>
    set r = set ready \<union> {j \<in> set (ch ! i). ds' ! j = 0}"
    using cs ready 2(4,5) pop pending_degree_nonneg [of n ch "out @ [i]"]
    by (intro relax_children_spec) auto
  then obtain ds' r where r: "relax_children (ch ! i) ds ready = Inr (ds', r)" "length ds' = n"
    "\<forall>j < n. ds' ! j = pending_degree n ch (out @ [i]) j" "sorted r" "distinct r"
    "set r = set ready \<union> {j \<in> set (ch ! i). ds' ! j = 0}"
    using 2(4,5) pop by auto
  have free: "r = free_steps n ch (out @ [i])"
    using 2(7) 2(6) [symmetric] r cs by (intro free_steps_pop) auto
  from i 2(2) have lt: "\<not> length ch \<le> i" by simp
  have "\<exists>ds'' order. topological_loop ch ds' r (out @ [i]) = Inr (ds'', order) \<and>
    greedy n ch order \<and> free_steps n ch order = []"
    using 2(1) [OF lt r(1), of ds' r] 2(2,3) r free greedy_snoc [OF 2(7) 2(6) [symmetric]]
    by auto
  then show ?case using lt r(1) by simp
qed (auto dest: sym)

subsection \<open>What the scan of the metadata computes\<close>

lemma index_step_ids_spec:
  assumes "index_step_ids k steps m = Inr by_id"
  shows "by_id x = Some i \<longleftrightarrow>
    m x = Some i \<or> (k \<le> i \<and> i < k + length steps \<and> sd_step_id (steps ! (i - k)) = Some x)"
  using assms
proof (induction steps arbitrary: k m)
  case (Cons s ss)
  then obtain sid where sid: "sd_step_id s = Some sid" "m sid = None"
    "index_step_ids (Suc k) ss (m(sid := Some k)) = Inr by_id"
    by (auto split: option.splits if_splits)
  have nth: "(s # ss) ! (i - k) = ss ! (i - Suc k)" if "Suc k \<le> i"
    using that by (simp add: nth_Cons' Suc_diff_le)
  show ?case
  proof (cases "i = k")
    case True
    with Cons.IH [OF sid(3)] sid(1,2) show ?thesis by (auto split: if_splits)
  next
    case False
    with Cons.IH [OF sid(3)] sid(1,2) nth show ?thesis by (auto split: if_splits)
  qed
qed auto

lemma scan_dependencies_spec:
  assumes "scan_dependencies by_id own k deps ds ch = Inr (ds', ch')"
    "k < n" "length ds = n" "length ch = n" "\<And>d p. by_id d = Some p \<Longrightarrow> p < n"
  shows "length ds' = n \<and> length ch' = n \<and> (\<forall>d \<in> set deps. \<exists>p. by_id d = Some p) \<and>
    (\<forall>j < n. ds' ! j = ds ! j + (if j = k then int (length deps) else 0)) \<and>
    (\<forall>p < n. \<forall>j. count_list (ch' ! p) j =
       count_list (ch ! p) j + (if j = k then length (filter (\<lambda>d. by_id d = Some p) deps) else 0))"
  using assms
proof (induction deps arbitrary: ds ch)
  case (Cons d deps)
  then obtain p where p: "by_id d = Some p" "p < n"
    and rest: "scan_dependencies by_id own k deps (ds[k := ds ! k + 1])
      (ch[p := ch ! p @ [k]]) = Inr (ds', ch')"
    by (auto split: if_splits option.splits)
  from Cons.IH [OF rest] Cons.prems(2-5) p show ?case
    by (auto simp: nth_list_update)
qed auto

lemma scan_steps_spec:
  assumes "scan_steps by_id k ss ds ch = Inr (ds', ch')"
    "k + length ss \<le> n" "length ds = n" "length ch = n" "\<And>d p. by_id d = Some p \<Longrightarrow> p < n"
  shows "length ds' = n \<and> length ch' = n \<and>
    (\<forall>i < length ss. \<forall>d \<in> set (sd_depends_on (ss ! i)). \<exists>p. by_id d = Some p) \<and>
    (\<forall>j < n. ds' ! j = ds ! j +
       (if k \<le> j \<and> j < k + length ss then int (length (sd_depends_on (ss ! (j - k)))) else 0)) \<and>
    (\<forall>p < n. \<forall>j. count_list (ch' ! p) j = count_list (ch ! p) j +
       (if k \<le> j \<and> j < k + length ss
        then length (filter (\<lambda>d. by_id d = Some p) (sd_depends_on (ss ! (j - k)))) else 0))"
  using assms
proof (induction ss arbitrary: k ds ch)
  case (Cons s ss)
  obtain ds1 ch1 where one: "scan_dependencies by_id (sd_step_id s) k (sd_depends_on s) ds ch = Inr (ds1, ch1)"
    and rest: "scan_steps by_id (Suc k) ss ds1 ch1 = Inr (ds', ch')"
    using Cons.prems(1) by (auto split: if_splits sum.splits)
  have k: "k < n" using Cons.prems(2) by simp
  note first = scan_dependencies_spec [OF one k Cons.prems(3,4,5)]
  then have "length ds1 = n" "length ch1 = n" by auto
  from Cons.IH [OF rest _ this Cons.prems(5)] Cons.prems(2)
  have IH: "length ds' = n \<and> length ch' = n \<and>
    (\<forall>i < length ss. \<forall>d \<in> set (sd_depends_on (ss ! i)). \<exists>p. by_id d = Some p) \<and>
    (\<forall>j < n. ds' ! j = ds1 ! j +
       (if Suc k \<le> j \<and> j < Suc k + length ss then int (length (sd_depends_on (ss ! (j - Suc k)))) else 0)) \<and>
    (\<forall>p < n. \<forall>j. count_list (ch' ! p) j = count_list (ch1 ! p) j +
       (if Suc k \<le> j \<and> j < Suc k + length ss
        then length (filter (\<lambda>d. by_id d = Some p) (sd_depends_on (ss ! (j - Suc k)))) else 0))"
    by simp
  have nth: "(s # ss) ! (j - k) = (if j = k then s else ss ! (j - Suc k))" if "k \<le> j" for j
    using that by (auto simp: nth_Cons' Suc_diff_le)
  have "\<exists>p. by_id d = Some p" if "i < length (s # ss)" "d \<in> set (sd_depends_on ((s # ss) ! i))" for i d
    using that first IH by (cases i) auto
  moreover have "ds' ! j = ds ! j + (if k \<le> j \<and> j < k + length (s # ss)
      then int (length (sd_depends_on ((s # ss) ! (j - k)))) else 0)" if "j < n" for j
    using that first IH nth [of j] by (auto simp: not_less_eq_eq)
  moreover have "count_list (ch' ! p) j = count_list (ch ! p) j + (if k \<le> j \<and> j < k + length (s # ss)
      then length (filter (\<lambda>d. by_id d = Some p) (sd_depends_on ((s # ss) ! (j - k)))) else 0)"
    if "p < n" for p j
    using that first IH nth [of j] by (auto simp: not_less_eq_eq)
  ultimately show ?case using IH by blast
qed auto

lemma sum_filter_images:
  fixes n :: nat
  assumes "\<forall>d \<in> set ds. \<exists>p < n. f d = Some p"
  shows "(\<Sum>p < n. int (length (filter (\<lambda>d. f d = Some p) ds))) = int (length ds)"
  using assms
proof (induction ds)
  case (Cons d ds)
  then obtain p where p: "p < n" "f d = Some p" by auto
  have "(\<Sum>q < n. int (length (filter (\<lambda>d. f d = Some q) (d # ds)))) =
    (\<Sum>q < n. (if q = p then 1 else 0) + int (length (filter (\<lambda>d. f d = Some q) ds)))"
    using p by (intro sum.cong) auto
  moreover have "(\<Sum>q < n. if q = p then 1 else 0 :: int) = 1"
    using p sum.delta [of "{..<n}" p "\<lambda>_. 1 :: int"] by simp
  ultimately show ?case using Cons p by (simp add: sum.distrib)
qed simp

subsection \<open>Correctness of the topological order\<close>

text \<open>
  The specification. Step \<open>i\<close> of a definition depends on step \<open>p\<close> when it names the
  \<open>step_id\<close> of \<open>p\<close>; an order is topological when it lists every step once, each after all the
  steps it depends on.
\<close>

definition step_depends :: "workflow_definition \<Rightarrow> nat \<Rightarrow> nat \<Rightarrow> bool" where
  "step_depends d i p \<longleftrightarrow> i < length (wd_steps d) \<and> p < length (wd_steps d) \<and>
     (case sd_step_id (wd_steps d ! p) of None \<Rightarrow> False
      | Some sid \<Rightarrow> sid \<in> set (sd_depends_on (wd_steps d ! i)))"

definition topological :: "workflow_definition \<Rightarrow> nat list \<Rightarrow> bool" where
  "topological d order \<longleftrightarrow> distinct order \<and> set order = {..<length (wd_steps d)} \<and>
     (\<forall>k < length order. \<forall>p < length (wd_steps d).
        step_depends d (order ! k) p \<longrightarrow> p \<in> set (take k order))"

definition ready_steps :: "workflow_definition \<Rightarrow> nat list \<Rightarrow> nat list" where
  "ready_steps d out = filter (\<lambda>i. i \<notin> set out \<and>
     (\<forall>p \<in> {..<length (wd_steps d)}. step_depends d i p \<longrightarrow> p \<in> set out)) [0..<length (wd_steps d)]"

lemma scanned_graph:
  assumes ids: "index_step_ids 0 (wd_steps d) (\<lambda>_. None) = Inr by_id"
    and scan: "scan_steps by_id 0 (wd_steps d) (replicate n 0) (replicate n []) = Inr (ds, ch)"
    and n: "n = length (wd_steps d)"
  shows "length ds = n" "length ch = n" "\<forall>i < n. ds ! i = pending_degree n ch [] i"
    "\<And>i p. p < n \<Longrightarrow> i \<in> set (ch ! p) \<longleftrightarrow> step_depends d i p"
proof -
  have by_id: "by_id x = Some i \<longleftrightarrow> i < n \<and> sd_step_id (wd_steps d ! i) = Some x" for x i
    using index_step_ids_spec [OF ids] n by auto
  have spec: "length ds = n \<and> length ch = n \<and>
    (\<forall>i < n. \<forall>x \<in> set (sd_depends_on (wd_steps d ! i)). \<exists>p. by_id x = Some p) \<and>
    (\<forall>j < n. ds ! j = int (length (sd_depends_on (wd_steps d ! j)))) \<and>
    (\<forall>p < n. \<forall>j. count_list (ch ! p) j =
       (if j < n then length (filter (\<lambda>x. by_id x = Some p) (sd_depends_on (wd_steps d ! j))) else 0))"
    using scan_steps_spec [OF scan, of n] by_id n by auto
  then show "length ds = n" "length ch = n" by auto
  show "\<forall>i < n. ds ! i = pending_degree n ch [] i"
    using spec by_id sum_filter_images [of _ n by_id] by (auto simp: pending_degree_def)
  show "i \<in> set (ch ! p) \<longleftrightarrow> step_depends d i p" if "p < n" for i p
  proof -
    have "i \<in> set (ch ! p) \<longleftrightarrow> i < n \<and> (\<exists>x \<in> set (sd_depends_on (wd_steps d ! i)). by_id x = Some p)"
      using spec that count_list_0_iff [of "ch ! p" i]
      by (auto simp: filter_empty_conv split: if_splits)
    with by_id that n show ?thesis by (auto simp: step_depends_def split: option.splits)
  qed
qed

lemma scanned_free_steps:
  assumes "index_step_ids 0 (wd_steps d) (\<lambda>_. None) = Inr by_id"
    "scan_steps by_id 0 (wd_steps d) (replicate n 0) (replicate n []) = Inr (ds, ch)"
    "n = length (wd_steps d)"
  shows "free_steps n ch out = ready_steps d out"
  unfolding free_steps_def ready_steps_def
  using scanned_graph(4) [OF assms] assms(3) by (intro filter_cong) auto

text \<open>The outcome in DAG mode, once the metadata scan has passed: the loop ends without an
  indexing error, in a greedy order after which no step is ready.\<close>

lemma scanned_order:
  assumes "index_step_ids 0 (wd_steps d) (\<lambda>_. None) = Inr by_id"
    "scan_steps by_id 0 (wd_steps d) (replicate n 0) (replicate n []) = Inr (ds, ch)"
    "n = length (wd_steps d)"
  shows "\<exists>ds' order. topological_loop ch ds (filter (\<lambda>i. ds ! i = 0) [0..<n]) [] = Inr (ds', order) \<and>
    (\<forall>k < length order. \<exists>rest. ready_steps d (take k order) = order ! k # rest) \<and>
    ready_steps d order = []"
proof -
  note g = scanned_graph [OF assms]
  have "filter (\<lambda>i. ds ! i = 0) [0..<n] = free_steps n ch []"
    unfolding free_steps_def using g(3)
    by (intro filter_cong) (auto simp: pending_degree_zero)
  moreover have "\<forall>p < n. \<forall>c \<in> set (ch ! p). c < n"
    using g(4) assms(3) by (auto simp: step_depends_def)
  ultimately show ?thesis
    using topological_loop_spec [of n ch ds "[]"] g(1-3)
    by (auto simp: greedy_def scanned_free_steps [OF assms])
qed

lemma ready_steps_iff:
  "i \<in> set (ready_steps d out) \<longleftrightarrow> i < length (wd_steps d) \<and> i \<notin> set out \<and>
     (\<forall>p < length (wd_steps d). step_depends d i p \<longrightarrow> p \<in> set out)"
  by (auto simp: ready_steps_def)

lemma greedy_order_facts:
  assumes "\<forall>k < length order. \<exists>rest. ready_steps d (take k order) = order ! k # rest"
  shows "distinct order" "set order \<subseteq> {..<length (wd_steps d)}"
    "k < length order \<Longrightarrow> p < length (wd_steps d) \<Longrightarrow> step_depends d (order ! k) p \<Longrightarrow> p \<in> set (take k order)"
proof -
  have ready: "order ! k \<in> set (ready_steps d (take k order))" if "k < length order" for k
    using assms that by (auto dest!: spec [of _ k])
  then show "set order \<subseteq> {..<length (wd_steps d)}"
    by (auto simp: in_set_conv_nth [of _ order] ready_steps_iff)
  show "distinct order"
    unfolding distinct_conv_nth
  proof (intro allI impI)
    have later: "order ! i \<noteq> order ! j" if "i < j" "j < length order" for i j
      using ready [of j] that by (auto simp: ready_steps_iff in_set_conv_nth [of _ "take j order"])
    fix i j assume "i < length order" "j < length order" "i \<noteq> j"
    then show "order ! i \<noteq> order ! j"
      using later [of i j] later [of j i] by (cases "i < j") auto
  qed
  show "p \<in> set (take k order)"
    if "k < length order" "p < length (wd_steps d)" "step_depends d (order ! k) p"
    using ready [OF that(1)] that by (auto simp: ready_steps_iff)
qed

text \<open>No order can list a step of a set each of whose members waits for another of the set.\<close>

lemma stuck_no_topological:
  assumes "topological d order" "U \<subseteq> {..<length (wd_steps d)}" "U \<noteq> {}"
    "\<forall>i \<in> U. \<exists>p \<in> U. step_depends d i p"
  shows False
proof -
  define k where "k = (LEAST k. k < length order \<and> order ! k \<in> U)"
  have ex: "\<exists>k < length order. order ! k \<in> U"
  proof -
    from assms(2,3) obtain u where "u \<in> U" "u < length (wd_steps d)" by auto
    with assms(1) have "u \<in> set order" by (simp add: topological_def)
    with \<open>u \<in> U\<close> show ?thesis by (auto simp: in_set_conv_nth)
  qed
  then have k: "k < length order \<and> order ! k \<in> U"
    unfolding k_def by (rule LeastI_ex)
  with assms(4) obtain p where p: "p \<in> U" "step_depends d (order ! k) p" by blast
  with assms(1,2) k have "p \<in> set (take k order)" by (auto simp: topological_def)
  then obtain j where "j < k" "j < length order" "order ! j = p"
    by (auto simp: in_set_conv_nth)
  with p(1) not_less_Least [of j "\<lambda>k. k < length order \<and> order ! k \<in> U"] show False
    by (simp add: k_def)
qed

lemma topological_order_ok:
  assumes "workflow_topological_order d = Inr order"
  shows "topological d order"
proof (cases "wd_execution_mode d = ''sequential''")
  case True
  with assms have "order = [0..<length (wd_steps d)]"
    "list_all (\<lambda>s. sd_depends_on s = []) (wd_steps d)"
    by (auto simp: workflow_topological_order_def Let_def list_ex_iff list_all_iff split: if_splits)
  then show ?thesis
    by (auto simp: topological_def step_depends_def list_all_length split: option.splits)
next
  case False
  let ?n = "length (wd_steps d)"
  from assms False obtain by_id ds ch ds' where
    scan: "index_step_ids 0 (wd_steps d) (\<lambda>_. None) = Inr by_id"
      "scan_steps by_id 0 (wd_steps d) (replicate ?n 0) (replicate ?n []) = Inr (ds, ch)"
    and loop: "topological_loop ch ds (filter (\<lambda>i. ds ! i = 0) [0..<?n]) [] = Inr (ds', order)"
    and len: "length order = ?n"
    by (auto simp: workflow_topological_order_def Let_def split: if_splits sum.splits)
  have greedy: "\<forall>k < length order. \<exists>rest. ready_steps d (take k order) = order ! k # rest"
    using scanned_order [OF scan refl] loop by auto
  note facts = greedy_order_facts [OF greedy]
  have "set order = {..<?n}"
    using facts(1,2) len by (intro card_subset_eq) (auto simp: distinct_card)
  with facts show ?thesis by (simp add: topological_def)
qed

text \<open>C9. In whatever mode, an order \<open>workflow_topological_order\<close> returns lists every step of the
  definition exactly once and each step only after all the steps it depends on.\<close>

theorem topological_order_sound:
  "workflow_topological_order d = Inr order \<Longrightarrow> topological d order"
  by (rule topological_order_ok)

lemma topological_order_head:
  assumes "workflow_topological_order d = Inr order" "k < length order"
  shows "\<exists>rest. ready_steps d (take k order) = order ! k # rest"
proof (cases "wd_execution_mode d = ''sequential''")
  case True
  let ?n = "length (wd_steps d)"
  have seq: "order = [0..<?n]" and none: "\<forall>s \<in> set (wd_steps d). sd_depends_on s = []"
    using assms(1) True
    by (auto simp: workflow_topological_order_def Let_def list_ex_iff split: if_splits)
  have k: "k < ?n" using assms(2) seq by simp
  have "ready_steps d (take k order) = filter (\<lambda>i. k \<le> i) [0..<?n]"
    unfolding ready_steps_def using none k
    by (intro filter_cong) (auto simp: seq take_upt step_depends_def split: option.splits)
  also have "[0..<?n] = [0..<k] @ k # [Suc k..<?n]"
    using k upt_conv_Cons [of k ?n] upt_add_eq_append [of 0 k "?n - k"] by simp
  finally show ?thesis using k seq by (auto simp: filter_empty_conv)
next
  case False
  let ?n = "length (wd_steps d)"
  from assms(1) False obtain by_id ds ch ds' where
    scan: "index_step_ids 0 (wd_steps d) (\<lambda>_. None) = Inr by_id"
      "scan_steps by_id 0 (wd_steps d) (replicate ?n 0) (replicate ?n []) = Inr (ds, ch)"
    and loop: "topological_loop ch ds (filter (\<lambda>i. ds ! i = 0) [0..<?n]) [] = Inr (ds', order)"
    by (auto simp: workflow_topological_order_def Let_def split: if_splits sum.splits)
  with scanned_order [OF scan refl] assms(2) show ?thesis by auto
qed

lemma ready_steps_sorted: "sorted (ready_steps d out)"
  by (simp add: ready_steps_def sorted_wrt_filter)

text \<open>The order is stable: at every position stands the least step that is not listed before
  and all of whose dependencies are.\<close>

theorem topological_order_stable:
  assumes "workflow_topological_order d = Inr order" "k < length order"
  shows "order ! k \<in> set (ready_steps d (take k order)) \<and>
    order ! k = Min (set (ready_steps d (take k order)))"
proof -
  from topological_order_head [OF assms] obtain rest
    where rest: "ready_steps d (take k order) = order ! k # rest" by blast
  moreover have "\<forall>i \<in> set rest. order ! k \<le> i"
    using ready_steps_sorted [of d "take k order"] rest by simp
  ultimately show ?thesis by (auto intro: Min_eqI [symmetric])
qed

subsection \<open>Which definitions are accepted\<close>

definition dag_metadata_ok :: "workflow_definition \<Rightarrow> bool" where
  "dag_metadata_ok d \<longleftrightarrow>
     wd_steps d \<noteq> [] \<and> length (wd_steps d) \<le> 100 \<and>
     1 \<le> wd_max_parallel_steps d \<and> wd_max_parallel_steps d \<le> 16 \<and>
     (\<exists>t. wd_total_timeout_sec d = Some t \<and> 0 < t \<and> t \<le> 86400) \<and>
     (\<forall>s \<in> set (wd_steps d). \<exists>sid. sd_step_id s = Some sid \<and> step_id_re sid) \<and>
     distinct (map sd_step_id (wd_steps d)) \<and>
     (\<forall>s \<in> set (wd_steps d). length (sd_depends_on s) \<le> 99 \<and> distinct (sd_depends_on s) \<and>
        (\<forall>dep \<in> set (sd_depends_on s). sd_step_id s \<noteq> Some dep \<and>
           Some dep \<in> set (map sd_step_id (wd_steps d))))"

lemma index_step_ids_ok:
  "(\<exists>b. index_step_ids k ss m = Inr b) \<longleftrightarrow>
     (\<forall>s \<in> set ss. \<exists>sid. sd_step_id s = Some sid \<and> step_id_re sid \<and> m sid = None) \<and>
     distinct (map sd_step_id ss)"
proof (induction ss arbitrary: k m)
  case (Cons s ss)
  show ?case
  proof (cases "sd_step_id s")
    case None
    then show ?thesis by auto
  next
    case (Some sid)
    have "(\<exists>b. index_step_ids k (s # ss) m = Inr b) \<longleftrightarrow> step_id_re sid \<and> m sid = None \<and>
        (\<exists>b. index_step_ids (Suc k) ss (m(sid := Some k)) = Inr b)"
      using Some by auto
    also have "\<dots> \<longleftrightarrow> (\<forall>s \<in> set (s # ss). \<exists>sid. sd_step_id s = Some sid \<and> step_id_re sid \<and> m sid = None) \<and>
        distinct (map sd_step_id (s # ss))"
      unfolding Cons.IH using Some by (auto simp: image_iff split: if_splits) (metis option.inject)
    finally show ?thesis .
  qed
qed simp

lemma scan_dependencies_ok:
  "(\<exists>r. scan_dependencies by_id own k deps ds ch = Inr r) \<longleftrightarrow>
     (\<forall>dep \<in> set deps. own \<noteq> Some dep \<and> by_id dep \<noteq> None)"
  by (induction deps arbitrary: ds ch) (auto split: option.splits)

lemma scan_steps_ok:
  "(\<exists>r. scan_steps by_id k ss ds ch = Inr r) \<longleftrightarrow>
     (\<forall>s \<in> set ss. length (sd_depends_on s) \<le> 99 \<and> distinct (sd_depends_on s) \<and>
        (\<forall>dep \<in> set (sd_depends_on s). sd_step_id s \<noteq> Some dep \<and> by_id dep \<noteq> None))"
proof (induction ss arbitrary: k ds ch)
  case (Cons s ss)
  have dist: "length (remdups xs) = length xs \<longleftrightarrow> distinct xs" for xs :: "string list"
    by (metis distinct_remdups distinct_remdups_id length_remdups_eq)
  show ?case
  proof (cases "scan_dependencies by_id (sd_step_id s) k (sd_depends_on s) ds ch")
    case (Inl e)
    then have "\<not> (\<forall>dep \<in> set (sd_depends_on s). sd_step_id s \<noteq> Some dep \<and> by_id dep \<noteq> None)"
      using scan_dependencies_ok [of by_id "sd_step_id s" k "sd_depends_on s" ds ch] by auto
    with Inl show ?thesis by auto
  next
    case (Inr r)
    then have "\<forall>dep \<in> set (sd_depends_on s). sd_step_id s \<noteq> Some dep \<and> by_id dep \<noteq> None"
      using scan_dependencies_ok [of by_id "sd_step_id s" k "sd_depends_on s" ds ch] by auto
    with Inr Cons.IH dist show ?thesis by (cases r) auto
  qed
qed simp

lemma topological_exhausts:
  assumes greedy: "\<forall>k < length order. \<exists>rest. ready_steps d (take k order) = order ! k # rest"
    and stop: "ready_steps d order = []" and topo: "topological d other"
  shows "length order = length (wd_steps d)"
proof (rule ccontr)
  let ?n = "length (wd_steps d)"
  let ?U = "{..<?n} - set order"
  assume "length order \<noteq> ?n"
  moreover have "card (set order) = length order"
    using greedy_order_facts(1) [OF greedy] by (rule distinct_card)
  moreover have "set order = {..<?n}" if "?U = {}"
    using that greedy_order_facts(2) [OF greedy] by auto
  ultimately have "?U \<noteq> {}" by auto
  moreover have "\<exists>p \<in> ?U. step_depends d i p" if "i \<in> ?U" for i
  proof -
    have "i \<notin> set (ready_steps d order)" using stop by simp
    with that show ?thesis by (auto simp: ready_steps_iff)
  qed
  ultimately show False
    using stuck_no_topological [OF topo, of ?U] by auto
qed

lemma known_step_ids:
  assumes "index_step_ids 0 (wd_steps d) (\<lambda>_. None) = Inr by_id"
  shows "by_id dep \<noteq> None \<longleftrightarrow> Some dep \<in> set (map sd_step_id (wd_steps d))"
  using index_step_ids_spec [OF assms, of dep]
  by (force simp: in_set_conv_nth image_iff)

lemma accepted_metadata:
  assumes "wd_execution_mode d = ''dag''" "workflow_topological_order d = Inr order"
  shows "dag_metadata_ok d"
proof -
  let ?n = "length (wd_steps d)"
  obtain by_id r where by_id: "index_step_ids 0 (wd_steps d) (\<lambda>_. None) = Inr by_id"
    and scan: "scan_steps by_id 0 (wd_steps d) (replicate ?n 0) (replicate ?n []) = Inr r"
    using assms by (auto simp: workflow_topological_order_def Let_def split: if_splits sum.splits)
  have "\<exists>b. index_step_ids 0 (wd_steps d) (\<lambda>_. None) = Inr b"
    "\<exists>r. scan_steps by_id 0 (wd_steps d) (replicate ?n 0) (replicate ?n []) = Inr r"
    using by_id scan by blast+
  moreover have "\<exists>t. wd_total_timeout_sec d = Some t \<and> 0 < t \<and> t \<le> 86400"
    using assms by (auto simp: workflow_topological_order_def Let_def split: if_splits option.splits)
  ultimately show ?thesis
    using assms unfolding index_step_ids_ok scan_steps_ok known_step_ids [OF by_id]
    by (auto simp: dag_metadata_ok_def workflow_topological_order_def Let_def split: if_splits)
qed

lemma acyclic_accepted:
  assumes mode: "wd_execution_mode d = ''dag''" and meta: "dag_metadata_ok d" and topo: "topological d other"
  shows "\<exists>order. workflow_topological_order d = Inr order"
proof -
  let ?n = "length (wd_steps d)"
  have "\<exists>b. index_step_ids 0 (wd_steps d) (\<lambda>_. None) = Inr b"
    using meta by (simp add: index_step_ids_ok dag_metadata_ok_def)
  then obtain by_id where by_id: "index_step_ids 0 (wd_steps d) (\<lambda>_. None) = Inr by_id" by blast
  have "\<exists>r. scan_steps by_id 0 (wd_steps d) (replicate ?n 0) (replicate ?n []) = Inr r"
    using meta unfolding scan_steps_ok known_step_ids [OF by_id] by (simp add: dag_metadata_ok_def)
  then obtain ds ch where scan: "scan_steps by_id 0 (wd_steps d) (replicate ?n 0) (replicate ?n []) = Inr (ds, ch)"
    by auto
  from scanned_order [OF by_id scan refl] obtain ds' order where
    "topological_loop ch ds (filter (\<lambda>i. ds ! i = 0) [0..<?n]) [] = Inr (ds', order)"
    "length order = ?n"
    using topological_exhausts [OF _ _ topo] by blast
  with meta mode by_id scan show ?thesis
    by (auto simp: workflow_topological_order_def dag_metadata_ok_def Let_def)
qed

text \<open>C10. In DAG mode a definition is accepted exactly when its metadata is well formed and its
  dependency graph has a topological order; so the only graphs refused as cyclic are cyclic ones,
  and no well-formed definition ends in an indexing error.\<close>

theorem topological_order_complete:
  assumes "wd_execution_mode d = ''dag''"
  shows "(\<exists>order. workflow_topological_order d = Inr order) \<longleftrightarrow>
    dag_metadata_ok d \<and> (\<exists>order. topological d order)"
proof -
  have "topological d order" if "workflow_topological_order d = Inr order" for order
    using that by (rule topological_order_ok)
  with accepted_metadata [OF assms] acyclic_accepted [OF assms] show ?thesis by blast
qed

subsection \<open>Lifecycle guards\<close>

definition operation_moves :: "operation_state \<Rightarrow> operation_state \<Rightarrow> bool" where
  "operation_moves a b \<longleftrightarrow> validate_operation_transition a b = Inr ()"

lemma operation_moves_iff [simp]: "operation_moves a b \<longleftrightarrow> b \<in> set (operation_transitions a)"
  by (simp add: operation_moves_def validate_operation_transition_def require_transition_def)

text \<open>The transition guards allow no blind replay: from \<open>uncertain\<close>, a chain of transitions
  that never leaves \<open>failed\<close> (the conclusive answer that the effect did not happen) reaches
  neither \<open>created\<close> nor \<open>running\<close> nor \<open>waiting\<close>; and no transition leaves a settled
  operation.\<close>

theorem no_blind_replay:
  assumes "(\<lambda>a b. operation_moves a b \<and> a \<noteq> OFailed)\<^sup>*\<^sup>* OUncertain s"
  shows "s \<notin> {OCreated, ORunning, OWaiting} \<and>
    (\<forall>a \<in> {OSucceeded, OAcknowledged, OUnresolvable, OCancelled}. \<forall>b. \<not> operation_moves a b)"
proof -
  from assms have "s \<notin> {OCreated, ORunning, OWaiting}"
  proof (induction rule: rtranclp_induct)
    case (step a b)
    then show ?case by (cases a) auto
  qed simp
  then show ?thesis by auto
qed

subsection \<open>Worked examples\<close>

text \<open>A diamond of four steps, listed out of order, and what the theorems say of it.\<close>

definition example_step :: "string \<Rightarrow> string list \<Rightarrow> step_definition" where
  "example_step sid deps = \<lparr>sd_name = sid, sd_action = ''check_file'', sd_arguments = JObj [],
     sd_timeout_sec = 300, sd_max_retries = 0, sd_postcondition = None, sd_execution_intent = None,
     sd_step_id = Some sid, sd_depends_on = deps\<rparr>"

definition example_dag :: workflow_definition where
  "example_dag = \<lparr>wd_name = ''w'', wd_steps =
     [example_step ''d'' [''b'', ''c''], example_step ''c'' [''a''], example_step ''a'' [],
      example_step ''b'' [''a'']],
     wd_description = [], wd_execution_mode = ''dag'', wd_max_parallel_steps = 2,
     wd_total_timeout_sec = Some 7200\<rparr>"

lemma example_dag_order: "workflow_topological_order example_dag = Inr [2, 1, 3, 0]"
  by code_simp

theorem topological_order_sound_witness:
  "workflow_topological_order example_dag = Inr [2, 1, 3, 0] \<and> topological example_dag [2, 1, 3, 0]"
  using example_dag_order topological_order_sound [OF example_dag_order] by blast

theorem topological_order_stable_witness:
  "workflow_topological_order example_dag = Inr [2, 1, 3, 0] \<and>
   1 = Min (set (ready_steps example_dag [2]))"
  using example_dag_order topological_order_stable [OF example_dag_order, of 1] by simp

theorem topological_order_complete_witness:
  "wd_execution_mode example_dag = ''dag'' \<and> dag_metadata_ok example_dag \<and>
   (\<exists>order. topological example_dag order)"
  using topological_order_complete [of example_dag] example_dag_order
  by (auto simp: example_dag_def)

theorem no_blind_replay_witness:
  "(\<lambda>a b. operation_moves a b \<and> a \<noteq> OFailed)\<^sup>*\<^sup>* OUncertain OReconciling \<and> \<not> operation_moves OSucceeded ORunning"
proof -
  have "(\<lambda>a b. operation_moves a b \<and> a \<noteq> OFailed)\<^sup>*\<^sup>* OUncertain OReconciling"
    by (rule r_into_rtranclp) simp
  with no_blind_replay [OF this] show ?thesis by blast
qed

end
