(* ===== verification/Resource_Claims.thy ===== *)
theory Resource_Claims
  imports Prelude
begin

text \<open>
  \<open>core/resource_claims.py\<close>: what a resource claim is, when two claims overlap and conflict, and
  when the claim of a parent covers that of a nested action. Paths are compared with the
  standard library's \<open>posixpath\<close> (\<open>normcase\<close> is the identity there), whose \<open>normpath\<close> and
  \<open>commonpath\<close> are modelled as they are written. The specification is in terms of the set of
  locations a claim stands for.
\<close>

subsection \<open>Paths (posixpath)\<close>

fun norm_components :: "bool \<Rightarrow> string list \<Rightarrow> string list \<Rightarrow> string list" where
  "norm_components rooted [] new_comps = new_comps"
| "norm_components rooted (part # parts) new_comps =
     (if part = [] \<or> part = ''.'' then norm_components rooted parts new_comps
      else if part \<noteq> ''..'' \<or> (\<not> rooted \<and> new_comps = []) \<or>
              (new_comps \<noteq> [] \<and> last new_comps = ''..'')
      then norm_components rooted parts (new_comps @ [part])
      else norm_components rooted parts (butlast new_comps))"

definition starts_with :: "string \<Rightarrow> string \<Rightarrow> bool" where
  "starts_with p s \<longleftrightarrow> take (length p) s = p"

definition posix_normpath :: "string \<Rightarrow> string" where
  "posix_normpath path =
     (if path = [] then ''.''
      else let slashes = (if \<not> starts_with ''/'' path then 0
                          else if starts_with ''//'' path \<and> \<not> starts_with ''///'' path then 2 else 1);
               comps = norm_components (0 < slashes) (split_on CHR ''/'' path) [];
               result = replicate slashes CHR ''/'' @ join_with ''/'' comps
           in if result = [] then ''.'' else result)"

fun common_prefix :: "string list \<Rightarrow> string list \<Rightarrow> string list" where
  "common_prefix (x # xs) (y # ys) = (if x = y then x # common_prefix xs ys else [])"
| "common_prefix _ _ = []"

definition path_components :: "string \<Rightarrow> string list" where
  "path_components path = filter (\<lambda>c. c \<noteq> [] \<and> c \<noteq> ''.'') (split_on CHR ''/'' path)"

definition posix_commonpath :: "string \<Rightarrow> string \<Rightarrow> string res" where
  "posix_commonpath a b =
     (if starts_with ''/'' a \<noteq> starts_with ''/'' b then Inl ValueError
      else Inr ((if starts_with ''/'' a then ''/'' else []) @
                join_with ''/'' (common_prefix (path_components a) (path_components b))))"

subsection \<open>Claims\<close>

datatype claim_mode = Read | Write
datatype claim_scope = Exact | Subtree

fun mode_text :: "claim_mode \<Rightarrow> string" where
  "mode_text Read = ''read''"
| "mode_text Write = ''write''"

fun scope_text :: "claim_scope \<Rightarrow> string" where
  "scope_text Exact = ''exact''"
| "scope_text Subtree = ''subtree''"

record resource_claim =
  rc_kind :: string
  rc_key :: string
  rc_mode :: claim_mode
  rc_scope :: claim_scope

definition resource_claim_post_init :: "resource_claim \<Rightarrow> resource_claim res" where
  "resource_claim_post_init c =
     (if rc_kind c = [] \<or> 40 < length (rc_kind c) then Inl ValueError
      else if rc_key c = [] \<or> 4000 < length (rc_key c) then Inl ValueError
      else Inr c)"

definition coordination_claim :: "bool \<Rightarrow> resource_claim" where
  "coordination_claim exclusive =
     \<lparr>rc_kind = ''coordination'', rc_key = ''host'', rc_mode = (if exclusive then Write else Read),
      rc_scope = Exact\<rparr>"

definition path_overlap :: "resource_claim \<Rightarrow> resource_claim \<Rightarrow> bool" where
  "path_overlap first second =
     (let left = posix_normpath (rc_key first); right = posix_normpath (rc_key second) in
      if rc_scope first = Exact \<and> rc_scope second = Exact then left = right
      else case posix_commonpath left right of
        Inl _ \<Rightarrow> False
      | Inr common \<Rightarrow>
          if rc_scope first = Subtree \<and> rc_scope second = Subtree then common = left \<or> common = right
          else if rc_scope first = Subtree then common = left
          else if rc_scope second = Subtree then common = right
          else left = right)"

definition path_kind :: "string \<Rightarrow> bool" where
  "path_kind kind \<longleftrightarrow> kind \<in> {''fs'', ''git'', ''cache'', ''cwd''}"

definition key_parts :: "string \<Rightarrow> string list" where
  "key_parts key =
     filter (\<lambda>part. part \<noteq> []) (split_on CHR ''/'' (map (\<lambda>c. if c = CHR 0x5C then CHR ''/'' else c) key))"

definition claims_overlap :: "resource_claim \<Rightarrow> resource_claim \<Rightarrow> bool" where
  "claims_overlap first second =
     (if rc_kind first \<noteq> rc_kind second then False
      else if path_kind (rc_kind first) then path_overlap first second
      else if rc_scope first = Exact \<and> rc_scope second = Exact then rc_key first = rc_key second
      else let left = key_parts (rc_key first); right = key_parts (rc_key second) in
        if rc_scope first = Subtree \<and> rc_scope second = Subtree
        then (let shortest = min (length left) (length right) in take shortest left = take shortest right)
        else if rc_scope first = Subtree then take (length left) right = left
        else if rc_scope second = Subtree then take (length right) left = right
        else left = right)"

definition claims_conflict :: "resource_claim \<Rightarrow> resource_claim \<Rightarrow> bool" where
  "claims_conflict first second =
     (if \<not> claims_overlap first second then False
      else rc_mode first = Write \<or> rc_mode second = Write)"

definition claim_sets_conflict :: "resource_claim list \<Rightarrow> resource_claim list \<Rightarrow> bool" where
  "claim_sets_conflict first second \<longleftrightarrow>
     list_ex (\<lambda>left. list_ex (\<lambda>right. claims_conflict left right) second) first"

definition claim_sort_key :: "resource_claim \<Rightarrow> string \<times> string \<times> string \<times> string" where
  "claim_sort_key c = (rc_kind c, rc_key c, scope_text (rc_scope c), mode_text (rc_mode c))"

definition canonical_claims :: "resource_claim list \<Rightarrow> resource_claim list" where
  "canonical_claims claims = sort_key claim_sort_key (remdups claims)"

definition claim_covers :: "resource_claim \<Rightarrow> resource_claim \<Rightarrow> bool" where
  "claim_covers parent child =
     (if rc_kind parent \<noteq> rc_kind child then False
      else if rc_mode parent = Read \<and> rc_mode child = Write then False
      else if rc_scope parent = Exact then rc_scope child = Exact \<and> rc_key parent = rc_key child
      else if path_kind (rc_kind parent) then
        (let left = posix_normpath (rc_key parent); right = posix_normpath (rc_key child) in
         case posix_commonpath left right of Inl _ \<Rightarrow> False | Inr common \<Rightarrow> common = left)
      else let parent_parts = key_parts (rc_key parent); child_parts = key_parts (rc_key child)
        in take (length parent_parts) child_parts = parent_parts)"

subsection \<open>Canonical absolute paths\<close>

definition plain_part :: "string \<Rightarrow> bool" where
  "plain_part w \<longleftrightarrow> w \<noteq> [] \<and> CHR ''/'' \<notin> set w \<and> w \<noteq> ''.'' \<and> w \<noteq> ''..''"

definition abs_path :: "string list \<Rightarrow> string" where
  "abs_path ws = ''/'' @ join_with ''/'' ws"

definition canonical_key :: "string \<Rightarrow> bool" where
  "canonical_key k \<longleftrightarrow> list_all plain_part (path_components k) \<and> k = abs_path (path_components k)"

lemma starts_with_abs_path [simp]: "starts_with ''/'' (abs_path ws)"
  by (simp add: starts_with_def abs_path_def)

lemma join_with_plain_head:
  "list_all plain_part ws \<Longrightarrow> ws \<noteq> [] \<Longrightarrow> \<exists>c r. join_with ''/'' ws = c # r \<and> c \<noteq> CHR ''/''"
  by (cases "(''/'', ws)" rule: join_with.cases) (auto simp: plain_part_def neq_Nil_conv)

lemma split_on_abs_path:
  "list_all plain_part ws \<Longrightarrow>
   split_on CHR ''/'' (abs_path ws) = [] # (if ws = [] then [[]] else ws)"
  by (auto simp: abs_path_def split_on_join plain_part_def list_all_iff)

lemma path_components_abs_path [simp]:
  "list_all plain_part ws \<Longrightarrow> path_components (abs_path ws) = ws"
  by (simp add: path_components_def split_on_abs_path)
     (auto simp: plain_part_def list_all_iff filter_id_conv)

lemma norm_components_plain:
  "list_all plain_part ws \<Longrightarrow> norm_components r ws acc = acc @ ws"
  by (induction ws arbitrary: acc) (auto simp: plain_part_def)

lemma posix_normpath_abs_path [simp]:
  assumes "list_all plain_part ws"
  shows "posix_normpath (abs_path ws) = abs_path ws"
proof -
  have "\<not> starts_with ''//'' (abs_path ws)"
    using join_with_plain_head [OF assms]
    by (cases "ws = []") (auto simp: starts_with_def abs_path_def)
  moreover have "norm_components True (split_on CHR ''/'' (abs_path ws)) [] = ws"
    using assms by (simp add: split_on_abs_path norm_components_plain)
  ultimately show ?thesis
    by (simp add: posix_normpath_def Let_def) (simp add: abs_path_def)
qed

lemma posix_commonpath_abs_path [simp]:
  assumes "list_all plain_part vs" "list_all plain_part ws"
  shows "posix_commonpath (abs_path vs) (abs_path ws) = Inr (abs_path (common_prefix vs ws))"
  using assms by (simp add: posix_commonpath_def) (simp add: abs_path_def)

lemma abs_path_eq_iff:
  "list_all plain_part vs \<Longrightarrow> list_all plain_part ws \<Longrightarrow> abs_path vs = abs_path ws \<longleftrightarrow> vs = ws"
  by (metis path_components_abs_path)

lemma common_prefix_plain:
  "list_all plain_part vs \<Longrightarrow> list_all plain_part (common_prefix vs ws)"
  by (induction vs ws rule: common_prefix.induct) auto

lemma common_prefix_left: "common_prefix vs ws = vs \<longleftrightarrow> take (length vs) ws = vs"
  by (induction vs ws rule: common_prefix.induct) auto

lemma common_prefix_sym: "common_prefix vs ws = common_prefix ws vs"
  by (induction vs ws rule: common_prefix.induct) auto

lemma posix_commonpath_sym: "posix_commonpath a b = posix_commonpath b a"
  by (simp add: posix_commonpath_def common_prefix_sym)

lemma canonical_keyE:
  assumes "canonical_key k"
  obtains ws where "list_all plain_part ws" "k = abs_path ws" "path_components k = ws"
  using assms by (auto simp: canonical_key_def)

subsection \<open>What a claim stands for\<close>

text \<open>The locations of a claim: the one its key names, or all at or below it. For the path kinds
  a location is the list of components of an absolute path.\<close>

definition claim_parts :: "resource_claim \<Rightarrow> string list" where
  "claim_parts c = (if path_kind (rc_kind c) then path_components (rc_key c) else key_parts (rc_key c))"

definition in_claim :: "resource_claim \<Rightarrow> string list \<Rightarrow> bool" where
  "in_claim c loc \<longleftrightarrow> (case rc_scope c of Exact \<Rightarrow> loc = claim_parts c
     | Subtree \<Rightarrow> take (length (claim_parts c)) loc = claim_parts c)"

definition well_keyed :: "resource_claim \<Rightarrow> bool" where
  "well_keyed c \<longleftrightarrow> (path_kind (rc_kind c) \<longrightarrow> canonical_key (rc_key c))"

lemma take_comparable:
  assumes "take (length a) l = a" "take (length b) l = b"
  shows "take (length a) b = a \<or> take (length b) a = b"
  using assms by (metis min.absorb1 min.absorb2 nat_le_linear take_take)

lemma path_overlap_parts:
  assumes "canonical_key (rc_key a)" "canonical_key (rc_key b)"
  shows "path_overlap a b \<longleftrightarrow>
    (let l = path_components (rc_key a); r = path_components (rc_key b) in
     case (rc_scope a, rc_scope b) of
       (Exact, Exact) \<Rightarrow> l = r
     | (Subtree, Subtree) \<Rightarrow> take (length l) r = l \<or> take (length r) l = r
     | (Subtree, Exact) \<Rightarrow> take (length l) r = l
     | (Exact, Subtree) \<Rightarrow> take (length r) l = r)"
proof -
  obtain l where l: "list_all plain_part l" "rc_key a = abs_path l" "path_components (rc_key a) = l"
    using assms(1) by (rule canonical_keyE)
  obtain r where r: "list_all plain_part r" "rc_key b = abs_path r" "path_components (rc_key b) = r"
    using assms(2) by (rule canonical_keyE)
  have left: "abs_path (common_prefix l r) = abs_path l \<longleftrightarrow> take (length l) r = l"
    using l r by (simp add: abs_path_eq_iff common_prefix_plain common_prefix_left)
  have right: "abs_path (common_prefix l r) = abs_path r \<longleftrightarrow> take (length r) l = r"
    using l r by (simp add: abs_path_eq_iff common_prefix_plain common_prefix_left common_prefix_sym [of l r])
  show ?thesis
    using l r left right
    by (cases "rc_scope a"; cases "rc_scope b")
       (simp_all add: path_overlap_def abs_path_eq_iff)
qed

lemma in_claim_common:
  "(\<exists>loc. in_claim a loc \<and> in_claim b loc) \<longleftrightarrow>
    (let l = claim_parts a; r = claim_parts b in
     case (rc_scope a, rc_scope b) of
       (Exact, Exact) \<Rightarrow> l = r
     | (Subtree, Subtree) \<Rightarrow> take (length l) r = l \<or> take (length r) l = r
     | (Subtree, Exact) \<Rightarrow> take (length l) r = l
     | (Exact, Subtree) \<Rightarrow> take (length r) l = r)"
proof (cases "rc_scope a = Subtree \<and> rc_scope b = Subtree")
  case True
  have "take (length (claim_parts a)) (claim_parts b) = claim_parts a \<or>
    take (length (claim_parts b)) (claim_parts a) = claim_parts b"
    if "in_claim a loc" "in_claim b loc" for loc
    using that True take_comparable [of "claim_parts a" loc "claim_parts b"]
    by (simp add: in_claim_def)
  moreover have "in_claim a (claim_parts b) \<and> in_claim b (claim_parts b)"
    if "take (length (claim_parts a)) (claim_parts b) = claim_parts a"
    using that True by (simp add: in_claim_def)
  moreover have "in_claim a (claim_parts a) \<and> in_claim b (claim_parts a)"
    if "take (length (claim_parts b)) (claim_parts a) = claim_parts b"
    using that True by (simp add: in_claim_def)
  ultimately show ?thesis using True by (auto simp: Let_def)
next
  case False
  then show ?thesis
    by (cases "rc_scope a"; cases "rc_scope b") (auto simp: in_claim_def Let_def)
qed

lemma path_overlap_sym: "path_overlap a b = path_overlap b a"
  by (cases "rc_scope a"; cases "rc_scope b")
     (auto simp: path_overlap_def Let_def posix_commonpath_sym [of "posix_normpath (rc_key a)"]
        split: sum.splits)

lemma claims_overlap_sym: "claims_overlap a b = claims_overlap b a"
  by (cases "rc_scope a"; cases "rc_scope b")
     (auto simp: claims_overlap_def path_overlap_sym Let_def min.commute)

lemma claims_conflict_sym: "claims_conflict a b = claims_conflict b a"
  by (auto simp: claims_conflict_def claims_overlap_sym)

lemma claim_sets_conflict_sym: "claim_sets_conflict xs ys = claim_sets_conflict ys xs"
  unfolding claim_sets_conflict_def list_ex_iff using claims_conflict_sym by blast

lemma take_prefix_iff:
  "take (min (length l) (length r)) l = take (min (length l) (length r)) r \<longleftrightarrow>
   take (length l) r = l \<or> take (length r) l = r"
  by (cases "length l \<le> length r") (auto simp: min_def)

text \<open>One step of the specification for every kind: two claims with the same scopes' worth of
  locations in common overlap, but for two exact claims of a kind that is not a path, which
  compare their keys as they are.\<close>

lemma claims_overlap_parts:
  assumes "well_keyed a" "well_keyed b" "rc_kind a = rc_kind b"
    "path_kind (rc_kind a) \<or> rc_scope a = Subtree \<or> rc_scope b = Subtree"
  shows "claims_overlap a b \<longleftrightarrow> (\<exists>loc. in_claim a loc \<and> in_claim b loc)"
proof (cases "path_kind (rc_kind a)")
  case True
  with assms show ?thesis
    by (simp add: claims_overlap_def path_overlap_parts well_keyed_def in_claim_common claim_parts_def)
next
  case False
  with assms show ?thesis
    unfolding in_claim_common
    by (cases "rc_scope a"; cases "rc_scope b")
       (simp_all add: claims_overlap_def claim_parts_def take_prefix_iff Let_def)
qed


lemma covers_locations:
  assumes "claim_covers p c" "well_keyed p" "well_keyed c" "rc_scope p = Subtree"
  shows "take (length (claim_parts p)) (claim_parts c) = claim_parts p"
proof (cases "path_kind (rc_kind p)")
  case True
  with assms obtain l r where "list_all plain_part l" "rc_key p = abs_path l" "path_components (rc_key p) = l"
    "list_all plain_part r" "rc_key c = abs_path r" "path_components (rc_key c) = r"
    by (auto simp: well_keyed_def claim_covers_def elim!: canonical_keyE split: if_splits)
  with assms True show ?thesis
    by (auto simp: claim_covers_def claim_parts_def abs_path_eq_iff common_prefix_plain
          common_prefix_left split: if_splits)
next
  case False
  with assms show ?thesis
    by (auto simp: claim_covers_def claim_parts_def Let_def split: if_splits)
qed

lemma covers_overlap:
  assumes "claim_covers p c" "well_keyed p" "well_keyed c" "well_keyed q" "claims_overlap q c"
  shows "claims_overlap q p"
proof (cases "rc_scope p")
  case Exact
  with assms(1) have "rc_scope c = Exact" "rc_key c = rc_key p" "rc_kind c = rc_kind p"
    by (auto simp: claim_covers_def split: if_splits)
  with Exact have "claims_overlap q p = claims_overlap q c"
    by (simp only: claims_overlap_def path_overlap_def)
  with assms(5) show ?thesis by simp
next
  case Subtree
  have kinds: "rc_kind p = rc_kind c" "rc_kind q = rc_kind c"
    using assms(1,5) by (auto simp: claim_covers_def claims_overlap_def split: if_splits)
  have p_c: "take (length (claim_parts p)) (claim_parts c) = claim_parts p"
    using assms(1-3) Subtree by (rule covers_locations)
  have "\<exists>loc. in_claim q loc \<and> in_claim c loc"
  proof (cases "path_kind (rc_kind q) \<or> rc_scope q = Subtree \<or> rc_scope c = Subtree")
    case True
    with assms(3-5) kinds show ?thesis by (auto simp: claims_overlap_parts)
  next
    case False
    with assms(5) kinds have "rc_key q = rc_key c" "rc_scope q = Exact" "rc_scope c = Exact"
      by (cases "rc_scope q"; cases "rc_scope c"; simp add: claims_overlap_def)+
    with False kinds show ?thesis by (auto simp: in_claim_def claim_parts_def)
  qed
  then obtain loc where loc: "in_claim q loc" "in_claim c loc" by blast
  then have "take (length (claim_parts p)) loc = claim_parts p"
    using p_c by (cases "rc_scope c") (auto simp: in_claim_def, metis length_take min.cobounded1 take_take min.absorb1)
  with Subtree have "in_claim p loc" by (simp add: in_claim_def)
  with loc kinds Subtree assms(2,4) show ?thesis by (auto simp: claims_overlap_parts)
qed




end
