(* ===== verification/Workflow_Db.thy ===== *)
theory Workflow_Db
  imports Workflow_Models Resource_Claims
begin

text \<open>
  The durable state of \<open>core/workflow_store.py\<close>: one record per table of the schema (version 11),
  the database as the record of its tables, the payload helpers (\<open>redact_inputs\<close>, \<open>_canonical\<close>)
  and the statements several operations share. A row list is in row order; the position of a row
  in the event table is its \<open>event_id\<close>. The two ticket columns are AUTOINCREMENT, so the database
  keeps the next value of each. Columns the store fills from \<open>uuid4\<close> and \<open>_now\<close> come in as
  arguments of the operations.
\<close>

subsection \<open>Payloads\<close>

text \<open>\<open>str.casefold\<close> on code points below 256, as far as it can meet the ASCII markers: the sharp
  s becomes two letters, capitals become small.\<close>

definition casefold_char :: "char \<Rightarrow> string" where
  "casefold_char c =
     (let n = of_char c :: nat in
      if n = 223 then ''ss''
      else if (65 \<le> n \<and> n \<le> 90) \<or> (192 \<le> n \<and> n \<le> 222 \<and> n \<noteq> 215) then [char_of (n + 32)]
      else [c])"

definition casefold :: "string \<Rightarrow> string" where
  "casefold s = concat (map casefold_char s)"

fun contains :: "string \<Rightarrow> string \<Rightarrow> bool" where
  "contains pat [] \<longleftrightarrow> pat = []"
| "contains pat (c # cs) \<longleftrightarrow> take (length pat) (c # cs) = pat \<or> contains pat cs"

definition secret_markers :: "string list" where
  "secret_markers =
     [''password'', ''secret'', ''token'', ''api_key'', ''credential'', ''authorization'']"

definition secret_key :: "string \<Rightarrow> bool" where
  "secret_key key \<longleftrightarrow> list_ex (\<lambda>marker. contains marker (casefold key)) secret_markers"

fun redact_inputs :: "string \<Rightarrow> json \<Rightarrow> json" where
  "redact_inputs key (JObj items) =
     (if secret_key key then JStr ''<redacted>''
      else JObj (map (\<lambda>(item_key, item). (item_key, redact_inputs item_key item)) items))"
| "redact_inputs key (JList items) =
     (if secret_key key then JStr ''<redacted>'' else JList (map (redact_inputs []) items))"
| "redact_inputs key (JStr s) =
     (if secret_key key then JStr ''<redacted>'' else JStr (take 2000 s))"
| "redact_inputs key value = (if secret_key key then JStr ''<redacted>'' else value)"

fun canonical_json :: "json \<Rightarrow> json" where
  "canonical_json (JObj items) = JObj (sort_key fst (map (\<lambda>(k, v). (k, canonical_json v)) items))"
| "canonical_json (JList items) = JList (map canonical_json items)"
| "canonical_json v = v"

definition hex_digit :: "nat \<Rightarrow> char" where
  "hex_digit n = char_of (if n < 10 then 48 + n else 87 + n)"

definition json_escape :: "char \<Rightarrow> string" where
  "json_escape c =
     (let n = of_char c :: nat in
      if n = 34 then [CHR 0x5C, CHR 0x22]
      else if n = 92 then [CHR 0x5C, CHR 0x5C]
      else if n = 8 then [CHR 0x5C, CHR ''b'']
      else if n = 9 then [CHR 0x5C, CHR ''t'']
      else if n = 10 then [CHR 0x5C, CHR ''n'']
      else if n = 12 then [CHR 0x5C, CHR ''f'']
      else if n = 13 then [CHR 0x5C, CHR ''r'']
      else if n < 32 then [CHR 0x5C, CHR ''u'', CHR ''0'', CHR ''0'', hex_digit (n div 16), hex_digit (n mod 16)]
      else [c])"

definition json_string :: "string \<Rightarrow> string" where
  "json_string s = [CHR 0x22] @ concat (map json_escape s) @ [CHR 0x22]"

fun nat_digits :: "nat \<Rightarrow> string" where
  "nat_digits n = (if n < 10 then [char_of (48 + n)] else nat_digits (n div 10) @ [char_of (48 + n mod 10)])"

declare nat_digits.simps [simp del]

definition int_text :: "int \<Rightarrow> string" where
  "int_text i = (if i < 0 then ''-'' @ nat_digits (nat (- i)) else nat_digits (nat i))"

fun json_text :: "json \<Rightarrow> string" where
  "json_text JNull = ''null''"
| "json_text (JBool b) = (if b then ''true'' else ''false'')"
| "json_text (JInt i) = int_text i"
| "json_text (JFloat digits) = digits"
| "json_text (JStr s) = json_string s"
| "json_text (JList items) = ''['' @ join_with '','' (map json_text items) @ '']''"
| "json_text (JObj items) =
     [CHR 0x7B] @ join_with '','' (map (\<lambda>(k, v). json_string k @ '':'' @ json_text v) items) @ [CHR 0x7D]"

text \<open>A dictionary argument: \<open>None\<close> and the empty one count as false; \<open>{**a, **b}\<close> merges.\<close>

definition dict_of :: "json option \<Rightarrow> (string \<times> json) list" where
  "dict_of v = (case v of Some (JObj items) \<Rightarrow> items | _ \<Rightarrow> [])"

definition lookup :: "string \<Rightarrow> (string \<times> json) list \<Rightarrow> json option" where
  "lookup k items = map_of items k"

definition truthy :: "json option \<Rightarrow> bool" where
  "truthy v \<longleftrightarrow> (case v of None \<Rightarrow> False | Some (JObj items) \<Rightarrow> items \<noteq> [] | Some JNull \<Rightarrow> False
     | Some (JBool b) \<Rightarrow> b | Some (JInt i) \<Rightarrow> i \<noteq> 0 | Some (JStr s) \<Rightarrow> s \<noteq> []
     | Some (JList xs) \<Rightarrow> xs \<noteq> [] | Some (JFloat d) \<Rightarrow> d \<noteq> ''0.0'' \<and> d \<noteq> ''-0.0'')"

definition dict_set :: "string \<Rightarrow> json \<Rightarrow> (string \<times> json) list \<Rightarrow> (string \<times> json) list" where
  "dict_set k v items =
     (if k \<in> fst ` set items then map (\<lambda>(k', v'). (k', if k' = k then v else v')) items
      else items @ [(k, v)])"

definition json_if :: "json option \<Rightarrow> json option" where
  "json_if v = (if truthy v then map_option canonical_json v else None)"

definition redacted :: "json option \<Rightarrow> json option" where
  "redacted v = map_option (\<lambda>j. canonical_json (redact_inputs [] j)) v"

definition redacted_if :: "json option \<Rightarrow> json option" where
  "redacted_if v = (if truthy v then redacted v else None)"

definition error_text :: "string option \<Rightarrow> string option" where
  "error_text e = (case e of Some (c # cs) \<Rightarrow> Some (take 2000 (c # cs)) | _ \<Rightarrow> None)"

definition coalesce :: "'a option \<Rightarrow> 'a option \<Rightarrow> 'a option" where
  "coalesce a b = (case a of Some x \<Rightarrow> Some x | None \<Rightarrow> b)"

lemma coalesce_simps [simp]: "coalesce (Some x) b = Some x" "coalesce None b = b"
  by (simp_all add: coalesce_def)

definition round_even :: "rat \<Rightarrow> int" where
  "round_even q = (let f = \<lfloor>q\<rfloor>; r = q - of_int f in
     if r < 1 / 2 then f else if 1 / 2 < r then f + 1 else if even f then f else f + 1)"

subsection \<open>Column values\<close>

fun workflow_value :: "workflow_state \<Rightarrow> string" where
  "workflow_value WCreated = ''created''"
| "workflow_value WQueued = ''queued''"
| "workflow_value WRunning = ''running''"
| "workflow_value WCancelling = ''cancelling''"
| "workflow_value WWaiting = ''waiting''"
| "workflow_value WPaused = ''paused''"
| "workflow_value WFailed = ''failed''"
| "workflow_value WUncertain = ''uncertain''"
| "workflow_value WReconciling = ''reconciling''"
| "workflow_value WCompleted = ''completed''"
| "workflow_value WCancelled = ''cancelled''"

fun operation_value :: "operation_state \<Rightarrow> string" where
  "operation_value OCreated = ''created''"
| "operation_value ORunning = ''running''"
| "operation_value OWaiting = ''waiting''"
| "operation_value OSucceeded = ''succeeded''"
| "operation_value OFailed = ''failed''"
| "operation_value OUncertain = ''uncertain''"
| "operation_value OReconciling = ''reconciling''"
| "operation_value OAcknowledged = ''acknowledged''"
| "operation_value OUnresolvable = ''unresolvable''"
| "operation_value OCancelled = ''cancelled''"

datatype dispatch_phase = Reserved | Prepared | MayDispatch | Settled

datatype claim_state = Pending | Active | Quarantined | Released

fun claim_state_value :: "claim_state \<Rightarrow> string" where
  "claim_state_value Pending = ''pending''"
| "claim_state_value Active = ''active''"
| "claim_state_value Quarantined = ''quarantined''"
| "claim_state_value Released = ''released''"

subsection \<open>Rows\<close>

record workflow_row =
  wf_id :: string
  wf_idempotency_key :: "string option"
  wf_definition :: json
  wf_inputs :: json
  wf_inputs_hash :: "string option"
  wf_state :: workflow_state
  wf_current_step :: int
  wf_version :: int
  wf_created_at :: time
  wf_updated_at :: time
  wf_last_error :: "string option"
  wf_execution_definition :: "json option"
  wf_execution_hash :: "string option"
  wf_execution_compatible :: int
  wf_cancel_requested_at :: "time option"
  wf_cancel_reason :: "string option"
  wf_execution_mode :: string
  wf_graph_contract_version :: int
  wf_max_parallel_steps :: int
  wf_total_timeout_sec :: "rat option"

record step_row =
  st_workflow_id :: string
  st_step_index :: int
  st_state :: step_state
  st_attempts :: int
  st_started_at :: "time option"
  st_finished_at :: "time option"
  st_evidence :: "json option"
  st_error :: "string option"
  st_step_id :: "string option"

record operation_row =
  op_id :: string
  op_workflow_id :: string
  op_step_index :: int
  op_operation_index :: int
  op_action :: string
  op_definition_hash :: string
  op_idempotency_key :: string
  op_state :: operation_state
  op_attempts :: int
  op_version :: int
  op_arguments_fingerprint :: string
  op_postcondition :: "json option"
  op_result :: "json option"
  op_evidence :: "json option"
  op_started_at :: "time option"
  op_updated_at :: time
  op_finished_at :: "time option"
  op_error :: "string option"
  op_intent_evidence :: "json option"
  op_external_ref :: "json option"
  op_reconciliation_evidence :: "json option"
  op_execution_intent :: "json option"
  op_selected_route :: "string option"
  op_router_policy_version :: "string option"
  op_route_decision :: "json option"
  op_fallback_history :: "json option"
  op_attempt_token :: "string option"
  op_execution_id :: "string option"
  op_dispatch_phase :: "dispatch_phase option"
  op_attempt_generation :: int

record lease_row =
  ls_workflow_id :: string
  ls_owner_id :: string
  ls_token :: string
  ls_acquired_at :: time
  ls_heartbeat_at :: time
  ls_expires_at :: time
  ls_version :: int

record event_row =
  ev_workflow_id :: string
  ev_step_index :: "int option"
  ev_operation_id :: "string option"
  ev_type :: string
  ev_state :: "string option"
  ev_metadata :: "json option"
  ev_created_at :: time

record dependency_row =
  dep_workflow_id :: string
  dep_step_index :: int
  dep_dependency :: int

record admission_row =
  adm_operation_id :: string
  adm_workflow_id :: string
  adm_attempt_token :: string
  adm_execution_id :: string
  adm_lease_token :: string
  adm_owner_id :: string
  adm_category :: string
  adm_weight :: int
  adm_admitted_at :: time

record request_row =
  rr_ticket :: nat
  rr_request_id :: string
  rr_workflow_id :: "string option"
  rr_operation_id :: "string option"
  rr_attempt_token :: "string option"
  rr_owner_token :: string
  rr_category :: string
  rr_state :: claim_state
  rr_reason :: "string option"
  rr_created_at :: time
  rr_updated_at :: time
  rr_resolved_evidence :: "string option"
  rr_policy :: string

record claim_row =
  cl_request_id :: string
  cl_claim :: resource_claim

record capacity_row =
  cap_ticket :: nat
  cap_admission_id :: string
  cap_category :: string
  cap_owner_token :: string
  cap_weight :: int
  cap_limit_snapshot :: int
  cap_state :: claim_state
  cap_reason :: "string option"
  cap_created_at :: time
  cap_updated_at :: time
  cap_resource_request_id :: "string option"

record db =
  db_workflows :: "workflow_row list"
  db_steps :: "step_row list"
  db_operations :: "operation_row list"
  db_leases :: "lease_row list"
  db_events :: "event_row list"
  db_dependencies :: "dependency_row list"
  db_admissions :: "admission_row list"
  db_requests :: "request_row list"
  db_claims :: "claim_row list"
  db_capacity :: "capacity_row list"
  db_request_seq :: nat
  db_capacity_seq :: nat

definition empty_db :: db where
  "empty_db = \<lparr>db_workflows = [], db_steps = [], db_operations = [], db_leases = [], db_events = [],
     db_dependencies = [], db_admissions = [], db_requests = [], db_claims = [], db_capacity = [],
     db_request_seq = 1, db_capacity_seq = 1\<rparr>"

subsection \<open>Statements several operations share\<close>

definition find_workflow :: "db \<Rightarrow> string \<Rightarrow> workflow_row option" where
  "find_workflow d w = sql_one (\<lambda>r. wf_id r = w) (db_workflows d)"

definition find_operation :: "db \<Rightarrow> string \<Rightarrow> operation_row option" where
  "find_operation d oid = sql_one (\<lambda>r. op_id r = oid) (db_operations d)"

definition find_lease :: "db \<Rightarrow> string \<Rightarrow> lease_row option" where
  "find_lease d w = sql_one (\<lambda>r. ls_workflow_id r = w) (db_leases d)"

definition find_request :: "db \<Rightarrow> string \<Rightarrow> request_row option" where
  "find_request d q = sql_one (\<lambda>r. rr_request_id r = q) (db_requests d)"

definition find_capacity :: "db \<Rightarrow> string \<Rightarrow> capacity_row option" where
  "find_capacity d a = sql_one (\<lambda>r. cap_admission_id r = a) (db_capacity d)"

definition update_workflow :: "string \<Rightarrow> (workflow_row \<Rightarrow> workflow_row) \<Rightarrow> db \<Rightarrow> db" where
  "update_workflow w f d = d\<lparr>db_workflows := sql_update (\<lambda>r. wf_id r = w) f (db_workflows d)\<rparr>"

definition update_operation :: "string \<Rightarrow> (operation_row \<Rightarrow> operation_row) \<Rightarrow> db \<Rightarrow> db" where
  "update_operation oid f d = d\<lparr>db_operations := sql_update (\<lambda>r. op_id r = oid) f (db_operations d)\<rparr>"

definition update_step :: "string \<Rightarrow> int \<Rightarrow> (step_row \<Rightarrow> step_row) \<Rightarrow> db \<Rightarrow> db" where
  "update_step w i f d =
     d\<lparr>db_steps := sql_update (\<lambda>r. st_workflow_id r = w \<and> st_step_index r = i) f (db_steps d)\<rparr>"

definition update_requests :: "(request_row \<Rightarrow> bool) \<Rightarrow> (request_row \<Rightarrow> request_row) \<Rightarrow> db \<Rightarrow> db" where
  "update_requests P f d = d\<lparr>db_requests := sql_update P f (db_requests d)\<rparr>"

definition update_capacity :: "(capacity_row \<Rightarrow> bool) \<Rightarrow> (capacity_row \<Rightarrow> capacity_row) \<Rightarrow> db \<Rightarrow> db" where
  "update_capacity P f d = d\<lparr>db_capacity := sql_update P f (db_capacity d)\<rparr>"

definition insert_event ::
  "string \<Rightarrow> int option \<Rightarrow> string option \<Rightarrow> string \<Rightarrow> string option \<Rightarrow> json option \<Rightarrow> time \<Rightarrow> db \<Rightarrow> db" where
  "insert_event w step oid type state metadata now d =
     d\<lparr>db_events := db_events d @ [\<lparr>ev_workflow_id = w, ev_step_index = step, ev_operation_id = oid,
        ev_type = type, ev_state = state, ev_metadata = metadata, ev_created_at = now\<rparr>]\<rparr>"

text \<open>What each statement changes and what it leaves alone.\<close>

lemma update_workflow_frame [simp]:
  "db_workflows (update_workflow w f d) = sql_update (\<lambda>r. wf_id r = w) f (db_workflows d)"
  "db_steps (update_workflow w f d) = db_steps d"
  "db_operations (update_workflow w f d) = db_operations d"
  "db_leases (update_workflow w f d) = db_leases d"
  "db_events (update_workflow w f d) = db_events d"
  "db_dependencies (update_workflow w f d) = db_dependencies d"
  "db_admissions (update_workflow w f d) = db_admissions d"
  "db_requests (update_workflow w f d) = db_requests d"
  "db_claims (update_workflow w f d) = db_claims d"
  "db_capacity (update_workflow w f d) = db_capacity d"
  "db_request_seq (update_workflow w f d) = db_request_seq d"
  "db_capacity_seq (update_workflow w f d) = db_capacity_seq d"
  by (simp_all add: update_workflow_def)

lemma update_operation_frame [simp]:
  "db_workflows (update_operation oid f d) = db_workflows d"
  "db_steps (update_operation oid f d) = db_steps d"
  "db_operations (update_operation oid f d) = sql_update (\<lambda>r. op_id r = oid) f (db_operations d)"
  "db_leases (update_operation oid f d) = db_leases d"
  "db_events (update_operation oid f d) = db_events d"
  "db_dependencies (update_operation oid f d) = db_dependencies d"
  "db_admissions (update_operation oid f d) = db_admissions d"
  "db_requests (update_operation oid f d) = db_requests d"
  "db_claims (update_operation oid f d) = db_claims d"
  "db_capacity (update_operation oid f d) = db_capacity d"
  "db_request_seq (update_operation oid f d) = db_request_seq d"
  "db_capacity_seq (update_operation oid f d) = db_capacity_seq d"
  by (simp_all add: update_operation_def)

lemma update_step_frame [simp]:
  "db_workflows (update_step w i f d) = db_workflows d"
  "db_steps (update_step w i f d) = sql_update (\<lambda>r. st_workflow_id r = w \<and> st_step_index r = i) f (db_steps d)"
  "db_operations (update_step w i f d) = db_operations d"
  "db_leases (update_step w i f d) = db_leases d"
  "db_events (update_step w i f d) = db_events d"
  "db_dependencies (update_step w i f d) = db_dependencies d"
  "db_admissions (update_step w i f d) = db_admissions d"
  "db_requests (update_step w i f d) = db_requests d"
  "db_claims (update_step w i f d) = db_claims d"
  "db_capacity (update_step w i f d) = db_capacity d"
  "db_request_seq (update_step w i f d) = db_request_seq d"
  "db_capacity_seq (update_step w i f d) = db_capacity_seq d"
  by (simp_all add: update_step_def)

lemma update_requests_frame [simp]:
  "db_workflows (update_requests P f d) = db_workflows d"
  "db_steps (update_requests P f d) = db_steps d"
  "db_operations (update_requests P f d) = db_operations d"
  "db_leases (update_requests P f d) = db_leases d"
  "db_events (update_requests P f d) = db_events d"
  "db_dependencies (update_requests P f d) = db_dependencies d"
  "db_admissions (update_requests P f d) = db_admissions d"
  "db_requests (update_requests P f d) = sql_update P f (db_requests d)"
  "db_claims (update_requests P f d) = db_claims d"
  "db_capacity (update_requests P f d) = db_capacity d"
  "db_request_seq (update_requests P f d) = db_request_seq d"
  "db_capacity_seq (update_requests P f d) = db_capacity_seq d"
  by (simp_all add: update_requests_def)

lemma update_capacity_frame [simp]:
  "db_workflows (update_capacity P f d) = db_workflows d"
  "db_steps (update_capacity P f d) = db_steps d"
  "db_operations (update_capacity P f d) = db_operations d"
  "db_leases (update_capacity P f d) = db_leases d"
  "db_events (update_capacity P f d) = db_events d"
  "db_dependencies (update_capacity P f d) = db_dependencies d"
  "db_admissions (update_capacity P f d) = db_admissions d"
  "db_requests (update_capacity P f d) = db_requests d"
  "db_claims (update_capacity P f d) = db_claims d"
  "db_capacity (update_capacity P f d) = sql_update P f (db_capacity d)"
  "db_request_seq (update_capacity P f d) = db_request_seq d"
  "db_capacity_seq (update_capacity P f d) = db_capacity_seq d"
  by (simp_all add: update_capacity_def)

lemma insert_event_frame [simp]:
  "db_workflows (insert_event w step oid type state metadata now d) = db_workflows d"
  "db_steps (insert_event w step oid type state metadata now d) = db_steps d"
  "db_operations (insert_event w step oid type state metadata now d) = db_operations d"
  "db_leases (insert_event w step oid type state metadata now d) = db_leases d"
  "db_dependencies (insert_event w step oid type state metadata now d) = db_dependencies d"
  "db_admissions (insert_event w step oid type state metadata now d) = db_admissions d"
  "db_requests (insert_event w step oid type state metadata now d) = db_requests d"
  "db_claims (insert_event w step oid type state metadata now d) = db_claims d"
  "db_capacity (insert_event w step oid type state metadata now d) = db_capacity d"
  "db_request_seq (insert_event w step oid type state metadata now d) = db_request_seq d"
  "db_capacity_seq (insert_event w step oid type state metadata now d) = db_capacity_seq d"
  by (simp_all add: insert_event_def)

lemma find_request_Some: "find_request d q = Some r \<Longrightarrow> r \<in> set (db_requests d) \<and> rr_request_id r = q"
  unfolding find_request_def by (rule sql_one_Some)

lemma find_capacity_Some: "find_capacity d a = Some r \<Longrightarrow> r \<in> set (db_capacity d) \<and> cap_admission_id r = a"
  unfolding find_capacity_def by (rule sql_one_Some)

lemma find_operation_Some: "find_operation d q = Some r \<Longrightarrow> r \<in> set (db_operations d) \<and> op_id r = q"
  unfolding find_operation_def by (rule sql_one_Some)

lemma find_workflow_Some: "find_workflow d q = Some r \<Longrightarrow> r \<in> set (db_workflows d) \<and> wf_id r = q"
  unfolding find_workflow_def by (rule sql_one_Some)

lemma find_lease_Some: "find_lease d q = Some r \<Longrightarrow> r \<in> set (db_leases d) \<and> ls_workflow_id r = q"
  unfolding find_lease_def by (rule sql_one_Some)

end
