(* ===== verification/Aggregate.thy ===== *)
theory Aggregate
  imports Workflow_Db
begin

text \<open>
  \<open>WorkflowStore._aggregate_state\<close>: the state of a DAG workflow as a function of the facts the
  other tables hold, namely its operations, the admissions of its attempts and the resource
  requests it still owns.
\<close>

definition workflow_operations :: "db \<Rightarrow> string \<Rightarrow> operation_row list" where
  "workflow_operations d w = sort_key op_step_index
     (filter (\<lambda>r. op_workflow_id r = w \<and> op_operation_index r = 0) (db_operations d))"

definition active_attempts :: "db \<Rightarrow> string \<Rightarrow> nat" where
  "active_attempts d w = sql_count (\<lambda>a. adm_workflow_id a = w \<and>
     sql_exists (\<lambda>r. op_id r = adm_operation_id a \<and> op_state r \<in> {OCreated, ORunning, OWaiting})
       (db_operations d)) (db_admissions d)"

definition unresolved_requests :: "db \<Rightarrow> string \<Rightarrow> bool" where
  "unresolved_requests d w = sql_exists (\<lambda>r. rr_workflow_id r = Some w \<and>
     rr_state r \<in> {Active, Quarantined}) (db_requests d)"

definition cancel_marked :: "db \<Rightarrow> string \<Rightarrow> bool" where
  "cancel_marked d w \<longleftrightarrow>
     (case find_workflow d w of Some r \<Rightarrow> wf_cancel_requested_at r \<noteq> None | None \<Rightarrow> False)"

definition first_error :: "operation_row list \<Rightarrow> string" where
  "first_error ops = (case sql_one (\<lambda>r. op_state r \<in> {OFailed, OUnresolvable}) ops of
       None \<Rightarrow> []
     | Some r \<Rightarrow> take 2000 (case op_error r of Some (c # cs) \<Rightarrow> c # cs | _ \<Rightarrow> ''workflow operation failed''))"

definition aggregate_state ::
  "db \<Rightarrow> string \<Rightarrow> bool \<Rightarrow> workflow_state \<times> int \<times> string option \<times> nat" where
  "aggregate_state d w keep_running =
     (let operations = workflow_operations d w;
          active = active_attempts d w;
          states = op_state ` set operations;
          success = {OSucceeded, OAcknowledged};
          unfinished = map op_step_index (filter (\<lambda>r. op_state r \<notin> success) operations);
          current_step = (if unfinished = [] then int (length operations) else Min (set unfinished));
          unresolved = (states \<inter> {OUncertain, OReconciling} \<noteq> {} \<or> unresolved_requests d w);
          failed = (states \<inter> {OFailed, OUnresolvable} \<noteq> {});
          cancelled = (cancel_marked d w \<or> OCancelled \<in> states);
          target_error =
            (if 0 < active then (if cancelled then WCancelling else WRunning, None)
             else if unresolved
             then (WUncertain, Some ''workflow has unresolved operation or resource ownership'')
             else if failed then (WFailed, Some (first_error operations))
             else if cancelled then (WCancelled, None)
             else if operations \<noteq> [] \<and> states \<subseteq> success then (WCompleted, None)
             else (if keep_running then WRunning else WPaused, None))
      in (fst target_error, current_step, snd target_error, active))"

lemma set_workflow_operations:
  "set (workflow_operations d w) = {r \<in> set (db_operations d). op_workflow_id r = w \<and> op_operation_index r = 0}"
  by (auto simp: workflow_operations_def)

lemma aggregate_target:
  "fst (aggregate_state d w k) =
     (let states = op_state ` set (workflow_operations d w);
          cancelled = (cancel_marked d w \<or> OCancelled \<in> states)
      in if 0 < active_attempts d w then (if cancelled then WCancelling else WRunning)
         else if states \<inter> {OUncertain, OReconciling} \<noteq> {} \<or> unresolved_requests d w then WUncertain
         else if states \<inter> {OFailed, OUnresolvable} \<noteq> {} then WFailed
         else if cancelled then WCancelled
         else if workflow_operations d w \<noteq> [] \<and> states \<subseteq> {OSucceeded, OAcknowledged} then WCompleted
         else if k then WRunning else WPaused)"
  by (simp only: aggregate_state_def Let_def fst_conv if_distrib [of fst])

text \<open>The aggregate says completed only of finished work: no attempt is admitted, no resource
  request of the workflow is active or quarantined, no cancellation is requested, and every step
  of the workflow, of which there is at least one, has succeeded or was acknowledged. Conversely a
  workflow in that condition is completed.\<close>

theorem aggregate_completed_iff:
  "fst (aggregate_state d w k) = WCompleted \<longleftrightarrow>
     active_attempts d w = 0 \<and> \<not> unresolved_requests d w \<and>
     \<not> cancel_marked d w \<and>
     workflow_operations d w \<noteq> [] \<and>
     op_state ` set (workflow_operations d w) \<subseteq> {OSucceeded, OAcknowledged}"
proof -
  have succ: "op_state ` set (workflow_operations d w) \<inter> {OUncertain, OReconciling} = {}
      \<and> op_state ` set (workflow_operations d w) \<inter> {OFailed, OUnresolvable} = {}
      \<and> OCancelled \<notin> op_state ` set (workflow_operations d w)"
    if "op_state ` set (workflow_operations d w) \<subseteq> {OSucceeded, OAcknowledged}"
    using that by auto
  show ?thesis
    unfolding aggregate_target Let_def
    using succ by (auto split: if_splits)
qed

end
