(* ===== verification/Resource_Admission.thy ===== *)
theory Resource_Admission
  imports Aggregate
begin

text \<open>
  The resource requests of \<open>core/workflow_store.py\<close>: a request names a set of claims, waits in
  ticket order, becomes active when nothing in its way conflicts, and is released or quarantined
  by its owner. The two triggers of the schema and the foreign keys are part of the statements
  they guard. \<open>policy\<close> is the runtime policy fingerprint, \<open>limit\<close> the configured number of
  admission records, \<open>alive\<close> the answer of \<open>native_resource_owner_alive\<close>.
\<close>

subsection \<open>Claims of a request\<close>

definition resource_claims_for_request :: "db \<Rightarrow> string \<Rightarrow> resource_claim list" where
  "resource_claims_for_request d q =
     sort_key claim_sort_key (map cl_claim (filter (\<lambda>c. cl_request_id c = q) (db_claims d)))"

subsection \<open>Bounded storage\<close>

definition delete_requests :: "(request_row \<Rightarrow> bool) \<Rightarrow> db \<Rightarrow> db" where
  "delete_requests P d =
     (let gone = map rr_request_id (filter P (db_requests d)) in
      d\<lparr>db_requests := sql_delete P (db_requests d),
        db_claims := sql_delete (\<lambda>c. cl_request_id c \<in> set gone) (db_claims d),
        db_capacity := sql_update (\<lambda>c. \<exists>g \<in> set gone. cap_resource_request_id c = Some g)
           (\<lambda>c. c\<lparr>cap_resource_request_id := None\<rparr>) (db_capacity d)\<rparr>)"

definition released_tickets :: "request_row list \<Rightarrow> nat list" where
  "released_tickets rows = sort (map rr_ticket (filter (\<lambda>r. rr_state r = Released) rows))"

definition make_request_room :: "nat \<Rightarrow> db \<Rightarrow> db res" where
  "make_request_room limit d =
     (let count = length (db_requests d) in
      if count < limit then Inr d
      else let needed = count - limit + 1;
               victims = take needed (released_tickets (db_requests d));
               removed = sql_count (\<lambda>r. rr_ticket r \<in> set victims) (db_requests d)
           in if removed < needed then Inl (ToolError ''runtime_admission_storage_exhausted'')
              else Inr (delete_requests (\<lambda>r. rr_ticket r \<in> set victims) d))"

subsection \<open>Triggers and foreign keys\<close>

definition request_parents_exist :: "db \<Rightarrow> string option \<Rightarrow> string option \<Rightarrow> bool" where
  "request_parents_exist d workflow operation \<longleftrightarrow>
     (case workflow of None \<Rightarrow> True | Some w \<Rightarrow> find_workflow d w \<noteq> None) \<and>
     (case operation of None \<Rightarrow> True | Some oid \<Rightarrow> find_operation d oid \<noteq> None)"

definition policy_insert_aborts :: "db \<Rightarrow> request_row \<Rightarrow> bool" where
  "policy_insert_aborts d new \<longleftrightarrow> rr_state new \<in> {Pending, Active} \<and>
     (rr_policy new = [] \<or>
      (rr_state new = Active \<and>
       sql_exists (\<lambda>r. rr_state r = Active \<and> rr_policy r \<noteq> rr_policy new) (db_requests d)))"

definition policy_activate_aborts :: "db \<Rightarrow> request_row \<Rightarrow> request_row \<Rightarrow> bool" where
  "policy_activate_aborts d old new \<longleftrightarrow>
     rr_state new = Active \<and> (rr_state old \<noteq> Active \<or> rr_policy old \<noteq> rr_policy new) \<and>
     (rr_policy new = [] \<or>
      sql_exists (\<lambda>r. rr_state r = Active \<and> rr_request_id r \<noteq> rr_request_id new \<and>
                      rr_policy r \<noteq> rr_policy new) (db_requests d))"

subsection \<open>Reserving\<close>

record reservation =
  res_admitted :: bool
  res_id :: string
  res_state :: claim_state
  res_reason :: "string option"

definition insert_request ::
  "string \<Rightarrow> string \<Rightarrow> string \<Rightarrow> string option \<Rightarrow> string option \<Rightarrow> string option \<Rightarrow> time \<Rightarrow> string \<Rightarrow>
   resource_claim list \<Rightarrow> db \<Rightarrow> db res" where
  "insert_request request_id owner_token category workflow_id operation_id attempt_token now policy canonical d =
     (let row = \<lparr>rr_ticket = db_request_seq d, rr_request_id = request_id, rr_workflow_id = workflow_id,
                 rr_operation_id = operation_id, rr_attempt_token = attempt_token,
                 rr_owner_token = owner_token, rr_category = category, rr_state = Pending,
                 rr_reason = None, rr_created_at = now, rr_updated_at = now,
                 rr_resolved_evidence = None, rr_policy = policy\<rparr> in
      if policy_insert_aborts d row \<or> \<not> request_parents_exist d workflow_id operation_id
      then Inl IntegrityError
      else Inr (d\<lparr>db_requests := db_requests d @ [row], db_request_seq := Suc (db_request_seq d),
                  db_claims := db_claims d @
                    map (\<lambda>c. \<lparr>cl_request_id = request_id, cl_claim = c\<rparr>) canonical\<rparr>))"

definition blocking_requests :: "db \<Rightarrow> string \<Rightarrow> request_row list" where
  "blocking_requests d q = sort_key rr_ticket
     (filter (\<lambda>r. rr_request_id r \<noteq> q \<and> rr_state r \<in> {Pending, Active, Quarantined}) (db_requests d))"

fun conflict_scan ::
  "db \<Rightarrow> resource_claim list \<Rightarrow> string \<Rightarrow> nat \<Rightarrow> request_row list \<Rightarrow> string option" where
  "conflict_scan d canonical policy ticket [] = None"
| "conflict_scan d canonical policy ticket (other # rest) =
     (if rr_state other = Pending \<and> ticket < rr_ticket other
      then conflict_scan d canonical policy ticket rest
      else if rr_state other \<in> {Active, Pending} \<and> rr_policy other \<noteq> policy
      then Some ''resource_policy_incompatible''
      else if \<not> claim_sets_conflict canonical (resource_claims_for_request d (rr_request_id other))
      then conflict_scan d canonical policy ticket rest
      else if rr_state other = Quarantined then Some ''resource_quarantined''
      else if rr_state other = Active then Some ''resource_conflict''
      else Some ''older_conflicting_request'')"

definition activate_request :: "string \<Rightarrow> time \<Rightarrow> db \<Rightarrow> db res" where
  "activate_request request_id now d =
     (let P = (\<lambda>r. rr_request_id r = request_id \<and> rr_state r = Pending);
          f = (\<lambda>r. r\<lparr>rr_state := Active, rr_reason := None, rr_updated_at := now\<rparr>) in
      if sql_exists (\<lambda>r. P r \<and> policy_activate_aborts d r (f r)) (db_requests d)
      then Inl IntegrityError else Inr (update_requests P f d))"

definition settle_request ::
  "string \<Rightarrow> string \<Rightarrow> string \<Rightarrow> resource_claim list \<Rightarrow> time \<Rightarrow> string \<Rightarrow> db \<Rightarrow> (db \<times> reservation) res" where
  "settle_request request_id owner_token category canonical now policy d =
     (case find_request d request_id of
        None \<Rightarrow> Inl (ToolError ''resource_request_missing'')
      | Some row \<Rightarrow>
        let answer = (\<lambda>ok state reason. \<lparr>res_admitted = ok, res_id = request_id, res_state = state,
                                       res_reason = reason\<rparr>) in
        if rr_owner_token row \<noteq> owner_token \<or> rr_category row \<noteq> category
        then Inl (ToolError ''resource_request_conflict'')
        else if resource_claims_for_request d request_id \<noteq> canonical
        then Inl (ToolError ''resource_request_conflict'')
        else if rr_policy row \<noteq> policy
        then Inr (d, answer False (rr_state row) (Some ''resource_policy_incompatible''))
        else if rr_state row = Active then Inr (d, answer True Active None)
        else if rr_state row = Quarantined
        then Inr (d, answer False Quarantined (Some ''resource_quarantined''))
        else if rr_state row = Released
        then Inr (d, answer False Released (Some ''resource_request_terminal''))
        else case conflict_scan d canonical policy (rr_ticket row) (blocking_requests d request_id) of
          Some reason \<Rightarrow>
            Inr (update_requests (\<lambda>r. rr_request_id r = request_id)
                   (\<lambda>r. r\<lparr>rr_reason := Some reason, rr_updated_at := now\<rparr>) d,
                 answer False Pending (Some reason))
        | None \<Rightarrow>
            (case activate_request request_id now d of
               Inl e \<Rightarrow> Inl e
             | Inr d' \<Rightarrow> Inr (d', answer True Active None)))"

definition claims_size :: "resource_claim list \<Rightarrow> nat" where
  "claims_size cs = sum_list (map (\<lambda>c. utf8_size (rc_key c) + utf8_size (rc_kind c)) cs)"

definition reserve_resource_claims ::
  "nat \<Rightarrow> string \<Rightarrow> time \<Rightarrow> string \<Rightarrow> string \<Rightarrow> resource_claim list \<Rightarrow> string \<Rightarrow> string option \<Rightarrow>
   string option \<Rightarrow> string option \<Rightarrow> db \<Rightarrow> (db \<times> reservation) res" where
  "reserve_resource_claims limit policy now request_id0 owner_token0 claims category0 workflow_id
     operation_id attempt_token d =
     (let request_id = py_strip request_id0; owner_token = py_strip owner_token0;
          category = py_strip category0; canonical = canonical_claims claims in
      if request_id = [] \<or> 200 < length request_id then Inl (ToolError ''invalid_resource_request'')
      else if owner_token = [] \<or> 200 < length owner_token then Inl (ToolError ''invalid_resource_owner'')
      else if category = [] \<or> 80 < length category then Inl (ToolError ''invalid_resource_category'')
      else if canonical = [] then Inl (ToolError ''empty_resource_claims'')
      else if 256 < length canonical then Inl (ToolError ''too_many_resource_claims'')
      else if 65536 < claims_size canonical then Inl (ToolError ''resource_claims_too_large'')
      else case find_request d request_id of
        Some _ \<Rightarrow> settle_request request_id owner_token category canonical now policy d
      | None \<Rightarrow>
          (case make_request_room limit d of
             Inl e \<Rightarrow> Inl e
           | Inr d1 \<Rightarrow>
               (case insert_request request_id owner_token category workflow_id operation_id
                       attempt_token now policy canonical d1 of
                  Inl e \<Rightarrow> Inl e
                | Inr d2 \<Rightarrow> settle_request request_id owner_token category canonical now policy d2)))"

subsection \<open>Reading, binding, releasing, quarantining\<close>

definition attempt_current :: "db \<Rightarrow> time \<Rightarrow> request_row \<Rightarrow> bool" where
  "attempt_current d now r \<longleftrightarrow>
     sql_exists (\<lambda>a. rr_operation_id r = Some (adm_operation_id a) \<and>
        rr_workflow_id r = Some (adm_workflow_id a) \<and> rr_attempt_token r = Some (adm_attempt_token a) \<and>
        sql_exists (\<lambda>x. op_id x = adm_operation_id a \<and> op_attempt_token x = Some (adm_attempt_token a) \<and>
           op_execution_id x = Some (adm_execution_id a) \<and>
           op_dispatch_phase x \<in> {Some Reserved, Some Prepared, Some MayDispatch}) (db_operations d) \<and>
        sql_exists (\<lambda>l. ls_workflow_id l = adm_workflow_id a \<and> ls_token l = adm_lease_token a \<and>
           now < ls_expires_at l) (db_leases d) \<and>
        sql_exists (\<lambda>w. wf_id w = adm_workflow_id a \<and> wf_state w = WRunning \<and>
           wf_cancel_requested_at w = None) (db_workflows d)) (db_admissions d)"

definition resource_capability_row ::
  "db \<Rightarrow> string \<Rightarrow> string option \<Rightarrow> string \<Rightarrow> time \<Rightarrow> request_row option" where
  "resource_capability_row d request_id owner_token policy now =
     sql_one (\<lambda>r. rr_request_id r = request_id \<and> owner_token = Some (rr_owner_token r) \<and>
        rr_state r = Active \<and> rr_policy r = policy \<and>
        ((rr_workflow_id r = None \<and> rr_operation_id r = None) \<or> attempt_current d now r)) (db_requests d)"

definition resource_request ::
  "(string \<Rightarrow> bool option) \<Rightarrow> string \<Rightarrow> time \<Rightarrow> string \<Rightarrow> string option \<Rightarrow> db \<Rightarrow>
   (request_row \<times> resource_claim list) res" where
  "resource_request alive policy now request_id expected_owner d =
     (if (\<exists>owner. expected_owner = Some owner \<and> alive owner = Some False)
      then Inl (ToolError ''resource_capability_invalid'')
      else case (case expected_owner of None \<Rightarrow> find_request d request_id
                 | Some owner \<Rightarrow> resource_capability_row d request_id (Some owner) policy now) of
        None \<Rightarrow> Inl (ToolError (if expected_owner = None then ''resource_request_not_found''
                              else ''resource_capability_invalid''))
      | Some row \<Rightarrow> Inr (row, resource_claims_for_request d request_id))"

definition bind_resource_request_attempt ::
  "time \<Rightarrow> string \<Rightarrow> string \<Rightarrow> string \<Rightarrow> db \<Rightarrow> (db \<times> request_row option) res" where
  "bind_resource_request_attempt now request_id owner_token attempt_token d =
     (case find_request d request_id of
        None \<Rightarrow> Inl (ToolError ''resource_request_not_found'')
      | Some row \<Rightarrow>
        if rr_owner_token row \<noteq> owner_token then Inl (ToolError ''resource_owner_mismatch'')
        else if rr_state row \<noteq> Active then Inl (ToolError ''resource_request_not_active'')
        else if rr_attempt_token row \<noteq> None \<and> rr_attempt_token row \<noteq> Some attempt_token
        then Inl (ToolError ''resource_attempt_conflict'')
        else let d' = update_requests
               (\<lambda>r. rr_request_id r = request_id \<and> rr_owner_token r = owner_token \<and> rr_state r = Active)
               (\<lambda>r. r\<lparr>rr_attempt_token := Some attempt_token, rr_updated_at := now\<rparr>) d
             in Inr (d', find_request d' request_id))"

definition child_capacity_unreleased :: "db \<Rightarrow> string \<Rightarrow> bool" where
  "child_capacity_unreleased d request_id \<longleftrightarrow>
     sql_exists (\<lambda>c. cap_resource_request_id c = Some request_id \<and> cap_state c \<noteq> Released) (db_capacity d)"

definition release_resource_request :: "time \<Rightarrow> string \<Rightarrow> string \<Rightarrow> db \<Rightarrow> (db \<times> bool) res" where
  "release_resource_request now request_id owner_token d =
     (case find_request d request_id of
        None \<Rightarrow> Inr (d, False)
      | Some row \<Rightarrow>
        if rr_owner_token row \<noteq> owner_token then Inl (ToolError ''resource_owner_mismatch'')
        else if rr_state row \<notin> {Active, Pending} then Inr (d, False)
        else if child_capacity_unreleased d request_id
        then Inr (update_requests (\<lambda>r. rr_request_id r = request_id)
                   (\<lambda>r. r\<lparr>rr_state := Quarantined, rr_reason := Some ''child_capacity_cleanup_unresolved'',
                          rr_updated_at := now\<rparr>) d, False)
        else Inr (update_requests
                   (\<lambda>r. rr_request_id r = request_id \<and> rr_owner_token r = owner_token \<and>
                        rr_state r \<in> {Active, Pending})
                   (\<lambda>r. r\<lparr>rr_state := Released, rr_reason := None, rr_updated_at := now\<rparr>) d, True))"

definition quarantine_resource_request ::
  "time \<Rightarrow> string \<Rightarrow> string \<Rightarrow> string \<Rightarrow> db \<Rightarrow> (db \<times> request_row option) res" where
  "quarantine_resource_request now request_id owner_token reason d =
     (case find_request d request_id of
        None \<Rightarrow> Inl (ToolError ''resource_request_not_found'')
      | Some row \<Rightarrow>
        if rr_owner_token row \<noteq> owner_token then Inl (ToolError ''resource_owner_mismatch'')
        else if rr_state row = Released then Inl (ToolError ''resource_request_terminal'')
        else let d' = update_requests
               (\<lambda>r. rr_request_id r = request_id \<and> rr_owner_token r = owner_token)
               (\<lambda>r. r\<lparr>rr_state := Quarantined, rr_reason := Some (take 2000 reason), rr_updated_at := now\<rparr>) d
             in Inr (d', find_request d' request_id))"

definition settled_operation :: "operation_state \<Rightarrow> bool" where
  "settled_operation s \<longleftrightarrow> s \<in> {OSucceeded, OAcknowledged, OFailed, OUnresolvable, OCancelled}"

definition request_unreleased :: "db \<Rightarrow> string \<Rightarrow> bool" where
  "request_unreleased d oid \<longleftrightarrow>
     sql_exists (\<lambda>r. rr_operation_id r = Some oid \<and> rr_state r \<noteq> Released) (db_requests d)"

definition delete_settled_admissions :: "string \<Rightarrow> db \<Rightarrow> db" where
  "delete_settled_admissions w d =
     d\<lparr>db_admissions := sql_delete (\<lambda>a. adm_workflow_id a = w \<and>
        sql_exists (\<lambda>x. op_workflow_id x = w \<and> settled_operation (op_state x) \<and>
          op_id x = adm_operation_id a) (db_operations d) \<and>
        \<not> request_unreleased d (adm_operation_id a)) (db_admissions d)\<rparr>"

definition resolve_quarantined_resource_request ::
  "time \<Rightarrow> string \<Rightarrow> string \<Rightarrow> string \<Rightarrow> db \<Rightarrow> (db \<times> request_row option) res" where
  "resolve_quarantined_resource_request now request_id owner_token evidence d =
     (if py_strip evidence = [] then Inl (ToolError ''resource_resolution_evidence_required'')
      else case find_request d request_id of
        None \<Rightarrow> Inl (ToolError ''resource_request_not_found'')
      | Some row \<Rightarrow>
        if rr_owner_token row \<noteq> owner_token then Inl (ToolError ''resource_owner_mismatch'')
        else if rr_state row \<noteq> Quarantined then Inl (ToolError ''resource_request_not_quarantined'')
        else if child_capacity_unreleased d request_id then Inl (ToolError ''resource_children_unresolved'')
        else
          let d1 = update_requests
                 (\<lambda>r. rr_request_id r = request_id \<and> rr_owner_token r = owner_token \<and> rr_state r = Quarantined)
                 (\<lambda>r. r\<lparr>rr_state := Released, rr_reason := Some ''resolved'',
                        rr_resolved_evidence := Some (take 2000 evidence), rr_updated_at := now\<rparr>) d;
              d2 = (case rr_workflow_id row of
                 None \<Rightarrow> d1
               | Some w \<Rightarrow>
                 (case find_workflow d1 w of
                    None \<Rightarrow> d1
                  | Some wrow \<Rightarrow>
                    if wf_execution_mode wrow = ''dag'' \<and> wf_state wrow = WUncertain
                    then let da = delete_settled_admissions w d1;
                             (target, step, error, _) = aggregate_state da w False
                         in insert_event w None None ''workflow_resource_resolved''
                              (Some (workflow_value target))
                              (Some (JObj [(''request_id'', JStr request_id)])) now
                              (update_workflow w (\<lambda>r. r\<lparr>wf_state := target, wf_current_step := step,
                                 wf_last_error := error, wf_version := wf_version r + 1,
                                 wf_updated_at := now\<rparr>) da)
                    else d1))
          in Inr (d2, find_request d2 request_id))"

subsection \<open>Well-formed request tables\<close>

definition request_inv :: "db \<Rightarrow> bool" where
  "request_inv d \<longleftrightarrow> unique_by rr_request_id (db_requests d) \<and> unique_by rr_ticket (db_requests d) \<and>
     (\<forall>r \<in> set (db_requests d). rr_ticket r < db_request_seq d) \<and>
     (\<forall>r \<in> set (db_requests d). rr_state r \<in> {Pending, Active} \<longrightarrow> rr_policy r \<noteq> []) \<and>
     (\<forall>c \<in> set (db_claims d). cl_request_id c \<in> rr_request_id ` set (db_requests d))"

definition active_holders :: "db \<Rightarrow> (string \<times> string \<times> resource_claim list) set" where
  "active_holders d =
     (\<lambda>r. (rr_request_id r, rr_policy r, resource_claims_for_request d (rr_request_id r))) `
       {r \<in> set (db_requests d). rr_state r = Active}"

definition holders_compatible ::
  "string \<times> string \<times> resource_claim list \<Rightarrow> string \<times> string \<times> resource_claim list \<Rightarrow> bool" where
  "holders_compatible a b \<longleftrightarrow>
     fst (snd a) = fst (snd b) \<and> \<not> claim_sets_conflict (snd (snd a)) (snd (snd b))"

text \<open>The part of the database these speak of, and what an operation that leaves it alone keeps.\<close>

definition same_requests :: "db \<Rightarrow> db \<Rightarrow> bool" where
  "same_requests d d' \<longleftrightarrow> db_requests d' = db_requests d \<and> db_claims d' = db_claims d \<and>
     db_request_seq d' = db_request_seq d"

lemma same_requests_refl [simp]: "same_requests d d"
  by (simp add: same_requests_def)

lemma same_requests_claims:
  "same_requests d d' \<Longrightarrow> resource_claims_for_request d' = resource_claims_for_request d"
  by (simp add: same_requests_def resource_claims_for_request_def fun_eq_iff)

lemma same_requests_frame:
  assumes "same_requests d d'"
  shows "request_inv d' = request_inv d" "active_holders d' = active_holders d"
proof -
  show "request_inv d' = request_inv d"
    using assms by (simp add: same_requests_def request_inv_def)
  show "active_holders d' = active_holders d"
    using assms same_requests_claims [OF assms] by (simp add: same_requests_def active_holders_def)
qed

text \<open>An operation is benign for the requests when it keeps the table well formed and lets nobody
  new hold claims.\<close>

definition requests_benign :: "db \<Rightarrow> db \<Rightarrow> bool" where
  "requests_benign d d' \<longleftrightarrow> (request_inv d \<longrightarrow> request_inv d') \<and> active_holders d' \<subseteq> active_holders d"

lemma requests_benign_refl [simp]: "requests_benign d d"
  by (simp add: requests_benign_def)

lemma requests_benign_trans:
  "requests_benign d d' \<Longrightarrow> requests_benign d' d'' \<Longrightarrow> requests_benign d d''"
  by (auto simp: requests_benign_def)

lemma same_requests_benign: "same_requests d d' \<Longrightarrow> requests_benign d d'"
  using same_requests_frame by (simp add: requests_benign_def)

text \<open>A change of request rows that keeps what identifies them and revives nobody.\<close>

definition tame_update :: "(request_row \<Rightarrow> bool) \<Rightarrow> (request_row \<Rightarrow> request_row) \<Rightarrow> bool" where
  "tame_update P f \<longleftrightarrow> (\<forall>r. rr_request_id (f r) = rr_request_id r \<and> rr_ticket (f r) = rr_ticket r \<and>
     rr_policy (f r) = rr_policy r \<and>
     (P r \<longrightarrow> (rr_state (f r) = Active \<longrightarrow> rr_state r = Active) \<and>
              (rr_state (f r) = Pending \<longrightarrow> rr_state r = Pending)))"

lemma claims_update_requests [simp]:
  "resource_claims_for_request (update_requests P f d) = resource_claims_for_request d"
  by (simp add: resource_claims_for_request_def update_requests_def fun_eq_iff)

lemma update_requests_inv:
  assumes f: "\<And>r. rr_request_id (f r) = rr_request_id r" "\<And>r. rr_ticket (f r) = rr_ticket r"
    "\<And>r. rr_policy (f r) = rr_policy r"
    and live: "\<And>r. P r \<Longrightarrow> rr_state (f r) \<in> {Pending, Active} \<Longrightarrow> rr_state r \<in> {Pending, Active}"
    and inv: "request_inv d"
  shows "request_inv (update_requests P f d)"
proof -
  have ids: "rr_request_id ` set (sql_update P f (db_requests d)) = rr_request_id ` set (db_requests d)"
    by (simp add: image_sql_update f)
  have pol: "rr_policy r \<noteq> []" if "r \<in> set (sql_update P f (db_requests d))" "rr_state r \<in> {Pending, Active}" for r
  proof -
    obtain s where s: "s \<in> set (db_requests d)" "r = (if P s then f s else s)"
      using \<open>r \<in> _\<close> by (auto simp: set_sql_update)
    with that(2) live [of s] have "rr_state s \<in> {Pending, Active}" by (auto split: if_splits)
    with s inv have "rr_policy s \<noteq> []" by (auto simp: request_inv_def)
    with s f(3) show ?thesis by (cases "P s") simp_all
  qed
  have "rr_ticket r < db_request_seq d" if "r \<in> set (sql_update P f (db_requests d))" for r
    using that inv f(2) by (auto simp: request_inv_def set_sql_update)
  then show ?thesis
    using inv f ids pol by (simp add: request_inv_def update_requests_def unique_by_update)
qed

lemma request_row_unique:
  assumes "request_inv d" "find_request d q = Some row" "r \<in> set (db_requests d)" "rr_request_id r = q"
  shows "r = row"
proof -
  have "unique_by rr_request_id (db_requests d)" "row \<in> set (db_requests d)" "rr_request_id row = q"
    using assms(1) find_request_Some [OF assms(2)] by (simp_all add: request_inv_def)
  with assms(3,4) show ?thesis by (metis unique_byD)
qed

lemma update_requests_holders:
  assumes "tame_update P f"
  shows "active_holders (update_requests P f d) \<subseteq> active_holders d"
proof
  fix h
  assume "h \<in> active_holders (update_requests P f d)"
  then obtain r where r: "r \<in> set (db_requests d)" "rr_state (if P r then f r else r) = Active"
    "h = (rr_request_id (if P r then f r else r), rr_policy (if P r then f r else r),
          resource_claims_for_request d (rr_request_id (if P r then f r else r)))"
    by (auto simp: active_holders_def update_requests_def set_sql_update
          resource_claims_for_request_def)
  have "rr_state r = Active" "rr_request_id (if P r then f r else r) = rr_request_id r"
    "rr_policy (if P r then f r else r) = rr_policy r"
    using r(2) assms by (auto simp: tame_update_def split: if_splits)
  with r show "h \<in> active_holders d" by (auto simp: active_holders_def)
qed

lemma update_requests_benign: "tame_update P f \<Longrightarrow> requests_benign d (update_requests P f d)"
  unfolding requests_benign_def
  by (intro conjI impI update_requests_holders update_requests_inv) (auto simp: tame_update_def)

lemma find_request_update:
  "(\<And>r. rr_request_id (f r) = rr_request_id r) \<Longrightarrow>
   find_request (update_requests P f d) q = map_option (\<lambda>r. if P r then f r else r) (find_request d q)"
  by (simp add: find_request_def update_requests_def sql_one_update)

lemma same_requests_simps [simp]:
  "same_requests d (update_workflow w g d)"
  "same_requests d (update_operation oid h d)"
  "same_requests d (update_step w i k d)"
  "same_requests d (update_capacity P f d)"
  "same_requests d (insert_event w s e t st m now d)"
  "same_requests d (delete_settled_admissions w d)"
  by (simp_all add: same_requests_def update_workflow_def update_operation_def update_step_def
        update_capacity_def insert_event_def delete_settled_admissions_def)

lemma same_requests_trans:
  "same_requests d d' \<Longrightarrow> same_requests d' d'' \<Longrightarrow> same_requests d d''"
  by (simp add: same_requests_def)

subsection \<open>Binding, releasing, quarantining and resolving let nobody in\<close>

lemma bind_benign:
  "bind_resource_request_attempt now q owner t d = Inr (d', x) \<Longrightarrow> requests_benign d d'"
  by (auto simp: bind_resource_request_attempt_def Let_def split: option.splits if_splits
        intro!: update_requests_benign) (auto simp: tame_update_def)

lemma release_benign:
  "release_resource_request now q owner d = Inr (d', x) \<Longrightarrow> requests_benign d d'"
  by (auto simp: release_resource_request_def Let_def split: option.splits if_splits
        intro!: update_requests_benign) (auto simp: tame_update_def)

lemma quarantine_benign:
  "quarantine_resource_request now q owner reason d = Inr (d', x) \<Longrightarrow> requests_benign d d'"
  by (auto simp: quarantine_resource_request_def Let_def split: option.splits if_splits
        intro!: update_requests_benign) (auto simp: tame_update_def)

lemma resolve_benign:
  assumes "resolve_quarantined_resource_request now q owner evidence d = Inr (d', x)"
  shows "requests_benign d d'"
proof -
  let ?d1 = "update_requests
                 (\<lambda>r. rr_request_id r = q \<and> rr_owner_token r = owner \<and> rr_state r = Quarantined)
                 (\<lambda>r. r\<lparr>rr_state := Released, rr_reason := Some ''resolved'',
                        rr_resolved_evidence := Some (take 2000 evidence), rr_updated_at := now\<rparr>) d"
  have "requests_benign d ?d1"
    by (rule update_requests_benign) (auto simp: tame_update_def)
  moreover have "same_requests ?d1 d'"
    using assms
    by (auto simp: resolve_quarantined_resource_request_def Let_def split: option.splits if_splits prod.splits)
       (auto simp: same_requests_def update_workflow_def insert_event_def delete_settled_admissions_def)
  ultimately show ?thesis
    by (blast intro: requests_benign_trans same_requests_benign)
qed

subsection \<open>Making room and inserting let nobody in\<close>

lemma claims_delete_requests:
  assumes "\<forall>r \<in> set (db_requests d). P r \<longrightarrow> rr_request_id r \<noteq> q"
  shows "resource_claims_for_request (delete_requests P d) q = resource_claims_for_request d q"
proof -
  have "filter (\<lambda>c. cl_request_id c = q) (sql_delete (\<lambda>c. cl_request_id c \<in> rr_request_id ` {r \<in> set (db_requests d). P r}) (db_claims d))
      = filter (\<lambda>c. cl_request_id c = q) (db_claims d)"
    unfolding sql_delete_def filter_filter using assms by (intro filter_cong) auto
  then show ?thesis
    by (simp add: resource_claims_for_request_def delete_requests_def Let_def)
qed

lemma delete_requests_benign:
  assumes inv: "request_inv d" and P: "\<forall>r \<in> set (db_requests d). P r \<longrightarrow> rr_state r = Released"
  shows "requests_benign d (delete_requests P d)"
proof -
  have ids: "rr_request_id s \<noteq> rr_request_id r"
    if "r \<in> set (db_requests d)" "\<not> P r" "s \<in> set (db_requests d)" "P s" for r s
    using that inv unique_byD [of rr_request_id "db_requests d" s r] by (auto simp: request_inv_def)
  have "request_inv (delete_requests P d)"
    using inv
    by (auto simp: request_inv_def delete_requests_def Let_def unique_by_delete image_iff) metis
  moreover have "active_holders (delete_requests P d) \<subseteq> active_holders d"
  proof
    fix h
    assume "h \<in> active_holders (delete_requests P d)"
    then obtain r where r: "r \<in> set (db_requests d)" "\<not> P r" "rr_state r = Active"
      "h = (rr_request_id r, rr_policy r, resource_claims_for_request (delete_requests P d) (rr_request_id r))"
      by (auto simp: active_holders_def) (auto simp: delete_requests_def Let_def)
    moreover have "resource_claims_for_request (delete_requests P d) (rr_request_id r)
        = resource_claims_for_request d (rr_request_id r)"
      using r ids by (intro claims_delete_requests) blast
    ultimately show "h \<in> active_holders d" by (auto simp: active_holders_def)
  qed
  ultimately show ?thesis by (simp add: requests_benign_def)
qed

lemma released_ticket_row:
  assumes "request_inv d" "r \<in> set (db_requests d)"
    "rr_ticket r \<in> set (take n (released_tickets (db_requests d)))"
  shows "rr_state r = Released"
proof -
  obtain s where "s \<in> set (db_requests d)" "rr_state s = Released" "rr_ticket s = rr_ticket r"
    using assms(3) by (auto simp: released_tickets_def dest!: in_set_takeD)
  with assms(1,2) show ?thesis
    using unique_byD [of rr_ticket "db_requests d" s r] by (auto simp: request_inv_def)
qed

lemma make_request_room_benign:
  assumes "request_inv d" "make_request_room limit d = Inr d'"
  shows "requests_benign d d'"
proof -
  have "requests_benign d (delete_requests (\<lambda>r. rr_ticket r \<in> set (take n (released_tickets (db_requests d)))) d)" for n
    using released_ticket_row [OF assms(1)] by (intro delete_requests_benign assms(1)) blast
  with assms(2) show ?thesis
    by (auto simp: make_request_room_def Let_def split: if_splits)
qed

lemma make_request_room_length:
  assumes "make_request_room limit d = Inr d'" "0 < limit"
  shows "length (db_requests d') < limit"
proof -
  have split: "length (sql_delete P rows) = length rows - sql_count P rows" for P and rows :: "request_row list"
    using sum_length_filter_compl [of P rows] by (simp add: sql_delete_def sql_count_def)
  have del: "length (db_requests (delete_requests P d)) = length (db_requests d) - sql_count P (db_requests d)" for P
    by (simp add: delete_requests_def Let_def split)
  show ?thesis
    using assms by (auto simp: make_request_room_def Let_def del split: if_splits)
qed

lemma make_request_room_ids:
  assumes "make_request_room limit d = Inr d'"
  shows "rr_request_id ` set (db_requests d') \<subseteq> rr_request_id ` set (db_requests d)"
  using assms by (auto simp: make_request_room_def Let_def delete_requests_def split: if_splits)

lemma insert_request_row:
  assumes "insert_request q owner cat w oid t now policy canonical d = Inr d'"
  obtains row where "db_requests d' = db_requests d @ [row]" "rr_request_id row = q" "rr_state row = Pending"
    "rr_owner_token row = owner" "rr_category row = cat" "rr_policy row = policy"
    "rr_ticket row = db_request_seq d" "policy \<noteq> []" "db_request_seq d' = Suc (db_request_seq d)"
    "db_claims d' = db_claims d @ map (\<lambda>c. \<lparr>cl_request_id = q, cl_claim = c\<rparr>) canonical"
  using assms
  by (auto simp: insert_request_def Let_def policy_insert_aborts_def split: if_splits)

lemma insert_request_claims_other:
  assumes "insert_request q owner cat w oid t now policy canonical d = Inr d'" "p \<noteq> q"
  shows "resource_claims_for_request d' p = resource_claims_for_request d p"
proof -
  have "filter (\<lambda>c. cl_request_id c = p) (map (\<lambda>c. \<lparr>cl_request_id = q, cl_claim = c\<rparr>) canonical) = []"
    using assms(2) by (auto simp: filter_empty_conv)
  then show ?thesis
    using assms(1) by (elim insert_request_row) (simp add: resource_claims_for_request_def)
qed

lemma insert_request_benign:
  assumes "insert_request q owner cat w oid t now policy canonical d = Inr d'" "request_inv d"
    "q \<notin> rr_request_id ` set (db_requests d)"
  shows "requests_benign d d'"
proof -
  obtain row where row: "db_requests d' = db_requests d @ [row]" "rr_request_id row = q"
    "rr_state row = Pending" "rr_policy row = policy" "rr_ticket row = db_request_seq d" "policy \<noteq> []"
    "db_request_seq d' = Suc (db_request_seq d)"
    "db_claims d' = db_claims d @ map (\<lambda>c. \<lparr>cl_request_id = q, cl_claim = c\<rparr>) canonical"
    using assms(1) by (rule insert_request_row)
  have "request_inv d'"
    using assms(2,3) row by (auto simp: request_inv_def intro!: unique_by_insert)
  moreover have "active_holders d' \<subseteq> active_holders d"
  proof
    fix h
    assume "h \<in> active_holders d'"
    then obtain r where "r \<in> set (db_requests d)" "rr_state r = Active"
      "h = (rr_request_id r, rr_policy r, resource_claims_for_request d' (rr_request_id r))"
      using row by (auto simp: active_holders_def)
    moreover from this have "rr_request_id r \<noteq> q" using assms(3) by auto
    ultimately show "h \<in> active_holders d"
      using insert_request_claims_other [OF assms(1)] by (auto simp: active_holders_def)
  qed
  ultimately show ?thesis by (simp add: requests_benign_def)
qed

subsection \<open>Admission\<close>

text \<open>What keeps a request with these claims and this ticket waiting.\<close>

definition blocks :: "db \<Rightarrow> resource_claim list \<Rightarrow> string \<Rightarrow> nat \<Rightarrow> request_row \<Rightarrow> bool" where
  "blocks d canonical policy ticket r \<longleftrightarrow>
     \<not> (rr_state r = Pending \<and> ticket < rr_ticket r) \<and>
     (rr_state r \<in> {Active, Pending} \<and> rr_policy r \<noteq> policy \<or>
      claim_sets_conflict canonical (resource_claims_for_request d (rr_request_id r)))"

lemma conflict_scan_None: "conflict_scan d c p t rows = None \<longleftrightarrow> (\<forall>r \<in> set rows. \<not> blocks d c p t r)"
  by (induction rows) (auto simp: blocks_def)

lemma conflict_scan_blocking:
  "conflict_scan d c p t (blocking_requests d q) = None \<longleftrightarrow>
   (\<forall>r \<in> set (db_requests d). rr_request_id r \<noteq> q \<and> rr_state r \<noteq> Released \<longrightarrow> \<not> blocks d c p t r)"
proof -
  have "rr_state r \<in> {Pending, Active, Quarantined} \<longleftrightarrow> rr_state r \<noteq> Released" for r :: request_row
    by (cases "rr_state r") auto
  then show ?thesis by (auto simp: conflict_scan_None blocking_requests_def)
qed

lemma activate_request_ok:
  assumes "request_inv d" "find_request d q = Some row" "rr_state row = Pending" "rr_policy row = p"
    "conflict_scan d c p (rr_ticket row) (blocking_requests d q) = None"
  shows "activate_request q now d =
    Inr (update_requests (\<lambda>r. rr_request_id r = q \<and> rr_state r = Pending)
           (\<lambda>r. r\<lparr>rr_state := Active, rr_reason := None, rr_updated_at := now\<rparr>) d)"
proof -
  have "p \<noteq> []"
    using assms(1,3,4) find_request_Some [OF assms(2)] by (auto simp: request_inv_def)
  moreover have "rr_policy r = p"
    if "r \<in> set (db_requests d)" "rr_state r = Active" "rr_request_id r \<noteq> q" for r
    using that assms(5) by (auto simp: conflict_scan_blocking blocks_def)
  moreover have "rr_policy r = p" if "r \<in> set (db_requests d)" "rr_request_id r = q" for r
    using request_row_unique [OF assms(1,2) that] assms(4) by simp
  ultimately have "\<not> policy_activate_aborts d r (r\<lparr>rr_state := Active, rr_reason := None, rr_updated_at := now\<rparr>)"
    if "r \<in> set (db_requests d)" "rr_request_id r = q" for r
    using that unfolding policy_activate_aborts_def by auto
  then show ?thesis
    unfolding activate_request_def Let_def sql_exists_iff by auto
qed

lemma activation_holders:
  assumes "request_inv d" "find_request d q = Some row"
  shows "active_holders (update_requests (\<lambda>r. rr_request_id r = q \<and> rr_state r = Pending)
           (\<lambda>r. r\<lparr>rr_state := Active, rr_reason := None, rr_updated_at := now\<rparr>) d)
    \<subseteq> insert (q, rr_policy row, resource_claims_for_request d q) (active_holders d)"
proof -
  have "r = row" if "r \<in> set (db_requests d)" "rr_request_id r = q" for r
    using assms that by (rule request_row_unique)
  then show ?thesis
    by (auto simp: active_holders_def)
       (auto simp: update_requests_def set_sql_update image_iff split: if_splits)
qed

lemma activation_inv:
  assumes "request_inv d"
  shows "request_inv (update_requests (\<lambda>r. rr_request_id r = q \<and> rr_state r = Pending)
           (\<lambda>r. r\<lparr>rr_state := Active, rr_reason := None, rr_updated_at := now\<rparr>) d)"
  using assms by (intro update_requests_inv) auto

definition admits_one :: "db \<Rightarrow> db \<Rightarrow> bool" where
  "admits_one d d' \<longleftrightarrow> request_inv d' \<and> (active_holders d' \<subseteq> active_holders d \<or>
     (\<exists>h. active_holders d' \<subseteq> insert h (active_holders d) \<and>
          (\<forall>g \<in> active_holders d'. g \<noteq> h \<longrightarrow> holders_compatible h g)))"

lemma benign_admits_one: "requests_benign d d' \<Longrightarrow> request_inv d \<Longrightarrow> admits_one d d'"
  by (auto simp: admits_one_def requests_benign_def)

lemma benign_then_admits:
  assumes "requests_benign d d1" "admits_one d1 d2"
  shows "admits_one d d2"
  using assms unfolding admits_one_def requests_benign_def by blast

lemma settle_request_cases:
  assumes "request_inv d" "settle_request q owner cat canonical now policy d = Inr (d', a)"
  obtains (kept) "d' = d" "res_admitted a \<longrightarrow> (\<exists>row. find_request d q = Some row \<and> rr_state row = Active)"
  | (waits) row reason where "find_request d q = Some row" "rr_state row = Pending"
      "conflict_scan d canonical policy (rr_ticket row) (blocking_requests d q) = Some reason"
      "d' = update_requests (\<lambda>r. rr_request_id r = q)
                   (\<lambda>r. r\<lparr>rr_reason := Some reason, rr_updated_at := now\<rparr>) d" "\<not> res_admitted a"
  | (admitted) row where "find_request d q = Some row" "rr_state row = Pending" "rr_policy row = policy"
      "resource_claims_for_request d q = canonical"
      "conflict_scan d canonical policy (rr_ticket row) (blocking_requests d q) = None"
      "d' = update_requests (\<lambda>r. rr_request_id r = q \<and> rr_state r = Pending)
           (\<lambda>r. r\<lparr>rr_state := Active, rr_reason := None, rr_updated_at := now\<rparr>) d" "res_admitted a"
proof -
  obtain row where row: "find_request d q = Some row" "resource_claims_for_request d q = canonical"
    using assms(2) by (auto simp: settle_request_def split: option.splits if_splits)
  show ?thesis
  proof (cases "rr_policy row = policy \<and> rr_state row = Pending")
    case False
    with row assms(2) have "d' = d" "res_admitted a \<longrightarrow> rr_state row = Active"
      by (cases "rr_state row"; auto simp: settle_request_def Let_def split: if_splits)+
    with row show ?thesis using kept by blast
  next
    case True
    show ?thesis
    proof (cases "conflict_scan d canonical policy (rr_ticket row) (blocking_requests d q)")
      case None
      with True row assms activate_request_ok [OF assms(1) row(1), of policy canonical now] show ?thesis
        by (intro admitted [OF row(1)]) (auto simp: settle_request_def Let_def split: if_splits)
    next
      case (Some reason)
      with True row assms(2) show ?thesis
        by (intro waits [OF row(1)]) (auto simp: settle_request_def Let_def split: if_splits)
    qed
  qed
qed

lemma settle_request_admits_one:
  assumes "request_inv d" "settle_request q owner cat canonical now policy d = Inr (d', a)"
  shows "admits_one d d'"
  using assms
proof (cases rule: settle_request_cases)
  case kept
  with assms(1) show ?thesis by (simp add: admits_one_def)
next
  case (waits row reason)
  then show ?thesis
    using assms(1) by (auto simp: tame_update_def intro!: benign_admits_one update_requests_benign)
next
  case (admitted row)
  have "holders_compatible (q, policy, canonical) g" if "g \<in> active_holders d" "fst g \<noteq> q" for g
    using that admitted(5) by (auto simp: active_holders_def conflict_scan_blocking blocks_def holders_compatible_def)
  moreover have "g = (q, policy, canonical)" if "g \<in> active_holders d" "fst g = q" for g
    using that admitted request_row_unique [OF assms(1) admitted(1)]
    by (auto simp: active_holders_def)
  ultimately have "\<forall>g \<in> active_holders d. g \<noteq> (q, policy, canonical) \<longrightarrow> holders_compatible (q, policy, canonical) g"
    by blast
  moreover have "active_holders d' \<subseteq> insert (q, policy, canonical) (active_holders d)"
    using activation_holders [OF assms(1) admitted(1), of now] admitted by simp
  ultimately show ?thesis
    unfolding admits_one_def using admitted(6) activation_inv [OF assms(1)] by blast
qed

lemma find_request_None: "find_request d q = None \<longleftrightarrow> q \<notin> rr_request_id ` set (db_requests d)"
  by (auto simp: find_request_def)

lemma reserve_cases:
  assumes "request_inv d"
    "reserve_resource_claims limit policy now q0 owner0 claims cat0 w oid t d = Inr (d', a)"
  obtains d1 where "requests_benign d d1" "request_inv d1"
    "find_request d (py_strip q0) \<noteq> None \<longrightarrow> d1 = d"
    "find_request d (py_strip q0) = None \<longrightarrow> (\<exists>d0. make_request_room limit d = Inr d0 \<and>
       insert_request (py_strip q0) (py_strip owner0) (py_strip cat0) w oid t now policy
         (canonical_claims claims) d0 = Inr d1)"
    "settle_request (py_strip q0) (py_strip owner0) (py_strip cat0) (canonical_claims claims) now policy d1
       = Inr (d', a)"
proof (cases "find_request d (py_strip q0)")
  case (Some row)
  with assms show ?thesis
    by (intro that [of d]) (auto simp: reserve_resource_claims_def Let_def split: if_splits)
next
  case None
  with assms(2) obtain d0 d1 where d0: "make_request_room limit d = Inr d0" and
    d1: "insert_request (py_strip q0) (py_strip owner0) (py_strip cat0) w oid t now policy
         (canonical_claims claims) d0 = Inr d1" and
    settle: "settle_request (py_strip q0) (py_strip owner0) (py_strip cat0) (canonical_claims claims) now policy d1
       = Inr (d', a)"
    by (auto simp: reserve_resource_claims_def Let_def split: if_splits sum.splits)
  have "requests_benign d d0" using assms(1) d0 by (rule make_request_room_benign)
  moreover have "requests_benign d0 d1"
    using d1 assms(1) \<open>requests_benign d d0\<close> make_request_room_ids [OF d0] None
    by (intro insert_request_benign [OF d1]) (auto simp: requests_benign_def find_request_None)
  ultimately have "requests_benign d d1" by (rule requests_benign_trans)
  moreover from this assms(1) have "request_inv d1" by (simp add: requests_benign_def)
  ultimately show ?thesis using None d0 d1 settle by (intro that [of d1]) auto
qed

lemma reserve_admits_one:
  assumes "request_inv d"
    "reserve_resource_claims limit policy now q0 owner0 claims cat0 w oid t d = Inr (d', a)"
  shows "admits_one d d'"
proof -
  obtain d1 where "requests_benign d d1" "request_inv d1"
    "settle_request (py_strip q0) (py_strip owner0) (py_strip cat0) (canonical_claims claims) now policy d1
       = Inr (d', a)"
    using assms by (rule reserve_cases)
  then show ?thesis by (metis benign_then_admits settle_request_admits_one)
qed

text \<open>An example: one active holder of a subtree, one pending request for a file elsewhere.\<close>

definition example_request :: "nat \<Rightarrow> string \<Rightarrow> claim_state \<Rightarrow> request_row" where
  "example_request ticket q state =
     \<lparr>rr_ticket = ticket, rr_request_id = q, rr_workflow_id = None, rr_operation_id = None,
      rr_attempt_token = None, rr_owner_token = ''owner'', rr_category = ''edit'', rr_state = state,
      rr_reason = None, rr_created_at = 0, rr_updated_at = 0, rr_resolved_evidence = None, rr_policy = ''p1''\<rparr>"

definition example_path :: "string \<Rightarrow> claim_scope \<Rightarrow> resource_claim" where
  "example_path key scope = \<lparr>rc_kind = ''fs'', rc_key = key, rc_mode = Write, rc_scope = scope\<rparr>"

definition example_db :: "claim_state \<Rightarrow> db" where
  "example_db state = empty_db\<lparr>
     db_requests := [example_request 1 ''q1'' state, example_request 2 ''q2'' Pending],
     db_claims := [\<lparr>cl_request_id = ''q1'', cl_claim = example_path ''/srv/app'' Subtree\<rparr>,
                   \<lparr>cl_request_id = ''q2'', cl_claim = example_path ''/srv/log'' Exact\<rparr>],
     db_request_seq := 3\<rparr>"

lemma example_inv: "request_inv (example_db Active)" "request_inv (example_db Quarantined)"
  by code_simp+

lemma example_strip [simp]: "py_strip ''q1'' = ''q1''" "py_strip ''q2'' = ''q2''" "py_strip ''q3'' = ''q3''"
  "py_strip ''owner'' = ''owner''" "py_strip ''edit'' = ''edit''"
  by code_simp+

lemma canonical_claims_single [simp]: "canonical_claims [c] = [c]"
  by (simp add: canonical_claims_def)

lemma example_find:
  "find_request (example_db s) ''q1'' = Some (example_request 1 ''q1'' s)"
  "find_request (example_db s) ''q2'' = Some (example_request 2 ''q2'' Pending)"
  "find_request (example_db s) ''q3'' = None"
  by (simp_all add: find_request_def example_db_def example_request_def sql_one_def del: sql_one_None)

lemma example_claims:
  "resource_claims_for_request (example_db s) ''q1'' = [example_path ''/srv/app'' Subtree]"
  "resource_claims_for_request (example_db s) ''q2'' = [example_path ''/srv/log'' Exact]"
  by (simp_all add: resource_claims_for_request_def example_db_def)

lemma example_size:
  "claims_size [example_path ''/srv/log'' Exact] \<le> 65536" "claims_size [example_path ''/srv/app/x'' Exact] \<le> 65536"
  "claims_size [example_path ''/srv/app'' Subtree] \<le> 65536"
  by (simp_all add: claims_size_def utf8_size_def example_path_def)

lemma not_error_Inr: "\<not> is_error r \<Longrightarrow> \<exists>x. r = Inr x"
  by (cases r) auto

text \<open>C2. A polled request is admitted exactly when nothing stands in its way. For a pending
  request of this owner, category, policy and claims, \<open>reserve_resource_claims\<close> answers admitted
  exactly when no other request that is active or quarantined, or pending with an older ticket,
  conflicts with its claims (or, being active or pending, runs under another policy). So a later
  request never overtakes an older conflicting one, and the oldest never waits for a younger.\<close>

theorem reserve_admits_iff:
  assumes "request_inv d" "find_request d (py_strip q) = Some row" "rr_state row = Pending"
    "reserve_resource_claims limit policy now q owner claims category w oid t d = Inr (d', a)"
    "rr_policy row = policy"
  shows "res_admitted a \<longleftrightarrow> (\<forall>r \<in> set (db_requests d). rr_request_id r \<noteq> py_strip q \<longrightarrow>
    rr_state r = Released \<or> (rr_state r = Pending \<and> rr_ticket row < rr_ticket r) \<or>
    ((rr_state r = Quarantined \<or> rr_policy r = policy) \<and>
     \<not> claim_sets_conflict (canonical_claims claims) (resource_claims_for_request d (rr_request_id r))))"
proof -
  have settle: "settle_request (py_strip q) (py_strip owner) (py_strip category) (canonical_claims claims)
      now policy d = Inr (d', a)"
    using assms(2,4) by (auto simp: reserve_resource_claims_def Let_def split: if_splits)
  let ?scan = "conflict_scan d (canonical_claims claims) policy (rr_ticket row) (blocking_requests d (py_strip q))"
  have "res_admitted a \<longleftrightarrow> ?scan = None"
  proof (cases ?scan)
    case None
    with settle assms(2,3,5) activate_request_ok [OF assms(1-3,5) None, of now] show ?thesis
      by (auto simp: settle_request_def Let_def split: if_splits)
  next
    case (Some reason)
    with settle assms(2,3,5) show ?thesis
      by (auto simp: settle_request_def Let_def split: if_splits)
  qed
  moreover have "\<not> (rr_state r \<noteq> Released \<and> blocks d (canonical_claims claims) policy (rr_ticket row) r) \<longleftrightarrow>
    rr_state r = Released \<or> (rr_state r = Pending \<and> rr_ticket row < rr_ticket r) \<or>
    ((rr_state r = Quarantined \<or> rr_policy r = policy) \<and>
     \<not> claim_sets_conflict (canonical_claims claims) (resource_claims_for_request d (rr_request_id r)))" for r
    by (cases "rr_state r") (auto simp: blocks_def)
  ultimately show ?thesis unfolding conflict_scan_blocking by blast
qed

subsection \<open>Polling again, new requests, bounded storage\<close>

lemma canonical_claims_sorted: "sort_key claim_sort_key (canonical_claims claims) = canonical_claims claims"
  by (simp add: canonical_claims_def sort_key_id_if_sorted)

lemma insert_request_claims_new:
  assumes "insert_request q owner cat w oid t now policy (canonical_claims claims) d = Inr d'"
    "request_inv d" "find_request d q = None"
  shows "resource_claims_for_request d' q = canonical_claims claims"
proof -
  have "filter (\<lambda>c. cl_request_id c = q) (db_claims d) = []"
    using assms(2,3) by (auto simp: request_inv_def find_request_None filter_empty_conv)
  moreover have "map cl_claim (filter (\<lambda>c. cl_request_id c = q)
      (map (\<lambda>c. \<lparr>cl_request_id = q, cl_claim = c\<rparr>) cs)) = cs" for cs
    by (induction cs) simp_all
  ultimately show ?thesis
    using assms(1)
    by (elim insert_request_row) (simp add: resource_claims_for_request_def canonical_claims_sorted)
qed

lemma find_request_inserted:
  assumes "insert_request q owner cat w oid t now policy canonical d = Inr d'" "find_request d q = None"
  obtains row where "find_request d' q = Some row" "rr_state row = Pending" "rr_owner_token row = owner"
    "rr_category row = cat" "rr_policy row = policy" "rr_ticket row = db_request_seq d"
proof -
  have "find P (xs @ [x]) = Some x" if "find P xs = None" "P x" for P and xs :: "request_row list" and x
    using that by (induction xs) (auto split: if_splits)
  then show ?thesis
    using assms that by (elim insert_request_row) (fastforce simp: find_request_def sql_one_def)
qed

lemma settle_request_total:
  assumes "request_inv d" "find_request d q = Some row" "rr_owner_token row = owner" "rr_category row = cat"
    "resource_claims_for_request d q = canonical"
  shows "\<exists>d' a. settle_request q owner cat canonical now policy d = Inr (d', a)"
proof (cases "rr_policy row = policy \<and> rr_state row = Pending \<and>
    conflict_scan d canonical policy (rr_ticket row) (blocking_requests d q) = None")
  case True
  with assms activate_request_ok [OF assms(1,2), of policy canonical now] show ?thesis
    by (simp add: settle_request_def Let_def)
next
  case False
  with assms show ?thesis
    by (cases "rr_state row") (auto simp: settle_request_def Let_def split: option.splits)
qed

lemma settle_pending_state:
  assumes "request_inv d" "settle_request q owner cat canonical now policy d = Inr (d', a)"
    "find_request d q = Some row" "rr_state row = Pending"
  shows "\<exists>row'. find_request d' q = Some row' \<and> rr_owner_token row' = rr_owner_token row \<and>
    rr_category row' = rr_category row \<and> rr_policy row' = rr_policy row \<and>
    rr_state row' = (if res_admitted a then Active else Pending) \<and>
    resource_claims_for_request d' = resource_claims_for_request d"
  using assms(1,2)
proof (cases rule: settle_request_cases)
  case kept
  with assms(3,4) show ?thesis by auto
qed (use assms(3,4) find_request_Some [OF assms(3)] in \<open>auto simp: find_request_update\<close>)

text \<open>A new request is always taken on: with arguments inside the limits, an existing workflow
  and operation and a policy fingerprint, the call fails only when the record quota is exhausted by
  unreleased requests. Otherwise it answers, neither trigger aborts, and the request is stored.\<close>

theorem reserve_new_request:
  assumes "request_inv d" "find_request d (py_strip q) = None" "policy \<noteq> []"
    "request_parents_exist d w oid" "make_request_room limit d = Inr d0"
    "py_strip q \<noteq> []" "length (py_strip q) \<le> 200" "py_strip owner \<noteq> []" "length (py_strip owner) \<le> 200"
    "py_strip category \<noteq> []" "length (py_strip category) \<le> 80" "claims \<noteq> []"
    "length (canonical_claims claims) \<le> 256" "claims_size (canonical_claims claims) \<le> 65536"
  shows "\<exists>d' a row. reserve_resource_claims limit policy now q owner claims category w oid t d = Inr (d', a)
    \<and> find_request d' (py_strip q) = Some row \<and> rr_owner_token row = py_strip owner
    \<and> resource_claims_for_request d' (py_strip q) = canonical_claims claims
    \<and> rr_state row = (if res_admitted a then Active else Pending)"
proof -
  have ben: "requests_benign d d0" using assms(1,5) by (rule make_request_room_benign)
  have none: "find_request d0 (py_strip q) = None"
    using make_request_room_ids [OF assms(5)] assms(2) by (auto simp: find_request_None)
  have "request_parents_exist d0 w oid"
    using assms(4,5)
    by (auto simp: make_request_room_def request_parents_exist_def find_workflow_def find_operation_def
          delete_requests_def Let_def split: if_splits option.splits)
  then obtain d1 where ins: "insert_request (py_strip q) (py_strip owner) (py_strip category) w oid t now policy
      (canonical_claims claims) d0 = Inr d1"
    using assms(3) by (auto simp: insert_request_def policy_insert_aborts_def Let_def)
  obtain row where row: "find_request d1 (py_strip q) = Some row" "rr_state row = Pending"
    "rr_owner_token row = py_strip owner" "rr_category row = py_strip category" "rr_policy row = policy"
    using ins none by (rule find_request_inserted)
  have inv0: "request_inv d0" using ben assms(1) by (simp add: requests_benign_def)
  have inv1: "request_inv d1"
    using insert_request_benign [OF ins inv0] none inv0 by (auto simp: requests_benign_def find_request_None)
  have claims: "resource_claims_for_request d1 (py_strip q) = canonical_claims claims"
    using ins inv0 none by (rule insert_request_claims_new)
  obtain d' a where settle: "settle_request (py_strip q) (py_strip owner) (py_strip category)
      (canonical_claims claims) now policy d1 = Inr (d', a)"
    using settle_request_total [OF inv1 row(1,3,4) claims] by blast
  have "canonical_claims claims \<noteq> []"
    using assms(12) by (auto simp: canonical_claims_def dest: arg_cong [of _ _ set])
  with assms(2,5-14) ins settle have
    "reserve_resource_claims limit policy now q owner claims category w oid t d = Inr (d', a)"
    by (simp add: reserve_resource_claims_def Let_def)
  moreover obtain row' where "find_request d' (py_strip q) = Some row'" "rr_owner_token row' = py_strip owner"
    "resource_claims_for_request d' (py_strip q) = canonical_claims claims"
    "rr_state row' = (if res_admitted a then Active else Pending)"
    using settle_pending_state [OF inv1 settle row(1,2)] row(3) claims by auto
  ultimately show ?thesis by blast
qed

lemma example_reserve_new:
  "\<exists>d a. reserve_resource_claims 10 ''p1'' 7 ''q3'' ''owner'' [example_path ''/srv/app/x'' Exact] ''edit''
     None None None (example_db Quarantined) = Inr (d, a)"
proof -
  let ?c = "[example_path ''/srv/app/x'' Exact]" and ?d = "example_db Quarantined"
  have room: "make_request_room 10 ?d = Inr ?d"
    by (simp add: make_request_room_def example_db_def)
  have none: "find_request ?d ''q3'' = None" by (simp add: example_find)
  obtain d1 where ins: "insert_request ''q3'' ''owner'' ''edit'' None None None 7 ''p1'' (canonical_claims ?c) ?d = Inr d1"
    by (simp add: insert_request_def policy_insert_aborts_def request_parents_exist_def)
  have inv: "request_inv d1"
    using insert_request_benign [OF ins example_inv(2)] none example_inv(2)
    by (auto simp: requests_benign_def find_request_None)
  obtain row where "find_request d1 ''q3'' = Some row" "rr_owner_token row = ''owner''" "rr_category row = ''edit''"
    using ins none by (rule find_request_inserted)
  with settle_request_total [OF inv, of "''q3''" row "''owner''" "''edit''" "?c" 7 "''p1''"]
    insert_request_claims_new [OF ins example_inv(2) none] ins room none example_size(2)
  show ?thesis by (simp add: reserve_resource_claims_def)
qed

theorem reserve_new_request_witness:
  "\<exists>d a row. reserve_resource_claims 10 ''p1'' 7 ''q3'' ''owner'' [example_path ''/srv/app/x'' Exact] ''edit''
     None None None (example_db Quarantined) = Inr (d, a) \<and> find_request d ''q3'' = Some row"
proof -
  have "make_request_room 10 (example_db Quarantined) = Inr (example_db Quarantined)"
    by (simp add: make_request_room_def example_db_def)
  from reserve_new_request [OF example_inv(2) _ _ _ this, of "''q3''" "''p1''" None None "''owner''" "''edit''"
      "[example_path ''/srv/app/x'' Exact]" 7 None] example_size(2)
  show ?thesis by (auto simp: example_find request_parents_exist_def)
qed

lemma settle_admitted_again:
  assumes "request_inv d" "settle_request q owner cat canonical now policy d = Inr (d', a)" "res_admitted a"
  shows "settle_request q owner cat canonical now' policy d' = Inr (d', a)"
proof -
  obtain row where row: "find_request d q = Some row" "rr_owner_token row = owner" "rr_category row = cat"
    "resource_claims_for_request d q = canonical" "rr_policy row = policy"
    "a = \<lparr>res_admitted = True, res_id = q, res_state = Active, res_reason = None\<rparr>"
    using assms(2,3)
    by (auto simp: settle_request_def Let_def split: option.splits if_splits sum.splits)
  have "\<exists>row'. find_request d' q = Some row' \<and> rr_owner_token row' = owner \<and> rr_category row' = cat \<and>
    rr_policy row' = policy \<and> rr_state row' = Active \<and> resource_claims_for_request d' q = canonical"
    using assms(1,2)
  proof (cases rule: settle_request_cases)
    case kept
    with row assms(3) show ?thesis by auto
  qed (use row assms(3) find_request_Some [OF row(1)] in \<open>auto simp: find_request_update\<close>)
  with row show ?thesis by (auto simp: settle_request_def Let_def)
qed

lemma example_reserve:
  "\<exists>d a. reserve_resource_claims 10 ''p1'' 7 ''q2'' ''owner'' [example_path ''/srv/log'' Exact] ''edit''
     None None None (example_db Active) = Inr (d, a)"
  using settle_request_total [OF example_inv(1) example_find(2) _ _ example_claims(2), of "''owner''" "''edit''" 7 "''p1''"]
    example_size(1)
  by (simp add: reserve_resource_claims_def example_find example_request_def)

theorem reserve_admits_iff_witness:
  "\<exists>d a. reserve_resource_claims 10 ''p1'' 7 ''q2'' ''owner'' [example_path ''/srv/log'' Exact] ''edit''
     None None None (example_db Active) = Inr (d, a) \<and> res_admitted a"
proof -
  obtain d a where res: "reserve_resource_claims 10 ''p1'' 7 ''q2'' ''owner'' [example_path ''/srv/log'' Exact]
     ''edit'' None None None (example_db Active) = Inr (d, a)"
    using example_reserve by blast
  have row: "find_request (example_db Active) (py_strip ''q2'') = Some (example_request 2 ''q2'' Pending)"
    by (simp add: example_find)
  have "res_admitted a"
    by (subst reserve_admits_iff [OF example_inv(1) row _ res]) code_simp+
  with res show ?thesis by blast
qed

text \<open>Polling is idempotent: once a request is admitted, the same call answers the same again and
  changes nothing, at any later time.\<close>

theorem reserve_repeat:
  assumes "request_inv d" "reserve_resource_claims limit policy now q owner claims category w oid t d = Inr (d', a)"
    "res_admitted a"
  shows "reserve_resource_claims limit policy now' q owner claims category w oid t d' = Inr (d', a)"
proof -
  obtain d1 where d1: "request_inv d1" "settle_request (py_strip q) (py_strip owner) (py_strip category)
      (canonical_claims claims) now policy d1 = Inr (d', a)"
    using assms(1,2) by (rule reserve_cases)
  have again: "settle_request (py_strip q) (py_strip owner) (py_strip category)
      (canonical_claims claims) now' policy d' = Inr (d', a)"
    using d1 assms(3) by (rule settle_admitted_again)
  then have "find_request d' (py_strip q) \<noteq> None"
    by (auto simp: settle_request_def split: option.splits)
  with again assms(2) show ?thesis
    by (auto simp: reserve_resource_claims_def Let_def split: if_splits)
qed

theorem reserve_repeat_witness:
  "\<exists>d a. reserve_resource_claims 10 ''p1'' 9 ''q1'' ''owner'' [example_path ''/srv/app'' Subtree] ''edit''
     None None None d = Inr (d, a) \<and> res_admitted a"
proof -
  have "settle_request ''q1'' ''owner'' ''edit'' [example_path ''/srv/app'' Subtree] 7 ''p1'' (example_db Active)
      = Inr (example_db Active, \<lparr>res_admitted = True, res_id = ''q1'', res_state = Active, res_reason = None\<rparr>)"
    by (simp add: settle_request_def example_find example_claims) (simp add: example_request_def)
  then have "reserve_resource_claims 10 ''p1'' 7 ''q1'' ''owner'' [example_path ''/srv/app'' Subtree] ''edit''
     None None None (example_db Active)
      = Inr (example_db Active, \<lparr>res_admitted = True, res_id = ''q1'', res_state = Active, res_reason = None\<rparr>)"
    using example_size(3) by (simp add: reserve_resource_claims_def example_find)
  from reserve_repeat [OF example_inv(1) this, of 9] show ?thesis by fastforce
qed

lemma make_request_room_keeps:
  assumes "request_inv d" "make_request_room limit d = Inr d0" "r \<in> set (db_requests d)" "rr_state r \<noteq> Released"
  shows "r \<in> set (db_requests d0)" "resource_claims_for_request d0 (rr_request_id r) = resource_claims_for_request d (rr_request_id r)"
proof -
  let ?P = "\<lambda>n x. rr_ticket x \<in> set (take n (released_tickets (db_requests d)))"
  have keep: "\<not> ?P n r" for n using released_ticket_row [OF assms(1,3)] assms(4) by blast
  have ids: "\<forall>s \<in> set (db_requests d). ?P n s \<longrightarrow> rr_request_id s \<noteq> rr_request_id r" for n
    using assms(1,3) keep unique_byD [of rr_request_id "db_requests d"]
    by (auto simp: request_inv_def)
  have "r \<in> set (db_requests (delete_requests (?P n) d))" for n
    using keep assms(3) by (simp add: delete_requests_def Let_def)
  then show "r \<in> set (db_requests d0)"
    using assms(2,3) by (auto simp: make_request_room_def Let_def split: if_splits)
  show "resource_claims_for_request d0 (rr_request_id r) = resource_claims_for_request d (rr_request_id r)"
    using assms(2) claims_delete_requests [OF ids]
    by (auto simp: make_request_room_def Let_def split: if_splits)
qed

text \<open>Quarantine fences: as long as a request is quarantined, no other request that conflicts
  with its claims is newly admitted, whatever its owner or policy.\<close>

theorem quarantine_fences:
  assumes "request_inv d" "r \<in> set (db_requests d)" "rr_state r = Quarantined" "rr_request_id r \<noteq> py_strip q"
    "claim_sets_conflict (canonical_claims claims) (resource_claims_for_request d (rr_request_id r))"
    "\<forall>row. find_request d (py_strip q) = Some row \<longrightarrow> rr_state row \<noteq> Active"
    "reserve_resource_claims limit policy now q owner claims category w oid t d = Inr (d', a)"
  shows "\<not> res_admitted a"
proof -
  obtain d1 where "requests_benign d d1" and inv1: "request_inv d1" and old: "find_request d (py_strip q) \<noteq> None \<longrightarrow> d1 = d"
    and new: "find_request d (py_strip q) = None \<longrightarrow> (\<exists>d0. make_request_room limit d = Inr d0 \<and>
       insert_request (py_strip q) (py_strip owner) (py_strip category) w oid t now policy
         (canonical_claims claims) d0 = Inr d1)"
    and settle: "settle_request (py_strip q) (py_strip owner) (py_strip category) (canonical_claims claims)
       now policy d1 = Inr (d', a)"
    using assms(1,7) by (rule reserve_cases)
  have r1: "r \<in> set (db_requests d1) \<and>
      resource_claims_for_request d1 (rr_request_id r) = resource_claims_for_request d (rr_request_id r) \<and>
      (\<forall>row. find_request d1 (py_strip q) = Some row \<longrightarrow> rr_state row \<noteq> Active)"
  proof (cases "find_request d (py_strip q)")
    case None
    then obtain d0 where room: "make_request_room limit d = Inr d0" and
      ins: "insert_request (py_strip q) (py_strip owner) (py_strip category) w oid t now policy
         (canonical_claims claims) d0 = Inr d1" using new by blast
    have "find_request d0 (py_strip q) = None"
      using make_request_room_ids [OF room] None by (auto simp: find_request_None)
    with ins obtain row where "find_request d1 (py_strip q) = Some row" "rr_state row = Pending"
      by (rule find_request_inserted)
    moreover have "r \<in> set (db_requests d1)"
      using make_request_room_keeps [OF assms(1) room assms(2)] assms(3) ins by (auto elim: insert_request_row)
    ultimately show ?thesis
      using make_request_room_keeps [OF assms(1) room assms(2)] insert_request_claims_other [OF ins assms(4)] assms(3)
      by auto
  qed (use old assms(2,6) in auto)
  from inv1 settle show ?thesis
    by (cases rule: settle_request_cases) (use r1 assms(3-5) in \<open>auto simp: conflict_scan_blocking blocks_def\<close>)
qed

theorem quarantine_fences_witness:
  "\<exists>d a. reserve_resource_claims 10 ''p1'' 7 ''q3'' ''owner'' [example_path ''/srv/app/x'' Exact] ''edit''
     None None None (example_db Quarantined) = Inr (d, a) \<and> \<not> res_admitted a"
proof -
  obtain d a where res: "reserve_resource_claims 10 ''p1'' 7 ''q3'' ''owner'' [example_path ''/srv/app/x'' Exact]
      ''edit'' None None None (example_db Quarantined) = Inr (d, a)"
    using example_reserve_new by blast
  have "claim_sets_conflict (canonical_claims [example_path ''/srv/app/x'' Exact])
      (resource_claims_for_request (example_db Quarantined) (rr_request_id (example_request 1 ''q1'' Quarantined)))"
    by code_simp
  then have "\<not> res_admitted a"
    using quarantine_fences [OF example_inv(2) _ _ _ _ _ res, of "example_request 1 ''q1'' Quarantined"]
    by (simp add: example_find) (simp add: example_db_def example_request_def)
  with res show ?thesis by blast
qed

text \<open>Releasing is safe for the children of a request: the owner's release of an active or
  pending request ends it (and answers True) exactly when every capacity admission it started is
  released; otherwise the request is quarantined and the answer is False.\<close>

theorem release_waits_for_children:
  assumes "request_inv d" "find_request d q = Some row" "rr_owner_token row = owner" "rr_state row \<in> {Active, Pending}"
  shows "\<exists>d' row'. release_resource_request now q owner d = Inr (d', \<not> child_capacity_unreleased d q) \<and>
    find_request d' q = Some row' \<and>
    rr_state row' = (if child_capacity_unreleased d q then Quarantined else Released)"
  using assms find_request_Some [OF assms(2)]
  by (auto simp: release_resource_request_def find_request_update)

theorem release_waits_for_children_witness:
  "\<exists>d row. release_resource_request 5 ''q1'' ''owner'' (example_db Active) = Inr (d, True) \<and>
     find_request d ''q1'' = Some row \<and> rr_state row = Released"
proof -
  have none: "child_capacity_unreleased (example_db Active) ''q1'' = False"
    by (simp add: child_capacity_unreleased_def example_db_def empty_db_def)
  show ?thesis
    using release_waits_for_children [OF example_inv(1) example_find(1), of "''owner''" 5] none
    by (simp add: example_request_def)
qed

end
