(* ===== verification/Leases.thy ===== *)
theory Leases
  imports Workflow_Db
begin

text \<open>
  The workflow leases of \<open>core/workflow_store.py\<close>: at most one row per workflow, handed over only
  after it expired, renewed and released under its token. \<open>now_us\<close> is the clock in microseconds;
  the stored texts are cut to milliseconds. \<open>token\<close> stands for the fresh \<open>uuid4\<close> of an acquisition.
  The interface \<open>token_fenced\<close> is what every operation that takes a lease token promises.
\<close>

subsection \<open>Operations\<close>

definition lease_times :: "int \<Rightarrow> rat \<Rightarrow> (time \<times> time) res" where
  "lease_times now_us ttl_sec =
     (if \<not> (5 \<le> ttl_sec \<and> ttl_sec \<le> 300) then Inl (ToolError ''invalid_lease_ttl'')
      else Inr (now_us div 1000, (now_us + round_even (ttl_sec * 1000000)) div 1000))"

definition hand_over :: "string \<Rightarrow> string \<Rightarrow> time \<Rightarrow> time \<Rightarrow> lease_row \<Rightarrow> lease_row" where
  "hand_over owner_id token now expires_at l =
     l\<lparr>ls_owner_id := owner_id, ls_token := token, ls_acquired_at := now, ls_heartbeat_at := now,
       ls_expires_at := expires_at, ls_version := ls_version l + 1\<rparr>"

lemma hand_over_simps [simp]:
  "ls_workflow_id (hand_over ow t n e l) = ls_workflow_id l" "ls_token (hand_over ow t n e l) = t"
  "ls_expires_at (hand_over ow t n e l) = e"
  by (simp_all add: hand_over_def)

definition acquire_lease ::
  "int \<Rightarrow> string \<Rightarrow> string \<Rightarrow> string \<Rightarrow> rat \<Rightarrow> bool \<Rightarrow> db \<Rightarrow> (db \<times> lease_row) res" where
  "acquire_lease now_us token workflow_id owner_id0 ttl_sec allow_reentry d =
     (let owner_id = py_strip owner_id0 in
      if owner_id = [] \<or> 200 < length owner_id then Inl (ToolError ''invalid_lease_owner'')
      else case lease_times now_us ttl_sec of
        Inl e \<Rightarrow> Inl e
      | Inr (now, expires_at) \<Rightarrow>
        if find_workflow d workflow_id = None then Inl (ToolError ''workflow_not_found'')
        else case find_lease d workflow_id of
          None \<Rightarrow>
            if sql_exists (\<lambda>l. ls_token l = token) (db_leases d) then Inl IntegrityError
            else let row = \<lparr>ls_workflow_id = workflow_id, ls_owner_id = owner_id, ls_token = token,
                            ls_acquired_at = now, ls_heartbeat_at = now, ls_expires_at = expires_at,
                            ls_version = 1\<rparr>
                 in Inr (d\<lparr>db_leases := db_leases d @ [row]\<rparr>, row)
        | Some current \<Rightarrow>
            if now < ls_expires_at current
            then (if ls_owner_id current \<noteq> owner_id \<or> \<not> allow_reentry
                  then Inl (ToolError ''workflow_already_claimed'') else Inr (d, current))
            else if sql_exists (\<lambda>l. ls_token l = token \<and> ls_workflow_id l \<noteq> workflow_id) (db_leases d)
            then Inl IntegrityError
            else Inr (d\<lparr>db_leases := sql_update (\<lambda>l. ls_workflow_id l = workflow_id)
                          (hand_over owner_id token now expires_at) (db_leases d)\<rparr>,
                      hand_over owner_id token now expires_at current))"

definition require_current_lease_row :: "db \<Rightarrow> string \<Rightarrow> string \<Rightarrow> time \<Rightarrow> lease_row res" where
  "require_current_lease_row d workflow_id lease_token now =
     (case find_lease d workflow_id of
        None \<Rightarrow> Inl (ToolError ''workflow_lease_token_mismatch'')
      | Some lease \<Rightarrow>
        if ls_token lease \<noteq> lease_token then Inl (ToolError ''workflow_lease_token_mismatch'')
        else if ls_expires_at lease \<le> now then Inl (ToolError ''workflow_lease_expired'')
        else Inr lease)"

definition require_lease :: "time \<Rightarrow> string \<Rightarrow> string \<Rightarrow> db \<Rightarrow> lease_row res" where
  "require_lease now workflow_id lease_token d =
     (case find_lease d workflow_id of
        None \<Rightarrow> Inl (ToolError ''workflow_lease_missing'')
      | Some row \<Rightarrow>
        if ls_token row \<noteq> lease_token then Inl (ToolError ''workflow_lease_token_mismatch'')
        else if ls_expires_at row \<le> now then Inl (ToolError ''workflow_lease_expired'')
        else Inr row)"

definition renew_lease :: "int \<Rightarrow> string \<Rightarrow> rat \<Rightarrow> string \<Rightarrow> db \<Rightarrow> (db \<times> lease_row) res" where
  "renew_lease now_us workflow_id ttl_sec lease_token d =
     (case lease_times now_us ttl_sec of
        Inl e \<Rightarrow> Inl e
      | Inr (now, expires_at) \<Rightarrow>
        (case find_lease d workflow_id of
           None \<Rightarrow> Inl (ToolError ''workflow_lease_missing'')
         | Some current \<Rightarrow>
           if ls_token current \<noteq> lease_token then Inl (ToolError ''workflow_lease_token_mismatch'')
           else if ls_expires_at current \<le> now then Inl (ToolError ''workflow_lease_expired'')
           else let f = (\<lambda>l. l\<lparr>ls_heartbeat_at := now, ls_expires_at := expires_at,
                             ls_version := ls_version l + 1\<rparr>)
                in Inr (d\<lparr>db_leases := sql_update (\<lambda>l. ls_workflow_id l = workflow_id \<and> ls_token l = lease_token)
                           f (db_leases d)\<rparr>, f current)))"

definition delete_lease :: "string \<Rightarrow> string \<Rightarrow> db \<Rightarrow> db" where
  "delete_lease workflow_id lease_token d =
     d\<lparr>db_leases := sql_delete (\<lambda>l. ls_workflow_id l = workflow_id \<and> ls_token l = lease_token) (db_leases d)\<rparr>"

definition release_lease :: "string \<Rightarrow> string \<Rightarrow> db \<Rightarrow> (db \<times> unit) res" where
  "release_lease workflow_id lease_token d =
     (case find_lease d workflow_id of
        None \<Rightarrow> Inr (d, ())
      | Some row \<Rightarrow>
        if ls_token row \<noteq> lease_token then Inl (ToolError ''workflow_lease_token_mismatch'')
        else Inr (delete_lease workflow_id lease_token d, ()))"

definition release_lease_if_current :: "string \<Rightarrow> string \<Rightarrow> db \<Rightarrow> (db \<times> bool) res" where
  "release_lease_if_current workflow_id lease_token d =
     (case find_lease d workflow_id of
        None \<Rightarrow> Inr (d, False)
      | Some row \<Rightarrow>
        if ls_token row \<noteq> lease_token then Inr (d, False)
        else Inr (delete_lease workflow_id lease_token d,
                  sql_count (\<lambda>l. ls_workflow_id l = workflow_id \<and> ls_token l = lease_token) (db_leases d) = 1))"

subsection \<open>Interface: operations fenced by a lease token\<close>

text \<open>
  An operation works on one workflow and is called with a token. It changes the database only when
  the workflow's lease carries that token; a time-fenced operation only when the lease has not
  expired either. The client's law: a caller whose token was replaced can no longer change
  anything, whatever it calls.
\<close>

locale token_fenced =
  fixes run :: "string \<Rightarrow> db \<Rightarrow> (db \<times> 'r) res"
    and target :: "db \<Rightarrow> string \<Rightarrow> bool"
  assumes fenced: "run t d = Inr (d', r) \<Longrightarrow> d' \<noteq> d \<Longrightarrow>
    \<exists>w l. target d w \<and> find_lease d w = Some l \<and> ls_token l = t"
    and one_target: "target d w \<Longrightarrow> target d v \<Longrightarrow> w = v"
begin

lemma stale_token_no_effect:
  assumes "target d w" "find_lease d w = Some l" "ls_token l \<noteq> t" "run t d = Inr (d', r)"
  shows "d' = d"
proof (rule ccontr)
  assume "d' \<noteq> d"
  with fenced [OF assms(4)] obtain v k where "target d v" "find_lease d v = Some k" "ls_token k = t" by blast
  with one_target [OF assms(1)] assms(2,3) show False by auto
qed

lemma no_lease_no_effect:
  assumes "target d w" "find_lease d w = None" "run t d = Inr (d', r)"
  shows "d' = d"
proof (rule ccontr)
  assume "d' \<noteq> d"
  with fenced [OF assms(3)] obtain v k where "target d v" "find_lease d v = Some k" by blast
  with one_target [OF assms(1)] assms(2) show False by auto
qed

end

locale lease_fenced = token_fenced +
  fixes now :: time
  assumes unexpired: "run t d = Inr (d', r) \<Longrightarrow> d' \<noteq> d \<Longrightarrow>
    \<exists>w l. target d w \<and> find_lease d w = Some l \<and> now < ls_expires_at l"
begin

lemma expired_no_effect:
  assumes "target d w" "find_lease d w = Some l" "ls_expires_at l \<le> now" "run t d = Inr (d', r)"
  shows "d' = d"
proof (rule ccontr)
  assume "d' \<noteq> d"
  with unexpired [OF assms(4)] obtain v k where "target d v" "find_lease d v = Some k" "now < ls_expires_at k"
    by blast
  with one_target [OF assms(1)] assms(2,3) show False by auto
qed

end

lemma require_current_lease_row_Inr:
  "require_current_lease_row d w t now = Inr l \<longleftrightarrow>
     find_lease d w = Some l \<and> ls_token l = t \<and> now < ls_expires_at l"
  by (auto simp: require_current_lease_row_def split: option.splits)

interpretation renewal: lease_fenced "renew_lease now_us w ttl" "\<lambda>d v. v = w" "now_us div 1000"
  for now_us w ttl
  by unfold_locales
     (auto simp: renew_lease_def lease_times_def Let_def split: option.splits if_splits sum.splits)

interpretation releasing: token_fenced "release_lease w" "\<lambda>d v. v = w"
  for w
  by unfold_locales (auto simp: release_lease_def split: option.splits if_splits)

interpretation releasing_current: token_fenced "release_lease_if_current w" "\<lambda>d v. v = w"
  for w
  by unfold_locales (auto simp: release_lease_if_current_def split: option.splits if_splits)

subsection \<open>One owner at a time\<close>

definition lease_inv :: "db \<Rightarrow> bool" where
  "lease_inv d \<longleftrightarrow> unique_by ls_workflow_id (db_leases d) \<and> unique_by ls_token (db_leases d)"

lemma lease_row_unique:
  "lease_inv d \<Longrightarrow> l \<in> set (db_leases d) \<Longrightarrow> find_lease d (ls_workflow_id l) = Some l"
  by (simp add: lease_inv_def find_lease_def sql_one_unique)

lemma unique_by_retoken:
  assumes "unique_by ls_workflow_id rows" "unique_by ls_token rows"
    "\<forall>l \<in> set rows. ls_token l = t \<longrightarrow> ls_workflow_id l = w"
    "\<And>l. ls_token (f l) = t"
  shows "unique_by ls_token (sql_update (\<lambda>l. ls_workflow_id l = w) f rows)"
  using assms
proof (induction rows)
  case (Cons x rows)
  have rest: "unique_by ls_token (sql_update (\<lambda>l. ls_workflow_id l = w) f rows)"
    using Cons by (auto simp: unique_by_def)
  have toks: "ls_token l \<in> insert t (ls_token ` set rows)"
    if "l \<in> set (sql_update (\<lambda>l. ls_workflow_id l = w) f rows)" for l
    using that Cons.prems(4) by (auto simp: set_sql_update)
  show ?case
  proof (cases "ls_workflow_id x = w")
    case True
    have ids: "ls_workflow_id l \<noteq> w" if "l \<in> set rows" for l
      using Cons.prems(1) True that by (auto simp: unique_by_def rev_image_eqI)
    then have "sql_update (\<lambda>l. ls_workflow_id l = w) f rows = rows"
      by (simp add: sql_update_def map_idI)
    moreover have "t \<notin> ls_token ` set rows"
      using Cons.prems(3) ids by auto
    ultimately show ?thesis
      using True Cons.prems by (simp add: sql_update_def unique_by_def)
  next
    case False
    with Cons.prems have "ls_token x \<notin> insert t (ls_token ` set rows)" by (auto simp: unique_by_def)
    with toks have "ls_token x \<notin> ls_token ` set (sql_update (\<lambda>l. ls_workflow_id l = w) f rows)"
      by (metis imageE)
    moreover have "sql_update (\<lambda>l. ls_workflow_id l = w) f (x # rows) = x # sql_update (\<lambda>l. ls_workflow_id l = w) f rows"
      using False by (simp add: sql_update_def)
    ultimately show ?thesis using rest by (simp add: unique_by_Cons)
  qed
qed (simp add: sql_update_def)

lemma acquire_lease_inv:
  assumes "lease_inv d" "acquire_lease now_us token w owner ttl re d = Inr (d', l)"
  shows "lease_inv d'"
proof (cases "find_lease d w")
  case None
  then have "w \<notin> ls_workflow_id ` set (db_leases d)" by (auto simp: find_lease_def)
  with None assms show ?thesis
    by (auto simp: acquire_lease_def lease_inv_def Let_def
          split: if_splits sum.splits intro!: unique_by_insert) blast
next
  case (Some current)
  with assms show ?thesis
    by (auto simp: acquire_lease_def lease_inv_def Let_def unique_by_update unique_by_retoken
          split: if_splits sum.splits)
qed

lemma renew_lease_inv:
  "lease_inv d \<Longrightarrow> renew_lease now_us w ttl t d = Inr (d', l) \<Longrightarrow> lease_inv d'"
  by (auto simp: renew_lease_def lease_inv_def Let_def split: option.splits if_splits sum.splits
        intro!: unique_by_update)

lemma delete_lease_inv: "lease_inv d \<Longrightarrow> lease_inv (delete_lease w t d)"
  by (simp add: lease_inv_def delete_lease_def unique_by_delete)

text \<open>An example: a running workflow whose lease owner \<open>a\<close> holds for one second.\<close>

definition sample_workflow :: "workflow_state \<Rightarrow> workflow_row" where
  "sample_workflow state =
     \<lparr>wf_id = ''w'', wf_idempotency_key = None, wf_definition = JNull, wf_inputs = JNull, wf_inputs_hash = None,
      wf_state = state, wf_current_step = 0, wf_version = 1, wf_created_at = 0, wf_updated_at = 0, wf_last_error = None,
      wf_execution_definition = None, wf_execution_hash = None, wf_execution_compatible = 1,
      wf_cancel_requested_at = None, wf_cancel_reason = None, wf_execution_mode = ''dag'', wf_graph_contract_version = 1,
      wf_max_parallel_steps = 2, wf_total_timeout_sec = None\<rparr>"

definition sample_lease :: lease_row where
  "sample_lease = \<lparr>ls_workflow_id = ''w'', ls_owner_id = ''a'', ls_token = ''t1'', ls_acquired_at = 0,
     ls_heartbeat_at = 0, ls_expires_at = 1000, ls_version = 1\<rparr>"

definition leased_db :: db where
  "leased_db = empty_db\<lparr>db_workflows := [sample_workflow WRunning], db_leases := [sample_lease]\<rparr>"

text \<open>A lease is exclusive: while the lease of a workflow has not expired, acquiring it succeeds only for
  the owner that holds it, and only when re-entry is on and the arguments are valid; that owner then gets the
  lease that is there, and nothing changes.\<close>

theorem lease_exclusive:
  assumes "find_lease d w = Some l" "now_us div 1000 < ls_expires_at l"
  shows "acquire_lease now_us token w owner ttl re d = Inr (d', l') \<longleftrightarrow>
    d' = d \<and> l' = l \<and> ls_owner_id l = py_strip owner \<and> re \<and>
    py_strip owner \<noteq> [] \<and> length (py_strip owner) \<le> 200 \<and> 5 \<le> ttl \<and> ttl \<le> 300 \<and> find_workflow d w \<noteq> None"
  using assms
  by (auto simp: acquire_lease_def lease_times_def Let_def split: if_splits option.splits)

theorem lease_exclusive_witness: "acquire_lease 500000 ''t2'' ''w'' ''b'' 10 True leased_db \<noteq> Inr (leased_db, sample_lease)"
proof -
  have l: "find_lease leased_db ''w'' = Some sample_lease" "500000 div 1000 < ls_expires_at sample_lease"
    "ls_owner_id sample_lease \<noteq> py_strip ''b''"
    by code_simp+
  show ?thesis unfolding lease_exclusive [OF l(1,2)] using l(3) by simp
qed

text \<open>Taking over an expired lease fences the former owner: after another owner acquired it under
  a fresh token, whatever lease operation the old token is used for fails or has no effect, so
  the new row stays as it is.\<close>

theorem lease_takeover_fences:
  assumes "find_lease d w = Some old" "ls_expires_at old \<le> now_us div 1000"
    "acquire_lease now_us token w owner ttl re d = Inr (d1, l)" "token \<noteq> ls_token old"
  shows "find_lease d1 w = Some l \<and> ls_token l = token \<and> now_us div 1000 < ls_expires_at l \<and>
    (\<forall>t ttl d2 r. renew_lease t w ttl (ls_token old) d1 = Inr (d2, r) \<longrightarrow> d2 = d1) \<and>
    (\<forall>d2 r. release_lease w (ls_token old) d1 = Inr (d2, r) \<longrightarrow> d2 = d1) \<and>
    (\<forall>d2 r. release_lease_if_current w (ls_token old) d1 = Inr (d2, r) \<longrightarrow> d2 = d1)"
proof -
  have five: "5000000 \<le> round_even (ttl * 1000000)" if "5 \<le> ttl"
    using that by (auto simp: round_even_def Let_def le_floor_iff)
  have row: "find_lease d1 w = Some l" "ls_token l = token"
    using assms(1-3) find_lease_Some [OF assms(1)]
    by (auto simp: acquire_lease_def lease_times_def Let_def find_lease_def sql_one_update
          split: if_splits)
  have "now_us div 1000 < ls_expires_at l"
    using assms(1-3) five
    by (auto simp: acquire_lease_def lease_times_def Let_def split: if_splits)
  moreover have "ls_token l \<noteq> ls_token old" using row(2) assms(4) by simp
  ultimately show ?thesis
    using row renewal.stale_token_no_effect [OF refl row(1)] releasing.stale_token_no_effect [OF refl row(1)]
      releasing_current.stale_token_no_effect [OF refl row(1)]
    by blast
qed

theorem lease_takeover_fences_witness:
  "\<exists>d l. acquire_lease 2000000 ''t2'' ''w'' ''b'' 10 True leased_db = Inr (d, l) \<and>
     (case release_lease ''w'' ''t1'' d of Inl _ \<Rightarrow> True | Inr (d2, _) \<Rightarrow> d2 = d)"
proof -
  have "\<not> is_error (acquire_lease 2000000 ''t2'' ''w'' ''b'' 10 True leased_db)" by code_simp
  then obtain d l where res: "acquire_lease 2000000 ''t2'' ''w'' ''b'' 10 True leased_db = Inr (d, l)"
    by (cases "acquire_lease 2000000 ''t2'' ''w'' ''b'' 10 True leased_db") auto
  have "find_lease leased_db ''w'' = Some sample_lease" "ls_expires_at sample_lease \<le> 2000000 div 1000"
    "''t2'' \<noteq> ls_token sample_lease" "ls_token sample_lease = ''t1''"
    by code_simp+
  with lease_takeover_fences [OF this(1,2) res this(3)] res show ?thesis by (auto split: sum.splits)
qed

end
