(* ===== verification/Attempts.thy ===== *)
theory Attempts
  imports Resource_Admission Leases
begin

text \<open>
  The attempt protocol of \<open>core/workflow_store.py\<close>: an operation whose dependencies are done is
  reserved under the workflow's lease, prepared, allowed to dispatch, and settled together with its
  step, its event and its admission. \<open>attempt_token\<close> of a claim is the fresh \<open>uuid4\<close>. Where the
  code returns \<open>get_operation\<close>, the model returns the row that call reads after the commit.
\<close>

subsection \<open>Operations\<close>

definition admission_exists :: "db \<Rightarrow> string \<Rightarrow> bool" where
  "admission_exists d oid \<longleftrightarrow> sql_exists (\<lambda>a. adm_operation_id a = oid) (db_admissions d)"

definition fail_unadmitted_operation ::
  "time \<Rightarrow> string \<Rightarrow> string \<Rightarrow> string \<Rightarrow> db \<Rightarrow> (db \<times> unit) res" where
  "fail_unadmitted_operation now operation_id error_code lease_token d =
     (case find_operation d operation_id of
        None \<Rightarrow> Inl (ToolError ''workflow_operation_not_found'')
      | Some operation \<Rightarrow>
        let workflow_id = op_workflow_id operation in
        (case require_current_lease_row d workflow_id lease_token now of
           Inl e \<Rightarrow> Inl e
         | Inr _ \<Rightarrow>
           if op_state operation \<noteq> OCreated \<or> op_attempt_token operation \<noteq> None
           then Inl (ToolError ''workflow_attempt_conflict'')
           else if admission_exists d operation_id \<or> request_unreleased d operation_id
           then Inl (ToolError ''workflow_attempt_conflict'')
           else
             let error = take 128 error_code;
                 d1 = update_operation operation_id (\<lambda>r. r\<lparr>op_state := OFailed, op_attempts := op_attempts r + 1,
                        op_version := op_version r + 1,
                        op_evidence := Some (JObj [(''dispatch_phase'', JStr ''preflight_rejected''), (''no_dispatch'', JBool True)]),
                        op_error := Some error, op_started_at := coalesce (op_started_at r) (Some now),
                        op_finished_at := Some now, op_updated_at := now\<rparr>) d;
                 d2 = update_step workflow_id (op_step_index operation) (\<lambda>r. r\<lparr>st_state := SFailed,
                        st_attempts := st_attempts r + 1, st_error := Some error,
                        st_started_at := coalesce (st_started_at r) (Some now), st_finished_at := Some now\<rparr>) d1
             in Inr (insert_event workflow_id (Some (op_step_index operation)) (Some operation_id)
                       ''operation_preflight_failed'' (Some ''failed'') (Some (JObj [(''reason'', JStr error)])) now d2, ())))"

definition parent_states :: "db \<Rightarrow> string \<Rightarrow> int \<Rightarrow> operation_state list" where
  "parent_states d w i = concat (map (\<lambda>dep. map op_state (filter (\<lambda>p. op_workflow_id p = dep_workflow_id dep \<and>
       op_step_index p = dep_dependency dep \<and> op_operation_index p = 0) (db_operations d)))
     (filter (\<lambda>dep. dep_workflow_id dep = w \<and> dep_step_index dep = i) (db_dependencies d)))"

definition admitted_weight :: "db \<Rightarrow> (admission_row \<Rightarrow> bool) \<Rightarrow> int" where
  "admitted_weight d P = sql_sum adm_weight P (db_admissions d)"

definition workflow_limit :: "workflow_row \<Rightarrow> int" where
  "workflow_limit r = (if wf_max_parallel_steps r = 0 then 1 else wf_max_parallel_steps r)"

definition reserve_attempt ::
  "time \<Rightarrow> string \<Rightarrow> operation_row \<Rightarrow> string \<Rightarrow> string \<Rightarrow> string \<Rightarrow> string \<Rightarrow> int \<Rightarrow> db \<Rightarrow> db" where
  "reserve_attempt now attempt_token operation lease_token owner_id execution_id category weight d =
     insert_event (op_workflow_id operation) (Some (op_step_index operation)) (Some (op_id operation))
       ''operation_reserved'' (Some ''reserved'')
       (Some (JObj [(''category'', JStr category), (''execution_id'', JStr execution_id), (''weight'', JInt weight)])) now
       (update_operation (op_id operation)
          (\<lambda>r. r\<lparr>op_attempt_token := Some attempt_token, op_execution_id := Some execution_id,
                 op_dispatch_phase := Some Reserved, op_attempt_generation := op_attempt_generation r + 1,
                 op_version := op_version r + 1, op_updated_at := now\<rparr>)
          (d\<lparr>db_admissions := db_admissions d @
              [\<lparr>adm_operation_id = op_id operation, adm_workflow_id = op_workflow_id operation,
                adm_attempt_token = attempt_token, adm_execution_id = execution_id,
                adm_lease_token = lease_token, adm_owner_id = take 200 owner_id, adm_category = category,
                adm_weight = weight, adm_admitted_at = now\<rparr>]\<rparr>))"

definition claim_ready_operation ::
  "time \<Rightarrow> string \<Rightarrow> string \<Rightarrow> string \<Rightarrow> string \<Rightarrow> int \<Rightarrow> string \<Rightarrow> int \<Rightarrow> string \<Rightarrow> db \<Rightarrow>
   (db \<times> operation_row option) res" where
  "claim_ready_operation now attempt_token operation_id owner_id execution_id global_limit category weight
     lease_token d =
     (if global_limit < 1 \<or> weight < 1 then Inl (ToolError ''invalid_workflow_admission_limit'')
      else case find_operation d operation_id of
        None \<Rightarrow> Inl (ToolError ''workflow_operation_not_found'')
      | Some operation \<Rightarrow>
        let workflow_id = op_workflow_id operation in
        (case find_workflow d workflow_id of
           None \<Rightarrow> Inl (ToolError ''workflow_not_found'')
         | Some workflow \<Rightarrow>
           if wf_state workflow \<notin> {WRunning, WCancelling} then Inr (d, None)
           else if wf_cancel_requested_at workflow \<noteq> None \<or> wf_state workflow = WCancelling then Inr (d, None)
           else
             (case require_current_lease_row d workflow_id lease_token now of
                Inl e \<Rightarrow> Inl e
              | Inr _ \<Rightarrow>
                if op_state operation \<notin> {OCreated, OFailed} then Inr (d, None)
                else if admission_exists d operation_id then Inr (d, None)
                else if list_ex (\<lambda>s. s \<notin> {OSucceeded, OAcknowledged})
                          (parent_states d workflow_id (op_step_index operation)) then Inr (d, None)
                else if global_limit < admitted_weight d (\<lambda>a. adm_category a = category) + weight \<or>
                        workflow_limit workflow <
                          admitted_weight d (\<lambda>a. adm_workflow_id a = workflow_id \<and> adm_category a = category) + weight
                then Inr (d, None)
                else if sql_exists (\<lambda>a. adm_attempt_token a = attempt_token) (db_admissions d)
                then Inl IntegrityError
                else let d' = reserve_attempt now attempt_token operation lease_token owner_id execution_id
                                category weight d
                     in Inr (d', find_operation d' operation_id))))"

definition current_token :: "operation_row \<Rightarrow> string" where
  "current_token r = (case op_attempt_token r of None \<Rightarrow> [] | Some t \<Rightarrow> t)"

definition attempt_admission :: "db \<Rightarrow> string \<Rightarrow> string \<Rightarrow> admission_row option" where
  "attempt_admission d oid t = sql_one (\<lambda>a. adm_operation_id a = oid \<and> adm_attempt_token a = t) (db_admissions d)"

text \<open>The guard every step of an attempt repeats: the row, the version and the attempt token, the
  admission with the caller's lease token, the lease itself.\<close>

definition own_attempt ::
  "db \<Rightarrow> time \<Rightarrow> string \<Rightarrow> int \<Rightarrow> string \<Rightarrow> string \<Rightarrow> operation_row res" where
  "own_attempt d now operation_id expected_version attempt_token lease_token =
     (case find_operation d operation_id of
        None \<Rightarrow> Inl (ToolError ''workflow_operation_not_found'')
      | Some operation \<Rightarrow>
        if op_version operation \<noteq> expected_version \<or> current_token operation \<noteq> attempt_token
        then Inl (ToolError ''workflow_attempt_conflict'')
        else if (case attempt_admission d operation_id attempt_token of
                   None \<Rightarrow> True | Some a \<Rightarrow> adm_lease_token a \<noteq> lease_token)
        then Inl (ToolError ''workflow_attempt_conflict'')
        else (case require_current_lease_row d (op_workflow_id operation) lease_token now of
                Inl e \<Rightarrow> Inl e | Inr _ \<Rightarrow> Inr operation))"

definition cancelled_before_dispatch :: "db \<Rightarrow> string \<Rightarrow> bool" where
  "cancelled_before_dispatch d w \<longleftrightarrow>
     (case find_workflow d w of None \<Rightarrow> True
      | Some r \<Rightarrow> wf_cancel_requested_at r \<noteq> None \<or> wf_state r = WCancelling)"

definition update_attempt :: "string \<Rightarrow> int \<Rightarrow> string \<Rightarrow> (operation_row \<Rightarrow> operation_row) \<Rightarrow> db \<Rightarrow> db" where
  "update_attempt oid version attempt_token f d =
     d\<lparr>db_operations := sql_update (\<lambda>r. op_id r = oid \<and> op_version r = version \<and>
         op_attempt_token r = Some attempt_token) f (db_operations d)\<rparr>"

definition prepare_operation_attempt ::
  "time \<Rightarrow> string \<Rightarrow> int \<Rightarrow> string \<Rightarrow> json option \<Rightarrow> json option \<Rightarrow> string \<Rightarrow> db \<Rightarrow>
   (db \<times> operation_row option) res" where
  "prepare_operation_attempt now operation_id expected_version attempt_token intent_evidence postcondition
     lease_token d =
     (case own_attempt d now operation_id expected_version attempt_token lease_token of
        Inl e \<Rightarrow> Inl e
      | Inr operation \<Rightarrow>
        if cancelled_before_dispatch d (op_workflow_id operation)
        then Inl (ToolError ''workflow_cancelled_before_dispatch'')
        else let d' = update_attempt operation_id expected_version attempt_token
               (\<lambda>r. r\<lparr>op_dispatch_phase := Some Prepared, op_intent_evidence := map_option canonical_json intent_evidence,
                      op_postcondition := coalesce (map_option canonical_json postcondition) (op_postcondition r),
                      op_version := op_version r + 1, op_updated_at := now\<rparr>) d
             in Inr (d', find_operation d' operation_id))"

definition dispatch_row :: "time \<Rightarrow> operation_row \<Rightarrow> operation_row" where
  "dispatch_row now r = r\<lparr>op_state := ORunning, op_dispatch_phase := Some MayDispatch, op_attempts := op_attempts r + 1,
     op_version := op_version r + 1, op_updated_at := now, op_started_at := coalesce (op_started_at r) (Some now)\<rparr>"

definition mark_operation_may_dispatch ::
  "time \<Rightarrow> string \<Rightarrow> int \<Rightarrow> string \<Rightarrow> string \<Rightarrow> db \<Rightarrow> (db \<times> operation_row option) res" where
  "mark_operation_may_dispatch now operation_id expected_version attempt_token lease_token d =
     (case own_attempt d now operation_id expected_version attempt_token lease_token of
        Inl e \<Rightarrow> Inl e
      | Inr operation \<Rightarrow>
        if cancelled_before_dispatch d (op_workflow_id operation)
        then Inl (ToolError ''workflow_cancelled_before_dispatch'')
        else let w = op_workflow_id operation;
               d1 = update_attempt operation_id expected_version attempt_token (dispatch_row now) d;
               d2 = update_step w (op_step_index operation)
                 (\<lambda>r. r\<lparr>st_state := SRunning, st_attempts := st_attempts r + 1,
                        st_started_at := coalesce (st_started_at r) (Some now)\<rparr>) d1;
               d3 = insert_event w (Some (op_step_index operation)) (Some operation_id) ''operation_may_dispatch''
                 (Some ''running'') (Some (JObj [(''attempt_token'', JStr attempt_token)])) now d2
             in Inr (d3, find_operation d3 operation_id))"

definition child_ownership_unresolved :: "db \<Rightarrow> string \<Rightarrow> string \<Rightarrow> bool" where
  "child_ownership_unresolved d operation_id attempt_token \<longleftrightarrow>
     sql_exists (\<lambda>r. rr_operation_id r = Some operation_id \<and> rr_attempt_token r = Some attempt_token \<and>
       (rr_state r = Quarantined \<or> child_capacity_unreleased d (rr_request_id r))) (db_requests d)"

fun settled_step :: "operation_state \<Rightarrow> step_state" where
  "settled_step OSucceeded = SCompleted"
| "settled_step OFailed = SFailed"
| "settled_step OUncertain = SUncertain"
| "settled_step OCancelled = SCancelled"
| "settled_step _ = SUncertain"

definition unresolved_evidence :: "json option \<Rightarrow> json option" where
  "unresolved_evidence evidence =
     Some (JObj (dict_set ''ownership_unresolved'' (JBool True) (dict_set ''satisfied'' (JBool False)
       (dict_set ''conclusive'' (JBool False) (dict_of evidence)))))"

definition settle_attempt ::
  "time \<Rightarrow> operation_row \<Rightarrow> string \<Rightarrow> operation_state \<Rightarrow> json option \<Rightarrow> json option \<Rightarrow> string option \<Rightarrow> db \<Rightarrow> db" where
  "settle_attempt now operation attempt_token final result evidence error d =
     (let w = op_workflow_id operation;
          d1 = update_attempt (op_id operation) (op_version operation) attempt_token
            (\<lambda>r. r\<lparr>op_state := final, op_dispatch_phase := Some Settled, op_version := op_version r + 1,
                   op_result := redacted result, op_evidence := redacted evidence, op_error := error_text error,
                   op_updated_at := now, op_finished_at := Some now\<rparr>) d;
          d2 = update_step w (op_step_index operation)
            (\<lambda>r. r\<lparr>st_state := settled_step final, st_evidence := redacted evidence, st_error := error_text error,
                   st_finished_at := Some now\<rparr>) d1;
          d3 = insert_event w (Some (op_step_index operation)) (Some (op_id operation)) ''operation_settled''
            (Some (operation_value final)) (Some (JObj [(''attempt_token'', JStr attempt_token)])) now d2
      in d3\<lparr>db_admissions := sql_delete (\<lambda>a. adm_operation_id a = op_id operation \<and>
            adm_attempt_token a = attempt_token) (db_admissions d3)\<rparr>)"

definition complete_operation_attempt ::
  "time \<Rightarrow> string \<Rightarrow> int \<Rightarrow> string \<Rightarrow> operation_state \<Rightarrow> json option \<Rightarrow> json option \<Rightarrow> string option \<Rightarrow> string \<Rightarrow>
   db \<Rightarrow> (db \<times> operation_row option) res" where
  "complete_operation_attempt now operation_id expected_version attempt_token final_state result evidence error
     lease_token d =
     (if final_state \<notin> {OSucceeded, OFailed, OUncertain, OCancelled}
      then Inl (ToolError ''invalid_operation_resolution'')
      else case own_attempt d now operation_id expected_version attempt_token lease_token of
        Inl e \<Rightarrow> Inl e
      | Inr operation \<Rightarrow>
        (case (if op_state operation \<in> {OCreated, OFailed} \<and>
                  op_dispatch_phase operation \<in> {Some Reserved, Some Prepared} \<and>
                  final_state \<in> {OFailed, OCancelled}
               then Inr () else validate_operation_transition (op_state operation) final_state) of
           Inl e \<Rightarrow> Inl e
         | Inr _ \<Rightarrow>
           let unresolved = child_ownership_unresolved d operation_id attempt_token;
               d' = (if unresolved
                     then settle_attempt now operation attempt_token OUncertain result
                            (unresolved_evidence evidence) (Some ''workflow_child_ownership_unresolved'') d
                     else settle_attempt now operation attempt_token final_state result evidence error d)
           in Inr (d', find_operation d' operation_id)))"

subsection \<open>Every step of an attempt is fenced by the lease\<close>

lemma own_attempt_Inr:
  "own_attempt d now oid v t l = Inr r \<longleftrightarrow>
     find_operation d oid = Some r \<and> op_version r = v \<and> current_token r = t \<and>
     (\<exists>a. attempt_admission d oid t = Some a \<and> adm_lease_token a = l) \<and>
     (\<exists>row. find_lease d (op_workflow_id r) = Some row \<and> ls_token row = l \<and> now < ls_expires_at row)"
  by (auto simp: own_attempt_def require_current_lease_row_Inr
        split: option.splits sum.splits if_splits)
     (auto simp: require_current_lease_row_def split: if_splits)

definition operation_target :: "string \<Rightarrow> db \<Rightarrow> string \<Rightarrow> bool" where
  "operation_target oid d w \<longleftrightarrow> (\<exists>r. find_operation d oid = Some r \<and> op_workflow_id r = w)"

lemma operation_target_one: "operation_target oid d w \<Longrightarrow> operation_target oid d v \<Longrightarrow> w = v"
  by (auto simp: operation_target_def)

lemma claim_ready_lease:
  assumes "claim_ready_operation now t oid owner ex gl cat wt l d = Inr (d', x)" "d' \<noteq> d"
  shows "\<exists>w row. operation_target oid d w \<and> find_lease d w = Some row \<and> ls_token row = l \<and> now < ls_expires_at row"
  using assms
  by (auto simp: claim_ready_operation_def Let_def operation_target_def require_current_lease_row_Inr
        split: if_splits option.splits sum.splits)

lemma fail_unadmitted_lease:
  assumes "fail_unadmitted_operation now oid err l d = Inr (d', x)"
  shows "\<exists>w row. operation_target oid d w \<and> find_lease d w = Some row \<and> ls_token row = l \<and> now < ls_expires_at row"
  using assms
  by (auto simp: fail_unadmitted_operation_def Let_def operation_target_def require_current_lease_row_Inr
        split: if_splits option.splits sum.splits)

lemma own_attempt_lease:
  assumes "own_attempt d now oid v t l = Inr r"
  shows "\<exists>w row. operation_target oid d w \<and> find_lease d w = Some row \<and> ls_token row = l \<and> now < ls_expires_at row"
  using assms by (auto simp: own_attempt_Inr operation_target_def)

lemma prepare_cases:
  assumes "prepare_operation_attempt now oid v t ie pc l d = Inr (d', x)"
  obtains r where "own_attempt d now oid v t l = Inr r" "\<not> cancelled_before_dispatch d (op_workflow_id r)"
    "d' = update_attempt oid v t
       (\<lambda>r. r\<lparr>op_dispatch_phase := Some Prepared, op_intent_evidence := map_option canonical_json ie,
              op_postcondition := coalesce (map_option canonical_json pc) (op_postcondition r),
              op_version := op_version r + 1, op_updated_at := now\<rparr>) d"
    "x = find_operation d' oid"
proof (cases "own_attempt d now oid v t l")
  case (Inr r)
  with assms show ?thesis
    by (intro that [OF Inr]) (auto simp: prepare_operation_attempt_def Let_def split: if_splits)
qed (use assms in \<open>simp add: prepare_operation_attempt_def\<close>)

lemma dispatch_cases:
  assumes "mark_operation_may_dispatch now oid v t l d = Inr (d', x)"
  obtains r where "own_attempt d now oid v t l = Inr r" "\<not> cancelled_before_dispatch d (op_workflow_id r)"
    "db_operations d' = db_operations (update_attempt oid v t (dispatch_row now) d)"
    "db_admissions d' = db_admissions d" "db_workflows d' = db_workflows d" "db_leases d' = db_leases d"
    "db_capacity d' = db_capacity d" "db_capacity_seq d' = db_capacity_seq d" "same_requests d d'"
    "x = find_operation d' oid"
proof (cases "own_attempt d now oid v t l")
  case (Inr r)
  with assms show ?thesis
    by (intro that [OF Inr])
       (auto simp: mark_operation_may_dispatch_def Let_def update_attempt_def
          same_requests_def split: if_splits)
qed (use assms in \<open>simp add: mark_operation_may_dispatch_def\<close>)

lemma complete_cases:
  assumes "complete_operation_attempt now oid v t final result evidence err l d = Inr (d', x)"
  obtains r f ev er where "own_attempt d now oid v t l = Inr r"
    "f = (if child_ownership_unresolved d oid t then OUncertain else final)"
    "final \<in> {OSucceeded, OFailed, OUncertain, OCancelled}"
    "d' = settle_attempt now r t f result ev er d" "x = find_operation d' oid"
proof (cases "own_attempt d now oid v t l")
  case (Inr r)
  with assms have "final \<in> {OSucceeded, OFailed, OUncertain, OCancelled}"
    by (auto simp: complete_operation_attempt_def split: if_splits)
  moreover from Inr assms have "\<exists>ev er. d' = settle_attempt now r t
      (if child_ownership_unresolved d oid t then OUncertain else final) result ev er d \<and> x = find_operation d' oid"
    unfolding complete_operation_attempt_def Let_def
    by (cases "child_ownership_unresolved d oid t") (auto split: if_splits sum.splits simp del: insert_iff)
  ultimately show ?thesis using that [OF Inr refl] by blast
qed (use assms in \<open>simp add: complete_operation_attempt_def split: if_splits\<close>)

interpretation claiming: lease_fenced
  "claim_ready_operation now t oid owner ex gl cat wt" "operation_target oid" now
  for now t oid owner ex gl cat wt
  by unfold_locales (blast dest: claim_ready_lease operation_target_one)+

interpretation rejecting: lease_fenced "fail_unadmitted_operation now oid err" "operation_target oid" now
  for now oid err
  by unfold_locales (blast dest: fail_unadmitted_lease operation_target_one)+

interpretation preparing: lease_fenced "prepare_operation_attempt now oid v t ie pc" "operation_target oid" now
  for now oid v t ie pc
  by unfold_locales (blast elim: prepare_cases dest: own_attempt_lease operation_target_one)+

interpretation dispatching: lease_fenced "mark_operation_may_dispatch now oid v t" "operation_target oid" now
  for now oid v t
  by unfold_locales (blast elim: dispatch_cases dest: own_attempt_lease operation_target_one)+

interpretation settling: lease_fenced
  "complete_operation_attempt now oid v t final result evidence err" "operation_target oid" now
  for now oid v t final result evidence err
  by unfold_locales (blast elim: complete_cases dest: own_attempt_lease operation_target_one)+

text \<open>C15. A worker that lost its lease can do nothing: when the workflow of an operation is leased under
  another token, or the lease expired, no claim, rejection, preparation, dispatch mark or completion
  with the old token changes the database.\<close>

theorem lost_lease_is_fenced:
  assumes "find_operation d oid = Some r" "find_lease d (op_workflow_id r) = Some row"
    "ls_token row \<noteq> l \<or> ls_expires_at row \<le> now"
  shows "(\<forall>t owner ex gl cat wt d' x. claim_ready_operation now t oid owner ex gl cat wt l d = Inr (d', x) \<longrightarrow> d' = d) \<and>
    (\<forall>err d' x. fail_unadmitted_operation now oid err l d = Inr (d', x) \<longrightarrow> d' = d) \<and>
    (\<forall>v t ie pc d' x. prepare_operation_attempt now oid v t ie pc l d = Inr (d', x) \<longrightarrow> d' = d) \<and>
    (\<forall>v t d' x. mark_operation_may_dispatch now oid v t l d = Inr (d', x) \<longrightarrow> d' = d) \<and>
    (\<forall>v t f res ev err d' x. complete_operation_attempt now oid v t f res ev err l d = Inr (d', x) \<longrightarrow> d' = d)"
proof -
  have w: "operation_target oid d (op_workflow_id r)" using assms(1) by (simp add: operation_target_def)
  from assms(3) show ?thesis
  proof (elim disjE)
    assume stale: "ls_token row \<noteq> l"
    show ?thesis
      by (intro conjI allI impI;
          (erule claiming.stale_token_no_effect [OF w assms(2) stale]
           | erule rejecting.stale_token_no_effect [OF w assms(2) stale]
           | erule preparing.stale_token_no_effect [OF w assms(2) stale]
           | erule dispatching.stale_token_no_effect [OF w assms(2) stale]
           | erule settling.stale_token_no_effect [OF w assms(2) stale]))
  next
    assume late: "ls_expires_at row \<le> now"
    show ?thesis
      by (intro conjI allI impI;
          (erule claiming.expired_no_effect [OF w assms(2) late]
           | erule rejecting.expired_no_effect [OF w assms(2) late]
           | erule preparing.expired_no_effect [OF w assms(2) late]
           | erule dispatching.expired_no_effect [OF w assms(2) late]
           | erule settling.expired_no_effect [OF w assms(2) late]))
  qed
qed

subsection \<open>Admissions and operations agree\<close>

definition admission_backed :: "operation_row list \<Rightarrow> admission_row \<Rightarrow> bool" where
  "admission_backed ops a \<longleftrightarrow> (\<exists>r \<in> set ops. op_id r = adm_operation_id a \<and> op_workflow_id r = adm_workflow_id a \<and>
     op_attempt_token r = Some (adm_attempt_token a) \<and> op_execution_id r = Some (adm_execution_id a))"

definition workflow_limits :: "db \<Rightarrow> (string \<times> int) list" where
  "workflow_limits d = map (\<lambda>r. (wf_id r, workflow_limit r)) (db_workflows d)"

definition attempt_inv :: "db \<Rightarrow> bool" where
  "attempt_inv d \<longleftrightarrow> unique_by op_id (db_operations d) \<and> unique_by adm_operation_id (db_admissions d) \<and>
     unique_by adm_attempt_token (db_admissions d) \<and>
     (\<forall>a \<in> set (db_admissions d). 1 \<le> adm_weight a \<and> admission_backed (db_operations d) a \<and>
        adm_workflow_id a \<in> fst ` set (workflow_limits d))"

lemma operation_row_unique:
  assumes "attempt_inv d" "find_operation d oid = Some r" "s \<in> set (db_operations d)" "op_id s = oid"
  shows "s = r"
proof -
  have "unique_by op_id (db_operations d)" "r \<in> set (db_operations d)" "op_id r = oid"
    using assms(1) find_operation_Some [OF assms(2)] by (simp_all add: attempt_inv_def)
  with assms(3,4) show ?thesis by (metis unique_byD)
qed

lemma own_attempt_token:
  assumes "attempt_inv d" "own_attempt d now oid v t l = Inr r"
  shows "find_operation d oid = Some r" "op_id r = oid" "op_attempt_token r = Some t" "op_version r = v"
proof -
  from assms(2) obtain a where r: "find_operation d oid = Some r" "op_version r = v" and
    a: "attempt_admission d oid t = Some a" by (auto simp: own_attempt_Inr)
  from sql_one_Some [OF a [unfolded attempt_admission_def]] have
    "a \<in> set (db_admissions d)" "adm_operation_id a = oid" "adm_attempt_token a = t" by auto
  with assms(1) obtain s where "s \<in> set (db_operations d)" "op_id s = oid" "op_attempt_token s = Some t"
    by (fastforce simp: attempt_inv_def admission_backed_def)
  with operation_row_unique [OF assms(1) r(1)] r find_operation_Some [OF r(1)]
  show "find_operation d oid = Some r" "op_id r = oid" "op_attempt_token r = Some t" "op_version r = v"
    by auto
qed

lemma find_update_attempt:
  assumes "find_operation d oid = Some r" "op_version r = v" "op_attempt_token r = Some t" "\<And>r. op_id (f r) = op_id r"
  shows "find_operation (update_attempt oid v t f d) oid = Some (f r)"
  using assms find_operation_Some [OF assms(1)]
  by (simp add: find_operation_def update_attempt_def sql_one_update)

lemma settle_attempt_tables [simp]:
  "db_operations (settle_attempt now r t f res ev er d) = db_operations
     (update_attempt (op_id r) (op_version r) t (\<lambda>r. r\<lparr>op_state := f, op_dispatch_phase := Some Settled,
        op_version := op_version r + 1, op_result := redacted res, op_evidence := redacted ev,
        op_error := error_text er, op_updated_at := now, op_finished_at := Some now\<rparr>) d)"
  "db_admissions (settle_attempt now r t f res ev er d) =
     sql_delete (\<lambda>a. adm_operation_id a = op_id r \<and> adm_attempt_token a = t) (db_admissions d)"
  "db_workflows (settle_attempt now r t f res ev er d) = db_workflows d"
  "db_leases (settle_attempt now r t f res ev er d) = db_leases d"
  "db_capacity (settle_attempt now r t f res ev er d) = db_capacity d"
  "db_capacity_seq (settle_attempt now r t f res ev er d) = db_capacity_seq d"
  "db_dependencies (settle_attempt now r t f res ev er d) = db_dependencies d"
  "same_requests d (settle_attempt now r t f res ev er d)"
  by (simp_all add: settle_attempt_def Let_def update_attempt_def same_requests_def)

lemma own_attempt_error:
  assumes "is_error (own_attempt d now oid v t l)"
  shows "is_error (prepare_operation_attempt now oid v t ie pc l d)"
    "is_error (mark_operation_may_dispatch now oid v t l d)"
    "is_error (complete_operation_attempt now oid v t f res ev er l d)"
  using assms
  by (cases "own_attempt d now oid v t l"; simp add: prepare_operation_attempt_def
        mark_operation_may_dispatch_def complete_operation_attempt_def)+


text \<open>C3. The dispatch barrier: an attempt that is allowed to dispatch had the workflow's unexpired lease,
  its admission under that lease, and no cancellation before it; it is then running in the phase
  may-dispatch, counted as one more attempt, and the same call cannot go through twice.\<close>

theorem dispatch_barrier:
  assumes "attempt_inv d" "mark_operation_may_dispatch now oid v t l d = Inr (d', x)"
  shows "(\<exists>r row a lease w. find_operation d oid = Some r \<and> x = Some row \<and>
      find_lease d (op_workflow_id r) = Some lease \<and> ls_token lease = l \<and> now < ls_expires_at lease \<and>
      attempt_admission d oid t = Some a \<and> adm_lease_token a = l \<and>
      find_workflow d (op_workflow_id r) = Some w \<and> wf_cancel_requested_at w = None \<and> wf_state w \<noteq> WCancelling \<and>
      op_state row = ORunning \<and> op_dispatch_phase row = Some MayDispatch \<and> op_attempts row = op_attempts r + 1) \<and>
    (\<forall>now l. is_error (mark_operation_may_dispatch now oid v t l d'))"
proof -
  obtain r where own: "own_attempt d now oid v t l = Inr r" and live: "\<not> cancelled_before_dispatch d (op_workflow_id r)"
    and ops: "db_operations d' = db_operations (update_attempt oid v t (dispatch_row now) d)"
    and x: "x = find_operation d' oid"
    using assms(2) by (rule dispatch_cases)
  note r = own_attempt_token [OF assms(1) own]
  have row: "find_operation d' oid = Some (dispatch_row now r)"
    using find_update_attempt [OF r(1,4,3), of "dispatch_row now"] ops
    by (simp add: find_operation_def dispatch_row_def)
  then have "is_error (own_attempt d' n oid v t l')" for n l'
    by (simp add: own_attempt_def dispatch_row_def r(4))
  then have "is_error (mark_operation_may_dispatch n oid v t l' d')" for n l'
    by (rule own_attempt_error(2))
  moreover have "\<exists>w. find_workflow d (op_workflow_id r) = Some w \<and> wf_cancel_requested_at w = None \<and> wf_state w \<noteq> WCancelling"
    using live by (auto simp: cancelled_before_dispatch_def split: option.splits)
  ultimately show ?thesis
    using own row x by (auto simp: own_attempt_Inr dispatch_row_def)
qed

subsection \<open>What the attempt steps keep\<close>

definition attempts_benign :: "db \<Rightarrow> db \<Rightarrow> bool" where
  "attempts_benign d d' \<longleftrightarrow> workflow_limits d' = workflow_limits d \<and>
     (attempt_inv d \<longrightarrow> attempt_inv d' \<and> (\<forall>P. admitted_weight d' P \<le> admitted_weight d P))"

lemma attempts_benign_refl [simp]: "attempts_benign d d"
  by (simp add: attempts_benign_def)

lemma attempts_benign_trans: "attempts_benign d d' \<Longrightarrow> attempts_benign d' d'' \<Longrightarrow> attempts_benign d d''"
  unfolding attempts_benign_def by (auto intro: order_trans)

lemma same_attempts_benign:
  "db_operations d' = db_operations d \<Longrightarrow> db_admissions d' = db_admissions d \<Longrightarrow>
   workflow_limits d' = workflow_limits d \<Longrightarrow> attempts_benign d d'"
  by (simp add: attempts_benign_def attempt_inv_def admitted_weight_def)

lemma workflow_limits_update:
  assumes "\<And>r. wf_id (f r) = wf_id r" "\<And>r. wf_max_parallel_steps (f r) = wf_max_parallel_steps r"
  shows "workflow_limits (update_workflow w f d) = workflow_limits d"
  using assms by (simp add: workflow_limits_def update_workflow_def sql_update_def workflow_limit_def)

lemma workflow_limits_frame [simp]:
  "workflow_limits (update_operation oid g d) = workflow_limits d"
  "workflow_limits (update_step w i h d) = workflow_limits d"
  "workflow_limits (update_requests P k d) = workflow_limits d"
  "workflow_limits (update_capacity Q m d) = workflow_limits d"
  "workflow_limits (insert_event v s e t st me now d) = workflow_limits d"
  by (simp_all add: workflow_limits_def)

lemma admission_backed_update:
  assumes "admission_backed ops a"
    "\<And>r. r \<in> set ops \<Longrightarrow> P r \<Longrightarrow> op_id r = adm_operation_id a \<Longrightarrow> op_id (f r) = op_id r \<and> op_workflow_id (f r) = op_workflow_id r \<and>
        op_attempt_token (f r) = op_attempt_token r \<and> op_execution_id (f r) = op_execution_id r"
  shows "admission_backed (sql_update P f ops) a"
proof -
  obtain r where r: "r \<in> set ops" "op_id r = adm_operation_id a" "op_workflow_id r = adm_workflow_id a"
    "op_attempt_token r = Some (adm_attempt_token a)" "op_execution_id r = Some (adm_execution_id a)"
    using assms(1) by (auto simp: admission_backed_def)
  then have "(if P r then f r else r) \<in> set (sql_update P f ops)" by (auto simp: set_sql_update)
  moreover have "op_id (if P r then f r else r) = op_id r \<and> op_workflow_id (if P r then f r else r) = op_workflow_id r \<and>
      op_attempt_token (if P r then f r else r) = op_attempt_token r \<and>
      op_execution_id (if P r then f r else r) = op_execution_id r"
    using assms(2) [OF r(1) _ r(2)] by simp
  ultimately show ?thesis using r unfolding admission_backed_def by metis
qed

text \<open>A change of operation rows keeps the agreement when it keeps the identifiers, and the token and
  execution of every operation that has an admission.\<close>

lemma operations_update_benign:
  assumes "\<And>r. op_id (f r) = op_id r" "\<And>r. op_workflow_id (f r) = op_workflow_id r"
    "\<And>r a. r \<in> set (db_operations d) \<Longrightarrow> P r \<Longrightarrow> a \<in> set (db_admissions d) \<Longrightarrow> adm_operation_id a = op_id r \<Longrightarrow>
        op_attempt_token (f r) = op_attempt_token r \<and> op_execution_id (f r) = op_execution_id r"
  shows "attempts_benign d (d\<lparr>db_operations := sql_update P f (db_operations d)\<rparr>)"
proof -
  have "admission_backed (sql_update P f (db_operations d)) a"
    if "a \<in> set (db_admissions d)" "admission_backed (db_operations d) a" for a
    using that(2)
  proof (rule admission_backed_update)
    fix r
    assume r: "r \<in> set (db_operations d)" "P r" "op_id r = adm_operation_id a"
    then show "op_id (f r) = op_id r \<and> op_workflow_id (f r) = op_workflow_id r \<and>
        op_attempt_token (f r) = op_attempt_token r \<and> op_execution_id (f r) = op_execution_id r"
      using assms(1,2) assms(3) [OF r(1,2) that(1)] by simp
  qed
  with assms(1) show ?thesis
    by (simp add: attempts_benign_def attempt_inv_def admitted_weight_def workflow_limits_def unique_by_update)
qed

lemma admissions_delete_benign:
  "attempts_benign d (d\<lparr>db_admissions := sql_delete P (db_admissions d)\<rparr>)"
  by (auto simp: attempts_benign_def attempt_inv_def admitted_weight_def workflow_limits_def unique_by_delete
        intro!: sum_rows_delete)

lemma update_attempt_benign:
  assumes "\<And>r. op_id (f r) = op_id r \<and> op_workflow_id (f r) = op_workflow_id r \<and>
      op_attempt_token (f r) = op_attempt_token r \<and> op_execution_id (f r) = op_execution_id r"
  shows "attempts_benign d (update_attempt oid v t f d)"
  unfolding update_attempt_def using assms by (intro operations_update_benign) auto

lemma update_operation_benign:
  assumes "\<And>r. op_id (f r) = op_id r \<and> op_workflow_id (f r) = op_workflow_id r \<and>
      op_attempt_token (f r) = op_attempt_token r \<and> op_execution_id (f r) = op_execution_id r"
  shows "attempts_benign d (update_operation oid f d)"
  unfolding update_operation_def using assms by (intro operations_update_benign) auto

lemma fail_unadmitted_benign:
  assumes "fail_unadmitted_operation now oid err l d = Inr (d', x)"
  shows "attempts_benign d d'"
proof -
  obtain f where ops: "db_operations d' = db_operations (update_operation oid f d)"
    and rest: "db_admissions d' = db_admissions d" "workflow_limits d' = workflow_limits d"
    and f: "\<And>r. op_id (f r) = op_id r \<and> op_workflow_id (f r) = op_workflow_id r \<and>
      op_attempt_token (f r) = op_attempt_token r \<and> op_execution_id (f r) = op_execution_id r"
    using assms
    by (fastforce simp: fail_unadmitted_operation_def Let_def workflow_limits_def
          split: option.splits sum.splits if_splits)
  have "attempts_benign d (update_operation oid f d)" using f by (rule update_operation_benign)
  moreover have "attempts_benign (update_operation oid f d) d'"
    using ops rest by (intro same_attempts_benign) simp_all
  ultimately show ?thesis by (rule attempts_benign_trans)
qed

lemma prepare_benign: "prepare_operation_attempt now oid v t ie pc l d = Inr (d', x) \<Longrightarrow> attempts_benign d d'"
  by (elim prepare_cases) (simp add: update_attempt_benign)

lemma dispatch_benign:
  assumes "mark_operation_may_dispatch now oid v t l d = Inr (d', x)"
  shows "attempts_benign d d'"
proof -
  obtain r where "db_operations d' = db_operations (update_attempt oid v t (dispatch_row now) d)"
    "db_admissions d' = db_admissions d" "db_workflows d' = db_workflows d"
    using assms by (rule dispatch_cases)
  then have "attempts_benign (update_attempt oid v t (dispatch_row now) d) d'"
    by (intro same_attempts_benign) (simp_all add: update_attempt_def workflow_limits_def)
  moreover have "attempts_benign d (update_attempt oid v t (dispatch_row now) d)"
    by (rule update_attempt_benign) (simp add: dispatch_row_def)
  ultimately show ?thesis by (blast intro: attempts_benign_trans)
qed

lemma settle_attempt_benign: "attempts_benign d (settle_attempt now r t f res ev er d)"
proof -
  let ?u = "update_attempt (op_id r) (op_version r) t (\<lambda>r. r\<lparr>op_state := f, op_dispatch_phase := Some Settled,
        op_version := op_version r + 1, op_result := redacted res, op_evidence := redacted ev,
        op_error := error_text er, op_updated_at := now, op_finished_at := Some now\<rparr>) d"
  let ?a = "?u\<lparr>db_admissions := sql_delete (\<lambda>a. adm_operation_id a = op_id r \<and> adm_attempt_token a = t) (db_admissions ?u)\<rparr>"
  have "attempts_benign d ?u" by (rule update_attempt_benign) simp
  moreover have "attempts_benign ?u ?a" by (rule admissions_delete_benign)
  moreover have "attempts_benign ?a (settle_attempt now r t f res ev er d)"
    by (rule same_attempts_benign) (simp_all add: update_attempt_def workflow_limits_def)
  ultimately show ?thesis by (blast intro: attempts_benign_trans)
qed

lemma complete_benign:
  "complete_operation_attempt now oid v t final res ev er l d = Inr (d', x) \<Longrightarrow> attempts_benign d d'"
  by (elim complete_cases) (simp add: settle_attempt_benign)

subsection \<open>Claiming a ready operation\<close>

text \<open>What a claim requires of the database: a running workflow without a cancellation, the current
  lease, an operation that may start and is not admitted, every dependency done, and room within
  both limits.\<close>

definition claimable ::
  "time \<Rightarrow> operation_row \<Rightarrow> int \<Rightarrow> string \<Rightarrow> int \<Rightarrow> string \<Rightarrow> db \<Rightarrow> bool" where
  "claimable now r gl cat wt l d \<longleftrightarrow>
     (\<exists>w lease. find_workflow d (op_workflow_id r) = Some w \<and> wf_state w = WRunning \<and>
        wf_cancel_requested_at w = None \<and>
        find_lease d (op_workflow_id r) = Some lease \<and> ls_token lease = l \<and> now < ls_expires_at lease \<and>
        admitted_weight d (\<lambda>a. adm_workflow_id a = op_workflow_id r \<and> adm_category a = cat) + wt \<le> workflow_limit w) \<and>
     op_state r \<in> {OCreated, OFailed} \<and>
     (\<forall>a \<in> set (db_admissions d). adm_operation_id a \<noteq> op_id r) \<and>
     (\<forall>dep \<in> set (db_dependencies d). dep_workflow_id dep = op_workflow_id r \<and> dep_step_index dep = op_step_index r \<longrightarrow>
        (\<forall>p \<in> set (db_operations d). op_workflow_id p = op_workflow_id r \<and> op_step_index p = dep_dependency dep \<and>
           op_operation_index p = 0 \<longrightarrow> op_state p \<in> {OSucceeded, OAcknowledged})) \<and>
     admitted_weight d (\<lambda>a. adm_category a = cat) + wt \<le> gl"

lemma parents_done:
  "\<not> list_ex (\<lambda>s. s \<notin> {OSucceeded, OAcknowledged}) (parent_states d w i) \<longleftrightarrow>
   (\<forall>dep \<in> set (db_dependencies d). dep_workflow_id dep = w \<and> dep_step_index dep = i \<longrightarrow>
      (\<forall>p \<in> set (db_operations d). op_workflow_id p = w \<and> op_step_index p = dep_dependency dep \<and>
         op_operation_index p = 0 \<longrightarrow> op_state p \<in> {OSucceeded, OAcknowledged}))"
  by (auto simp: parent_states_def list_ex_iff)

lemma find_reserve_attempt:
  assumes "find_operation d oid = Some r"
  shows "find_operation (reserve_attempt now t r l ow ex cat wt d) oid =
    Some (r\<lparr>op_attempt_token := Some t, op_execution_id := Some ex, op_dispatch_phase := Some Reserved,
            op_attempt_generation := op_attempt_generation r + 1, op_version := op_version r + 1, op_updated_at := now\<rparr>)"
  using assms find_operation_Some [OF assms]
  by (simp add: reserve_attempt_def find_operation_def sql_one_update)

lemma claim_ready_cases:
  assumes "find_operation d oid = Some r" "1 \<le> gl" "1 \<le> wt" "\<forall>a \<in> set (db_admissions d). adm_attempt_token a \<noteq> t"
  shows "claimable now r gl cat wt l d \<Longrightarrow> claim_ready_operation now t oid ow ex gl cat wt l d =
      (let d' = reserve_attempt now t r l ow ex cat wt d in Inr (d', find_operation d' oid))"
    and "\<not> claimable now r gl cat wt l d \<Longrightarrow> is_error (claim_ready_operation now t oid ow ex gl cat wt l d) \<or>
      claim_ready_operation now t oid ow ex gl cat wt l d = Inr (d, None)"
proof -
  note parents = parents_done [of d "op_workflow_id r" "op_step_index r"]
  have adm: "admission_exists d oid \<longleftrightarrow> (\<exists>a \<in> set (db_admissions d). adm_operation_id a = op_id r)"
    using find_operation_Some [OF assms(1)] by (auto simp: admission_exists_def)
  show "claim_ready_operation now t oid ow ex gl cat wt l d =
      (let d' = reserve_attempt now t r l ow ex cat wt d in Inr (d', find_operation d' oid))"
    if "claimable now r gl cat wt l d"
    using that assms adm parents
    by (auto simp: claimable_def claim_ready_operation_def Let_def require_current_lease_row_def)
  show "is_error (claim_ready_operation now t oid ow ex gl cat wt l d) \<or>
      claim_ready_operation now t oid ow ex gl cat wt l d = Inr (d, None)"
    if "\<not> claimable now r gl cat wt l d"
  proof (rule ccontr)
    assume *: "\<not> ?thesis"
    then obtain w where w: "find_workflow d (op_workflow_id r) = Some w" "wf_state w = WRunning" "wf_cancel_requested_at w = None"
      using assms(1-3) by (auto simp: claim_ready_operation_def Let_def split: option.splits if_splits)
    with * assms(1-3) obtain lease where lease: "require_current_lease_row d (op_workflow_id r) l now = Inr lease"
      by (auto simp: claim_ready_operation_def Let_def split: sum.splits if_splits)
    with w * assms(1-3) have "op_state r \<in> {OCreated, OFailed}" "\<not> admission_exists d oid"
      "\<not> list_ex (\<lambda>s. s \<notin> {OSucceeded, OAcknowledged}) (parent_states d (op_workflow_id r) (op_step_index r))"
      "admitted_weight d (\<lambda>a. adm_category a = cat) + wt \<le> gl"
      "admitted_weight d (\<lambda>a. adm_workflow_id a = op_workflow_id r \<and> adm_category a = cat) + wt \<le> workflow_limit w"
      by (auto simp: claim_ready_operation_def Let_def split: if_splits)
    with that w lease adm parents show False
      by (auto simp: claimable_def require_current_lease_row_Inr)
  qed
qed

text \<open>C13. A claim is granted exactly when the operation is ready: for a fresh attempt token and positive
  limits, \<open>claim_ready_operation\<close> reserves the operation if and only if it is claimable; the row then
  carries the token in the phase reserved under the next version and generation. In every other case
  the call fails or answers nothing, and the database is as before.\<close>

theorem claim_ready_iff:
  assumes "find_operation d oid = Some r" "1 \<le> gl" "1 \<le> wt" "\<forall>a \<in> set (db_admissions d). adm_attempt_token a \<noteq> t"
  shows "(case claim_ready_operation now t oid ow ex gl cat wt l d of
      Inr (d', Some row) \<Rightarrow> claimable now r gl cat wt l d \<and> op_attempt_token row = Some t \<and>
        op_dispatch_phase row = Some Reserved \<and> op_version row = op_version r + 1 \<and>
        op_attempt_generation row = op_attempt_generation r + 1 \<and> op_state row = op_state r
    | Inr (d', None) \<Rightarrow> \<not> claimable now r gl cat wt l d \<and> d' = d
    | Inl _ \<Rightarrow> \<not> claimable now r gl cat wt l d)"
proof (cases "claimable now r gl cat wt l d")
  case True
  with claim_ready_cases(1) [OF assms] find_reserve_attempt [OF assms(1)] show ?thesis
    by (simp add: Let_def)
next
  case False
  with claim_ready_cases(2) [OF assms] show ?thesis
    by (fastforce simp: is_error_def split: sum.splits)
qed

lemma reserve_attempt_tables [simp]:
  "db_workflows (reserve_attempt now t r l ow ex cat wt d) = db_workflows d"
  "db_leases (reserve_attempt now t r l ow ex cat wt d) = db_leases d"
  "db_capacity (reserve_attempt now t r l ow ex cat wt d) = db_capacity d"
  "db_capacity_seq (reserve_attempt now t r l ow ex cat wt d) = db_capacity_seq d"
  "same_requests d (reserve_attempt now t r l ow ex cat wt d)"
  by (simp_all add: reserve_attempt_def same_requests_def)

lemma admitted_weight_reserve:
  "admitted_weight (reserve_attempt now t r l ow ex cat wt d) P = admitted_weight d P +
     (if P \<lparr>adm_operation_id = op_id r, adm_workflow_id = op_workflow_id r, adm_attempt_token = t,
            adm_execution_id = ex, adm_lease_token = l, adm_owner_id = take 200 ow, adm_category = cat,
            adm_weight = wt, adm_admitted_at = now\<rparr> then wt else 0)"
  by (simp add: admitted_weight_def reserve_attempt_def sql_sum_def)

lemma workflow_limits_mem: "find_workflow d w = Some row \<Longrightarrow> w \<in> fst ` set (workflow_limits d)"
  by (auto simp: workflow_limits_def image_image dest!: find_workflow_Some)

lemma reserve_attempt_inv:
  assumes "attempt_inv d" "find_operation d oid = Some r" "1 \<le> wt" "find_workflow d (op_workflow_id r) \<noteq> None"
    "\<forall>a \<in> set (db_admissions d). adm_attempt_token a \<noteq> t" "\<forall>a \<in> set (db_admissions d). adm_operation_id a \<noteq> op_id r"
  shows "attempt_inv (reserve_attempt now t r l ow ex cat wt d)"
proof -
  let ?f = "\<lambda>r. r\<lparr>op_attempt_token := Some t, op_execution_id := Some ex, op_dispatch_phase := Some Reserved,
            op_attempt_generation := op_attempt_generation r + 1, op_version := op_version r + 1, op_updated_at := now\<rparr>"
  let ?ops = "sql_update (\<lambda>x. op_id x = op_id r) ?f (db_operations d)"
  have old: "admission_backed ?ops a" if "a \<in> set (db_admissions d)" for a
    using that assms(1,6) by (intro admission_backed_update) (auto simp: attempt_inv_def)
  have mem: "?f r \<in> set ?ops" using find_operation_Some [OF assms(2)] by (auto simp: set_sql_update)
  have new: "admission_backed ?ops \<lparr>adm_operation_id = op_id r, adm_workflow_id = op_workflow_id r,
      adm_attempt_token = t, adm_execution_id = ex, adm_lease_token = l, adm_owner_id = take 200 ow,
      adm_category = cat, adm_weight = wt, adm_admitted_at = now\<rparr>"
    unfolding admission_backed_def by (rule bexI [OF _ mem]) simp
  have "op_workflow_id r \<in> fst ` set (workflow_limits d)" using assms(4) workflow_limits_mem by blast
  moreover have "workflow_limits (reserve_attempt now t r l ow ex cat wt d) = workflow_limits d"
    by (simp add: workflow_limits_def)
  ultimately show ?thesis
    using assms old new
    by (auto simp: attempt_inv_def reserve_attempt_def unique_by_update intro!: unique_by_insert)
qed

lemma claim_ready_effect:
  assumes "attempt_inv d" "claim_ready_operation now t oid ow ex gl cat wt l d = Inr (d', x)"
  obtains "d' = d" | r where "find_operation d oid = Some r" "claimable now r gl cat wt l d" "1 \<le> wt"
    "d' = reserve_attempt now t r l ow ex cat wt d" "attempt_inv d'"
proof (cases "\<exists>a \<in> set (db_admissions d). adm_attempt_token a = t")
  case True
  with assms(2) have "d' = d"
    by (auto simp: claim_ready_operation_def Let_def split: if_splits option.splits sum.splits)
  then show ?thesis using that(1) by blast
next
  case False
  from assms(2) obtain r where r: "find_operation d oid = Some r" "1 \<le> gl" "1 \<le> wt"
    by (auto simp: claim_ready_operation_def split: if_splits option.splits)
  show ?thesis
  proof (cases "claimable now r gl cat wt l d")
    case True
    have "d' = reserve_attempt now t r l ow ex cat wt d"
      using claim_ready_cases(1) [OF r _ True] False assms(2) by (auto simp: Let_def)
    moreover have "attempt_inv (reserve_attempt now t r l ow ex cat wt d)"
      using assms(1) r False True by (intro reserve_attempt_inv [OF assms(1) r(1,3)]) (auto simp: claimable_def)
    ultimately show ?thesis using that(2) [OF r(1) True r(3)] by simp
  next
    case no: False
    have "d' = d" using claim_ready_cases(2) [OF r _ no] False assms(2) by (metis Inr_inject Pair_inject is_error_simps(2))
    then show ?thesis using that(1) by blast
  qed
qed

subsection \<open>An example\<close>

definition sample_operation :: operation_row where
  "sample_operation =
     \<lparr>op_id = ''o'', op_workflow_id = ''w'', op_step_index = 0, op_operation_index = 0, op_action = ''verify_changes'',
      op_definition_hash = ''h'', op_idempotency_key = ''k'', op_state = OCreated, op_attempts = 0, op_version = 1,
      op_arguments_fingerprint = ''f'', op_postcondition = None, op_result = None, op_evidence = None,
      op_started_at = None, op_updated_at = 0, op_finished_at = None, op_error = None, op_intent_evidence = None,
      op_external_ref = None, op_reconciliation_evidence = None, op_execution_intent = None, op_selected_route = None,
      op_router_policy_version = None, op_route_decision = None, op_fallback_history = None, op_attempt_token = None,
      op_execution_id = None, op_dispatch_phase = None, op_attempt_generation = 0\<rparr>"

definition ready_db :: db where
  "ready_db = leased_db\<lparr>db_operations := [sample_operation]\<rparr>"

definition db_after :: "(db \<times> 'a) res \<Rightarrow> db" where
  "db_after r = (case r of Inr (d, _) \<Rightarrow> d | Inl _ \<Rightarrow> empty_db)"

definition claimed_db :: db where
  "claimed_db = db_after (claim_ready_operation 5 ''x'' ''o'' ''a'' ''e'' 4 ''step'' 1 ''t1'' ready_db)"

definition prepared_db :: db where
  "prepared_db = db_after (prepare_operation_attempt 6 ''o'' 2 ''x'' None None ''t1'' claimed_db)"

definition dispatched_db :: db where
  "dispatched_db = db_after (mark_operation_may_dispatch 7 ''o'' 3 ''x'' ''t1'' prepared_db)"

lemma db_after_ok: "\<not> is_error r \<Longrightarrow> \<exists>x. r = Inr (db_after r, x)"
  by (cases r) (auto simp: db_after_def)

theorem claim_ready_iff_witness:
  "claimable 5 sample_operation 4 ''step'' 1 ''t1'' ready_db \<and>
   (\<exists>d row. claim_ready_operation 5 ''x'' ''o'' ''a'' ''e'' 4 ''step'' 1 ''t1'' ready_db = Inr (d, Some row) \<and>
      op_dispatch_phase row = Some Reserved)"
proof -
  have "find_operation ready_db ''o'' = Some sample_operation" "\<forall>a \<in> set (db_admissions ready_db). adm_attempt_token a \<noteq> ''x''"
    by code_simp+
  moreover have "case claim_ready_operation 5 ''x'' ''o'' ''a'' ''e'' 4 ''step'' 1 ''t1'' ready_db of
      Inr (d, Some row) \<Rightarrow> True | _ \<Rightarrow> False"
    by code_simp
  ultimately show ?thesis
    using claim_ready_iff [of ready_db "''o''" sample_operation 4 1 "''x''" 5 "''step''" "''t1''" "''a''" "''e''"]
    by (auto split: sum.splits option.splits prod.splits)
qed

theorem lost_lease_is_fenced_witness:
  "case mark_operation_may_dispatch 7 ''o'' 3 ''x'' ''t0'' prepared_db of Inl _ \<Rightarrow> True | Inr (d, _) \<Rightarrow> d = prepared_db"
proof -
  have "(case find_operation prepared_db ''o'' of None \<Rightarrow> False
      | Some r \<Rightarrow> find_lease prepared_db (op_workflow_id r) = Some sample_lease)" "ls_token sample_lease \<noteq> ''t0''"
    by code_simp+
  then obtain r where "find_operation prepared_db ''o'' = Some r" "find_lease prepared_db (op_workflow_id r) = Some sample_lease"
    "ls_token sample_lease \<noteq> ''t0'' \<or> ls_expires_at sample_lease \<le> 7"
    by (auto split: option.splits)
  from lost_lease_is_fenced [OF this] show ?thesis by (auto split: sum.splits)
qed

theorem dispatch_barrier_witness:
  "\<exists>x. mark_operation_may_dispatch 7 ''o'' 3 ''x'' ''t1'' prepared_db = Inr (dispatched_db, x) \<and>
     is_error (mark_operation_may_dispatch 8 ''o'' 3 ''x'' ''t1'' dispatched_db)"
proof -
  have "\<not> is_error (mark_operation_may_dispatch 7 ''o'' 3 ''x'' ''t1'' prepared_db)" and inv: "attempt_inv prepared_db"
    by code_simp+
  then obtain x where "mark_operation_may_dispatch 7 ''o'' 3 ''x'' ''t1'' prepared_db = Inr (dispatched_db, x)"
    unfolding dispatched_db_def using db_after_ok by blast
  with dispatch_barrier [OF inv this] show ?thesis by blast
qed


end
