(* ===== verification/Workflow_Actions.thy ===== *)
theory Workflow_Actions
  imports Workflow_Db
begin

text \<open>
  The allowlist of workflow actions in \<open>core/workflow_actions.py\<close>: the descriptor table, the checks
  an operation passes before it may be planned, and the resource claims each action derives. The
  pydantic input models are the parameter \<open>validate\<close> (the validated arguments, or nothing on a
  validation error); path resolution, \<open>git rev-parse --git-common-dir\<close>, SHA-256 and \<open>urlsplit\<close> are
  the parameters \<open>canon\<close>, \<open>common_dir\<close>, \<open>sha\<close> and \<open>split\<close>.
\<close>

datatype retry_policy = NeverRetry | TransientRetry
datatype availability = Available | Disabled | AdapterRequired | PlatformUnavailable
datatype cancel_mode = CancelImmediate | CancelCooperative | CancelDeferred

record action_descriptor =
  ad_name :: string
  ad_mutates :: bool
  ad_retry_policy :: retry_policy
  ad_postconditions :: "string list"
  ad_secret_fields :: "string list"
  ad_cancel_mode :: cancel_mode
  ad_availability :: availability
  ad_execution_route :: "string option"

definition descriptor ::
  "string \<Rightarrow> bool \<Rightarrow> retry_policy \<Rightarrow> string list \<Rightarrow> cancel_mode \<Rightarrow> availability \<Rightarrow> string option \<Rightarrow> action_descriptor" where
  "descriptor name mutates retry posts cancel avail route =
     \<lparr>ad_name = name, ad_mutates = mutates, ad_retry_policy = retry, ad_postconditions = posts,
      ad_secret_fields = [], ad_cancel_mode = cancel, ad_availability = avail, ad_execution_route = route\<rparr>"

definition action_descriptors :: "action_descriptor list" where
  "action_descriptors =
    [descriptor ''apply_patch'' True NeverRetry [''patch_effect_intent''] CancelDeferred Available (Some ''native.filesystem''),
     descriptor ''affected_tests'' False NeverRetry [] CancelDeferred Available (Some ''native.code''),
     descriptor ''verify_changes'' False NeverRetry [] CancelDeferred Available (Some ''native.code''),
     descriptor ''git_status'' False TransientRetry [] CancelDeferred Available (Some ''native.git''),
     descriptor ''git_stage'' True NeverRetry [''git_stage_intent''] CancelDeferred Available (Some ''native.git''),
     descriptor ''git_commit'' True NeverRetry [''git_commit_intent''] CancelDeferred Available (Some ''native.git''),
     descriptor ''run_durable_job'' True NeverRetry [''job_request_key_intent''] CancelCooperative Available (Some ''native.process''),
     descriptor ''check_file'' False NeverRetry [] CancelDeferred Available (Some ''native.filesystem''),
     descriptor ''check_http'' False TransientRetry [] CancelDeferred Available None,
     descriptor ''desktop_semantic_action'' True NeverRetry [''ui_element_state''] CancelDeferred AdapterRequired (Some ''semantic.windows_uia''),
     descriptor ''browser_action'' True NeverRetry [''browser_state''] CancelDeferred AdapterRequired (Some ''semantic.browser'')]"

definition get_action_descriptor :: "string \<Rightarrow> action_descriptor res" where
  "get_action_descriptor name =
     (case find (\<lambda>a. ad_name a = name) action_descriptors of
        None \<Rightarrow> Inl (ToolError ''workflow_action_not_allowed'')
      | Some a \<Rightarrow> Inr a)"

definition text_field :: "string \<Rightarrow> json option \<Rightarrow> string" where
  "text_field k v = (case lookup k (dict_of v) of Some (JStr s) \<Rightarrow> s | _ \<Rightarrow> [])"

definition validate_operation ::
  "(string \<Rightarrow> json \<Rightarrow> json option) \<Rightarrow> string \<Rightarrow> json \<Rightarrow> json option \<Rightarrow> (action_descriptor \<times> json) res" where
  "validate_operation validate name arguments postcondition =
     (case get_action_descriptor name of
        Inl e \<Rightarrow> Inl e
      | Inr desc \<Rightarrow>
        if ad_availability desc \<noteq> Available then Inl (ToolError ''workflow_action_unavailable'')
        else case validate name arguments of
          None \<Rightarrow> Inl (ToolError ''invalid_workflow_arguments'')
        | Some validated \<Rightarrow>
          if list_ex (\<lambda>field. lookup field (dict_of (Some validated)) \<notin> {None, Some JNull}) (ad_secret_fields desc)
          then Inl (ToolError ''workflow_secret_literal_not_supported'')
          else if ad_mutates desc \<and> text_field ''kind'' postcondition \<notin> set (ad_postconditions desc)
          then Inl (ToolError ''workflow_postcondition_required'')
          else Inr (desc, validated))"

definition path_claim :: "(string \<Rightarrow> string) \<Rightarrow> string \<Rightarrow> claim_mode \<Rightarrow> claim_scope \<Rightarrow> string \<Rightarrow> resource_claim" where
  "path_claim canon path mode scope kind =
     \<lparr>rc_kind = kind, rc_key = canon path, rc_mode = mode, rc_scope = scope\<rparr>"

text \<open>\<open>split\<close> is \<open>urlsplit\<close>: the scheme, the host name and the port of a URL, when it has them; \<open>sha\<close> is
  SHA-256 as a hexadecimal digest.\<close>

type_synonym url_split = "string \<Rightarrow> string \<times> string option \<times> int option"

definition endpoint_claim :: "(string \<Rightarrow> string) \<Rightarrow> url_split \<Rightarrow> string \<Rightarrow> resource_claim" where
  "endpoint_claim sha split url =
     (let (scheme, hostname, port) = split url;
          host = (case hostname of None \<Rightarrow> [] | Some h \<Rightarrow> h);
          port_text = (case port of None \<Rightarrow> [] | Some n \<Rightarrow> if n = 0 then [] else int_text n);
          origin = casefold scheme @ ''://'' @ casefold host @ '':'' @ port_text
      in \<lparr>rc_kind = ''http'', rc_key = sha origin, rc_mode = Read, rc_scope = Exact\<rparr>)"

definition action_footprint ::
  "(string \<Rightarrow> string) \<Rightarrow> (string \<Rightarrow> string) \<Rightarrow> (string \<Rightarrow> string) \<Rightarrow> url_split \<Rightarrow> claim_mode \<Rightarrow>
   string \<Rightarrow> (string \<Rightarrow> string) \<Rightarrow> resource_claim list res" where
  "action_footprint canon common_dir sha split git_mode name field =
     (if name = ''check_file'' then Inr [path_claim canon (field ''path'') Read Exact ''fs'']
      else if name = ''check_http'' then Inr [endpoint_claim sha split (field ''url'')]
      else if name = ''affected_tests'' then Inr [path_claim canon (field ''cwd'') Read Subtree ''fs'']
      else if name = ''verify_changes'' then Inr [path_claim canon (field ''cwd'') Write Subtree ''fs'']
      else if name = ''apply_patch'' then Inr [path_claim canon (field ''cwd'') Write Subtree ''fs'']
      else if name \<in> {''git_status'', ''git_stage'', ''git_commit''}
      then Inr [path_claim canon (field ''repo'') git_mode Subtree ''fs'',
                path_claim canon (common_dir (field ''repo'')) git_mode Subtree ''git'']
      else Inl (ToolError ''workflow_resource_footprint_unavailable''))"

definition derive_action_resource_claims ::
  "(string \<Rightarrow> json \<Rightarrow> json option) \<Rightarrow> (string \<Rightarrow> string) \<Rightarrow> (string \<Rightarrow> string) \<Rightarrow> (string \<Rightarrow> string) \<Rightarrow> url_split \<Rightarrow>
   string \<Rightarrow> json \<Rightarrow> json option \<Rightarrow> resource_claim list res" where
  "derive_action_resource_claims validate canon common_dir sha split name arguments postcondition =
     (case validate_operation validate name arguments postcondition of
        Inl e \<Rightarrow> Inl e
      | Inr (_, validated) \<Rightarrow>
        let field = (\<lambda>k. text_field k (Some validated)); exclusive = (name \<in> {''git_stage'', ''git_commit''}) in
        if name = ''run_durable_job''
        then Inr (canonical_claims [coordination_claim True, path_claim canon (field ''cwd'') Write Subtree ''fs''])
        else case action_footprint canon common_dir sha split (if exclusive then Write else Read) name field of
          Inl e \<Rightarrow> Inl e
        | Inr claims \<Rightarrow> Inr (canonical_claims (coordination_claim exclusive # claims)))"

subsection \<open>Properties\<close>

lemma set_canonical_claims [simp]: "set (canonical_claims cs) = set cs"
  by (simp add: canonical_claims_def)

definition exclusive_action :: "string \<Rightarrow> bool" where
  "exclusive_action name \<longleftrightarrow> name \<in> {''run_durable_job'', ''git_stage'', ''git_commit''}"

lemma derived_coordination:
  assumes "derive_action_resource_claims validate canon cdir sha split name args pc = Inr claims"
  shows "coordination_claim (exclusive_action name) \<in> set claims"
proof (cases "name = ''run_durable_job''")
  case True
  with assms show ?thesis
    by (auto simp: derive_action_resource_claims_def exclusive_action_def split: sum.splits)
next
  case False
  with assms show ?thesis
    unfolding derive_action_resource_claims_def Let_def exclusive_action_def
    by (auto split: sum.splits prod.splits)
qed

lemma coordination_conflict: "claims_conflict (coordination_claim a) (coordination_claim b) \<longleftrightarrow> a \<or> b"
  by (auto simp: claims_conflict_def claims_overlap_def coordination_claim_def path_kind_def)

text \<open>An action that may touch anything on the host runs alone: the claims derived for a durable job,
  a staging or a commit conflict with the claims derived for any action of the allowlist.\<close>

theorem exclusive_actions_run_alone:
  assumes "exclusive_action first"
    "derive_action_resource_claims validate canon cdir sha split first args1 pc1 = Inr c1"
    "derive_action_resource_claims validate canon cdir sha split second args2 pc2 = Inr c2"
  shows "claim_sets_conflict c1 c2"
proof -
  have "claims_conflict (coordination_claim True) (coordination_claim (exclusive_action second))"
    by (simp add: coordination_conflict)
  with derived_coordination [OF assms(2)] derived_coordination [OF assms(3)] assms(1) show ?thesis
    by (auto simp: claim_sets_conflict_def list_ex_iff)
qed

theorem exclusive_actions_run_alone_witness:
  "claim_sets_conflict
     (canonical_claims [coordination_claim True, path_claim id ''/srv'' Write Subtree ''fs''])
     (canonical_claims [coordination_claim False, path_claim id ''/etc/hosts'' Read Exact ''fs''])"
proof (rule exclusive_actions_run_alone)
  let ?v = "\<lambda>name args. Some args"
  show "exclusive_action ''run_durable_job''" by (simp add: exclusive_action_def)
  show "derive_action_resource_claims ?v id id id (\<lambda>u. ([], None, None)) ''run_durable_job''
      (JObj [(''cwd'', JStr ''/srv'')]) (Some (JObj [(''kind'', JStr ''job_request_key_intent'')])) =
      Inr (canonical_claims [coordination_claim True, path_claim id ''/srv'' Write Subtree ''fs''])"
    by code_simp
  show "derive_action_resource_claims ?v id id id (\<lambda>u. ([], None, None)) ''check_file''
      (JObj [(''path'', JStr ''/etc/hosts'')]) None =
      Inr (canonical_claims [coordination_claim False, path_claim id ''/etc/hosts'' Read Exact ''fs''])"
    by code_simp
qed

end
