(* ===== verification/Lifecycle.thy ===== *)
theory Lifecycle
  imports Attempts Workflow_Actions
begin

text \<open>
  The lifecycle operations of \<open>core/workflow_store.py\<close>: cancelling, moving a workflow along its
  transition table (with the checks of a safe resume), advancing and checkpointing, recording routes
  and recovery context, resolving an uncertain operation, and recomputing the aggregate of a DAG. One
  clock value stands for the clock reads of one call. Where the code returns \<open>get\<close> or
  \<open>get_operation\<close>, the model returns the row that call reads after the commit.
\<close>

subsection \<open>Cancellation and transitions\<close>

definition cancel_requested :: "string \<Rightarrow> db \<Rightarrow> bool res" where
  "cancel_requested workflow_id d =
     (case find_workflow d workflow_id of
        None \<Rightarrow> Inl (ToolError ''workflow_not_found'')
      | Some row \<Rightarrow> Inr (wf_cancel_requested_at row \<noteq> None \<or> wf_state row \<in> {WCancelling, WCancelled}))"

definition bounded_reason :: "string option \<Rightarrow> string option" where
  "bounded_reason reason = (case reason of None \<Rightarrow> None
     | Some s \<Rightarrow> if py_strip s = [] then None else Some (take 2000 (py_strip s)))"

definition request_cancel ::
  "time \<Rightarrow> string \<Rightarrow> int \<Rightarrow> string option \<Rightarrow> db \<Rightarrow> (db \<times> workflow_row option) res" where
  "request_cancel now workflow_id expected_version reason0 d =
     (let reason = bounded_reason reason0 in
      case find_workflow d workflow_id of
        None \<Rightarrow> Inl (ToolError ''workflow_not_found'')
      | Some row \<Rightarrow>
        if wf_version row \<noteq> expected_version then Inl (ToolError ''workflow_version_conflict'')
        else if wf_state row \<in> {WCompleted, WCancelled} then Inr (d, Some row)
        else if wf_state row = WCancelling then Inr (d, Some row)
        else
          let target = (if wf_state row = WRunning then WCancelling else WCancelled) in
          (case validate_workflow_transition (wf_state row) target of
             Inl e \<Rightarrow> Inl e
           | Inr _ \<Rightarrow>
             let d1 = update_workflow workflow_id (\<lambda>r. r\<lparr>wf_state := target,
                        wf_cancel_requested_at := coalesce (wf_cancel_requested_at r) (Some now),
                        wf_cancel_reason := coalesce reason (wf_cancel_reason r),
                        wf_updated_at := now, wf_version := wf_version r + 1\<rparr>) d;
                 d2 = insert_event workflow_id None None ''workflow_cancel_requested'' (Some (workflow_value target))
                        (case reason of None \<Rightarrow> None
                         | Some s \<Rightarrow> redacted (Some (JObj [(''reason'', JStr s)]))) now d1
             in Inr (d2, find_workflow d2 workflow_id)))"

definition require_token :: "db \<Rightarrow> time \<Rightarrow> string \<Rightarrow> string option \<Rightarrow> unit res" where
  "require_token d now workflow_id lease_token =
     (case lease_token of
        None \<Rightarrow> Inr ()
      | Some t \<Rightarrow> (case require_current_lease_row d workflow_id t now of Inl e \<Rightarrow> Inl e | Inr _ \<Rightarrow> Inr ()))"

definition resume_unresolved :: "db \<Rightarrow> string \<Rightarrow> bool" where
  "resume_unresolved d w \<longleftrightarrow>
     sql_exists (\<lambda>r. op_workflow_id r = w \<and> op_state r \<in> {ORunning, OWaiting, OUncertain, OReconciling}) (db_operations d) \<or>
     sql_exists (\<lambda>r. rr_workflow_id r = Some w \<and> rr_state r \<noteq> Released) (db_requests d) \<or>
     sql_exists (\<lambda>a. adm_workflow_id a = w) (db_admissions d)"

text \<open>A failed operation may be replayed unless its action has an effect and nothing proves that it was
  not dispatched; an action that is no longer on the allowlist raises.\<close>

fun replay_check :: "operation_row list \<Rightarrow> unit res" where
  "replay_check [] = Inr ()"
| "replay_check (r # rest) =
     (case get_action_descriptor (op_action r) of
        Inl e \<Rightarrow> Inl e
      | Inr desc \<Rightarrow>
        if (ad_mutates desc \<or> ad_name desc = ''verify_changes'') \<and>
           (text_field ''dispatch_phase'' (op_evidence r) \<notin> {''reserved'', ''prepared'', ''preflight_rejected''} \<or>
            op_external_ref r \<noteq> None)
        then Inl (ToolError ''workflow_resume_unsafe_replay'')
        else replay_check rest)"

definition require_safe_resume :: "db \<Rightarrow> string \<Rightarrow> unit res" where
  "require_safe_resume d w =
     (if resume_unresolved d w then Inl (ToolError ''workflow_resume_unresolved'')
      else replay_check (filter (\<lambda>r. op_workflow_id r = w \<and> op_state r \<in> {OFailed, OUnresolvable}) (db_operations d)))"

definition requeue_operation :: "time \<Rightarrow> string \<Rightarrow> operation_row \<Rightarrow> db \<Rightarrow> db" where
  "requeue_operation now w r d =
     insert_event w (Some (op_step_index r)) (Some (op_id r)) ''operation_explicitly_requeued'' (Some ''created'')
       (Some (JObj [])) now
       (update_step w (op_step_index r) (\<lambda>s. s\<lparr>st_state := SCreated, st_evidence := None, st_error := None, st_finished_at := None\<rparr>)
         (d\<lparr>db_operations := sql_update (\<lambda>x. op_id x = op_id r \<and> op_state x = OFailed)
             (\<lambda>x. x\<lparr>op_state := OCreated, op_version := op_version x + 1, op_attempt_token := None, op_execution_id := None,
                    op_dispatch_phase := None, op_result := None, op_evidence := None, op_error := None,
                    op_updated_at := now\<rparr>) (db_operations d)\<rparr>))"

definition requeue_failed :: "time \<Rightarrow> string \<Rightarrow> db \<Rightarrow> db" where
  "requeue_failed now w d =
     fold (requeue_operation now w) (filter (\<lambda>r. op_workflow_id r = w \<and> op_state r = OFailed) (db_operations d)) d"

definition transition ::
  "time \<Rightarrow> string \<Rightarrow> int \<Rightarrow> workflow_state \<Rightarrow> int option \<Rightarrow> string option \<Rightarrow> string option \<Rightarrow> db \<Rightarrow>
   (db \<times> workflow_row option) res" where
  "transition now workflow_id expected_version state current_step last_error lease_token d =
     (case find_workflow d workflow_id of
        None \<Rightarrow> Inl (ToolError ''workflow_not_found'')
      | Some current \<Rightarrow>
        if wf_version current \<noteq> expected_version then Inl (ToolError ''workflow_version_conflict'')
        else case require_token d now workflow_id lease_token of
          Inl e \<Rightarrow> Inl e
        | Inr _ \<Rightarrow>
          (case validate_workflow_transition (wf_state current) state of
             Inl e \<Rightarrow> Inl e
           | Inr _ \<Rightarrow>
             (case (if state = WQueued then require_safe_resume d workflow_id else Inr ()) of
                Inl e \<Rightarrow> Inl e
              | Inr _ \<Rightarrow>
                let d1 = (if state = WQueued \<and> wf_execution_mode current = ''dag'' \<and> wf_state current \<in> {WFailed, WPaused}
                          then requeue_failed now workflow_id d else d);
                    d2 = update_workflow workflow_id (\<lambda>r. r\<lparr>wf_state := state, wf_version := wf_version r + 1,
                           wf_updated_at := now, wf_last_error := error_text last_error,
                           wf_current_step := (case current_step of None \<Rightarrow> wf_current_step r | Some i \<Rightarrow> i)\<rparr>) d1
                in Inr (d2, find_workflow d2 workflow_id))))"

definition advance_running ::
  "time \<Rightarrow> string \<Rightarrow> int \<Rightarrow> int \<Rightarrow> string option \<Rightarrow> db \<Rightarrow> (db \<times> workflow_row option) res" where
  "advance_running now workflow_id expected_version current_step lease_token d =
     (if current_step < 0 then Inl (ToolError ''invalid_workflow_step'')
      else case find_workflow d workflow_id of
        None \<Rightarrow> Inl (ToolError ''workflow_not_found'')
      | Some row \<Rightarrow>
        if wf_version row \<noteq> expected_version then Inl (ToolError ''workflow_version_conflict'')
        else case require_token d now workflow_id lease_token of
          Inl e \<Rightarrow> Inl e
        | Inr _ \<Rightarrow>
          if wf_state row \<noteq> WRunning then Inl (ToolError ''workflow_not_running'')
          else let d' = update_workflow workflow_id (\<lambda>r. r\<lparr>wf_current_step := current_step,
                      wf_version := wf_version r + 1, wf_updated_at := now\<rparr>) d
               in Inr (d', find_workflow d' workflow_id))"

subsection \<open>Checkpoints\<close>

definition checkpoint_step ::
  "time \<Rightarrow> string \<Rightarrow> int \<Rightarrow> step_state \<Rightarrow> json option \<Rightarrow> string option \<Rightarrow> bool \<Rightarrow> string option \<Rightarrow> db \<Rightarrow>
   (db \<times> unit) res" where
  "checkpoint_step now workflow_id step_index state evidence error increment lease_token d =
     (case (case lease_token of
              None \<Rightarrow> Inr ()
            | Some t \<Rightarrow> (case require_lease now workflow_id t d of Inl e \<Rightarrow> Inl e | Inr _ \<Rightarrow> Inr ())) of
        Inl e \<Rightarrow> Inl e
      | Inr _ \<Rightarrow>
        if sql_count (\<lambda>r. st_workflow_id r = workflow_id \<and> st_step_index r = step_index) (db_steps d) \<noteq> 1
        then Inl (ToolError ''workflow_step_not_found'')
        else Inr (update_step workflow_id step_index (\<lambda>r. r\<lparr>st_state := state,
               st_attempts := st_attempts r + (if increment then 1 else 0),
               st_started_at := (if state = SRunning then coalesce (st_started_at r) (Some now) else st_started_at r),
               st_finished_at := (if state \<in> {SCompleted, SFailed, SUncertain, SCancelled} then Some now else st_finished_at r),
               st_evidence := redacted_if evidence, st_error := error_text error\<rparr>) d, ()))"

definition checkpoint_operation ::
  "time \<Rightarrow> string \<Rightarrow> operation_state \<Rightarrow> json option \<Rightarrow> json option \<Rightarrow> json option \<Rightarrow> json option \<Rightarrow> json option \<Rightarrow>
   string option \<Rightarrow> bool \<Rightarrow> string \<Rightarrow> db \<Rightarrow> (db \<times> operation_row option) res" where
  "checkpoint_operation now operation_id state result evidence intent_evidence external_ref postcondition error
     increment lease_token d =
     (case find_operation d operation_id of
        None \<Rightarrow> Inl (ToolError ''workflow_operation_not_found'')
      | Some operation \<Rightarrow>
        (case validate_operation_transition (op_state operation) state of
           Inl e \<Rightarrow> Inl e
         | Inr _ \<Rightarrow>
           (case require_current_lease_row d (op_workflow_id operation) lease_token now of
              Inl e \<Rightarrow> Inl e
            | Inr _ \<Rightarrow>
              let d' = update_operation operation_id (\<lambda>r. r\<lparr>op_state := state,
                     op_attempts := op_attempts r + (if increment then 1 else 0), op_version := op_version r + 1,
                     op_result := redacted_if result, op_evidence := redacted_if evidence,
                     op_intent_evidence := coalesce (json_if intent_evidence) (op_intent_evidence r),
                     op_external_ref := coalesce (json_if external_ref) (op_external_ref r),
                     op_postcondition := coalesce (json_if postcondition) (op_postcondition r),
                     op_error := error_text error, op_updated_at := now,
                     op_started_at := (if state = ORunning then coalesce (op_started_at r) (Some now) else op_started_at r),
                     op_finished_at := (if state \<in> {OSucceeded, OFailed, OUncertain, OCancelled} then Some now
                                        else op_finished_at r)\<rparr>) d
              in Inr (d', find_operation d' operation_id))))"

definition update_operation_context ::
  "time \<Rightarrow> string \<Rightarrow> json option \<Rightarrow> json option \<Rightarrow> json option \<Rightarrow> string \<Rightarrow> db \<Rightarrow> (db \<times> operation_row option) res" where
  "update_operation_context now operation_id intent_evidence external_ref postcondition lease_token d =
     (if intent_evidence = None \<and> external_ref = None \<and> postcondition = None
      then (case find_operation d operation_id of
              None \<Rightarrow> Inl (ToolError ''workflow_operation_not_found'') | Some r \<Rightarrow> Inr (d, Some r))
      else case find_operation d operation_id of
        None \<Rightarrow> Inl (ToolError ''workflow_operation_not_found'')
      | Some row \<Rightarrow>
        if op_state row \<notin> {ORunning, OWaiting} then Inl (ToolError ''workflow_operation_not_active'')
        else case require_current_lease_row d (op_workflow_id row) lease_token now of
          Inl e \<Rightarrow> Inl e
        | Inr _ \<Rightarrow>
          let d' = update_operation operation_id (\<lambda>r. r\<lparr>
                 op_intent_evidence := coalesce (json_if intent_evidence) (op_intent_evidence r),
                 op_external_ref := coalesce (json_if external_ref) (op_external_ref r),
                 op_postcondition := coalesce (json_if postcondition) (op_postcondition r),
                 op_updated_at := now, op_version := op_version r + 1\<rparr>) d
          in Inr (d', find_operation d' operation_id))"

definition route_history :: "operation_row \<Rightarrow> string \<Rightarrow> json list" where
  "route_history row selected =
     (let history = (case op_fallback_history row of Some (JList items) \<Rightarrow> items | _ \<Rightarrow> []);
          decision = dict_of (op_route_decision row);
          field = (\<lambda>k. case lookup k decision of None \<Rightarrow> JNull | Some v \<Rightarrow> v) in
      case op_selected_route row of
        Some (c # cs) \<Rightarrow>
          if c # cs = selected then history
          else let extended = history @ [JObj [(''selected_route'', JStr (c # cs)),
                 (''router_policy_version'', (case op_router_policy_version row of Some (v # vs) \<Rightarrow> JStr (v # vs) | _ \<Rightarrow> JNull)),
                 (''representative_tool'', field ''representative_tool''),
                 (''fallback_level'', field ''fallback_level'')]]
               in drop (length extended - 20) extended
      | _ \<Rightarrow> history)"

definition record_route_decision ::
  "time \<Rightarrow> string \<Rightarrow> string \<Rightarrow> string \<Rightarrow> json \<Rightarrow> string \<Rightarrow> db \<Rightarrow> (db \<times> operation_row option) res" where
  "record_route_decision now operation_id selected0 policy0 decision lease_token d =
     (let selected = py_strip selected0; policy = py_strip policy0;
          decision_json = canonical_json (redact_inputs [] decision) in
      if selected = [] \<or> 200 < length selected then Inl (ToolError ''invalid_selected_route'')
      else if policy = [] \<or> 100 < length policy then Inl (ToolError ''invalid_router_policy_version'')
      else if 16000 < length (json_text decision_json) then Inl (ToolError ''route_decision_too_large'')
      else case find_operation d operation_id of
        None \<Rightarrow> Inl (ToolError ''workflow_operation_not_found'')
      | Some row \<Rightarrow>
        if op_execution_intent row = None then Inl (ToolError ''workflow_execution_intent_missing'')
        else if op_state row \<notin> {OCreated, OFailed, OWaiting} then Inl (ToolError ''workflow_route_locked'')
        else case require_current_lease_row d (op_workflow_id row) lease_token now of
          Inl e \<Rightarrow> Inl e
        | Inr _ \<Rightarrow>
          let history = route_history row selected;
              changed = (case op_selected_route row of Some (c # cs) \<Rightarrow> c # cs \<noteq> selected | _ \<Rightarrow> False);
              d1 = update_operation operation_id (\<lambda>r. r\<lparr>op_selected_route := Some selected,
                     op_router_policy_version := Some policy, op_route_decision := Some decision_json,
                     op_fallback_history := Some (canonical_json (JList history)), op_updated_at := now,
                     op_version := op_version r + 1\<rparr>) d;
              d2 = insert_event (op_workflow_id row) (Some (op_step_index row)) (Some operation_id)
                     (if changed then ''route_changed'' else ''route_selected'') (Some (operation_value (op_state row)))
                     (Some (JObj [(''fallback_count'', JInt (int (length history))), (''router_policy_version'', JStr policy),
                        (''selected_route'', JStr selected)])) now d1
          in Inr (d2, find_operation d2 operation_id))"

subsection \<open>Resolving and aggregating\<close>

definition delete_own_admission :: "string \<Rightarrow> db \<Rightarrow> db" where
  "delete_own_admission oid d =
     d\<lparr>db_admissions := sql_delete (\<lambda>a. adm_operation_id a = oid \<and> \<not> request_unreleased d oid) (db_admissions d)\<rparr>"

definition resolution_effect :: "operation_state \<Rightarrow> int \<Rightarrow> int \<Rightarrow> step_state \<times> workflow_state \<times> int" where
  "resolution_effect final step_index step_count =
     (if final \<in> {OSucceeded, OAcknowledged}
      then (SCompleted, (if step_index + 1 = step_count then WCompleted else WPaused), step_index + 1)
      else if final \<in> {OFailed, OUnresolvable} then (SFailed, WFailed, step_index)
      else (SUncertain, WUncertain, step_index))"

definition resolution_guard :: "operation_state \<Rightarrow> workflow_state \<Rightarrow> unit res" where
  "resolution_guard final workflow_state =
     (case (if final = OUncertain then Inr ()
            else case validate_operation_transition OUncertain OReconciling of
                   Inl e \<Rightarrow> Inl e | Inr _ \<Rightarrow> validate_operation_transition OReconciling final) of
        Inl e \<Rightarrow> Inl e
      | Inr _ \<Rightarrow>
        if workflow_state = WUncertain then Inr ()
        else case validate_workflow_transition WUncertain WReconciling of
               Inl e \<Rightarrow> Inl e | Inr _ \<Rightarrow> validate_workflow_transition WReconciling workflow_state)"

definition resolution_rows ::
  "time \<Rightarrow> operation_row \<Rightarrow> operation_state \<Rightarrow> json \<Rightarrow> step_state \<Rightarrow> workflow_state \<Rightarrow> int \<Rightarrow> db \<Rightarrow> db" where
  "resolution_rows now operation final evidence step_state workflow_state current_step d =
     (let oid = op_id operation; w = op_workflow_id operation; ev = redacted (Some evidence);
          d1 = d\<lparr>db_operations := sql_update (\<lambda>r. op_id r = oid \<and> op_version r = op_version operation)
                 (\<lambda>r. r\<lparr>op_state := final, op_version := op_version r + (if final = OUncertain then 1 else 2),
                        op_evidence := ev, op_reconciliation_evidence := ev, op_updated_at := now,
                        op_finished_at := (if final = OUncertain then op_finished_at r else Some now),
                        op_error := (if final \<in> {OFailed, OUnresolvable} then op_error r else None)\<rparr>) (db_operations d)\<rparr>;
          d2 = update_step w (op_step_index operation) (\<lambda>r. r\<lparr>st_state := step_state, st_evidence := ev,
                 st_finished_at := (if step_state = SUncertain then st_finished_at r else Some now)\<rparr>) d1
      in update_workflow w (\<lambda>r. r\<lparr>wf_state := workflow_state, wf_current_step := current_step,
                 wf_version := wf_version r + (if workflow_state = WUncertain then 1 else 2), wf_updated_at := now,
                 wf_last_error := (if workflow_state = WFailed
                   then coalesce (wf_last_error r) (Some ''operation resolution failed'') else None)\<rparr>) d2)"

definition apply_resolution ::
  "time \<Rightarrow> operation_row \<Rightarrow> operation_state \<Rightarrow> json \<Rightarrow> step_state \<Rightarrow> workflow_state \<Rightarrow> int \<Rightarrow> string \<Rightarrow> db \<Rightarrow> db" where
  "apply_resolution now operation final evidence step_state workflow_state current_step mode d =
     (let w = op_workflow_id operation;
          d3 = resolution_rows now operation final evidence step_state workflow_state current_step d
      in if mode = ''dag''
         then let d4 = (if final \<noteq> OUncertain then delete_own_admission (op_id operation) d3 else d3);
                  (target, step, error, _) = aggregate_state d4 w False
              in update_workflow w (\<lambda>r. r\<lparr>wf_state := target, wf_current_step := step, wf_last_error := error\<rparr>) d4
         else d3)"

definition resolve_uncertain_operation ::
  "time \<Rightarrow> string \<Rightarrow> int \<Rightarrow> operation_state \<Rightarrow> json \<Rightarrow> string \<Rightarrow> json option \<Rightarrow> db \<Rightarrow>
   (db \<times> operation_row option \<times> workflow_row option) res" where
  "resolve_uncertain_operation now operation_id expected_version final_state evidence event_type metadata d =
     (if final_state \<notin> {OSucceeded, OFailed, OUncertain, OAcknowledged, OUnresolvable}
      then Inl (ToolError ''invalid_operation_resolution'')
      else case find_operation d operation_id of
        None \<Rightarrow> Inl (ToolError ''workflow_operation_not_found'')
      | Some operation \<Rightarrow>
        if op_version operation \<noteq> expected_version then Inl (ToolError ''workflow_operation_version_conflict'')
        else if op_state operation \<noteq> OUncertain then Inl (ToolError ''workflow_operation_not_uncertain'')
        else case find_workflow d (op_workflow_id operation) of
          None \<Rightarrow> Inl (ToolError ''workflow_not_uncertain'')
        | Some workflow \<Rightarrow>
          if wf_state workflow \<noteq> WUncertain then Inl (ToolError ''workflow_not_uncertain'')
          else
            let w = op_workflow_id operation;
                step_count = int (sql_count (\<lambda>r. st_workflow_id r = w) (db_steps d));
                (step_state, workflow_state, current_step) = resolution_effect final_state (op_step_index operation) step_count
            in (case resolution_guard final_state workflow_state of
                  Inl e \<Rightarrow> Inl e
                | Inr _ \<Rightarrow>
                  let d1 = apply_resolution now operation final_state evidence step_state workflow_state current_step
                             (wf_execution_mode workflow) d;
                      d2 = insert_event w (Some (op_step_index operation)) (Some operation_id) event_type
                             (Some (operation_value final_state))
                             (redacted (Some (if truthy metadata then the metadata else JObj []))) now d1
                  in Inr (d2, find_operation d2 operation_id, find_workflow d2 w)))"

definition recompute_workflow_aggregate ::
  "time \<Rightarrow> string \<Rightarrow> string option \<Rightarrow> bool \<Rightarrow> string \<Rightarrow> db \<Rightarrow> (db \<times> workflow_row option) res" where
  "recompute_workflow_aggregate now workflow_id stop_reason keep_running lease_token d =
     (case find_workflow d workflow_id of
        None \<Rightarrow> Inl (ToolError ''workflow_not_found'')
      | Some workflow \<Rightarrow>
        (case require_current_lease_row d workflow_id lease_token now of
           Inl e \<Rightarrow> Inl e
         | Inr _ \<Rightarrow>
           let (target, current_step, aggregate_error, active) = aggregate_state d workflow_id keep_running;
               error = (case aggregate_error of Some (c # cs) \<Rightarrow> Some (c # cs) | _ \<Rightarrow> stop_reason)
           in if target = wf_state workflow \<and> current_step = wf_current_step workflow \<and> error = wf_last_error workflow
              then Inr (d, Some workflow)
              else
                let d1 = update_workflow workflow_id (\<lambda>r. r\<lparr>wf_state := target, wf_current_step := current_step,
                           wf_version := wf_version r + 1, wf_updated_at := now, wf_last_error := error\<rparr>) d;
                    d2 = insert_event workflow_id None None ''workflow_aggregate_recomputed'' (Some (workflow_value target))
                           (Some (JObj [(''active_count'', JInt (int active)),
                              (''stop_admission_reason'', (case stop_reason of None \<Rightarrow> JNull | Some s \<Rightarrow> JStr s))])) now d1
                in Inr (d2, find_workflow d2 workflow_id)))"

subsection \<open>What the lifecycle operations leave alone\<close>

text \<open>None of them touches a lease, a resource request, a claim or a capacity permit.\<close>

definition same_ownership :: "db \<Rightarrow> db \<Rightarrow> bool" where
  "same_ownership d d' \<longleftrightarrow> same_requests d d' \<and> db_leases d' = db_leases d \<and>
     db_capacity d' = db_capacity d \<and> db_capacity_seq d' = db_capacity_seq d"

lemma same_ownership_refl [simp]: "same_ownership d d"
  by (simp add: same_ownership_def)

lemma same_ownership_trans: "same_ownership d d' \<Longrightarrow> same_ownership d' d'' \<Longrightarrow> same_ownership d d''"
  by (auto simp: same_ownership_def intro: same_requests_trans)

lemma same_ownership_simps [simp]:
  "same_ownership d (update_workflow w f d') = same_ownership d d'"
  "same_ownership d (update_operation oid g d') = same_ownership d d'"
  "same_ownership d (update_step w i h d') = same_ownership d d'"
  "same_ownership d (insert_event v s e t st me now d') = same_ownership d d'"
  "same_ownership d (update_attempt oid ver tok g d') = same_ownership d d'"
  "same_ownership d (d'\<lparr>db_operations := ops\<rparr>) = same_ownership d d'"
  "same_ownership d (d'\<lparr>db_admissions := adms\<rparr>) = same_ownership d d'"
  by (simp_all add: same_ownership_def same_requests_def update_attempt_def)

lemma requeue_failed_ownership [simp]: "same_ownership d (requeue_failed now w d)"
proof -
  have "same_ownership d (fold (requeue_operation now w) rows d')" if "same_ownership d d'" for rows d'
    using that by (induction rows arbitrary: d') (simp_all add: requeue_operation_def)
  then show ?thesis by (simp add: requeue_failed_def)
qed

lemma resolution_rows_ownership [simp]: "same_ownership d (resolution_rows now r f ev ss ws cs d)"
  by (simp add: resolution_rows_def Let_def)

lemma apply_resolution_ownership [simp]:
  "same_ownership d (apply_resolution now r f ev ss ws cs mode d)"
  by (simp add: apply_resolution_def Let_def delete_own_admission_def split: prod.splits)

lemma request_cancel_ownership: "request_cancel now w v reason d = Inr (d', x) \<Longrightarrow> same_ownership d d'"
  by (auto simp: request_cancel_def Let_def split: option.splits if_splits sum.splits prod.splits)

lemma transition_ownership: "transition now w v st cs le t d = Inr (d', x) \<Longrightarrow> same_ownership d d'"
  by (auto simp: transition_def Let_def split: option.splits if_splits sum.splits prod.splits)

lemma advance_running_ownership: "advance_running now w v i t d = Inr (d', x) \<Longrightarrow> same_ownership d d'"
  by (auto simp: advance_running_def Let_def split: option.splits if_splits sum.splits prod.splits)

lemma checkpoint_step_ownership: "checkpoint_step now w j ss ev er inc t d = Inr (d', x) \<Longrightarrow> same_ownership d d'"
  by (auto simp: checkpoint_step_def Let_def split: option.splits if_splits sum.splits prod.splits)

lemma checkpoint_operation_ownership: "checkpoint_operation now oid os res ev ie xr pc er inc l d = Inr (d', x) \<Longrightarrow> same_ownership d d'"
  by (auto simp: checkpoint_operation_def Let_def split: option.splits if_splits sum.splits prod.splits)

lemma update_operation_context_ownership: "update_operation_context now oid ie xr pc l d = Inr (d', x) \<Longrightarrow> same_ownership d d'"
  by (auto simp: update_operation_context_def Let_def split: option.splits if_splits sum.splits prod.splits)

lemma record_route_decision_ownership: "record_route_decision now oid sel pol dec l d = Inr (d', x) \<Longrightarrow> same_ownership d d'"
  by (auto simp: record_route_decision_def Let_def split: option.splits if_splits sum.splits prod.splits)

lemma resolve_uncertain_operation_ownership: "resolve_uncertain_operation now oid v os evd et md d = Inr (d', x) \<Longrightarrow> same_ownership d d'"
  by (auto simp: resolve_uncertain_operation_def Let_def split: option.splits if_splits sum.splits prod.splits)

lemma recompute_workflow_aggregate_ownership: "recompute_workflow_aggregate now w sr kr l d = Inr (d', x) \<Longrightarrow> same_ownership d d'"
  by (auto simp: recompute_workflow_aggregate_def Let_def split: option.splits if_splits sum.splits prod.splits)

lemma fail_unadmitted_ownership: "fail_unadmitted_operation now oid err l d = Inr (d', x) \<Longrightarrow> same_ownership d d'"
  by (auto simp: fail_unadmitted_operation_def Let_def split: option.splits if_splits sum.splits)

lemma prepare_ownership: "prepare_operation_attempt now oid v t ie pc l d = Inr (d', x) \<Longrightarrow> same_ownership d d'"
  by (elim prepare_cases) simp

lemma dispatch_ownership: "mark_operation_may_dispatch now oid v t l d = Inr (d', x) \<Longrightarrow> same_ownership d d'"
  by (elim dispatch_cases) (simp add: same_ownership_def)

lemma complete_ownership:
  "complete_operation_attempt now oid v t f res ev er l d = Inr (d', x) \<Longrightarrow> same_ownership d d'"
  by (elim complete_cases) (simp add: same_ownership_def)

lemma claim_ready_ownership:
  "claim_ready_operation now t oid ow ex gl cat wt l d = Inr (d', x) \<Longrightarrow> same_ownership d d'"
  by (auto simp: claim_ready_operation_def Let_def same_ownership_def split: option.splits if_splits sum.splits)

subsection \<open>Admissions and operations still agree\<close>

lemma workflow_only_benign:
  "db_operations d' = db_operations d \<Longrightarrow> db_admissions d' = db_admissions d \<Longrightarrow>
   db_workflows d' = db_workflows (update_workflow w f d) \<Longrightarrow>
   (\<And>r. wf_id (f r) = wf_id r \<and> wf_max_parallel_steps (f r) = wf_max_parallel_steps r) \<Longrightarrow> attempts_benign d d'"
  using workflow_limits_update [of f w d]
  by (intro same_attempts_benign) (simp_all add: workflow_limits_def)

lemma request_cancel_benign:
  assumes "request_cancel now w v reason d = Inr (d', x)"
  shows "attempts_benign d d'"
proof -
  obtain f where "d' = d \<or> (db_operations d' = db_operations d \<and> db_admissions d' = db_admissions d \<and>
      db_workflows d' = db_workflows (update_workflow w f d))"
    "\<And>r. wf_id (f r) = wf_id r \<and> wf_max_parallel_steps (f r) = wf_max_parallel_steps r"
    using assms
    by (fastforce simp: request_cancel_def Let_def split: option.splits if_splits sum.splits)
  then show ?thesis using workflow_only_benign by auto
qed

lemma advance_running_benign: "advance_running now w v i t d = Inr (d', x) \<Longrightarrow> attempts_benign d d'"
  by (auto simp: advance_running_def Let_def split: option.splits if_splits sum.splits
        intro!: workflow_only_benign)

lemma recompute_benign: "recompute_workflow_aggregate now w sr kr l d = Inr (d', x) \<Longrightarrow> attempts_benign d d'"
  by (auto simp: recompute_workflow_aggregate_def Let_def split: option.splits if_splits sum.splits prod.splits
        intro!: workflow_only_benign)

lemma checkpoint_step_benign: "checkpoint_step now w j ss ev er inc t d = Inr (d', x) \<Longrightarrow> attempts_benign d d'"
  by (auto simp: checkpoint_step_def split: option.splits if_splits sum.splits intro!: same_attempts_benign)

lemma checkpoint_operation_benign:
  "checkpoint_operation now oid os res ev ie xr pc er inc l d = Inr (d', x) \<Longrightarrow> attempts_benign d d'"
  by (auto simp: checkpoint_operation_def Let_def split: option.splits sum.splits intro!: update_operation_benign)

lemma update_context_benign: "update_operation_context now oid ie xr pc l d = Inr (d', x) \<Longrightarrow> attempts_benign d d'"
  by (auto simp: update_operation_context_def Let_def split: option.splits if_splits sum.splits
        intro!: update_operation_benign)

lemma insert_event_benign [simp]: "attempts_benign d (insert_event w s e t st m now d') = attempts_benign d d'"
  by (simp add: attempts_benign_def attempt_inv_def admitted_weight_def)

lemma update_step_benign [simp]: "attempts_benign d (update_step w i f d') = attempts_benign d d'"
  by (simp add: attempts_benign_def attempt_inv_def admitted_weight_def)

lemma update_workflow_benign:
  "(\<And>r. wf_id (f r) = wf_id r \<and> wf_max_parallel_steps (f r) = wf_max_parallel_steps r) \<Longrightarrow>
   attempts_benign d (update_workflow w f d') = attempts_benign d d'"
  using workflow_limits_update [of f w d'] by (simp add: attempts_benign_def attempt_inv_def admitted_weight_def)

lemma record_route_benign: "record_route_decision now oid sel pol dec l d = Inr (d', x) \<Longrightarrow> attempts_benign d d'"
  by (auto simp: record_route_decision_def Let_def split: option.splits if_splits sum.splits
        intro!: update_operation_benign)

lemma resolution_rows_benign: "attempts_benign d (resolution_rows now r f ev ss ws cs d)"
  unfolding resolution_rows_def Let_def
  by (auto simp: update_workflow_benign intro!: operations_update_benign)

lemma apply_resolution_benign: "attempts_benign d (apply_resolution now r f ev ss ws cs mode d)"
proof -
  have "attempts_benign d (delete_own_admission oid (resolution_rows now r f ev ss ws cs d))" for oid
    unfolding delete_own_admission_def
    by (rule attempts_benign_trans [OF resolution_rows_benign admissions_delete_benign])
  then show ?thesis
    by (simp add: apply_resolution_def Let_def update_workflow_benign resolution_rows_benign split: prod.splits)
qed

lemma resolve_uncertain_benign:
  "resolve_uncertain_operation now oid v os evd et md d = Inr (d', x) \<Longrightarrow> attempts_benign d d'"
  by (auto simp: resolve_uncertain_operation_def Let_def apply_resolution_benign
        split: option.splits if_splits sum.splits prod.splits)

lemma requeue_operation_benign:
  assumes "\<forall>a \<in> set (db_admissions d). adm_operation_id a \<noteq> op_id r"
  shows "attempts_benign d (requeue_operation now w r d)" "db_admissions (requeue_operation now w r d) = db_admissions d"
  using assms by (auto simp: requeue_operation_def intro!: operations_update_benign)

lemma requeue_rows_benign:
  assumes "\<forall>r \<in> set rows. \<forall>a \<in> set (db_admissions d). adm_operation_id a \<noteq> op_id r"
  shows "attempts_benign d (fold (requeue_operation now w) rows d)"
  using assms
proof (induction rows arbitrary: d)
  case (Cons r rows)
  have "attempts_benign d (requeue_operation now w r d)" "db_admissions (requeue_operation now w r d) = db_admissions d"
    using Cons.prems requeue_operation_benign by auto
  with Cons show ?case by (auto intro: attempts_benign_trans)
qed simp

lemma requeue_failed_benign:
  assumes "attempt_inv d" "\<not> resume_unresolved d w"
  shows "attempts_benign d (requeue_failed now w d)"
  unfolding requeue_failed_def
proof (rule requeue_rows_benign, intro ballI notI)
  fix r a
  assume r: "r \<in> set (filter (\<lambda>r. op_workflow_id r = w \<and> op_state r = OFailed) (db_operations d))"
    and a: "a \<in> set (db_admissions d)" "adm_operation_id a = op_id r"
  with assms(1) obtain s where "s \<in> set (db_operations d)" "op_id s = op_id r" "op_workflow_id s = adm_workflow_id a"
    by (fastforce simp: attempt_inv_def admission_backed_def)
  moreover from this r assms(1) have "s = r"
    using unique_byD [of op_id "db_operations d" s r] by (simp add: attempt_inv_def)
  ultimately show False using r a assms(2) by (auto simp: resume_unresolved_def)
qed

lemma transition_benign:
  assumes "attempt_inv d" "transition now w v st cs le t d = Inr (d', x)"
  shows "attempts_benign d d'"
proof -
  have "st = WQueued \<Longrightarrow> \<not> resume_unresolved d w"
    using assms(2) by (auto simp: transition_def require_safe_resume_def split: option.splits if_splits sum.splits)
  then have "st = WQueued \<Longrightarrow> attempts_benign d (requeue_failed now w d)"
    using assms(1) by (blast intro: requeue_failed_benign)
  with assms(2) show ?thesis
    by (auto simp: transition_def Let_def update_workflow_benign split: option.splits if_splits sum.splits)
qed

subsection \<open>Cancelling, versions, resuming\<close>

lemma find_workflow_update:
  "(\<And>r. wf_id (f r) = wf_id r) \<Longrightarrow> find_workflow (update_workflow w f d) w = map_option f (find_workflow d w)"
  by (cases "find_workflow d w")
     (auto simp: find_workflow_def sql_one_update simp del: sql_one_None dest: sql_one_Some)

lemma find_workflow_insert_event [simp]: "find_workflow (insert_event w s e t st m now d) v = find_workflow d v"
  by (simp add: find_workflow_def)

lemma request_cancel_marks:
  assumes "request_cancel now w v reason d = Inr (d', x)" "find_workflow d w = Some row" "wf_state row \<notin> {WCompleted, WCancelled}"
  shows "cancelled_before_dispatch d' w" "db_operations d' = db_operations d"
proof -
  show "cancelled_before_dispatch d' w"
    using assms
    by (cases "wf_cancel_requested_at row")
       (auto simp: request_cancel_def Let_def cancelled_before_dispatch_def find_workflow_update
          split: if_splits sum.splits option.splits)
  show "db_operations d' = db_operations d"
    using assms by (auto simp: request_cancel_def Let_def split: if_splits sum.splits)
qed

lemma find_operation_same: "db_operations d' = db_operations d \<Longrightarrow> find_operation d' oid = find_operation d oid"
  by (simp add: find_operation_def)


lemma find_workflow_requeue [simp]: "find_workflow (requeue_failed now w d) v = find_workflow d v"
proof -
  have "db_workflows (fold (requeue_operation now w) rows d') = db_workflows d'" for rows d'
    by (induction rows arbitrary: d') (simp_all add: requeue_operation_def)
  then show ?thesis by (simp add: find_workflow_def requeue_failed_def)
qed

lemma transition_row:
  assumes "transition now w v st cs le t d = Inr (d', x)"
  obtains row row' where "find_workflow d w = Some row" "wf_version row = v" "st \<in> set (workflow_transitions (wf_state row))"
    "find_workflow d' w = Some row'" "x = Some row'" "wf_version row' = v + 1" "wf_state row' = st"
  using assms
  by (fastforce simp: transition_def Let_def find_workflow_update validate_workflow_transition_def require_transition_def
        split: option.splits if_splits sum.splits)

text \<open>Writers are serialised by the version: a transition that goes through follows the transition
  table and stores the next version; after it every transition, advance or cancel request that still
  names the old version is refused.\<close>

theorem one_writer_per_version:
  assumes "transition now w v st cs le t d = Inr (d', x)"
  shows "(\<exists>row row'. find_workflow d w = Some row \<and> wf_version row = v \<and> st \<in> set (workflow_transitions (wf_state row)) \<and>
      x = Some row' \<and> find_workflow d' w = Some row' \<and> wf_state row' = st \<and> wf_version row' = v + 1) \<and>
    (\<forall>now st cs le t. is_error (transition now w v st cs le t d')) \<and>
    (\<forall>now i t. is_error (advance_running now w v i t d')) \<and>
    (\<forall>now reason. is_error (request_cancel now w v reason d'))"
proof -
  obtain row row' where rows: "find_workflow d w = Some row" "wf_version row = v"
    "st \<in> set (workflow_transitions (wf_state row))" "find_workflow d' w = Some row'" "x = Some row'"
    "wf_version row' = v + 1" "wf_state row' = st"
    using assms by (rule transition_row)
  then show ?thesis
    by (simp add: transition_def advance_running_def request_cancel_def)
qed

lemma replay_check_Inr:
  "replay_check rows = Inr () \<Longrightarrow> r \<in> set rows \<Longrightarrow> \<exists>desc. get_action_descriptor (op_action r) = Inr desc \<and>
     (ad_mutates desc \<or> ad_name desc = ''verify_changes'' \<longrightarrow>
      text_field ''dispatch_phase'' (op_evidence r) \<in> {''reserved'', ''prepared'', ''preflight_rejected''} \<and> op_external_ref r = None)"
proof (induction rows)
  case (Cons s rows)
  show ?case
  proof (cases "get_action_descriptor (op_action s)")
    case (Inr desc)
    with Cons show ?thesis by (cases "r = s") (simp_all split: if_split_asm, blast?)
  qed (use Cons in simp)
qed simp

text \<open>C17. Resuming never replays an effect: a workflow is queued again only when no operation of it is
  running, waiting, uncertain or reconciling, none of its resource requests is unreleased and no attempt is
  admitted; and each of its failed operations whose action has an effect carries evidence that it was
  rejected before dispatch and has no external reference.\<close>

theorem resume_is_safe:
  assumes "transition now w v WQueued cs le t d = Inr (d', x)"
  shows "(\<forall>r \<in> set (db_operations d). op_workflow_id r = w \<longrightarrow> op_state r \<notin> {ORunning, OWaiting, OUncertain, OReconciling}) \<and>
    (\<forall>q \<in> set (db_requests d). rr_workflow_id q = Some w \<longrightarrow> rr_state q = Released) \<and>
    (\<forall>a \<in> set (db_admissions d). adm_workflow_id a \<noteq> w) \<and>
    (\<forall>r \<in> set (db_operations d). op_workflow_id r = w \<and> op_state r \<in> {OFailed, OUnresolvable} \<longrightarrow>
      (\<exists>desc. get_action_descriptor (op_action r) = Inr desc \<and>
        (ad_mutates desc \<or> ad_name desc = ''verify_changes'' \<longrightarrow>
         text_field ''dispatch_phase'' (op_evidence r) \<in> {''reserved'', ''prepared'', ''preflight_rejected''} \<and>
         op_external_ref r = None)))"
proof -
  have safe: "require_safe_resume d w = Inr ()"
    using assms by (cases "require_safe_resume d w") (auto simp: transition_def split: option.splits if_splits sum.splits)
  then have clear: "\<not> resume_unresolved d w"
    and replay: "replay_check (filter (\<lambda>r. op_workflow_id r = w \<and> op_state r \<in> {OFailed, OUnresolvable}) (db_operations d)) = Inr ()"
    by (auto simp: require_safe_resume_def split: if_splits)
  show ?thesis
  proof (intro conjI)
    show "\<forall>r \<in> set (db_operations d). op_workflow_id r = w \<and> op_state r \<in> {OFailed, OUnresolvable} \<longrightarrow>
      (\<exists>desc. get_action_descriptor (op_action r) = Inr desc \<and>
        (ad_mutates desc \<or> ad_name desc = ''verify_changes'' \<longrightarrow>
         text_field ''dispatch_phase'' (op_evidence r) \<in> {''reserved'', ''prepared'', ''preflight_rejected''} \<and>
         op_external_ref r = None))"
      using replay_check_Inr [OF replay] by simp
  qed (use clear in \<open>auto simp: resume_unresolved_def\<close>)
qed

subsection \<open>Recomputing, and the remaining fenced operations\<close>

lemma aggregate_state_workflow:
  assumes "\<And>r. wf_id (f r) = wf_id r" "\<And>r. wf_cancel_requested_at (f r) = wf_cancel_requested_at r"
  shows "aggregate_state (update_workflow v f d) w k = aggregate_state d w k"
proof -
  have "find_workflow (update_workflow v f d) w = map_option (\<lambda>r. if wf_id r = v then f r else r) (find_workflow d w)"
    using assms(1) by (simp add: find_workflow_def sql_one_update)
  then have "cancel_marked (update_workflow v f d) w = cancel_marked d w"
    using assms(2) by (auto simp: cancel_marked_def split: option.splits)
  then show ?thesis
    by (simp add: aggregate_state_def workflow_operations_def active_attempts_def unresolved_requests_def)
qed

lemma aggregate_state_event [simp]: "aggregate_state (insert_event v s e t st m now d) w k = aggregate_state d w k"
  by (simp add: aggregate_state_def workflow_operations_def active_attempts_def unresolved_requests_def cancel_marked_def)

lemma find_lease_insert_event [simp]: "find_lease (insert_event v s e t st m now d) w = find_lease d w"
  by (simp add: find_lease_def)

lemma find_lease_update_workflow [simp]: "find_lease (update_workflow v f d) w = find_lease d w"
  by (simp add: find_lease_def)

text \<open>Recomputing the aggregate settles: the row then shows the state, step and error the operations,
  admissions and resource requests determine, and recomputing again (a scheduler polls) changes nothing, so
  neither the event history nor the version grows.\<close>

theorem recompute_settles:
  assumes "recompute_workflow_aggregate now w stop keep l d = Inr (d', x)"
  shows "(\<exists>row. x = Some row \<and> find_workflow d' w = Some row \<and> wf_state row = fst (aggregate_state d w keep) \<and>
      wf_current_step row = fst (snd (aggregate_state d w keep))) \<and>
    recompute_workflow_aggregate now w stop keep l d' = Inr (d', x)"
proof -
  obtain target step err active where agg: "aggregate_state d w keep = (target, step, err, active)"
    by (cases "aggregate_state d w keep") auto
  let ?e = "case err of Some (c # cs) \<Rightarrow> Some (c # cs) | _ \<Rightarrow> stop"
  let ?f = "\<lambda>r. r\<lparr>wf_state := target, wf_current_step := step, wf_version := wf_version r + 1, wf_updated_at := now, wf_last_error := ?e\<rparr>"
  obtain row lease where row: "find_workflow d w = Some row" and lease: "require_current_lease_row d w l now = Inr lease"
    using assms by (auto simp: recompute_workflow_aggregate_def split: option.splits sum.splits)
  have same: "aggregate_state (update_workflow w ?f d) w keep = (target, step, err, active)"
    using agg by (simp add: aggregate_state_workflow)
  show ?thesis
  proof (cases "target = wf_state row \<and> step = wf_current_step row \<and> ?e = wf_last_error row")
    case True
    with assms row lease agg have "d' = d" "x = Some row"
      by (auto simp: recompute_workflow_aggregate_def Let_def)
    with True assms row agg show ?thesis by simp
  next
    case False
    with assms row lease agg obtain m where d': "d' = insert_event w None None ''workflow_aggregate_recomputed''
        (Some (workflow_value target)) m now (update_workflow w ?f d)" and x: "x = Some (?f row)"
      by (auto simp: recompute_workflow_aggregate_def Let_def find_workflow_update)
    have "find_workflow d' w = Some (?f row)" "require_current_lease_row d' w l now = Inr lease"
      using row lease by (simp_all add: d' find_workflow_update require_current_lease_row_def)
    moreover have "aggregate_state d' w keep = (target, step, err, active)" using same d' by simp
    ultimately show ?thesis
      using x agg by (simp add: recompute_workflow_aggregate_def)
  qed
qed

interpretation checkpointing: lease_fenced
  "checkpoint_operation now oid os res ev ie xr pc er inc" "operation_target oid" now
  for now oid os res ev ie xr pc er inc
  by unfold_locales
     (auto simp: checkpoint_operation_def operation_target_def require_current_lease_row_Inr split: option.splits sum.splits)

interpretation contextual: lease_fenced "update_operation_context now oid ie xr pc" "operation_target oid" now
  for now oid ie xr pc
  by unfold_locales
     (auto simp: update_operation_context_def operation_target_def require_current_lease_row_Inr
        split: option.splits sum.splits if_splits)

interpretation routing: lease_fenced "record_route_decision now oid sel pol dec" "operation_target oid" now
  for now oid sel pol dec
  by unfold_locales
     (auto simp: record_route_decision_def Let_def operation_target_def require_current_lease_row_Inr
        split: option.splits sum.splits if_splits)

interpretation recomputing: lease_fenced "recompute_workflow_aggregate now w stop keep" "\<lambda>d v. v = w" now
  for now w stop keep
  by unfold_locales
     (auto simp: recompute_workflow_aggregate_def Let_def require_current_lease_row_Inr
        split: option.splits sum.splits if_splits prod.splits)

subsection \<open>An example\<close>


theorem one_writer_per_version_witness:
  "\<exists>d x. transition 8 ''w'' 1 WPaused None None (Some ''t1'') ready_db = Inr (d, x) \<and>
     is_error (request_cancel 9 ''w'' 1 None d)"
proof -
  have "\<not> is_error (transition 8 ''w'' 1 WPaused None None (Some ''t1'') ready_db)" by code_simp
  then obtain d x where "transition 8 ''w'' 1 WPaused None None (Some ''t1'') ready_db = Inr (d, x)"
    using not_error_Inr by fastforce
  with one_writer_per_version [OF this] show ?thesis by blast
qed

definition paused_db :: db where
  "paused_db = db_after (transition 8 ''w'' 1 WPaused None None (Some ''t1'') ready_db)"

theorem resume_is_safe_witness:
  "\<exists>d x. transition 9 ''w'' 2 WQueued None None None paused_db = Inr (d, x) \<and>
     list_all (\<lambda>r. op_state r \<noteq> ORunning) (filter (\<lambda>r. op_workflow_id r = ''w'') (db_operations paused_db))"
proof -
  have "\<not> is_error (transition 9 ''w'' 2 WQueued None None None paused_db)" by code_simp
  then obtain d x where "transition 9 ''w'' 2 WQueued None None None paused_db = Inr (d, x)"
    using not_error_Inr by fastforce
  with resume_is_safe [OF this, THEN conjunct1] show ?thesis by (auto simp: list_all_iff)
qed

theorem recompute_settles_witness:
  "\<exists>d x. recompute_workflow_aggregate 9 ''w'' None False ''t1'' ready_db = Inr (d, x) \<and>
     recompute_workflow_aggregate 9 ''w'' None False ''t1'' d = Inr (d, x)"
proof -
  have "\<not> is_error (recompute_workflow_aggregate 9 ''w'' None False ''t1'' ready_db)" by code_simp
  then obtain d x where "recompute_workflow_aggregate 9 ''w'' None False ''t1'' ready_db = Inr (d, x)"
    using not_error_Inr by fastforce
  with recompute_settles [OF this] show ?thesis by blast
qed

end
