(* ===== verification/Recovery.thy ===== *)
theory Recovery
  imports Lifecycle
begin

text \<open>
  Restart recovery in \<open>core/workflow_store.py\<close>: native resource owners that are gone lose their
  claims, and every running or cancelling workflow whose lease is missing or expired is settled from
  what its operations, admissions and requests show, so that work which may have been dispatched ends
  as uncertain and only work that provably was not can run again. \<open>alive\<close> is the answer of
  \<open>native_resource_owner_alive\<close>.
\<close>

subsection \<open>DAG workflows\<close>

definition has_child :: "db \<Rightarrow> operation_row \<Rightarrow> bool" where
  "has_child d operation \<longleftrightarrow> op_external_ref operation \<noteq> None \<or>
     sql_exists (\<lambda>c. cap_state c \<noteq> Released \<and>
       sql_exists (\<lambda>r. rr_operation_id r = Some (op_id operation) \<and> cap_resource_request_id c = Some (rr_request_id r))
         (db_requests d)) (db_capacity d)"

definition safe_to_rerun :: "bool \<Rightarrow> operation_row \<Rightarrow> bool" where
  "safe_to_rerun child operation \<longleftrightarrow> op_state operation = OCreated \<and> \<not> child \<and>
     (op_dispatch_phase operation \<in> {Some Reserved, Some Prepared} \<or>
      (op_dispatch_phase operation = None \<and> op_started_at operation = None \<and> op_attempts operation = 0))"

definition recovered_state :: "bool \<Rightarrow> operation_state \<Rightarrow> operation_state" where
  "recovered_state safe state =
     (if state \<in> {ORunning, OWaiting, OReconciling} \<or> (state = OCreated \<and> \<not> safe) then OUncertain else state)"

fun recovered_step :: "operation_state \<Rightarrow> step_state" where
  "recovered_step OSucceeded = SCompleted"
| "recovered_step OAcknowledged = SCompleted"
| "recovered_step OUnresolvable = SFailed"
| "recovered_step OFailed = SFailed"
| "recovered_step OCreated = SCreated"
| "recovered_step OCancelled = SCancelled"
| "recovered_step ORunning = SRunning"
| "recovered_step OWaiting = SWaiting"
| "recovered_step OReconciling = SReconciling"
| "recovered_step OUncertain = SUncertain"

definition drop_requests :: "time \<Rightarrow> bool \<Rightarrow> string \<Rightarrow> (request_row \<Rightarrow> bool) \<Rightarrow> db \<Rightarrow> db" where
  "drop_requests now release reason P d =
     update_requests (\<lambda>r. P r \<and> rr_state r \<in> {Active, Pending})
       (\<lambda>r. r\<lparr>rr_state := (if rr_state r = Pending \<or> release then Released else Quarantined),
              rr_reason := Some reason, rr_updated_at := now\<rparr>) d"

definition lease_lost :: string where
  "lease_lost = ''workflow_lease_lost_before_resource_reconciliation''"

definition ended :: string where
  "ended = ''runtime_ended_without_checkpoint''"

definition recover_operation :: "time \<Rightarrow> string \<Rightarrow> operation_row \<Rightarrow> db \<Rightarrow> db" where
  "recover_operation now w operation d =
     (let oid = op_id operation; child = has_child d operation; safe = safe_to_rerun child operation;
          state = recovered_state safe (op_state operation);
          d1 = update_operation oid (\<lambda>r. r\<lparr>op_state := state, op_version := op_version r + 1, op_updated_at := now,
                 op_dispatch_phase := (if safe then None else op_dispatch_phase r),
                 op_error := (if state = OUncertain then Some ended else op_error r)\<rparr>) d;
          d2 = update_step w (op_step_index operation) (\<lambda>r. r\<lparr>st_state := recovered_step state,
                 st_evidence := op_evidence operation,
                 st_error := (if state = OUncertain then Some ended else op_error operation),
                 st_finished_at := (if state = OCreated then None else coalesce (st_finished_at r) (Some now))\<rparr>) d1;
          d3 = drop_requests now (safe \<or> (settled_operation state \<and> \<not> child)) lease_lost
                 (\<lambda>r. rr_operation_id r = Some oid) d2
      in if safe \<or> settled_operation state then delete_own_admission oid d3 else d3)"

definition delete_leases :: "(lease_row \<Rightarrow> bool) \<Rightarrow> db \<Rightarrow> db" where
  "delete_leases P d = d\<lparr>db_leases := sql_delete P (db_leases d)\<rparr>"

definition recover_dag_execution :: "time \<Rightarrow> string \<Rightarrow> db \<Rightarrow> db" where
  "recover_dag_execution now w d =
     (let operations = sort_key (\<lambda>r. (op_step_index r, op_operation_index r))
            (filter (\<lambda>r. op_workflow_id r = w) (db_operations d));
          d1 = fold (recover_operation now w) operations d;
          d2 = drop_requests now False lease_lost (\<lambda>r. rr_workflow_id r = Some w \<and> rr_operation_id r = None) d1;
          (target, step, error, _) = aggregate_state d2 w False;
          d3 = update_workflow w (\<lambda>r. r\<lparr>wf_state := target, wf_current_step := step, wf_version := wf_version r + 1,
                 wf_updated_at := now, wf_last_error := error\<rparr>) d2;
          d4 = delete_leases (\<lambda>l. ls_workflow_id l = w) d3
      in insert_event w None None ''workflow_restart_recovered'' (Some (workflow_value target))
           (Some (JObj [(''operation_count'', JInt (int (length operations)))])) now d4)"

subsection \<open>Sequential workflows\<close>

definition current_operation :: "db \<Rightarrow> string \<Rightarrow> int \<Rightarrow> operation_row option" where
  "current_operation d w i = sql_one (\<lambda>r. op_workflow_id r = w \<and> op_step_index r = i \<and> op_operation_index r = 0) (db_operations d)"

definition untouched_step :: "db \<Rightarrow> string \<Rightarrow> int \<Rightarrow> bool" where
  "untouched_step d w i = sql_exists (\<lambda>s. st_workflow_id s = w \<and> st_step_index s = i \<and> st_state s = SCreated \<and>
     st_attempts s = 0 \<and> st_started_at s = None) (db_steps d)"

definition set_workflow :: "time \<Rightarrow> workflow_state \<Rightarrow> workflow_row \<Rightarrow> workflow_row" where
  "set_workflow now state r = r\<lparr>wf_state := state, wf_version := wf_version r + 1, wf_updated_at := now\<rparr>"

definition settle_sequential :: "time \<Rightarrow> workflow_row \<Rightarrow> operation_row option \<Rightarrow> db \<Rightarrow> db" where
  "settle_sequential now row operation d =
     (let w = wf_id row; i = wf_current_step row;
          step_count = int (sql_count (\<lambda>s. st_workflow_id s = w) (db_steps d));
          state = map_option op_state operation;
          cancelling = (wf_state row = WCancelling \<or> wf_cancel_requested_at row \<noteq> None) in
      if state = Some OSucceeded then
        let target = (if cancelling then WCancelled else if step_count \<le> i + 1 then WCompleted else WPaused) in
        update_workflow w (\<lambda>r. (set_workflow now target r)\<lparr>wf_current_step := i + 1, wf_last_error := None\<rparr>)
          (update_step w i (\<lambda>s. s\<lparr>st_state := SCompleted, st_finished_at := coalesce (st_finished_at s) (Some now),
             st_evidence := coalesce (st_evidence s) (case operation of None \<Rightarrow> None | Some x \<Rightarrow> op_evidence x),
             st_error := None\<rparr>) d)
      else if state \<in> {Some OFailed, Some OUnresolvable} then
        let error = take 2000 (case operation of Some x \<Rightarrow> (case op_error x of Some (c # cs) \<Rightarrow> c # cs
              | _ \<Rightarrow> ''operation_failed_before_aggregate_checkpoint'') | None \<Rightarrow> []) in
        update_workflow w (\<lambda>r. (set_workflow now WFailed r)\<lparr>wf_last_error := Some error\<rparr>)
          (update_step w i (\<lambda>s. s\<lparr>st_state := SFailed, st_finished_at := coalesce (st_finished_at s) (Some now),
             st_error := coalesce (st_error s) (Some error)\<rparr>) d)
      else if state = Some OCancelled then
        update_workflow w (set_workflow now WCancelled)
          (update_step w i (\<lambda>s. s\<lparr>st_state := SCancelled, st_finished_at := coalesce (st_finished_at s) (Some now),
             st_error := coalesce (st_error s) (Some ''workflow cancellation requested'')\<rparr>) d)
      else if wf_state row = WRunning \<and> wf_cancel_requested_at row = None \<and> state = Some OCreated \<and>
              (case operation of None \<Rightarrow> False | Some x \<Rightarrow> op_attempts x = 0 \<and> op_started_at x = None) \<and>
              untouched_step d w i
      then update_workflow w (set_workflow now WPaused) d
      else
        let d1 = update_workflow w (\<lambda>r. (set_workflow now WUncertain r)\<lparr>wf_last_error := Some ''runtime_ended_during_step''\<rparr>) d;
            d2 = update_step w i (\<lambda>s. if st_state s \<in> {SCreated, SRunning, SWaiting}
                   then s\<lparr>st_state := SUncertain, st_finished_at := Some now, st_error := Some ended\<rparr> else s) d1
        in (case operation of
              None \<Rightarrow> d2
            | Some x \<Rightarrow> if op_state x \<in> {OCreated, ORunning, OWaiting}
                then update_operation (op_id x) (\<lambda>r. r\<lparr>op_state := OUncertain, op_version := op_version r + 1,
                       op_updated_at := now, op_finished_at := Some now, op_error := Some ended\<rparr>) d2
                else d2))"

definition recover_sequential :: "time \<Rightarrow> workflow_row \<Rightarrow> db \<Rightarrow> db" where
  "recover_sequential now row d =
     (let w = wf_id row;
          d1 = update_requests (\<lambda>r. rr_workflow_id r = Some w \<and> rr_state r = Active)
                 (\<lambda>r. r\<lparr>rr_state := Quarantined, rr_reason := Some lease_lost, rr_updated_at := now\<rparr>) d;
          d2 = update_requests (\<lambda>r. rr_workflow_id r = Some w \<and> rr_state r = Pending)
                 (\<lambda>r. r\<lparr>rr_state := Released, rr_reason := Some ''recovery_cancelled_pending'', rr_updated_at := now\<rparr>) d1;
          operation = current_operation d2 w (wf_current_step row);
          d3 = settle_sequential now row operation d2;
          d4 = delete_leases (\<lambda>l. ls_workflow_id l = w \<and> ls_expires_at l \<le> now) d3
      in insert_event w (Some (wf_current_step row)) (map_option op_id operation) ''workflow_restart_recovered''
           (map_option (\<lambda>r. workflow_value (wf_state r)) (find_workflow d4 w))
           (Some (JObj [(''previous_state'', JStr (workflow_value (wf_state row)))])) now d4)"

subsection \<open>The whole pass\<close>

definition native_owner :: "string \<Rightarrow> bool" where
  "native_owner owner \<longleftrightarrow>
     map (\<lambda>c. let n = of_char c :: nat in if 65 \<le> n \<and> n \<le> 90 then char_of (n + 32) else c) (take 13 owner) = ''native-owner-''"

definition owner_identity :: "string \<Rightarrow> string" where
  "owner_identity owner =
     (if CHR ''-'' \<in> set owner then rev (tl (dropWhile (\<lambda>c. c \<noteq> CHR ''-'') (rev owner))) else owner)"

definition stale_native :: "(string \<Rightarrow> bool option) \<Rightarrow> db \<Rightarrow> (string \<times> string) list" where
  "stale_native alive d =
     (let rows = filter (\<lambda>r. rr_workflow_id r = None \<and> rr_state r \<in> {Active, Pending} \<and> native_owner (rr_owner_token r))
                   (db_requests d);
          snapshot = (\<lambda>owner. case sql_one (\<lambda>r. owner_identity (rr_owner_token r) = owner_identity owner) rows of
                        None \<Rightarrow> None | Some r \<Rightarrow> alive (rr_owner_token r))
      in map (\<lambda>r. (rr_request_id r, rr_owner_token r)) (filter (\<lambda>r. snapshot (rr_owner_token r) = Some False) rows))"

definition drop_native :: "time \<Rightarrow> (string \<times> string) \<Rightarrow> db \<times> nat \<Rightarrow> db \<times> nat" where
  "drop_native now stale acc =
     (let P = (\<lambda>r. rr_request_id r = fst stale \<and> rr_owner_token r = snd stale \<and> rr_workflow_id r = None) in
      (drop_requests now False ''native_owner_identity_unavailable'' P (fst acc),
       snd acc + sql_count (\<lambda>r. P r \<and> rr_state r \<in> {Active, Pending}) (db_requests (fst acc))))"

definition interrupted :: "time \<Rightarrow> db \<Rightarrow> workflow_row list" where
  "interrupted now d = filter (\<lambda>r. wf_state r \<in> {WRunning, WCancelling} \<and>
     (case find_lease d (wf_id r) of None \<Rightarrow> True | Some l \<Rightarrow> ls_expires_at l \<le> now)) (db_workflows d)"

definition recover_workflow :: "time \<Rightarrow> workflow_row \<Rightarrow> db \<Rightarrow> db" where
  "recover_workflow now row d =
     (if wf_execution_mode row = ''dag'' then recover_dag_execution now (wf_id row) d else recover_sequential now row d)"

definition recover_with :: "time \<Rightarrow> (string \<times> string) list \<Rightarrow> db \<Rightarrow> db \<times> nat" where
  "recover_with now stale d =
     (let (d1, native_count) = fold (drop_native now) stale (d, 0);
          rows = interrupted now d1
      in (fold (recover_workflow now) rows d1, length rows + native_count))"

definition recover_interrupted :: "time \<Rightarrow> (string \<Rightarrow> bool option) \<Rightarrow> db \<Rightarrow> db \<times> nat" where
  "recover_interrupted now alive d = recover_with now (stale_native alive d) d"

subsection \<open>Recovery lets nobody in\<close>

text \<open>Recovery only lets go: no new holder of claims, no new admission, no new lease, and the capacity
  table is as before.\<close>

definition recovery_benign :: "db \<Rightarrow> db \<Rightarrow> bool" where
  "recovery_benign d d' \<longleftrightarrow> requests_benign d d' \<and> attempts_benign d d' \<and>
     db_capacity d' = db_capacity d \<and> db_capacity_seq d' = db_capacity_seq d \<and> (lease_inv d \<longrightarrow> lease_inv d')"

lemma recovery_benign_refl [simp]: "recovery_benign d d"
  by (simp add: recovery_benign_def)

lemma recovery_benign_trans: "recovery_benign d d' \<Longrightarrow> recovery_benign d' d'' \<Longrightarrow> recovery_benign d d''"
  unfolding recovery_benign_def by (metis requests_benign_trans attempts_benign_trans)

lemma recovery_benign_fold:
  assumes "\<And>x d. x \<in> set xs \<Longrightarrow> recovery_benign d (f x d)"
  shows "recovery_benign d (fold f xs d)"
  using assms
proof (induction xs arbitrary: d)
  case (Cons x xs)
  have "recovery_benign d (f x d)" "recovery_benign (f x d) (fold f xs (f x d))"
    using Cons by auto
  then show ?case by (simp add: recovery_benign_trans)
qed simp

lemma same_ownership_benign:
  "same_ownership d d' \<Longrightarrow> attempts_benign d d' \<Longrightarrow> recovery_benign d d'"
  by (auto simp: recovery_benign_def same_ownership_def lease_inv_def intro: same_requests_benign)

lemma update_requests_recovery:
  "tame_update P f \<Longrightarrow> recovery_benign d (update_requests P f d)"
  by (auto simp: recovery_benign_def update_requests_benign lease_inv_def intro!: same_attempts_benign)

lemma drop_requests_recovery: "recovery_benign d (drop_requests now b reason P d)"
  unfolding drop_requests_def by (rule update_requests_recovery) (auto simp: tame_update_def)

lemma delete_leases_recovery: "recovery_benign d (delete_leases P d)"
  unfolding delete_leases_def
  by (auto simp: recovery_benign_def lease_inv_def unique_by_delete workflow_limits_def same_requests_def
        intro!: same_requests_benign same_attempts_benign)

lemma rows_recovery:
  assumes "\<And>r. op_id (f r) = op_id r \<and> op_workflow_id (f r) = op_workflow_id r \<and>
      op_attempt_token (f r) = op_attempt_token r \<and> op_execution_id (f r) = op_execution_id r"
  shows "recovery_benign d (update_operation oid f d)"
  using assms by (intro same_ownership_benign update_operation_benign) simp_all

lemma step_recovery [simp]: "recovery_benign d (update_step w i f d') = recovery_benign d d'"
proof -
  have "same_requests d' (update_step w i f d')" by simp
  from same_requests_frame [OF this] show ?thesis
    by (simp add: recovery_benign_def requests_benign_def lease_inv_def)
qed

lemma event_recovery [simp]: "recovery_benign d (insert_event w s e t st m now d') = recovery_benign d d'"
proof -
  have "same_requests d' (insert_event w s e t st m now d')" by simp
  from same_requests_frame [OF this] show ?thesis
    by (simp add: recovery_benign_def requests_benign_def lease_inv_def)
qed

lemma workflow_recovery:
  assumes "\<And>r. wf_id (f r) = wf_id r \<and> wf_max_parallel_steps (f r) = wf_max_parallel_steps r"
  shows "recovery_benign d (update_workflow w f d') = recovery_benign d d'"
proof -
  have "same_requests d' (update_workflow w f d')" by simp
  from same_requests_frame [OF this] show ?thesis
    using assms by (simp add: recovery_benign_def requests_benign_def lease_inv_def update_workflow_benign)
qed

lemma delete_own_admission_recovery: "recovery_benign d (delete_own_admission oid d)"
  unfolding delete_own_admission_def
  by (rule same_ownership_benign) (simp_all add: admissions_delete_benign)

lemma recover_operation_benign: "recovery_benign d (recover_operation now w x d)"
proof -
  let ?safe = "safe_to_rerun (has_child d x) x"
  let ?state = "recovered_state ?safe (op_state x)"
  let ?d1 = "update_operation (op_id x) (\<lambda>r. r\<lparr>op_state := ?state, op_version := op_version r + 1, op_updated_at := now,
                 op_dispatch_phase := (if ?safe then None else op_dispatch_phase r),
                 op_error := (if ?state = OUncertain then Some ended else op_error r)\<rparr>) d"
  have d1: "recovery_benign d ?d1" by (rule rows_recovery) simp
  then have d2: "recovery_benign d (update_step w i f ?d1)" for i f by simp
  have d3: "recovery_benign d (drop_requests now b reason P (update_step w i f ?d1))" for b reason P i f
    using d2 drop_requests_recovery by (rule recovery_benign_trans)
  have d4: "recovery_benign d (delete_own_admission oid (drop_requests now b reason P (update_step w i f ?d1)))"
    for oid b reason P i f
    using d3 delete_own_admission_recovery by (rule recovery_benign_trans)
  show ?thesis
    unfolding recover_operation_def Let_def using d3 d4 by (simp only: if_split) blast
qed

lemma recover_dag_benign: "recovery_benign d (recover_dag_execution now w d)"
proof -
  let ?rows = "sort_key (\<lambda>r. (op_step_index r, op_operation_index r)) (filter (\<lambda>r. op_workflow_id r = w) (db_operations d))"
  have "recovery_benign d (drop_requests now False lease_lost (\<lambda>r. rr_workflow_id r = Some w \<and> rr_operation_id r = None)
      (fold (recover_operation now w) ?rows d))"
    using recovery_benign_fold [OF recover_operation_benign] drop_requests_recovery by (rule recovery_benign_trans)
  then show ?thesis
    unfolding recover_dag_execution_def Let_def
    by (auto split: prod.splits simp: workflow_recovery intro: recovery_benign_trans [OF _ delete_leases_recovery])
qed

lemma settle_sequential_benign: "recovery_benign d (settle_sequential now row x d)"
proof -
  have limits: "\<And>r. wf_id (set_workflow now st r) = wf_id r \<and> wf_max_parallel_steps (set_workflow now st r) = wf_max_parallel_steps r" for st
    by (simp add: set_workflow_def)
  have rows: "recovery_benign d (update_operation oid (\<lambda>r. r\<lparr>op_state := OUncertain, op_version := op_version r + 1,
       op_updated_at := now, op_finished_at := Some now, op_error := Some ended\<rparr>) d')"
    if "recovery_benign d d'" for oid d'
    using that rows_recovery by (rule recovery_benign_trans) simp
  show ?thesis
    unfolding settle_sequential_def Let_def
    by (auto simp: workflow_recovery limits intro!: rows split: option.splits)
qed

lemma recover_sequential_benign: "recovery_benign d (recover_sequential now row d)"
proof -
  let ?d1 = "update_requests (\<lambda>r. rr_workflow_id r = Some (wf_id row) \<and> rr_state r = Active)
     (\<lambda>r. r\<lparr>rr_state := Quarantined, rr_reason := Some lease_lost, rr_updated_at := now\<rparr>) d"
  let ?d2 = "update_requests (\<lambda>r. rr_workflow_id r = Some (wf_id row) \<and> rr_state r = Pending)
     (\<lambda>r. r\<lparr>rr_state := Released, rr_reason := Some ''recovery_cancelled_pending'', rr_updated_at := now\<rparr>) ?d1"
  have "recovery_benign d ?d1" by (rule update_requests_recovery) (auto simp: tame_update_def)
  moreover have "recovery_benign ?d1 ?d2" by (rule update_requests_recovery) (auto simp: tame_update_def)
  ultimately have "recovery_benign d ?d2" by (rule recovery_benign_trans)
  then have "recovery_benign d (settle_sequential now row x ?d2)" for x
    using settle_sequential_benign by (rule recovery_benign_trans)
  then have "recovery_benign d (delete_leases P (settle_sequential now row x ?d2))" for P x
    using delete_leases_recovery by (rule recovery_benign_trans)
  then show ?thesis by (simp add: recover_sequential_def Let_def)
qed

lemma recover_workflow_benign: "recovery_benign d (recover_workflow now row d)"
  by (simp add: recover_workflow_def recover_dag_benign recover_sequential_benign)

lemma drop_native_benign: "recovery_benign d (fst (fold (drop_native now) stale (d, n)))"
proof -
  have "recovery_benign d (fst (fold (drop_native now) stale acc))" if "recovery_benign d (fst acc)" for acc
    using that
  proof (induction stale arbitrary: acc)
    case (Cons s stale)
    have "recovery_benign d (fst (drop_native now s acc))"
      unfolding drop_native_def Let_def using Cons.prems drop_requests_recovery
      by (simp add: recovery_benign_trans [OF _ drop_requests_recovery])
    with Cons.IH show ?case by simp
  qed simp
  then show ?thesis by simp
qed

lemma recover_with_benign: "recovery_benign d (fst (recover_with now stale d))"
proof -
  obtain d1 n where d1: "fold (drop_native now) stale (d, 0) = (d1, n)" by fastforce
  then have "recovery_benign d d1" using drop_native_benign [of d now stale 0] by simp
  moreover have "recovery_benign d1 (fold (recover_workflow now) (interrupted now d1) d1)"
    by (rule recovery_benign_fold) (rule recover_workflow_benign)
  ultimately show ?thesis
    by (simp add: recover_with_def d1 Let_def recovery_benign_trans [OF \<open>recovery_benign d d1\<close>])
qed

subsection \<open>Nothing that may have been dispatched runs again\<close>

lemma recover_operation_ops:
  "db_operations (recover_operation now w x d) =
     sql_update (\<lambda>r. op_id r = op_id x)
       (\<lambda>r. r\<lparr>op_state := recovered_state (safe_to_rerun (has_child d x) x) (op_state x),
              op_version := op_version r + 1, op_updated_at := now,
              op_dispatch_phase := (if safe_to_rerun (has_child d x) x then None else op_dispatch_phase r),
              op_error := (if recovered_state (safe_to_rerun (has_child d x) x) (op_state x) = OUncertain
                           then Some ended else op_error r)\<rparr>) (db_operations d)"
  by (simp add: recover_operation_def Let_def delete_own_admission_def drop_requests_def)

lemma has_child_drop [simp]: "has_child (drop_requests now b reason P d) x = has_child d x"
proof -
  have "(\<exists>r \<in> set (db_requests (drop_requests now b reason P d)). rr_operation_id r = q \<and> c = Some (rr_request_id r)) \<longleftrightarrow>
        (\<exists>r \<in> set (db_requests d). rr_operation_id r = q \<and> c = Some (rr_request_id r))" for q c
    unfolding drop_requests_def update_requests_frame by (rule bex_sql_update) simp
  moreover have "db_capacity (drop_requests now b reason P d) = db_capacity d" by (simp add: drop_requests_def)
  ultimately show ?thesis by (simp add: has_child_def)
qed

lemma has_child_recover: "has_child (recover_operation now w y d) x = has_child d x"
proof -
  have "has_child (delete_own_admission oid d') x = has_child d' x" for oid d'
    by (simp add: has_child_def delete_own_admission_def)
  moreover have "has_child (update_step v i f d') x = has_child d' x" "has_child (update_operation oid g d') x = has_child d' x"
    for v i f oid g d' by (simp_all add: has_child_def)
  ultimately show ?thesis by (simp add: recover_operation_def Let_def)
qed

lemma recover_rows:
  assumes "r \<in> set (db_operations (fold (recover_operation now w) rows d))"
  shows "(\<exists>x \<in> set rows. op_id x = op_id r \<and> op_state r = recovered_state (safe_to_rerun (has_child d x) x) (op_state x)) \<or>
    r \<in> set (db_operations d) \<and> (\<forall>x \<in> set rows. op_id x \<noteq> op_id r)"
  using assms
proof (induction rows arbitrary: d)
  case (Cons x rows)
  let ?d1 = "recover_operation now w x d"
  have "r \<in> set (db_operations (fold (recover_operation now w) rows ?d1))" using Cons.prems by simp
  from Cons.IH [OF this] show ?case
  proof (elim disjE conjE)
    assume "\<exists>y \<in> set rows. op_id y = op_id r \<and> op_state r = recovered_state (safe_to_rerun (has_child ?d1 y) y) (op_state y)"
    then show ?thesis unfolding has_child_recover by auto
  next
    assume r: "r \<in> set (db_operations ?d1)" "\<forall>y \<in> set rows. op_id y \<noteq> op_id r"
    obtain s where s: "s \<in> set (db_operations d)" "op_id r = op_id s"
      "if op_id s = op_id x then op_state r = recovered_state (safe_to_rerun (has_child d x) x) (op_state x) else r = s"
      using r(1) unfolding recover_operation_ops set_sql_update by (auto split: if_splits)
    show ?thesis
    proof (cases "op_id s = op_id x")
      case True
      with s show ?thesis by auto
    next
      case False
      with s r(2) show ?thesis by auto
    qed
  qed
qed simp

text \<open>C4. Recovery never replays: after a DAG workflow was recovered, none of its operations is running,
  waiting or reconciling, and one that is still (or again) open for a claim was, before, created without a
  child process or capacity and either reserved or prepared but never allowed to dispatch, or never started
  at all. Everything else that was in flight is uncertain.\<close>

theorem recovery_never_replays:
  assumes "r \<in> set (db_operations (recover_dag_execution now w d))" "op_workflow_id r = w" "attempt_inv d"
  shows "op_state r \<notin> {ORunning, OWaiting, OReconciling} \<and>
    (op_state r = OCreated \<longrightarrow> (\<exists>x \<in> set (db_operations d). op_id x = op_id r \<and> op_state x = OCreated \<and>
       \<not> has_child d x \<and> (op_dispatch_phase x \<in> {Some Reserved, Some Prepared} \<or>
         op_dispatch_phase x = None \<and> op_started_at x = None \<and> op_attempts x = 0)))"
proof -
  let ?rows = "sort_key (\<lambda>r. (op_step_index r, op_operation_index r)) (filter (\<lambda>r. op_workflow_id r = w) (db_operations d))"
  have "r \<in> set (db_operations (fold (recover_operation now w) ?rows d))"
    using assms(1) by (auto simp: recover_dag_execution_def Let_def delete_leases_def drop_requests_def split: prod.splits)
  moreover have "\<not> (r \<in> set (db_operations d) \<and> (\<forall>x \<in> set ?rows. op_id x \<noteq> op_id r))"
    using assms(2) by auto
  ultimately obtain x where x: "x \<in> set ?rows" "op_id x = op_id r"
    "op_state r = recovered_state (safe_to_rerun (has_child d x) x) (op_state x)"
    using recover_rows by blast
  then show ?thesis
    by (auto simp: recovered_state_def safe_to_rerun_def split: if_splits)
qed

theorem recovery_never_replays_witness:
  "list_all (\<lambda>r. op_state r \<noteq> ORunning) (db_operations (recover_dag_execution 2000 ''w'' dispatched_db))"
proof -
  have "attempt_inv dispatched_db"
    "list_all (\<lambda>r. op_workflow_id r = ''w'') (db_operations (recover_dag_execution 2000 ''w'' dispatched_db))"
    by code_simp+
  with recovery_never_replays show ?thesis by (fastforce simp: list_all_iff)
qed

end
