(* ===== verification/Workflow_Create.thy ===== *)
theory Workflow_Create
  imports Attempts Workflow_Actions
begin

text \<open>
  Creating, materialising and reading workflows in \<open>core/workflow_store.py\<close>. \<open>sha\<close> is SHA-256 of a
  text as a hexadecimal digest, \<open>flt\<close> the text Python prints for a float, \<open>workflow_id\<close> of a creation
  the fresh \<open>uuid4\<close>; \<open>validate\<close> and \<open>intent_ok\<close> are the pydantic input models and the check of an
  execution intent.
\<close>

subsection \<open>Payloads\<close>

definition opt_json :: "json option \<Rightarrow> json" where
  "opt_json v = (case v of None \<Rightarrow> JNull | Some j \<Rightarrow> j)"

definition step_payload :: "(rat \<Rightarrow> string) \<Rightarrow> bool \<Rightarrow> step_definition \<Rightarrow> json" where
  "step_payload flt sequential s =
     JObj ([(''name'', JStr (sd_name s)), (''action'', JStr (sd_action s)), (''arguments'', sd_arguments s),
            (''timeout_sec'', JFloat (flt (sd_timeout_sec s))), (''max_retries'', JInt (sd_max_retries s)),
            (''postcondition'', opt_json (sd_postcondition s)), (''execution_intent'', opt_json (sd_execution_intent s))] @
           (if sequential then []
            else [(''step_id'', (case sd_step_id s of None \<Rightarrow> JNull | Some i \<Rightarrow> JStr i)),
                  (''depends_on'', JList (map JStr (sd_depends_on s)))]))"

definition definition_payload :: "(rat \<Rightarrow> string) \<Rightarrow> workflow_definition \<Rightarrow> json" where
  "definition_payload flt wd =
     (let sequential = (wd_execution_mode wd = ''sequential'') in
      JObj ([(''name'', JStr (wd_name wd)), (''steps'', JList (map (step_payload flt sequential) (wd_steps wd))),
             (''description'', JStr (wd_description wd))] @
            (if sequential then []
             else [(''execution_mode'', JStr (wd_execution_mode wd)), (''max_parallel_steps'', JInt (wd_max_parallel_steps wd)),
                   (''total_timeout_sec'', (case wd_total_timeout_sec wd of None \<Rightarrow> JNull | Some t \<Rightarrow> JFloat (flt t)))])))"

definition digest :: "(string \<Rightarrow> string) \<Rightarrow> json \<Rightarrow> string" where
  "digest sha v = sha (json_text (canonical_json v))"

definition as_float :: "json option \<Rightarrow> json" where
  "as_float v = (case v of Some (JInt i) \<Rightarrow> JFloat (int_text i @ ''.0'') | Some (JFloat t) \<Rightarrow> JFloat t | _ \<Rightarrow> JFloat ''300.0'')"

definition as_int :: "json option \<Rightarrow> json" where
  "as_int v = (case v of Some (JInt i) \<Rightarrow> JInt i | _ \<Rightarrow> JInt 0)"

definition operation_payload ::
  "(string \<Rightarrow> string) \<Rightarrow> (string \<times> json) list \<Rightarrow> (string \<times> json) list \<times> string \<times> string" where
  "operation_payload sha step =
     (let fingerprint = digest sha (case lookup ''arguments'' step of Some v \<Rightarrow> v | None \<Rightarrow> JObj []);
          text = (\<lambda>k. JStr (text_field k (Some (JObj step))));
          intent = lookup ''execution_intent'' step;
          sid = lookup ''step_id'' step;
          payload = [(''name'', text ''name''), (''action'', text ''action''), (''arguments_fingerprint'', JStr fingerprint),
                     (''timeout_sec'', as_float (lookup ''timeout_sec'' step)), (''max_retries'', as_int (lookup ''max_retries'' step)),
                     (''postcondition'', opt_json (lookup ''postcondition'' step))] @
                    (if intent \<in> {None, Some JNull} then [] else [(''execution_intent'', opt_json intent)]) @
                    (if sid \<in> {None, Some JNull} then []
                     else [(''step_id'', text ''step_id''),
                           (''depends_on'', (case lookup ''depends_on'' step of Some v \<Rightarrow> v | None \<Rightarrow> JList []))])
      in (payload, digest sha (JObj payload), fingerprint))"

subsection \<open>Materialising\<close>

fun step_operation_state :: "step_state \<Rightarrow> operation_state" where
  "step_operation_state SCreated = OCreated"
| "step_operation_state SRunning = OUncertain"
| "step_operation_state SWaiting = OWaiting"
| "step_operation_state SFailed = OFailed"
| "step_operation_state SUncertain = OUncertain"
| "step_operation_state SReconciling = OReconciling"
| "step_operation_state SCompleted = OSucceeded"
| "step_operation_state SCancelled = OCancelled"

definition operation_key :: "(string \<Rightarrow> string) \<Rightarrow> string \<Rightarrow> int \<Rightarrow> string \<Rightarrow> string" where
  "operation_key sha w i hash = sha (w @ ''|'' @ int_text i @ ''|0|'' @ hash)"

definition new_operation ::
  "(string \<Rightarrow> string) \<Rightarrow> string \<Rightarrow> time \<Rightarrow> step_row \<Rightarrow> (string \<times> json) list \<Rightarrow> operation_row" where
  "new_operation sha w updated_at st step =
     (let (payload, hash, fingerprint) = operation_payload sha step;
          key = operation_key sha w (st_step_index st) hash;
          present = (\<lambda>k. case lookup k payload of Some JNull \<Rightarrow> None | v \<Rightarrow> map_option canonical_json v)
      in \<lparr>op_id = take 32 (sha (''operation|'' @ key)), op_workflow_id = w, op_step_index = st_step_index st,
          op_operation_index = 0, op_action = text_field ''action'' (Some (JObj payload)),
          op_definition_hash = hash, op_idempotency_key = key, op_state = step_operation_state (st_state st),
          op_attempts = st_attempts st, op_version = 1, op_arguments_fingerprint = fingerprint,
          op_postcondition = present ''postcondition'', op_result = None, op_evidence = st_evidence st,
          op_started_at = st_started_at st, op_updated_at = updated_at, op_finished_at = st_finished_at st,
          op_error = st_error st, op_intent_evidence = None, op_external_ref = None, op_reconciliation_evidence = None,
          op_execution_intent = present ''execution_intent'', op_selected_route = None, op_router_policy_version = None,
          op_route_decision = None, op_fallback_history = None, op_attempt_token = None, op_execution_id = None,
          op_dispatch_phase = None, op_attempt_generation = 0\<rparr>)"

fun materialize_steps ::
  "(string \<Rightarrow> string) \<Rightarrow> bool \<Rightarrow> time \<Rightarrow> string \<Rightarrow> time \<Rightarrow> (step_row \<times> json) list \<Rightarrow> db \<Rightarrow> db res" where
  "materialize_steps sha legacy now w updated_at [] d = Inr d"
| "materialize_steps sha legacy now w updated_at ((st, step) # rest) d =
     (let new = new_operation sha w updated_at st (dict_of (Some step)) in
      case sql_one (\<lambda>r. op_workflow_id r = w \<and> op_step_index r = st_step_index st \<and> op_operation_index r = 0) (db_operations d) of
        Some existing \<Rightarrow>
          if op_definition_hash existing \<noteq> op_definition_hash new then Inl (ToolError ''workflow_definition_conflict'')
          else materialize_steps sha legacy now w updated_at rest d
      | None \<Rightarrow>
          if sql_exists (\<lambda>r. op_id r = op_id new \<or> op_idempotency_key r = op_idempotency_key new) (db_operations d)
          then Inl IntegrityError
          else materialize_steps sha legacy now w updated_at rest
                 (insert_event w (Some (st_step_index st)) (Some (op_id new)) ''operation_materialized''
                    (Some (operation_value (op_state new))) (Some (JObj [(''legacy'', JBool legacy)])) now
                    (d\<lparr>db_operations := db_operations d @ [new]\<rparr>)))"

definition definition_steps :: "json \<Rightarrow> json list" where
  "definition_steps v = (case lookup ''steps'' (dict_of (Some v)) of Some (JList steps) \<Rightarrow> steps | _ \<Rightarrow> [])"

definition materialize_workflow ::
  "(string \<Rightarrow> string) \<Rightarrow> bool \<Rightarrow> time \<Rightarrow> string \<Rightarrow> db \<Rightarrow> db res" where
  "materialize_workflow sha legacy now w d =
     (case find_workflow d w of
        None \<Rightarrow> Inl (ToolError ''workflow_not_found'')
      | Some workflow \<Rightarrow>
        let raw = (if wf_execution_compatible workflow \<noteq> 0
                   then (case wf_execution_definition workflow of Some v \<Rightarrow> v | None \<Rightarrow> wf_definition workflow)
                   else wf_definition workflow);
            steps = sort_key st_step_index (filter (\<lambda>s. st_workflow_id s = w) (db_steps d));
            definitions = definition_steps raw
        in if length steps \<noteq> length definitions then Inl (ToolError ''workflow_definition_conflict'')
           else materialize_steps sha legacy now w (wf_updated_at workflow) (zip steps definitions) d)"

subsection \<open>Creating\<close>

definition validate_steps ::
  "(string \<Rightarrow> json \<Rightarrow> json option) \<Rightarrow> (json \<Rightarrow> unit res) \<Rightarrow> bool \<Rightarrow> step_definition \<Rightarrow> unit res" where
  "validate_steps validate intent_ok dag s =
     (case validate_operation validate (sd_action s) (sd_arguments s) (sd_postcondition s) of
        Inl e \<Rightarrow> Inl e
      | Inr (_, validated) \<Rightarrow>
        if dag \<and> sd_action s = ''verify_changes'' \<and> lookup ''ruff_fix'' (dict_of (Some validated)) = Some (JBool True)
        then Inl (ToolError ''workflow_parallel_fix_unavailable'')
        else case sd_execution_intent s of None \<Rightarrow> Inr () | Some intent \<Rightarrow> intent_ok intent)"

fun first_failure :: "('a \<Rightarrow> unit res) \<Rightarrow> 'a list \<Rightarrow> unit res" where
  "first_failure f [] = Inr ()"
| "first_failure f (x # xs) = (case f x of Inl e \<Rightarrow> Inl e | Inr _ \<Rightarrow> first_failure f xs)"

definition validate_workflow_definition ::
  "(string \<Rightarrow> json \<Rightarrow> json option) \<Rightarrow> (json \<Rightarrow> unit res) \<Rightarrow> workflow_definition \<Rightarrow> unit res" where
  "validate_workflow_definition validate intent_ok wd =
     (case workflow_topological_order wd of
        Inl e \<Rightarrow> Inl e
      | Inr _ \<Rightarrow> first_failure (validate_steps validate intent_ok (wd_execution_mode wd = ''dag'')) (wd_steps wd))"

definition step_index_of :: "workflow_definition \<Rightarrow> string \<Rightarrow> nat option" where
  "step_index_of wd sid = map_of (rev (zip (map sd_step_id (wd_steps wd)) [0..<length (wd_steps wd)])) (Some sid)"

definition dependency_rows :: "string \<Rightarrow> workflow_definition \<Rightarrow> dependency_row list" where
  "dependency_rows w wd =
     (if wd_execution_mode wd = ''dag''
      then concat (map (\<lambda>(i, s). map (\<lambda>dep. \<lparr>dep_workflow_id = w, dep_step_index = int i,
             dep_dependency = int (the (step_index_of wd dep))\<rparr>) (sd_depends_on s))
           (zip [0..<length (wd_steps wd)] (wd_steps wd)))
      else map (\<lambda>i. \<lparr>dep_workflow_id = w, dep_step_index = int i, dep_dependency = int i - 1\<rparr>) [1..<length (wd_steps wd)])"

definition insert_workflow ::
  "(string \<Rightarrow> string) \<Rightarrow> (rat \<Rightarrow> string) \<Rightarrow> time \<Rightarrow> string \<Rightarrow> workflow_definition \<Rightarrow> json \<Rightarrow> string option \<Rightarrow>
   workflow_state \<Rightarrow> db \<Rightarrow> db" where
  "insert_workflow sha flt now w wd inputs key initial d =
     (let execution = canonical_json (definition_payload flt wd) in
      d\<lparr>db_workflows := db_workflows d @
          [\<lparr>wf_id = w, wf_idempotency_key = key,
            wf_definition = canonical_json (redact_inputs [] (definition_payload flt wd)),
            wf_inputs = canonical_json (redact_inputs [] inputs), wf_inputs_hash = Some (digest sha inputs),
            wf_state = initial, wf_current_step = 0, wf_version = 1, wf_created_at = now, wf_updated_at = now,
            wf_last_error = None, wf_execution_definition = Some execution,
            wf_execution_hash = Some (sha (json_text execution)), wf_execution_compatible = 1,
            wf_cancel_requested_at = None, wf_cancel_reason = None, wf_execution_mode = wd_execution_mode wd,
            wf_graph_contract_version = (if wd_execution_mode wd = ''dag'' then 1 else 0),
            wf_max_parallel_steps = wd_max_parallel_steps wd, wf_total_timeout_sec = wd_total_timeout_sec wd\<rparr>],
        db_steps := db_steps d @ map (\<lambda>(i, s). \<lparr>st_workflow_id = w, st_step_index = int i, st_state = SCreated,
            st_attempts = 0, st_started_at = None, st_finished_at = None, st_evidence = None, st_error = None,
            st_step_id = sd_step_id s\<rparr>) (zip [0..<length (wd_steps wd)] (wd_steps wd)),
        db_dependencies := db_dependencies d @ dependency_rows w wd\<rparr>)"

definition existing_matches ::
  "(string \<Rightarrow> string) \<Rightarrow> (rat \<Rightarrow> string) \<Rightarrow> workflow_definition \<Rightarrow> json \<Rightarrow> workflow_row \<Rightarrow> unit res" where
  "existing_matches sha flt wd inputs row =
     (let execution = canonical_json (definition_payload flt wd) in
      if wf_execution_compatible row \<noteq> 1
      then (if wf_state row \<notin> {WCompleted, WCancelled}
            then Inl (ToolError ''workflow_legacy_definition_unrecoverable'') else Inr ())
      else if wf_execution_hash row \<noteq> Some (sha (json_text execution)) \<or> wf_execution_definition row \<noteq> Some execution
      then Inl (ToolError ''idempotency_conflict'')
      else if (case wf_inputs_hash row of Some h \<Rightarrow> h \<noteq> digest sha inputs
               | None \<Rightarrow> wf_inputs row \<noteq> canonical_json (redact_inputs [] inputs))
      then Inl (ToolError ''idempotency_conflict'')
      else Inr ())"

definition key_owner :: "string option \<Rightarrow> db \<Rightarrow> workflow_row option" where
  "key_owner key d = (case key of
     Some (c # cs) \<Rightarrow> sql_one (\<lambda>r. wf_idempotency_key r = Some (c # cs)) (db_workflows d) | _ \<Rightarrow> None)"

definition create ::
  "(string \<Rightarrow> string) \<Rightarrow> (rat \<Rightarrow> string) \<Rightarrow> (string \<Rightarrow> json \<Rightarrow> json option) \<Rightarrow> (json \<Rightarrow> unit res) \<Rightarrow> time \<Rightarrow> string \<Rightarrow>
   workflow_definition \<Rightarrow> json option \<Rightarrow> string option \<Rightarrow> workflow_state \<Rightarrow> db \<Rightarrow> (db \<times> workflow_row option) res" where
  "create sha flt validate intent_ok now w wd inputs0 key initial d =
     (if wd_steps wd = [] then Inl (ToolError ''empty_workflow'')
      else case validate_workflow_definition validate intent_ok wd of
        Inl e \<Rightarrow> Inl e
      | Inr _ \<Rightarrow>
        let inputs = (if truthy inputs0 then the inputs0 else JObj []) in
        (case key_owner key d of
           Some existing \<Rightarrow>
             (case existing_matches sha flt wd inputs existing of
                Inl e \<Rightarrow> Inl e | Inr _ \<Rightarrow> Inr (d, find_workflow d (wf_id existing)))
         | None \<Rightarrow>
             if sql_exists (\<lambda>r. wf_id r = w \<or> (key \<noteq> None \<and> wf_idempotency_key r = key)) (db_workflows d)
             then Inl IntegrityError
             else case materialize_workflow sha False now w (insert_workflow sha flt now w wd inputs key initial d) of
               Inl e \<Rightarrow> Inl e
             | Inr d' \<Rightarrow> Inr (d', find_workflow d' w)))"

definition materialize_operations ::
  "(string \<Rightarrow> string) \<Rightarrow> time \<Rightarrow> string \<Rightarrow> db \<Rightarrow> (db \<times> unit) res" where
  "materialize_operations sha now w d =
     (case materialize_workflow sha True now w d of Inl e \<Rightarrow> Inl e | Inr d' \<Rightarrow> Inr (d', ()))"

subsection \<open>Reading\<close>

datatype readiness = Completed | ActiveStep | Terminal | BlockedDependencies | Ready | WaitingDependencies

definition operation_state_at :: "db \<Rightarrow> string \<Rightarrow> int \<Rightarrow> operation_state" where
  "operation_state_at d w i =
     (case sql_one (\<lambda>r. op_workflow_id r = w \<and> op_operation_index r = 0 \<and> op_step_index r = i) (db_operations d) of
        None \<Rightarrow> OCreated | Some r \<Rightarrow> op_state r)"

definition admitted_at :: "db \<Rightarrow> string \<Rightarrow> int \<Rightarrow> bool" where
  "admitted_at d w i \<longleftrightarrow> sql_exists (\<lambda>a. adm_workflow_id a = w \<and>
     sql_exists (\<lambda>r. op_id r = adm_operation_id a \<and> op_step_index r = i) (db_operations d)) (db_admissions d)"

definition parent_indices :: "db \<Rightarrow> string \<Rightarrow> int \<Rightarrow> int list" where
  "parent_indices d w i =
     sort (map dep_dependency (filter (\<lambda>e. dep_workflow_id e = w \<and> dep_step_index e = i) (db_dependencies d)))"

definition step_readiness :: "db \<Rightarrow> string \<Rightarrow> int \<Rightarrow> readiness" where
  "step_readiness d w i =
     (let own = operation_state_at d w i; parents = map (operation_state_at d w) (parent_indices d w i) in
      if own \<in> {OSucceeded, OAcknowledged} then Completed
      else if admitted_at d w i then ActiveStep
      else if own \<in> {OFailed, OUnresolvable, OCancelled} then Terminal
      else if own \<in> {ORunning, OWaiting, OUncertain, OReconciling} then ActiveStep
      else if list_ex (\<lambda>s. s \<in> {OFailed, OUnresolvable, OCancelled}) parents then BlockedDependencies
      else if list_all (\<lambda>s. s \<in> {OSucceeded, OAcknowledged}) parents then Ready
      else WaitingDependencies)"

record workflow_view =
  vw_row :: workflow_row
  vw_steps :: "(step_row \<times> readiness option) list"
  vw_ready :: "int list"
  vw_active :: "int list"
  vw_blocked :: "int list"
  vw_completed :: nat
  vw_admissions :: nat
  vw_effective_parallel :: int

definition get :: "int \<Rightarrow> int \<Rightarrow> string \<Rightarrow> db \<Rightarrow> workflow_view res" where
  "get max_parallel max_running w d =
     (case find_workflow d w of
        None \<Rightarrow> Inl (ToolError ''workflow_not_found'')
      | Some row \<Rightarrow>
        if wf_execution_mode row \<notin> {[], ''sequential'', ''dag''} then Inl (ToolError ''workflow_definition_conflict'')
        else
          let dag = (wf_execution_mode row = ''dag'');
              steps = map (\<lambda>s. (s, if dag then Some (step_readiness d w (st_step_index s)) else None))
                        (sort_key st_step_index (filter (\<lambda>s. st_workflow_id s = w) (db_steps d)));
              having = (\<lambda>x. map (\<lambda>(s, _). st_step_index s) (filter (\<lambda>(_, r). r = Some x) steps))
          in Inr \<lparr>vw_row = row, vw_steps = steps, vw_ready = having Ready, vw_active = having ActiveStep,
                  vw_blocked = having BlockedDependencies, vw_completed = length (having Completed),
                  vw_admissions = sql_count (\<lambda>a. adm_workflow_id a = w \<and> find_operation d (adm_operation_id a) \<noteq> None)
                    (db_admissions d),
                  vw_effective_parallel = (if dag then min (workflow_limit row) (min max_parallel max_running) else 1)\<rparr>)"

subsection \<open>Creating is idempotent\<close>

lemma materialize_steps_workflows:
  "materialize_steps sha lg now w u rows d = Inr d' \<Longrightarrow> db_workflows d' = db_workflows d"
proof (induction rows arbitrary: d)
  case (Cons x rows)
  obtain st step where x: "x = (st, step)" by (cases x)
  show ?case
    using Cons.prems Cons.IH unfolding x
    by (auto simp: Let_def split: option.splits if_splits)
qed simp

lemma materialize_workflow_workflows:
  "materialize_workflow sha lg now w d = Inr d' \<Longrightarrow> db_workflows d' = db_workflows d"
  by (auto simp: materialize_workflow_def Let_def split: option.splits if_splits dest: materialize_steps_workflows)

lemma sql_one_append_new:
  "(\<forall>r \<in> set rows. \<not> P r) \<Longrightarrow> P x \<Longrightarrow> sql_one P (rows @ [x]) = Some x"
  unfolding sql_one_def by (induction rows) auto

lemma create_cases:
  assumes "create sha flt validate iok now w wd inputs key initial d = Inr (d', x)"
  obtains (existing) row where "key_owner key d = Some row" "d' = d" "x = find_workflow d (wf_id row)"
      "existing_matches sha flt wd (if truthy inputs then the inputs else JObj []) row = Inr ()"
  | (fresh) "key_owner key d = None" "\<forall>r \<in> set (db_workflows d). wf_id r \<noteq> w"
      "\<forall>r \<in> set (db_workflows d). key \<noteq> None \<longrightarrow> wf_idempotency_key r \<noteq> key"
      "materialize_workflow sha False now w
        (insert_workflow sha flt now w wd (if truthy inputs then the inputs else JObj []) key initial d) = Inr d'"
      "x = find_workflow d' w"
proof (cases "key_owner key d")
  case None
  with assms show ?thesis
    by (intro fresh) (auto simp: create_def Let_def split: if_split_asm sum.splits)
next
  case (Some row)
  with assms show ?thesis
    by (intro existing) (auto simp: create_def Let_def split: if_split_asm sum.splits)
qed

text \<open>Creating under an idempotency key happens once: after a creation with a key, every later creation
  with that key, the same definition and the same inputs returns the same workflow and changes nothing,
  whatever fresh identifier and time it is called with.\<close>

theorem create_idempotent:
  assumes "create sha flt validate iok now w wd inputs (Some key) initial d = Inr (d', Some row)" "key \<noteq> []"
    "\<forall>r \<in> set (db_workflows d). wf_idempotency_key r = Some key \<longrightarrow> find_workflow d (wf_id r) = Some r"
  shows "create sha flt validate iok now' w' wd inputs (Some key) initial' d' = Inr (d', Some row) \<and>
    wf_idempotency_key row = Some key"
proof -
  have valid: "wd_steps wd \<noteq> []" "validate_workflow_definition validate iok wd = Inr ()"
    using assms(1) by (cases "validate_workflow_definition validate iok wd"; simp add: create_def split: if_splits)+
  let ?in = "if truthy inputs then the inputs else JObj []"
  from assms(1) show ?thesis
  proof (cases rule: create_cases)
    case (existing r)
    have "r \<in> set (db_workflows d)" "wf_idempotency_key r = Some key"
      using existing(1) assms(2) by (auto simp: key_owner_def neq_Nil_conv dest: sql_one_Some)
    with existing valid assms(3) show ?thesis by (auto simp: create_def Let_def)
  next
    case fresh
    let ?ins = "insert_workflow sha flt now w wd ?in (Some key) initial d"
    obtain new where new: "db_workflows ?ins = db_workflows d @ [new]" "wf_id new = w" "wf_idempotency_key new = Some key"
      "existing_matches sha flt wd ?in new = Inr ()"
      by (auto simp: insert_workflow_def Let_def existing_matches_def)
    have "db_workflows d' = db_workflows d @ [new]"
      using materialize_workflow_workflows [OF fresh(4)] new(1) by simp
    moreover have "sql_one (\<lambda>r. wf_idempotency_key r = Some key) (db_workflows d @ [new]) = Some new"
      using fresh(3) new(3) by (intro sql_one_append_new) auto
    moreover have "sql_one (\<lambda>r. wf_id r = w) (db_workflows d @ [new]) = Some new"
      using fresh(2) new(2) by (intro sql_one_append_new) auto
    ultimately have "key_owner (Some key) d' = Some new" "find_workflow d' w = Some new"
      using assms(2) by (cases key; simp add: key_owner_def find_workflow_def)+
    with fresh(5) new valid show ?thesis by (simp add: create_def Let_def)
  qed
qed

subsection \<open>What the scheduler sees as ready\<close>

definition operation_place :: "operation_row \<Rightarrow> string \<times> int \<times> int" where
  "operation_place r = (op_workflow_id r, op_step_index r, op_operation_index r)"

lemma operation_state_at_row:
  assumes "unique_by operation_place (db_operations d)" "r \<in> set (db_operations d)"
    "op_workflow_id r = w" "op_step_index r = i" "op_operation_index r = 0"
  shows "operation_state_at d w i = op_state r"
proof -
  have "sql_one (\<lambda>x. operation_place x = operation_place r) (db_operations d) = Some r"
    using assms(1,2) by (rule sql_one_unique)
  moreover have "(\<lambda>x. operation_place x = operation_place r) =
      (\<lambda>x. op_workflow_id x = w \<and> op_operation_index x = 0 \<and> op_step_index x = i)"
    using assms(3-5) by (auto simp: operation_place_def fun_eq_iff)
  ultimately show ?thesis by (simp add: operation_state_at_def)
qed

lemma parents_all_done:
  assumes "unique_by operation_place (db_operations d)"
    "\<forall>e \<in> set (db_dependencies d). dep_workflow_id e = w \<and> dep_step_index e = i \<longrightarrow>
       (\<exists>p \<in> set (db_operations d). op_workflow_id p = w \<and> op_step_index p = dep_dependency e \<and> op_operation_index p = 0)"
  shows "list_all (\<lambda>s. s \<in> {OSucceeded, OAcknowledged}) (map (operation_state_at d w) (parent_indices d w i)) \<longleftrightarrow>
    \<not> list_ex (\<lambda>s. s \<notin> {OSucceeded, OAcknowledged}) (parent_states d w i)"
proof -
  have "operation_state_at d w (dep_dependency e) \<in> {OSucceeded, OAcknowledged} \<longleftrightarrow>
      (\<forall>p \<in> set (db_operations d). op_workflow_id p = w \<and> op_step_index p = dep_dependency e \<and> op_operation_index p = 0 \<longrightarrow>
         op_state p \<in> {OSucceeded, OAcknowledged})"
    if "e \<in> set (db_dependencies d)" "dep_workflow_id e = w" "dep_step_index e = i" for e
    using that assms(2) operation_state_at_row [OF assms(1), of _ w "dep_dependency e"] by metis
  then show ?thesis
    unfolding parents_done by (auto simp: parent_indices_def list_all_iff)
qed

lemma admitted_at_row:
  assumes "attempt_inv d" "unique_by operation_place (db_operations d)" "r \<in> set (db_operations d)" "op_workflow_id r = w"
    "\<forall>x \<in> set (db_operations d). op_operation_index x = 0"
  shows "admitted_at d w (op_step_index r) \<longleftrightarrow> (\<exists>a \<in> set (db_admissions d). adm_operation_id a = op_id r)"
proof
  assume "admitted_at d w (op_step_index r)"
  then obtain a x where a: "a \<in> set (db_admissions d)" "adm_workflow_id a = w"
    and x: "x \<in> set (db_operations d)" "op_id x = adm_operation_id a" "op_step_index x = op_step_index r"
    by (auto simp: admitted_at_def)
  from assms(1) a(1) obtain y where y: "y \<in> set (db_operations d)" "op_id y = adm_operation_id a" "op_workflow_id y = adm_workflow_id a"
    by (fastforce simp: attempt_inv_def admission_backed_def)
  have "x = y" using assms(1) x y unique_byD [of op_id "db_operations d" x y] by (simp add: attempt_inv_def)
  then have "operation_place x = operation_place r"
    using x y a assms(3-5) by (simp add: operation_place_def)
  then have "x = r" using assms(2,3) x(1) unique_byD by metis
  with a x show "\<exists>a \<in> set (db_admissions d). adm_operation_id a = op_id r" by auto
next
  assume "\<exists>a \<in> set (db_admissions d). adm_operation_id a = op_id r"
  then obtain a where a: "a \<in> set (db_admissions d)" "adm_operation_id a = op_id r" by blast
  with assms(1) obtain y where "y \<in> set (db_operations d)" "op_id y = op_id r" "op_workflow_id y = adm_workflow_id a"
    by (fastforce simp: attempt_inv_def admission_backed_def)
  with assms(1,3,4) a show "admitted_at d w (op_step_index r)"
    using unique_byD [of op_id "db_operations d" y r] by (force simp: attempt_inv_def admitted_at_def)
qed

definition graph_inv :: "db \<Rightarrow> bool" where
  "graph_inv d \<longleftrightarrow> unique_by operation_place (db_operations d) \<and> (\<forall>x \<in> set (db_operations d). op_operation_index x = 0) \<and>
     (\<forall>e \<in> set (db_dependencies d). \<exists>p \<in> set (db_operations d). op_workflow_id p = dep_workflow_id e \<and>
        op_step_index p = dep_dependency e)"

lemma ready_iff:
  assumes "attempt_inv d" "graph_inv d" "r \<in> set (db_operations d)" "op_workflow_id r = w"
  shows "step_readiness d w (op_step_index r) = Ready \<longleftrightarrow>
    op_state r = OCreated \<and> (\<forall>a \<in> set (db_admissions d). adm_operation_id a \<noteq> op_id r) \<and>
    \<not> list_ex (\<lambda>s. s \<notin> {OSucceeded, OAcknowledged}) (parent_states d w (op_step_index r))"
proof -
  have g: "unique_by operation_place (db_operations d)" "\<forall>x \<in> set (db_operations d). op_operation_index x = 0"
    "\<forall>e \<in> set (db_dependencies d). dep_workflow_id e = w \<and> dep_step_index e = op_step_index r \<longrightarrow>
       (\<exists>p \<in> set (db_operations d). op_workflow_id p = w \<and> op_step_index p = dep_dependency e \<and> op_operation_index p = 0)"
    using assms(2) unfolding graph_inv_def by (blast, blast, metis)
  have own: "operation_state_at d w (op_step_index r) = op_state r"
    using operation_state_at_row [OF g(1) assms(3,4)] g(2) assms(3) by blast
  have adm: "admitted_at d w (op_step_index r) \<longleftrightarrow> (\<exists>a \<in> set (db_admissions d). adm_operation_id a = op_id r)"
    using admitted_at_row assms g by blast
  have blocked: "\<not> list_ex (\<lambda>s. s \<in> {OFailed, OUnresolvable, OCancelled}) ps"
    if "list_all (\<lambda>s. s \<in> {OSucceeded, OAcknowledged}) ps" for ps
    using that by (induction ps) auto
  show ?thesis
    unfolding parents_all_done [OF g(1,3), symmetric] step_readiness_def Let_def own adm
    using blocked [of "map (operation_state_at d w) (parent_indices d w (op_step_index r))"]
    by (cases "op_state r") auto
qed


subsection \<open>What creating leaves alone\<close>

definition grows :: "db \<Rightarrow> db \<Rightarrow> bool" where
  "grows d d' \<longleftrightarrow> same_requests d d' \<and> db_leases d' = db_leases d \<and> db_capacity d' = db_capacity d \<and>
     db_capacity_seq d' = db_capacity_seq d \<and> db_admissions d' = db_admissions d \<and>
     set (db_operations d) \<subseteq> set (db_operations d') \<and>
     (unique_by op_id (db_operations d) \<longrightarrow> unique_by op_id (db_operations d'))"

lemma grows_trans: "grows a b \<Longrightarrow> grows b c \<Longrightarrow> grows a c"
  unfolding grows_def same_requests_def by (metis subset_trans)

lemma materialize_steps_grows: "materialize_steps sha lg now w u rows d = Inr d' \<Longrightarrow> grows d d'"
proof (induction rows arbitrary: d)
  case Nil
  then show ?case by (simp add: grows_def same_requests_def)
next
  case (Cons x rows)
  obtain st step where x: "x = (st, step)" by (cases x)
  let ?new = "new_operation sha w u st (dict_of (Some step))"
  let ?d = "insert_event w (Some (st_step_index st)) (Some (op_id ?new)) ''operation_materialized''
      (Some (operation_value (op_state ?new))) (Some (JObj [(''legacy'', JBool lg)])) now
      (d\<lparr>db_operations := db_operations d @ [?new]\<rparr>)"
  consider "materialize_steps sha lg now w u rows d = Inr d'"
    | "\<not> sql_exists (\<lambda>r. op_id r = op_id ?new \<or> op_idempotency_key r = op_idempotency_key ?new) (db_operations d)"
      "materialize_steps sha lg now w u rows ?d = Inr d'"
    using Cons.prems unfolding x by (auto simp: Let_def split: option.splits if_splits)
  then show ?case
  proof cases
    case 2
    have "grows d ?d"
      using 2(1) by (auto simp: grows_def same_requests_def intro!: unique_by_insert)
    with Cons.IH [OF 2(2)] show ?thesis by (rule grows_trans [rotated])
  qed (rule Cons.IH)
qed

lemma materialize_workflow_grows: "materialize_workflow sha lg now w d = Inr d' \<Longrightarrow> grows d d'"
  by (auto simp: materialize_workflow_def Let_def split: option.splits if_splits dest: materialize_steps_grows)

lemma grows_attempt_inv:
  assumes "grows d d'" "set (workflow_limits d) \<subseteq> set (workflow_limits d')" "attempt_inv d"
  shows "attempt_inv d'"
proof -
  have "admission_backed (db_operations d') a" if "admission_backed (db_operations d) a" for a
    using that assms(1) unfolding grows_def admission_backed_def by (meson subset_iff)
  then show ?thesis
    using assms image_mono [OF assms(2), of fst] unfolding grows_def attempt_inv_def by (simp add: subset_iff)
qed

lemma create_effect:
  assumes "create sha flt validate iok now w wd inputs key initial d = Inr (d', x)"
  shows "grows d d'"
    and "db_workflows d' = db_workflows d \<or>
      (\<exists>new. db_workflows d' = db_workflows d @ [new] \<and> (\<forall>r \<in> set (db_workflows d). wf_id r \<noteq> wf_id new))"
proof -
  have "grows d d' \<and> (db_workflows d' = db_workflows d \<or>
      (\<exists>new. db_workflows d' = db_workflows d @ [new] \<and> (\<forall>r \<in> set (db_workflows d). wf_id r \<noteq> wf_id new)))"
    using assms
  proof (cases rule: create_cases)
    case existing
    then show ?thesis by (simp add: grows_def same_requests_def)
  next
    case fresh
    let ?ins = "insert_workflow sha flt now w wd (if truthy inputs then the inputs else JObj []) key initial d"
    have "grows d ?ins"
      by (simp add: insert_workflow_def grows_def same_requests_def Let_def)
    moreover obtain new where "db_workflows ?ins = db_workflows d @ [new]" "wf_id new = w"
      by (simp add: insert_workflow_def Let_def)
    ultimately show ?thesis
      using materialize_workflow_grows [OF fresh(4)] materialize_workflow_workflows [OF fresh(4)] fresh(2)
        grows_trans by auto
  qed
  then show "grows d d'" "db_workflows d' = db_workflows d \<or>
      (\<exists>new. db_workflows d' = db_workflows d @ [new] \<and> (\<forall>r \<in> set (db_workflows d). wf_id r \<noteq> wf_id new))"
    by blast+
qed

subsection \<open>An example\<close>

definition sample_step :: "string \<Rightarrow> string list \<Rightarrow> step_definition" where
  "sample_step i deps = \<lparr>sd_name = i, sd_action = ''git_status'', sd_arguments = JObj [], sd_timeout_sec = 60,
     sd_max_retries = 0, sd_postcondition = None, sd_execution_intent = None, sd_step_id = Some i, sd_depends_on = deps\<rparr>"

definition sample_definition :: workflow_definition where
  "sample_definition = \<lparr>wd_name = ''n'', wd_steps = [sample_step ''a'' [], sample_step ''b'' [''a'']], wd_description = [],
     wd_execution_mode = ''dag'', wd_max_parallel_steps = 2, wd_total_timeout_sec = Some 60\<rparr>"

text \<open>The digest of the example keeps the start of the text, which holds the step index.\<close>

definition sample_sha :: "string \<Rightarrow> string" where
  "sample_sha s = take 30 s"

definition created_db :: db where
  "created_db = db_after (create sample_sha (\<lambda>_. ''60.0'') (\<lambda>_ v. Some v) (\<lambda>_. Inr ()) 1 ''w'' sample_definition None
     (Some ''key'') WRunning empty_db)"

lemma created_db_ok:
  "\<exists>row. create sample_sha (\<lambda>_. ''60.0'') (\<lambda>_ v. Some v) (\<lambda>_. Inr ()) 1 ''w'' sample_definition None
     (Some ''key'') WRunning empty_db = Inr (created_db, Some row)"
proof -
  let ?c = "create sample_sha (\<lambda>_. ''60.0'') (\<lambda>_ v. Some v) (\<lambda>_. Inr ()) 1 ''w'' sample_definition None
     (Some ''key'') WRunning empty_db"
  have "case ?c of Inr (d, Some row) \<Rightarrow> True | _ \<Rightarrow> False" by code_simp
  then show ?thesis
    unfolding created_db_def db_after_def by (auto split: sum.splits prod.splits option.splits)
qed

theorem create_idempotent_witness:
  "\<exists>row. create sample_sha (\<lambda>_. ''60.0'') (\<lambda>_ v. Some v) (\<lambda>_. Inr ()) 9 ''w2'' sample_definition None (Some ''key'')
     WQueued created_db = Inr (created_db, Some row)"
proof -
  obtain row where "create sample_sha (\<lambda>_. ''60.0'') (\<lambda>_ v. Some v) (\<lambda>_. Inr ()) 1 ''w'' sample_definition None
     (Some ''key'') WRunning empty_db = Inr (created_db, Some row)"
    using created_db_ok by blast
  from create_idempotent [OF this, of 9 "''w2''" WQueued] show ?thesis by (simp add: empty_db_def)
qed

definition chain_db :: db where
  "chain_db = ready_db\<lparr>
     db_steps := map (\<lambda>i. \<lparr>st_workflow_id = ''w'', st_step_index = i, st_state = SCreated, st_attempts = 0, st_started_at = None,
       st_finished_at = None, st_evidence = None, st_error = None, st_step_id = None\<rparr>) [0, 1],
     db_operations := [sample_operation, sample_operation\<lparr>op_id := ''o2'', op_step_index := 1\<rparr>],
     db_dependencies := [\<lparr>dep_workflow_id = ''w'', dep_step_index = 1, dep_dependency = 0\<rparr>]\<rparr>"


end
