(* ===== verification/Capacity.thy ===== *)
theory Capacity
  imports Resource_Admission
begin

text \<open>
  Shared runtime capacity in \<open>core/workflow_store.py\<close>: weighted permits per category, granted in
  ticket order, released by their owner or once the owning process is known to be gone, and kept
  as a fence (quarantined) when the cleanup of a process could not be confirmed.
\<close>

subsection \<open>Operations\<close>

definition released_capacity_tickets :: "capacity_row list \<Rightarrow> nat list" where
  "released_capacity_tickets rows = sort (map cap_ticket (filter (\<lambda>r. cap_state r = Released) rows))"

definition make_capacity_room :: "nat \<Rightarrow> db \<Rightarrow> db res" where
  "make_capacity_room limit d =
     (let count = length (db_capacity d) in
      if count < limit then Inr d
      else let needed = count - limit + 1;
               victims = take needed (released_capacity_tickets (db_capacity d));
               removed = sql_count (\<lambda>r. cap_ticket r \<in> set victims) (db_capacity d)
           in if removed < needed then Inl (ToolError ''runtime_admission_storage_exhausted'')
              else Inr (d\<lparr>db_capacity := sql_delete (\<lambda>r. cap_ticket r \<in> set victims) (db_capacity d)\<rparr>))"

definition insert_capacity ::
  "string \<Rightarrow> string \<Rightarrow> string \<Rightarrow> int \<Rightarrow> int \<Rightarrow> time \<Rightarrow> string option \<Rightarrow> db \<Rightarrow> db" where
  "insert_capacity admission_id category owner_token weight limit now resource d =
     d\<lparr>db_capacity := db_capacity d @
         [\<lparr>cap_ticket = db_capacity_seq d, cap_admission_id = admission_id, cap_category = category,
           cap_owner_token = owner_token, cap_weight = weight, cap_limit_snapshot = limit,
           cap_state = Pending, cap_reason = None, cap_created_at = now, cap_updated_at = now,
           cap_resource_request_id = resource\<rparr>],
       db_capacity_seq := Suc (db_capacity_seq d)\<rparr>"

definition older_pending :: "db \<Rightarrow> string \<Rightarrow> nat \<Rightarrow> bool" where
  "older_pending d category ticket \<longleftrightarrow>
     sql_exists (\<lambda>r. cap_category r = category \<and> cap_state r = Pending \<and> cap_ticket r < ticket) (db_capacity d)"

definition occupied_weight :: "db \<Rightarrow> string \<Rightarrow> int" where
  "occupied_weight d category =
     sql_sum cap_weight (\<lambda>r. cap_category r = category \<and> cap_state r \<in> {Active, Quarantined}) (db_capacity d)"

definition settle_capacity ::
  "string \<Rightarrow> string \<Rightarrow> string \<Rightarrow> int \<Rightarrow> int \<Rightarrow> time \<Rightarrow> string option \<Rightarrow> db \<Rightarrow> (db \<times> reservation) res" where
  "settle_capacity admission_id category owner_token weight limit now resource d =
     (case find_capacity d admission_id of
        None \<Rightarrow> Inl (ToolError ''capacity_request_missing'')
      | Some row \<Rightarrow>
        let answer = (\<lambda>ok state reason. \<lparr>res_admitted = ok, res_id = admission_id, res_state = state,
                                       res_reason = reason\<rparr>) in
        if cap_owner_token row \<noteq> owner_token \<or> cap_category row \<noteq> category \<or> cap_weight row \<noteq> weight \<or>
           cap_resource_request_id row \<noteq> resource
        then Inl (ToolError ''capacity_request_conflict'')
        else if cap_state row = Active then Inr (d, answer True Active None)
        else if cap_state row = Quarantined then Inr (d, answer False Quarantined (Some ''capacity_quarantined''))
        else if cap_state row = Released then Inr (d, answer False Released (Some ''capacity_request_terminal''))
        else if older_pending d category (cap_ticket row) \<or> limit < occupied_weight d category + weight
        then let reason = (if older_pending d category (cap_ticket row) then ''older_capacity_request''
                           else ''capacity_exhausted'') in
             Inr (update_capacity (\<lambda>r. cap_admission_id r = admission_id)
                    (\<lambda>r. r\<lparr>cap_reason := Some reason, cap_limit_snapshot := limit, cap_updated_at := now\<rparr>) d,
                  answer False Pending (Some reason))
        else Inr (update_capacity (\<lambda>r. cap_admission_id r = admission_id \<and> cap_state r = Pending)
                    (\<lambda>r. r\<lparr>cap_state := Active, cap_reason := None, cap_limit_snapshot := limit,
                           cap_updated_at := now\<rparr>) d,
                  answer True Active None))"

definition reserve_capacity ::
  "nat \<Rightarrow> string \<Rightarrow> (string \<Rightarrow> bool option) \<Rightarrow> time \<Rightarrow> string \<Rightarrow> string \<Rightarrow> string \<Rightarrow> int \<Rightarrow> int \<Rightarrow>
   string option \<Rightarrow> string option \<Rightarrow> db \<Rightarrow> (db \<times> reservation) res" where
  "reserve_capacity records policy alive now admission_id category owner_token weight limit resource
     resource_owner d =
     (if weight < 1 \<or> limit < 1 \<or> limit < weight then Inl (ToolError ''invalid_capacity_request'')
      else if admission_id = [] \<or> 200 < length admission_id \<or> owner_token = [] \<or> 200 < length owner_token \<or>
              category = [] \<or> 80 < length category
      then Inl (ToolError ''invalid_capacity_request'')
      else if (case resource_owner of None \<Rightarrow> False | Some owner \<Rightarrow> alive owner = Some False)
      then Inl (ToolError ''resource_capability_invalid'')
      else if (case resource of None \<Rightarrow> False
               | Some q \<Rightarrow> resource_capability_row d q resource_owner policy now = None)
      then Inl (ToolError ''resource_capability_invalid'')
      else case find_capacity d admission_id of
        Some _ \<Rightarrow> settle_capacity admission_id category owner_token weight limit now resource d
      | None \<Rightarrow>
          (case make_capacity_room records d of
             Inl e \<Rightarrow> Inl e
           | Inr d1 \<Rightarrow> settle_capacity admission_id category owner_token weight limit now resource
                        (insert_capacity admission_id category owner_token weight limit now resource d1)))"

definition quarantine_capacity :: "time \<Rightarrow> string \<Rightarrow> string \<Rightarrow> db \<Rightarrow> (db \<times> unit) res" where
  "quarantine_capacity now admission_id owner_token d =
     (case find_capacity d admission_id of
        None \<Rightarrow> Inl (ToolError ''capacity_owner_mismatch'')
      | Some row \<Rightarrow>
        if cap_owner_token row \<noteq> owner_token \<or> cap_state row = Released
        then Inl (ToolError ''capacity_owner_mismatch'')
        else let d1 = update_capacity (\<lambda>r. cap_admission_id r = admission_id)
               (\<lambda>r. r\<lparr>cap_state := Quarantined, cap_reason := Some ''process_cleanup_unresolved'',
                      cap_updated_at := now\<rparr>) d
             in Inr (update_requests
                  (\<lambda>r. cap_resource_request_id row = Some (rr_request_id r) \<and> rr_state r = Active)
                  (\<lambda>r. r\<lparr>rr_state := Quarantined, rr_reason := Some ''child_capacity_cleanup_unresolved'',
                         rr_updated_at := now\<rparr>) d1, ()))"

definition release_capacity :: "time \<Rightarrow> string \<Rightarrow> string \<Rightarrow> db \<Rightarrow> (db \<times> bool) res" where
  "release_capacity now admission_id owner_token d =
     (case find_capacity d admission_id of
        None \<Rightarrow> Inr (d, False)
      | Some row \<Rightarrow>
        if cap_owner_token row \<noteq> owner_token then Inl (ToolError ''capacity_owner_mismatch'')
        else if cap_state row \<notin> {Active, Pending} then Inr (d, False)
        else Inr (update_capacity
               (\<lambda>r. cap_admission_id r = admission_id \<and> cap_owner_token r = owner_token \<and>
                    cap_state r \<in> {Active, Pending})
               (\<lambda>r. r\<lparr>cap_state := Released, cap_reason := None, cap_updated_at := now\<rparr>) d, True))"

text \<open>\<open>f"{created:.6f}"\<close>: the value rounded to six decimals, ties to the even digit. \<open>LIKE\<close> with a
  trailing percent sign is a prefix test that ignores the case of ASCII letters.\<close>

definition fixed6 :: "rat \<Rightarrow> string" where
  "fixed6 q = (let micro = round_even (q * 1000000); digits = nat_digits (nat (micro mod 1000000)) in
     int_text (micro div 1000000) @ ''.'' @ replicate (6 - length digits) CHR ''0'' @ digits)"

definition ascii_lower :: "string \<Rightarrow> string" where
  "ascii_lower s = map (\<lambda>c. let n = of_char c :: nat in if 65 \<le> n \<and> n \<le> 90 then char_of (n + 32) else c) s"

definition process_prefix :: "int \<Rightarrow> rat \<Rightarrow> string" where
  "process_prefix pid created = ''pid-'' @ int_text pid @ ''-'' @ fixed6 created @ ''-''"

definition owned_by_process :: "int \<Rightarrow> rat \<Rightarrow> capacity_row \<Rightarrow> bool" where
  "owned_by_process pid created r \<longleftrightarrow>
     starts_with (ascii_lower (process_prefix pid created)) (ascii_lower (cap_owner_token r)) \<and>
     cap_state r \<in> {Active, Pending, Quarantined}"

definition release_process_capacity :: "time \<Rightarrow> int \<Rightarrow> rat \<Rightarrow> db \<Rightarrow> (db \<times> nat) res" where
  "release_process_capacity now pid created d =
     (if pid < 1 \<or> created \<le> 0 then Inl ValueError
      else Inr (update_capacity (owned_by_process pid created)
             (\<lambda>r. r\<lparr>cap_state := Released, cap_reason := Some ''owned_process_cleanup_complete'',
                    cap_updated_at := now\<rparr>) d,
           sql_count (owned_by_process pid created) (db_capacity d)))"

subsection \<open>Well-formed capacity tables and the load of a category\<close>

definition capacity_inv :: "db \<Rightarrow> bool" where
  "capacity_inv d \<longleftrightarrow> unique_by cap_admission_id (db_capacity d) \<and> unique_by cap_ticket (db_capacity d) \<and>
     (\<forall>r \<in> set (db_capacity d). cap_ticket r < db_capacity_seq d \<and> 1 \<le> cap_weight r)"

definition active_weight :: "string \<Rightarrow> db \<Rightarrow> int" where
  "active_weight category d =
     sql_sum cap_weight (\<lambda>r. cap_category r = category \<and> cap_state r = Active) (db_capacity d)"

text \<open>An operation is benign for the capacity when it keeps the table well formed and raises the
  active weight of no category.\<close>

definition capacity_benign :: "db \<Rightarrow> db \<Rightarrow> bool" where
  "capacity_benign d d' \<longleftrightarrow> (capacity_inv d \<longrightarrow>
     capacity_inv d' \<and> (\<forall>c. active_weight c d' \<le> active_weight c d))"

lemma capacity_benign_refl [simp]: "capacity_benign d d"
  by (simp add: capacity_benign_def)

lemma capacity_benign_trans:
  "capacity_benign d d' \<Longrightarrow> capacity_benign d' d'' \<Longrightarrow> capacity_benign d d''"
  unfolding capacity_benign_def by (meson order_trans)

lemma same_capacity_benign:
  "db_capacity d' = db_capacity d \<Longrightarrow> db_capacity_seq d' = db_capacity_seq d \<Longrightarrow> capacity_benign d d'"
  by (simp add: capacity_benign_def capacity_inv_def active_weight_def)

lemma capacity_update_inv:
  assumes "\<And>r. cap_admission_id (f r) = cap_admission_id r" "\<And>r. cap_ticket (f r) = cap_ticket r"
    "\<And>r. cap_weight (f r) = cap_weight r" "capacity_inv d"
  shows "capacity_inv (update_capacity P f d)"
  using assms by (auto simp: capacity_inv_def update_capacity_def unique_by_update set_sql_update)

lemma capacity_update_benign:
  assumes "\<And>r. cap_admission_id (f r) = cap_admission_id r \<and> cap_ticket (f r) = cap_ticket r \<and>
      cap_weight (f r) = cap_weight r \<and> cap_category (f r) = cap_category r"
    and "\<And>r. P r \<Longrightarrow> cap_state (f r) = Active \<Longrightarrow> cap_state r = Active"
  shows "capacity_benign d (update_capacity P f d)"
  unfolding capacity_benign_def
proof (intro impI conjI allI)
  assume inv: "capacity_inv d"
  show "capacity_inv (update_capacity P f d)"
    using inv assms(1) by (intro capacity_update_inv) auto
  have "0 \<le> cap_weight r" if "r \<in> set (db_capacity d)" for r
    using inv that by (force simp: capacity_inv_def)
  then show "active_weight c (update_capacity P f d) \<le> active_weight c d" for c
    using assms unfolding active_weight_def update_capacity_def by (auto intro!: sum_rows_update)
qed

lemma release_capacity_benign: "release_capacity now a owner d = Inr (d', x) \<Longrightarrow> capacity_benign d d'"
  by (auto simp: release_capacity_def split: option.splits if_splits intro!: capacity_update_benign)

lemma release_process_benign: "release_process_capacity now pid created d = Inr (d', x) \<Longrightarrow> capacity_benign d d'"
  by (auto simp: release_process_capacity_def split: if_splits intro!: capacity_update_benign)

lemma quarantine_capacity_benign: 
  assumes "quarantine_capacity now a owner d = Inr (d', x)"
  shows "capacity_benign d d'" "requests_benign d d'"
proof -
  let ?d1 = "update_capacity (\<lambda>r. cap_admission_id r = a)
               (\<lambda>r. r\<lparr>cap_state := Quarantined, cap_reason := Some ''process_cleanup_unresolved'',
                      cap_updated_at := now\<rparr>) d"
  obtain q where d': "d' = update_requests (\<lambda>r. q = Some (rr_request_id r) \<and> rr_state r = Active)
      (\<lambda>r. r\<lparr>rr_state := Quarantined, rr_reason := Some ''child_capacity_cleanup_unresolved'',
             rr_updated_at := now\<rparr>) ?d1"
    using assms by (auto simp: quarantine_capacity_def Let_def split: option.splits if_splits)
  have "capacity_benign d ?d1" by (rule capacity_update_benign) auto
  moreover have "capacity_benign ?d1 d'" by (rule same_capacity_benign) (simp_all add: d')
  ultimately show "capacity_benign d d'" by (rule capacity_benign_trans)
  have "requests_benign d ?d1" by (rule same_requests_benign) simp
  moreover have "requests_benign ?d1 d'" unfolding d' by (rule update_requests_benign) (simp add: tame_update_def)
  ultimately show "requests_benign d d'" by (rule requests_benign_trans)
qed

lemma make_capacity_room_benign:
  assumes "make_capacity_room records d = Inr d1"
  shows "capacity_benign d d1"
proof -
  have "capacity_benign d (d\<lparr>db_capacity := sql_delete P (db_capacity d)\<rparr>)" for P
    by (auto simp: capacity_benign_def capacity_inv_def active_weight_def unique_by_delete
          intro!: sum_rows_delete)
  with assms show ?thesis by (auto simp: make_capacity_room_def Let_def split: if_splits)
qed

lemma insert_capacity_benign:
  assumes "a \<notin> cap_admission_id ` set (db_capacity d)" "1 \<le> weight"
  shows "capacity_benign d (insert_capacity a c owner weight limit now q d)"
  using assms
  by (auto simp: capacity_benign_def capacity_inv_def insert_capacity_def active_weight_def sql_sum_def
        intro!: unique_by_insert)

subsection \<open>Granting\<close>

lemma capacity_row_unique:
  assumes "capacity_inv d" "find_capacity d a = Some row" "r \<in> set (db_capacity d)" "cap_admission_id r = a"
  shows "r = row"
proof -
  have "unique_by cap_admission_id (db_capacity d)" "row \<in> set (db_capacity d)" "cap_admission_id row = a"
    using assms(1) find_capacity_Some [OF assms(2)] by (simp_all add: capacity_inv_def)
  with assms(3,4) show ?thesis by (metis unique_byD)
qed

lemma settle_capacity_admits:
  assumes "find_capacity d a = Some row" "cap_state row = Pending"
    "settle_capacity a c owner weight limit now q d = Inr (d', ans)"
  shows "res_admitted ans \<longleftrightarrow> \<not> older_pending d c (cap_ticket row) \<and> occupied_weight d c + weight \<le> limit"
  using assms by (auto simp: settle_capacity_def Let_def split: if_splits)

definition grants_within :: "string \<Rightarrow> int \<Rightarrow> db \<Rightarrow> db \<Rightarrow> bool" where
  "grants_within category limit d d' \<longleftrightarrow> capacity_inv d' \<and>
     (\<forall>c. active_weight c d' \<le> active_weight c d \<or> (c = category \<and> active_weight c d' \<le> limit))"

lemma benign_grants: "capacity_benign d d' \<Longrightarrow> capacity_inv d \<Longrightarrow> grants_within c limit d d'"
  by (simp add: capacity_benign_def grants_within_def)

lemma benign_then_grants:
  "capacity_benign d d1 \<Longrightarrow> capacity_inv d \<Longrightarrow> grants_within c limit d1 d2 \<Longrightarrow> grants_within c limit d d2"
  unfolding capacity_benign_def grants_within_def by (meson order_trans)

lemma activation_within:
  assumes inv: "capacity_inv d" and row: "find_capacity d a = Some row" "cap_weight row = weight" "cap_category row = c"
    and room: "occupied_weight d c + weight \<le> limit"
  shows "grants_within c limit d (update_capacity (\<lambda>r. cap_admission_id r = a \<and> cap_state r = Pending)
    (\<lambda>r. r\<lparr>cap_state := Active, cap_reason := None, cap_limit_snapshot := limit, cap_updated_at := now\<rparr>) d)"
    (is "grants_within c limit d (update_capacity ?P ?f d)")
proof -
  have only: "r = row" if "r \<in> set (db_capacity d)" "cap_admission_id r = a" for r
    using inv row(1) that by (rule capacity_row_unique)
  have pos: "0 \<le> cap_weight r" if "r \<in> set (db_capacity d)" for r
    using inv that by (force simp: capacity_inv_def)
  have other: "active_weight k (update_capacity ?P ?f d) \<le> active_weight k d" if "k \<noteq> c" for k
    unfolding active_weight_def update_capacity_def
    using that only row(3) pos by (auto intro!: sum_rows_update)
  have "active_weight c (update_capacity ?P ?f d) \<le> active_weight c d + weight"
    unfolding active_weight_def update_capacity_frame
  proof (rule sum_rows_update_one)
    show "unique_by cap_admission_id (db_capacity d)" using inv by (simp add: capacity_inv_def)
    show "cap_admission_id r = a \<and> cap_weight (?f r) = weight" if "r \<in> set (db_capacity d)" "?P r" for r
      using that only [OF that(1)] row(2) by simp
    show "0 \<le> weight" using pos find_capacity_Some [OF row(1)] row(2) by auto
  qed (rule pos)
  moreover have "active_weight c d \<le> occupied_weight d c"
    unfolding active_weight_def occupied_weight_def using pos by (intro sum_rows_mono) auto
  ultimately have own: "active_weight c (update_capacity ?P ?f d) \<le> limit" using room by linarith
  show ?thesis
    unfolding grants_within_def
  proof (intro conjI allI)
    show "capacity_inv (update_capacity ?P ?f d)"
      using inv by (intro capacity_update_inv) auto
    show "active_weight k (update_capacity ?P ?f d) \<le> active_weight k d \<or>
      (k = c \<and> active_weight k (update_capacity ?P ?f d) \<le> limit)" for k
      using own other [of k] by (cases "k = c") simp_all
  qed
qed

lemma settle_capacity_within:
  assumes "capacity_inv d" "settle_capacity a c owner weight limit now q d = Inr (d', ans)"
  shows "grants_within c limit d d'"
proof -
  obtain row where row: "find_capacity d a = Some row" "cap_weight row = weight" "cap_category row = c"
    using assms(2) by (auto simp: settle_capacity_def split: option.splits if_splits)
  have benign: "grants_within c limit d (update_capacity (\<lambda>r. cap_admission_id r = a)
      (\<lambda>r. r\<lparr>cap_reason := Some reason, cap_limit_snapshot := limit, cap_updated_at := now\<rparr>) d)" for reason
    using assms(1) by (intro benign_grants capacity_update_benign) auto
  have same: "grants_within c limit d d" using assms(1) by (simp add: grants_within_def)
  show ?thesis
    using assms(2) row benign same activation_within [OF assms(1) row, of limit now]
    by (auto simp: settle_capacity_def Let_def split: if_splits)
qed

lemma reserve_capacity_within:
  assumes "capacity_inv d"
    "reserve_capacity records policy alive now a c owner weight limit q qo d = Inr (d', ans)"
  shows "grants_within c limit d d'"
proof (cases "find_capacity d a")
  case (Some row)
  with assms show ?thesis
    by (auto simp: reserve_capacity_def split: if_splits intro: settle_capacity_within)
next
  case None
  with assms(2) obtain d1 where room: "make_capacity_room records d = Inr d1" and
    settle: "settle_capacity a c owner weight limit now q (insert_capacity a c owner weight limit now q d1) = Inr (d', ans)"
    and weight: "1 \<le> weight"
    by (auto simp: reserve_capacity_def split: if_splits sum.splits)
  have d1: "capacity_benign d d1" using room by (rule make_capacity_room_benign)
  have "a \<notin> cap_admission_id ` set (db_capacity d1)"
    using None room by (auto simp: find_capacity_def make_capacity_room_def Let_def split: if_splits)
  then have "capacity_benign d (insert_capacity a c owner weight limit now q d1)"
    using d1 weight by (blast intro: capacity_benign_trans insert_capacity_benign)
  moreover from this assms(1) have "capacity_inv (insert_capacity a c owner weight limit now q d1)"
    by (simp add: capacity_benign_def)
  ultimately show ?thesis
    using settle assms(1) by (blast intro: benign_then_grants settle_capacity_within)
qed

lemma settle_capacity_requests:
  "settle_capacity a c owner weight limit now q d = Inr (d', ans) \<Longrightarrow> same_requests d d'"
  by (auto simp: settle_capacity_def Let_def split: if_splits option.splits)

lemma make_capacity_room_requests: "make_capacity_room records d = Inr d' \<Longrightarrow> same_requests d d'"
  by (auto simp: make_capacity_room_def Let_def same_requests_def split: if_splits)

lemma insert_capacity_requests: "same_requests d (insert_capacity a c owner weight limit now q d)"
  by (simp add: insert_capacity_def same_requests_def)

lemma reserve_capacity_requests:
  assumes "reserve_capacity records policy alive now a c owner weight limit q qo d = Inr (d', ans)"
  shows "same_requests d d'"
proof (cases "find_capacity d a")
  case None
  with assms obtain d1 where "make_capacity_room records d = Inr d1"
    "settle_capacity a c owner weight limit now q (insert_capacity a c owner weight limit now q d1) = Inr (d', ans)"
    by (auto simp: reserve_capacity_def split: if_splits sum.splits)
  then show ?thesis
    by (blast intro: same_requests_trans make_capacity_room_requests insert_capacity_requests settle_capacity_requests)
next
  case (Some row)
  with assms show ?thesis
    by (auto simp: reserve_capacity_def split: if_splits intro: settle_capacity_requests)
qed

lemma release_capacity_requests:
  "release_capacity now a owner d = Inr (d', x) \<Longrightarrow> same_requests d d'"
  by (auto simp: release_capacity_def split: if_splits option.splits)

lemma release_process_requests:
  "release_process_capacity now pid created d = Inr (d', n) \<Longrightarrow> same_requests d d'"
  by (auto simp: release_process_capacity_def split: if_splits)

text \<open>Capacity is granted in ticket order: polling a pending permit of this owner is granted
  exactly when no older permit of the category is waiting and the weight of all active and
  quarantined permits of the category plus its own stays within the limit.\<close>

theorem reserve_capacity_fifo:
  assumes "find_capacity d a = Some row" "cap_state row = Pending"
    "reserve_capacity records policy alive now a c owner weight limit q qo d = Inr (d', ans)"
  shows "res_admitted ans \<longleftrightarrow>
    (\<forall>r \<in> set (db_capacity d). cap_category r = c \<and> cap_state r = Pending \<longrightarrow> cap_ticket row \<le> cap_ticket r) \<and>
    occupied_weight d c + weight \<le> limit"
proof -
  have "settle_capacity a c owner weight limit now q d = Inr (d', ans)"
    using assms(1,3) by (auto simp: reserve_capacity_def split: if_splits)
  from settle_capacity_admits [OF assms(1,2) this] show ?thesis
    by (auto simp: older_pending_def not_less)
qed

definition permit_db :: db where
  "permit_db = empty_db\<lparr>db_capacity :=
     [\<lparr>cap_ticket = 1, cap_admission_id = ''a1'', cap_category = ''job'', cap_owner_token = ''o1'', cap_weight = 1,
       cap_limit_snapshot = 2, cap_state = Active, cap_reason = None, cap_created_at = 0, cap_updated_at = 0,
       cap_resource_request_id = None\<rparr>,
      \<lparr>cap_ticket = 2, cap_admission_id = ''a2'', cap_category = ''job'', cap_owner_token = ''o2'', cap_weight = 1,
       cap_limit_snapshot = 2, cap_state = Pending, cap_reason = None, cap_created_at = 0, cap_updated_at = 0,
       cap_resource_request_id = None\<rparr>],
     db_capacity_seq := 3\<rparr>"

theorem reserve_capacity_fifo_witness:
  "\<exists>d ans. reserve_capacity 10 ''p1'' (\<lambda>_. None) 5 ''a2'' ''job'' ''o2'' 1 2 None None permit_db = Inr (d, ans) \<and>
     res_admitted ans"
proof -
  have ok: "\<not> is_error (reserve_capacity 10 ''p1'' (\<lambda>_. None) 5 ''a2'' ''job'' ''o2'' 1 2 None None permit_db)"
    by code_simp
  then obtain d ans where res: "reserve_capacity 10 ''p1'' (\<lambda>_. None) 5 ''a2'' ''job'' ''o2'' 1 2 None None permit_db = Inr (d, ans)"
    using not_error_Inr by fastforce
  have "case find_capacity permit_db ''a2'' of None \<Rightarrow> False | Some row \<Rightarrow> cap_state row = Pending \<and>
      (\<forall>r \<in> set (db_capacity permit_db). cap_category r = ''job'' \<and> cap_state r = Pending \<longrightarrow> cap_ticket row \<le> cap_ticket r)"
    "occupied_weight permit_db ''job'' + 1 \<le> 2"
    by code_simp+
  then show ?thesis
    using reserve_capacity_fifo [OF _ _ res] res by (auto split: option.splits)
qed

end
