(* ===== verification/Store_Steps.thy ===== *)
theory Store_Steps
  imports Recovery Workflow_Create Capacity
begin

text \<open>
  The whole store as a transition system. Every public call of \<open>WorkflowStore\<close> runs in one
  \<open>BEGIN IMMEDIATE\<close> transaction: it either raises and rolls back or commits, so that any number of
  processes sharing the database see one sequence of committed calls. A call is one rule of
  \<open>store_call\<close>; a state is reachable when some sequence of calls leads to it from an empty database.
  The configured limits appear as \<open>caps\<close> (the capacity of a category) and \<open>gmax\<close> (the admitted weight of
  a category over all workflows): every caller passes at most these.
\<close>

inductive store_call :: "(string \<Rightarrow> int) \<Rightarrow> (string \<Rightarrow> int) \<Rightarrow> string \<Rightarrow> db \<Rightarrow> db \<Rightarrow> bool"
  for caps gmax where
  call_create: "create sha flt validate iok now w wd inputs key initial d = Inr (d', x) \<Longrightarrow>
    store_call caps gmax ''create'' d d'"
| call_materialize: "materialize_operations sha now w d = Inr (d', u) \<Longrightarrow>
    store_call caps gmax ''materialize_operations'' d d'"
| call_acquire: "acquire_lease now_us token w owner ttl re d = Inr (d', l) \<Longrightarrow>
    store_call caps gmax ''acquire_lease'' d d'"
| call_renew: "renew_lease now_us w ttl t d = Inr (d', l) \<Longrightarrow> store_call caps gmax ''renew_lease'' d d'"
| call_release_lease: "release_lease w t d = Inr (d', u) \<Longrightarrow> store_call caps gmax ''release_lease'' d d'"
| call_release_current: "release_lease_if_current w t d = Inr (d', b) \<Longrightarrow>
    store_call caps gmax ''release_lease_if_current'' d d'"
| call_reserve: "reserve_resource_claims limit policy now q owner claims cat w' oid t' d = Inr (d', a) \<Longrightarrow>
    store_call caps gmax ''reserve_resource_claims'' d d'"
| call_bind: "bind_resource_request_attempt now q owner t d = Inr (d', r) \<Longrightarrow>
    store_call caps gmax ''bind_resource_request_attempt'' d d'"
| call_release: "release_resource_request now q owner d = Inr (d', b) \<Longrightarrow>
    store_call caps gmax ''release_resource_request'' d d'"
| call_quarantine: "quarantine_resource_request now q owner reason d = Inr (d', r) \<Longrightarrow>
    store_call caps gmax ''quarantine_resource_request'' d d'"
| call_resolve_quarantined: "resolve_quarantined_resource_request now q owner evidence d = Inr (d', r) \<Longrightarrow>
    store_call caps gmax ''resolve_quarantined_resource_request'' d d'"
| call_reserve_capacity: "reserve_capacity records policy alive now a c owner weight limit q' qo d = Inr (d', ans) \<Longrightarrow>
    limit \<le> caps c \<Longrightarrow> store_call caps gmax ''reserve_capacity'' d d'"
| call_quarantine_capacity: "quarantine_capacity now a owner d = Inr (d', u) \<Longrightarrow>
    store_call caps gmax ''quarantine_capacity'' d d'"
| call_release_capacity: "release_capacity now a owner d = Inr (d', b) \<Longrightarrow>
    store_call caps gmax ''release_capacity'' d d'"
| call_release_process: "release_process_capacity now pid created d = Inr (d', n) \<Longrightarrow>
    store_call caps gmax ''release_process_capacity'' d d'"
| call_fail_unadmitted: "fail_unadmitted_operation now oid err l d = Inr (d', x) \<Longrightarrow>
    store_call caps gmax ''fail_unadmitted_operation'' d d'"
| call_claim: "claim_ready_operation now t oid owner ex gl c wt l d = Inr (d', x) \<Longrightarrow> gl \<le> gmax c \<Longrightarrow>
    store_call caps gmax ''claim_ready_operation'' d d'"
| call_prepare: "prepare_operation_attempt now oid v t ie pc l d = Inr (d', x) \<Longrightarrow>
    store_call caps gmax ''prepare_operation_attempt'' d d'"
| call_dispatch: "mark_operation_may_dispatch now oid v t l d = Inr (d', x) \<Longrightarrow>
    store_call caps gmax ''mark_operation_may_dispatch'' d d'"
| call_complete: "complete_operation_attempt now oid v t final result evidence err l d = Inr (d', x) \<Longrightarrow>
    store_call caps gmax ''complete_operation_attempt'' d d'"
| call_cancel: "request_cancel now w v reason d = Inr (d', x) \<Longrightarrow> store_call caps gmax ''request_cancel'' d d'"
| call_transition: "transition now w v st cs le lt d = Inr (d', x) \<Longrightarrow> store_call caps gmax ''transition'' d d'"
| call_advance: "advance_running now w v i lt d = Inr (d', x) \<Longrightarrow> store_call caps gmax ''advance_running'' d d'"
| call_checkpoint_step: "checkpoint_step now w j ss ev er inc lt d = Inr (d', x) \<Longrightarrow>
    store_call caps gmax ''checkpoint_step'' d d'"
| call_checkpoint_operation: "checkpoint_operation now oid os res ev ie' xr pc' er inc l d = Inr (d', x) \<Longrightarrow>
    store_call caps gmax ''checkpoint_operation'' d d'"
| call_context: "update_operation_context now oid ie' xr pc' l d = Inr (d', x) \<Longrightarrow>
    store_call caps gmax ''update_operation_context'' d d'"
| call_route: "record_route_decision now oid sel pol dec l d = Inr (d', x) \<Longrightarrow>
    store_call caps gmax ''record_route_decision'' d d'"
| call_resolve: "resolve_uncertain_operation now oid v os ev et md d = Inr (d', x) \<Longrightarrow>
    store_call caps gmax ''resolve_uncertain_operation'' d d'"
| call_recompute: "recompute_workflow_aggregate now w sr kr l d = Inr (d', x) \<Longrightarrow>
    store_call caps gmax ''recompute_workflow_aggregate'' d d'"
| call_recover: "recover_with now stale d = (d', n) \<Longrightarrow> store_call caps gmax ''recover_interrupted'' d d'"

definition store_step :: "(string \<Rightarrow> int) \<Rightarrow> (string \<Rightarrow> int) \<Rightarrow> db \<Rightarrow> db \<Rightarrow> bool" where
  "store_step caps gmax d d' \<longleftrightarrow> (\<exists>call. store_call caps gmax call d d')"

definition store_start :: "db \<Rightarrow> bool" where
  "store_start d \<longleftrightarrow> d = empty_db"

subsection \<open>What one call does to the tables\<close>

definition limit_of :: "db \<Rightarrow> string \<Rightarrow> int" where
  "limit_of d v = (case map_of (workflow_limits d) v of None \<Rightarrow> 0 | Some l \<Rightarrow> l)"

definition category_load :: "string \<Rightarrow> db \<Rightarrow> int" where
  "category_load c d = admitted_weight d (\<lambda>a. adm_category a = c)"

definition workflow_load :: "string \<Rightarrow> string \<Rightarrow> db \<Rightarrow> int" where
  "workflow_load v c d = admitted_weight d (\<lambda>a. adm_workflow_id a = v \<and> adm_category a = c)"

text \<open>How far the attempts of a workflow exceed its limit; none is no excess, whatever the limit.\<close>

definition excess :: "string \<Rightarrow> string \<Rightarrow> db \<Rightarrow> int" where
  "excess v c d = (if workflow_load v c d \<le> 0 then 0 else workflow_load v c d - limit_of d v)"

definition request_effect :: "db \<Rightarrow> db \<Rightarrow> bool" where
  "request_effect d d' \<longleftrightarrow> (request_inv d \<longrightarrow> admits_one d d')"

definition capacity_effect :: "(string \<Rightarrow> int) \<Rightarrow> db \<Rightarrow> db \<Rightarrow> bool" where
  "capacity_effect caps d d' \<longleftrightarrow> (capacity_inv d \<longrightarrow> capacity_inv d' \<and>
     (\<forall>c. active_weight c d' \<le> active_weight c d \<or> active_weight c d' \<le> caps c))"

definition attempt_effect :: "(string \<Rightarrow> int) \<Rightarrow> db \<Rightarrow> db \<Rightarrow> bool" where
  "attempt_effect gmax d d' \<longleftrightarrow> (attempt_inv d \<longrightarrow> attempt_inv d' \<and>
     (\<forall>c. category_load c d' \<le> category_load c d \<or> category_load c d' \<le> gmax c) \<and>
     (\<forall>v c. excess v c d' \<le> excess v c d \<or> excess v c d' \<le> 0))"

definition lease_effect :: "db \<Rightarrow> db \<Rightarrow> bool" where
  "lease_effect d d' \<longleftrightarrow> (lease_inv d \<longrightarrow> lease_inv d')"

definition call_effect :: "(string \<Rightarrow> int) \<Rightarrow> (string \<Rightarrow> int) \<Rightarrow> db \<Rightarrow> db \<Rightarrow> bool" where
  "call_effect caps gmax d d' \<longleftrightarrow>
     request_effect d d' \<and> capacity_effect caps d d' \<and> attempt_effect gmax d d' \<and> lease_effect d d'"

lemma limit_of_find: "find_workflow d v = Some w \<Longrightarrow> limit_of d v = workflow_limit w"
proof -
  have "map_of (map (\<lambda>r. (wf_id r, workflow_limit r)) rows) v =
      map_option workflow_limit (sql_one (\<lambda>r. wf_id r = v) rows)" for rows
    by (induction rows) (auto simp: sql_one_def)
  then show "find_workflow d v = Some w \<Longrightarrow> limit_of d v = workflow_limit w"
    by (simp add: limit_of_def workflow_limits_def find_workflow_def)
qed

lemma request_benign_effect: "requests_benign d d' \<Longrightarrow> request_effect d d'"
  by (simp add: request_effect_def benign_admits_one)

lemma same_requests_effect: "same_requests d d' \<Longrightarrow> request_effect d d'"
  by (simp add: request_benign_effect same_requests_benign)

lemma capacity_benign_effect: "capacity_benign d d' \<Longrightarrow> capacity_effect caps d d'"
  by (simp add: capacity_benign_def capacity_effect_def)

lemma same_capacity_effect:
  "db_capacity d' = db_capacity d \<Longrightarrow> db_capacity_seq d' = db_capacity_seq d \<Longrightarrow> capacity_effect caps d d'"
  by (simp add: capacity_benign_effect same_capacity_benign)

lemma same_lease_effect: "db_leases d' = db_leases d \<Longrightarrow> lease_effect d d'"
  by (simp add: lease_effect_def lease_inv_def)

lemma attempts_benign_effect:
  assumes "attempts_benign d d'"
  shows "attempt_effect gmax d d'"
  unfolding attempt_effect_def
proof (intro impI conjI allI)
  assume "attempt_inv d"
  with assms have inv: "attempt_inv d'" and le: "\<And>P. admitted_weight d' P \<le> admitted_weight d P"
    and lim: "limit_of d' = limit_of d"
    by (auto simp: attempts_benign_def limit_of_def fun_eq_iff)
  show "attempt_inv d'" by (rule inv)
  show "category_load c d' \<le> category_load c d \<or> category_load c d' \<le> gmax c" for c
    by (simp add: category_load_def le)
  show "excess v c d' \<le> excess v c d \<or> excess v c d' \<le> 0" for v c
    using le [of "\<lambda>a. adm_workflow_id a = v \<and> adm_category a = c"]
    by (auto simp: excess_def workflow_load_def lim)
qed

lemma same_attempts_effect:
  "db_operations d' = db_operations d \<Longrightarrow> db_admissions d' = db_admissions d \<Longrightarrow>
   workflow_limits d' = workflow_limits d \<Longrightarrow> attempt_effect gmax d d'"
  by (simp add: attempts_benign_effect same_attempts_benign)

lemmas call_effect_intros = same_requests_effect same_capacity_effect same_lease_effect same_attempts_effect

lemma owned_call_effect:
  assumes "same_ownership d d'" "attempt_inv d \<Longrightarrow> attempts_benign d d'"
  shows "call_effect caps gmax d d'"
proof -
  have "attempt_effect gmax d d'"
    using attempts_benign_effect [OF assms(2)] by (auto simp: attempt_effect_def)
  with assms(1) show ?thesis by (simp add: call_effect_def same_ownership_def call_effect_intros)
qed

subsection \<open>Resource calls\<close>

definition same_work :: "db \<Rightarrow> db \<Rightarrow> bool" where
  "same_work d d' \<longleftrightarrow> db_operations d' = db_operations d \<and> db_admissions d' = db_admissions d \<and>
     db_workflows d' = db_workflows d \<and> db_leases d' = db_leases d"

lemma same_work_effect: "same_work d d' \<Longrightarrow> attempt_effect gmax d d' \<and> lease_effect d d'"
  by (simp add: same_work_def call_effect_intros workflow_limits_def)

lemma work_call_effect:
  "same_work d d' \<Longrightarrow> request_effect d d' \<Longrightarrow> capacity_effect caps d d' \<Longrightarrow> call_effect caps gmax d d'"
  by (simp add: call_effect_def same_work_effect)

lemma same_work_trans: "same_work a b \<Longrightarrow> same_work b c \<Longrightarrow> same_work a c"
  by (simp add: same_work_def)

lemma same_work_simps [simp]:
  "same_work d d"
  "same_work d (update_requests P f d) "
  "same_work d (update_capacity Q g d)"
  "same_work d (delete_requests P d)"
  "same_work d (insert_capacity a c owner weight limit now q d)"
  by (simp_all add: same_work_def delete_requests_def insert_capacity_def Let_def)

lemma request_call_work:
  "bind_resource_request_attempt now q owner t d = Inr (d', r) \<Longrightarrow>
     same_work d d' \<and> db_capacity d' = db_capacity d \<and> db_capacity_seq d' = db_capacity_seq d"
  "release_resource_request now q owner d = Inr (d', b) \<Longrightarrow>
     same_work d d' \<and> db_capacity d' = db_capacity d \<and> db_capacity_seq d' = db_capacity_seq d"
  "quarantine_resource_request now q owner reason d = Inr (d', r) \<Longrightarrow>
     same_work d d' \<and> db_capacity d' = db_capacity d \<and> db_capacity_seq d' = db_capacity_seq d"
  by (auto simp: bind_resource_request_attempt_def release_resource_request_def quarantine_resource_request_def
        Let_def split: option.splits if_splits)

lemma capacity_call_work:
  "release_capacity now a owner d = Inr (d', b) \<Longrightarrow> same_work d d'"
  "release_process_capacity now pid created d = Inr (d', n) \<Longrightarrow> same_work d d'"
  "quarantine_capacity now a owner d = Inr (d', u) \<Longrightarrow> same_work d d'"
  by (auto simp: release_capacity_def release_process_capacity_def quarantine_capacity_def same_work_def
        Let_def split: option.splits if_splits)

lemma delete_requests_capacity: "capacity_benign d (delete_requests P d)"
proof -
  have sum: "sql_sum cap_weight (\<lambda>r. cap_category r = c \<and> cap_state r = Active)
      (sql_update Q (\<lambda>c. c\<lparr>cap_resource_request_id := None\<rparr>) rows) =
    sql_sum cap_weight (\<lambda>r. cap_category r = c \<and> cap_state r = Active) rows" for c Q rows
    by (induction rows) (auto simp: sql_sum_def sql_update_def)
  show ?thesis
    by (auto simp: capacity_benign_def capacity_inv_def active_weight_def delete_requests_def Let_def
          unique_by_update set_sql_update sum)
qed

lemma make_request_room_effect:
  "make_request_room limit d = Inr d' \<Longrightarrow> same_work d d' \<and> capacity_benign d d'"
  by (auto simp: make_request_room_def Let_def delete_requests_capacity split: if_splits)

lemma insert_request_effect:
  "insert_request q owner cat w oid t now policy cs d = Inr d' \<Longrightarrow> same_work d d' \<and> capacity_benign d d'"
  by (auto simp: insert_request_def Let_def same_work_def intro!: same_capacity_benign split: if_splits)

lemma settle_request_effect:
  assumes "settle_request q owner cat cs now policy d = Inr (d', a)"
  shows "same_work d d' \<and> capacity_benign d d'"
proof -
  have "capacity_benign d (update_requests P f d)" for P f by (rule same_capacity_benign) simp_all
  with assms show ?thesis
    by (auto simp: settle_request_def activate_request_def Let_def split: option.splits if_splits sum.splits)
qed

lemma reserve_effect:
  assumes "reserve_resource_claims limit policy now q owner claims cat w oid t d = Inr (d', a)"
  shows "same_work d d' \<and> capacity_benign d d'"
proof -
  let ?settle = "settle_request (py_strip q) (py_strip owner) (py_strip cat) (canonical_claims claims) now policy"
  consider "?settle d = Inr (d', a)"
    | d0 d1 where "make_request_room limit d = Inr d0"
      "insert_request (py_strip q) (py_strip owner) (py_strip cat) w oid t now policy (canonical_claims claims) d0 = Inr d1"
      "?settle d1 = Inr (d', a)"
    using assms by (auto simp: reserve_resource_claims_def Let_def split: option.splits if_splits sum.splits)
  then show ?thesis
    by cases (metis settle_request_effect, metis settle_request_effect make_request_room_effect insert_request_effect
        same_work_trans capacity_benign_trans)
qed

lemma settle_capacity_work: "settle_capacity a c owner weight limit now q d = Inr (d', ans) \<Longrightarrow> same_work d d'"
  by (auto simp: settle_capacity_def Let_def split: if_splits option.splits)

lemma make_capacity_room_work: "make_capacity_room records d = Inr d' \<Longrightarrow> same_work d d'"
  by (auto simp: make_capacity_room_def Let_def same_work_def split: if_splits)

lemma reserve_capacity_work:
  assumes "reserve_capacity records policy alive now a c owner weight limit q qo d = Inr (d', ans)"
  shows "same_work d d'"
proof (cases "find_capacity d a")
  case None
  with assms obtain d1 where "make_capacity_room records d = Inr d1"
    "settle_capacity a c owner weight limit now q (insert_capacity a c owner weight limit now q d1) = Inr (d', ans)"
    by (auto simp: reserve_capacity_def split: if_splits sum.splits)
  then show ?thesis
    by (meson same_work_trans make_capacity_room_work settle_capacity_work same_work_simps(5))
next
  case (Some row)
  with assms show ?thesis
    by (auto simp: reserve_capacity_def split: if_splits intro: settle_capacity_work)
qed

lemma reserve_capacity_effect:
  assumes "reserve_capacity records policy alive now a c owner weight limit q qo d = Inr (d', ans)" "limit \<le> caps c"
  shows "capacity_effect caps d d'"
  unfolding capacity_effect_def
proof (intro impI conjI allI)
  assume "capacity_inv d"
  then have within: "grants_within c limit d d'" using assms(1) by (rule reserve_capacity_within)
  then show "capacity_inv d'" by (simp add: grants_within_def)
  show "active_weight k d' \<le> active_weight k d \<or> active_weight k d' \<le> caps k" for k
    using within assms(2) by (force simp: grants_within_def)
qed

lemma delete_settled_benign: "attempts_benign d (delete_settled_admissions w d)"
  unfolding delete_settled_admissions_def by (rule admissions_delete_benign)

lemma resolve_effect:
  assumes "resolve_quarantined_resource_request now q owner evidence d = Inr (d', r)"
  shows "attempts_benign d d' \<and> db_leases d' = db_leases d \<and> db_capacity d' = db_capacity d \<and>
    db_capacity_seq d' = db_capacity_seq d"
proof -
  let ?d1 = "update_requests
                 (\<lambda>r. rr_request_id r = q \<and> rr_owner_token r = owner \<and> rr_state r = Quarantined)
                 (\<lambda>r. r\<lparr>rr_state := Released, rr_reason := Some ''resolved'',
                        rr_resolved_evidence := Some (take 2000 evidence), rr_updated_at := now\<rparr>) d"
  have d1: "attempts_benign d ?d1" by (rule same_attempts_benign) simp_all
  have "attempts_benign d (update_workflow w (\<lambda>r. r\<lparr>wf_state := s, wf_current_step := i, wf_last_error := e,
      wf_version := wf_version r + 1, wf_updated_at := now\<rparr>) (delete_settled_admissions w ?d1))" for w s i e
    by (rule attempts_benign_trans [OF attempts_benign_trans [OF d1 delete_settled_benign [of ?d1 w]]])
      (simp add: update_workflow_benign)
  with d1 assms show ?thesis
    by (auto simp: resolve_quarantined_resource_request_def Let_def delete_settled_admissions_def
          split: option.splits if_splits prod.splits)
qed

subsection \<open>Leases, creation, claims and recovery\<close>

lemma lease_call_rest:
  "acquire_lease now_us token w owner ttl re d = Inr (d', l) \<Longrightarrow> d' = d\<lparr>db_leases := db_leases d'\<rparr>"
  "renew_lease now_us w ttl t d = Inr (d', l) \<Longrightarrow> d' = d\<lparr>db_leases := db_leases d'\<rparr>"
  "release_lease w t d = Inr (d', u) \<Longrightarrow> d' = d\<lparr>db_leases := db_leases d'\<rparr>"
  "release_lease_if_current w t d = Inr (d', b) \<Longrightarrow> d' = d\<lparr>db_leases := db_leases d'\<rparr>"
  by (auto simp: acquire_lease_def renew_lease_def release_lease_def release_lease_if_current_def delete_lease_def
        Let_def split: option.splits if_splits sum.splits)

lemma lease_call_inv:
  "acquire_lease now_us token w owner ttl re d = Inr (d', l) \<Longrightarrow> lease_effect d d'"
  "renew_lease now_us w ttl t d = Inr (d', l) \<Longrightarrow> lease_effect d d'"
  unfolding lease_effect_def by (blast intro: acquire_lease_inv, blast intro: renew_lease_inv)

lemma lease_release_inv:
  "release_lease w t d = Inr (d', u) \<Longrightarrow> lease_effect d d'"
  "release_lease_if_current w t d = Inr (d', b) \<Longrightarrow> lease_effect d d'"
  by (auto simp: lease_effect_def release_lease_def release_lease_if_current_def delete_lease_inv
        split: if_splits sum.splits option.splits)

lemma lease_call_effect:
  assumes "d' = d\<lparr>db_leases := db_leases d'\<rparr>" "lease_effect d d'"
  shows "call_effect caps gmax d d'"
proof -
  obtain ls where "d' = d\<lparr>db_leases := ls\<rparr>" using assms(1) by blast
  then show ?thesis
    using assms(2) by (simp add: call_effect_def same_requests_def workflow_limits_def same_requests_effect
        same_capacity_effect same_attempts_effect)
qed

lemma grows_effect:
  assumes "grows d d'" and "workflow_limits d' = workflow_limits d \<or>
    (\<exists>w l. workflow_limits d' = workflow_limits d @ [(w, l)] \<and> w \<notin> fst ` set (workflow_limits d))"
  shows "call_effect caps gmax d d'"
proof -
  have adm: "db_admissions d' = db_admissions d" using assms(1) by (simp add: grows_def)
  have "attempt_effect gmax d d'"
    unfolding attempt_effect_def
  proof (intro impI conjI allI)
    assume inv: "attempt_inv d"
    show "attempt_inv d'" using assms inv by (intro grows_attempt_inv [OF assms(1)]) auto
    show "category_load c d' \<le> category_load c d \<or> category_load c d' \<le> gmax c" for c
      by (simp add: category_load_def admitted_weight_def adm)
    show "excess v c d' \<le> excess v c d \<or> excess v c d' \<le> 0" for v c
    proof (cases "v \<in> fst ` set (workflow_limits d)")
      case True
      with assms(2) have "limit_of d' v = limit_of d v"
        by (auto simp: limit_of_def map_add_def map_of_eq_None_iff split: option.splits)
      then show ?thesis by (simp add: excess_def workflow_load_def admitted_weight_def adm)
    next
      case False
      with inv have "\<forall>a \<in> set (db_admissions d). adm_workflow_id a \<noteq> v" by (auto simp: attempt_inv_def)
      then have "workflow_load v c d' = 0"
        by (simp add: workflow_load_def admitted_weight_def adm sql_sum_def filter_empty_conv)
      then show ?thesis by (simp add: excess_def)
    qed
  qed
  with assms(1) show ?thesis
    by (simp add: call_effect_def grows_def call_effect_intros)
qed

lemma claim_call_effect:
  assumes "claim_ready_operation now t oid ow ex gl cat wt l d = Inr (d', x)" "gl \<le> gmax cat"
  shows "attempt_effect gmax d d'"
  unfolding attempt_effect_def
proof (intro impI)
  assume inv: "attempt_inv d"
  from inv assms(1) show "attempt_inv d' \<and>
      (\<forall>c. category_load c d' \<le> category_load c d \<or> category_load c d' \<le> gmax c) \<and>
      (\<forall>v c. excess v c d' \<le> excess v c d \<or> excess v c d' \<le> 0)"
  proof (cases rule: claim_ready_effect)
    case 1
    with inv show ?thesis by simp
  next
    case (2 r)
    from 2(2) obtain w where w: "find_workflow d (op_workflow_id r) = Some w"
      "admitted_weight d (\<lambda>a. adm_workflow_id a = op_workflow_id r \<and> adm_category a = cat) + wt \<le> workflow_limit w"
      "admitted_weight d (\<lambda>a. adm_category a = cat) + wt \<le> gl"
      by (auto simp: claimable_def)
    have "limit_of d' = limit_of d" by (simp add: 2(4) limit_of_def workflow_limits_def fun_eq_iff)
    then show ?thesis
      using 2(5) w assms(2) limit_of_find [OF w(1)]
      by (auto simp: excess_def category_load_def workflow_load_def 2(4) admitted_weight_reserve)
  qed
qed

lemma recovery_effect: "recovery_benign d d' \<Longrightarrow> call_effect caps gmax d d'"
  by (simp add: recovery_benign_def call_effect_def request_benign_effect attempts_benign_effect
        same_capacity_effect lease_effect_def)

lemmas call_ownership = fail_unadmitted_ownership prepare_ownership dispatch_ownership complete_ownership
  request_cancel_ownership transition_ownership advance_running_ownership checkpoint_step_ownership
  checkpoint_operation_ownership update_operation_context_ownership record_route_decision_ownership
  resolve_uncertain_operation_ownership recompute_workflow_aggregate_ownership

lemmas call_attempts = fail_unadmitted_benign prepare_benign dispatch_benign complete_benign request_cancel_benign
  advance_running_benign checkpoint_step_benign checkpoint_operation_benign update_context_benign
  record_route_benign resolve_uncertain_benign recompute_benign

lemma store_call_effect: "store_call caps gmax call d d' \<Longrightarrow> call_effect caps gmax d d'"
proof (induction rule: store_call.induct)
  case (call_create sha flt validate iok now w wd inputs key initial d d' x)
  then show ?case
    using create_effect [OF call_create]
    by (intro grows_effect) (auto simp: workflow_limits_def image_image image_iff, metis)
next
  case (call_materialize sha now w d d' u)
  then have "materialize_workflow sha True now w d = Inr d'"
    by (simp add: materialize_operations_def split: sum.splits)
  then show ?case
    using materialize_workflow_grows materialize_workflow_workflows
    by (intro grows_effect) (auto simp: workflow_limits_def)
next
  case (call_acquire now_us token w owner ttl re d d' l)
  then show ?case by (blast intro: lease_call_effect lease_call_rest lease_call_inv)
next
  case (call_renew now_us w ttl t d d' l)
  then show ?case by (blast intro: lease_call_effect lease_call_rest lease_call_inv)
next
  case (call_release_lease w t d d' u)
  then show ?case by (blast intro: lease_call_effect lease_call_rest lease_release_inv)
next
  case (call_release_current w t d d' b)
  then show ?case by (blast intro: lease_call_effect lease_call_rest lease_release_inv)
next
  case (call_reserve limit policy now q owner claims cat w oid t d d' a)
  then show ?case
    using reserve_effect [OF call_reserve] reserve_admits_one [OF _ call_reserve]
    by (intro work_call_effect) (simp_all add: request_effect_def capacity_benign_effect)
next
  case (call_reserve_capacity records policy alive now a c owner weight limit q qo d d' ans)
  then show ?case
    by (blast intro: work_call_effect reserve_capacity_work same_requests_effect reserve_capacity_requests
        reserve_capacity_effect)
next
  case (call_bind now q owner t d d' r)
  then show ?case
    using request_call_work(1) [of now q owner] bind_benign [of now q owner]
    by (intro work_call_effect request_benign_effect same_capacity_effect) blast+
next
  case (call_release now q owner d d' b)
  then show ?case
    using request_call_work(2) [of now q owner] release_benign [of now q owner]
    by (intro work_call_effect request_benign_effect same_capacity_effect) blast+
next
  case (call_quarantine now q owner reason d d' r)
  then show ?case
    using request_call_work(3) [of now q owner] quarantine_benign [of now q owner]
    by (intro work_call_effect request_benign_effect same_capacity_effect) blast+
next
  case (call_resolve_quarantined now q owner evidence d d' r)
  then show ?case
    unfolding call_effect_def using resolve_effect [OF call_resolve_quarantined] resolve_benign [OF call_resolve_quarantined]
    by (intro conjI attempts_benign_effect request_benign_effect same_capacity_effect same_lease_effect) blast+
next
  case (call_quarantine_capacity now a owner d d' u)
  then show ?case
    by (blast intro: work_call_effect capacity_call_work(3) quarantine_capacity_benign request_benign_effect
        capacity_benign_effect)
next
  case (call_release_capacity now a owner d d' b)
  then show ?case
    by (blast intro: work_call_effect capacity_call_work(1) release_capacity_benign release_capacity_requests
        same_requests_effect capacity_benign_effect)
next
  case (call_release_process now pid created d d' n)
  then show ?case
    by (blast intro: work_call_effect capacity_call_work(2) release_process_benign release_process_requests
        same_requests_effect capacity_benign_effect)
next
  case (call_claim now t oid owner ex gl c wt l d d' x)
  then show ?case
    using claim_call_effect [of now t oid owner ex gl c wt l d d' x gmax] claim_ready_ownership [OF call_claim(1)]
    by (simp add: call_effect_def same_ownership_def call_effect_intros)
next
  case (call_recover now stale d d' n)
  then show ?case using recover_with_benign [of d now stale] by (auto intro: recovery_effect)
next
  case (call_transition now w v st cs le lt d d' x)
  then show ?case by (intro owned_call_effect transition_ownership transition_benign)
qed (rule owned_call_effect; erule call_ownership call_attempts)+

subsection \<open>The store keeps its interfaces\<close>

lemma empty_tables [simp]:
  "request_inv empty_db" "capacity_inv empty_db" "attempt_inv empty_db" "lease_inv empty_db"
  "active_holders empty_db = {}" "active_weight c empty_db = 0" "category_load c empty_db = 0" "excess v c empty_db = 0"
  by (simp_all add: request_inv_def capacity_inv_def attempt_inv_def lease_inv_def active_holders_def active_weight_def
      category_load_def excess_def workflow_load_def admitted_weight_def empty_db_def unique_by_def sql_sum_def)

lemma holders_compatible_sym: "holders_compatible a b \<Longrightarrow> holders_compatible b a"
  by (simp add: holders_compatible_def claim_sets_conflict_sym)

lemma store_step_effect: "store_step caps gmax d d' \<Longrightarrow> call_effect caps gmax d d'"
  by (auto simp: store_step_def dest: store_call_effect)

interpretation resource_holding: exclusive_holders store_start "store_step caps gmax" request_inv active_holders
  holders_compatible for caps gmax
  by unfold_locales (auto simp: store_start_def holders_compatible_sym call_effect_def request_effect_def admits_one_def
      dest!: store_step_effect)

interpretation capacity_use: bounded_load store_start "store_step caps gmax" capacity_inv "active_weight c" "max 0 (caps c)"
  for caps gmax c
  by unfold_locales (auto simp: store_start_def call_effect_def capacity_effect_def le_max_iff_disj dest!: store_step_effect)

interpretation category_use: bounded_load store_start "store_step caps gmax" attempt_inv "category_load c" "max 0 (gmax c)"
  for caps gmax c
  by unfold_locales (auto simp: store_start_def call_effect_def attempt_effect_def le_max_iff_disj dest!: store_step_effect)

interpretation workflow_use: bounded_load store_start "store_step caps gmax" attempt_inv "excess v c" 0
  for caps gmax v c
  by unfold_locales (auto simp: store_start_def call_effect_def attempt_effect_def dest!: store_step_effect, blast)

lemma reach_lease_inv: "reach store_start (store_step caps gmax) d \<Longrightarrow> lease_inv d"
  by (erule reach_invariant) (auto simp: store_start_def call_effect_def lease_effect_def dest!: store_step_effect)

lemma holder_row:
  "r \<in> set (db_requests d) \<Longrightarrow> rr_state r = Active \<Longrightarrow>
   (rr_request_id r, rr_policy r, resource_claims_for_request d (rr_request_id r)) \<in> active_holders d"
  by (auto simp: active_holders_def)

text \<open>C1. Mutual exclusion of resource claims: in every state that any sequence of store calls reaches
  from an empty database, whatever processes make them and in whatever order, two different active
  requests hold claims that do not conflict, and run under the same policy.\<close>

theorem active_requests_exclusive:
  assumes "reach store_start (store_step caps gmax) d" "r \<in> set (db_requests d)" "s \<in> set (db_requests d)"
    "rr_state r = Active" "rr_state s = Active" "rr_request_id r \<noteq> rr_request_id s"
  shows "\<not> claim_sets_conflict (resource_claims_for_request d (rr_request_id r))
      (resource_claims_for_request d (rr_request_id s)) \<and> rr_policy r = rr_policy s"
  using resource_holding.reach_exclusive [OF assms(1)] holder_row [OF assms(2,4)] holder_row [OF assms(3,5)] assms(6)
  by (fastforce simp: resource_holding.exclusive_def holders_compatible_def)


text \<open>C7. Capacity is never exceeded: when no caller asks for more than \<open>caps c\<close> of a category, the
  weight of its active permits never exceeds that, in any reachable state.\<close>

theorem capacity_bounded:
  assumes "reach store_start (store_step caps gmax) d" "0 \<le> caps c"
  shows "active_weight c d \<le> caps c"
  using capacity_use.reach_load [OF assms(1), of c] assms(2) by simp


subsection \<open>Quarantine ends only by resolution\<close>

definition keeps_quarantine :: "db \<Rightarrow> db \<Rightarrow> bool" where
  "keeps_quarantine d d' \<longleftrightarrow> (request_inv d \<longrightarrow> request_inv d' \<and>
     (\<forall>r \<in> set (db_requests d). rr_state r = Quarantined \<longrightarrow>
        (\<exists>r' \<in> set (db_requests d'). rr_request_id r' = rr_request_id r \<and> rr_state r' = Quarantined \<and>
           resource_claims_for_request d' (rr_request_id r) = resource_claims_for_request d (rr_request_id r))))"

lemma keeps_quarantine_trans: "keeps_quarantine a b \<Longrightarrow> keeps_quarantine b c \<Longrightarrow> keeps_quarantine a c"
  unfolding keeps_quarantine_def by metis

lemma same_requests_keep: "same_requests d d' \<Longrightarrow> keeps_quarantine d d'"
  using same_requests_frame [of d d'] same_requests_claims [of d d']
  by (auto simp: keeps_quarantine_def same_requests_def)

lemma update_requests_keep:
  assumes "tame_update P f" "\<And>r. P r \<Longrightarrow> rr_state r = Quarantined \<Longrightarrow> rr_state (f r) = Quarantined"
  shows "keeps_quarantine d (update_requests P f d)"
proof -
  have "\<exists>r' \<in> set (db_requests (update_requests P f d)). rr_request_id r' = rr_request_id r \<and> rr_state r' = Quarantined"
    if "r \<in> set (db_requests d)" "rr_state r = Quarantined" for r
    using that assms by (intro bexI [of _ "if P r then f r else r"])
      (auto simp: tame_update_def update_requests_def sql_update_def)
  moreover have "request_inv d \<Longrightarrow> request_inv (update_requests P f d)"
    using update_requests_benign [OF assms(1)] by (simp add: requests_benign_def)
  ultimately show ?thesis
    by (simp add: keeps_quarantine_def resource_claims_for_request_def)
qed

lemma drop_requests_keep: "keeps_quarantine d (drop_requests now b reason P d)"
  unfolding drop_requests_def by (rule update_requests_keep) (auto simp: tame_update_def)

lemma fold_keep:
  "(\<And>x d. keeps_quarantine d (f x d)) \<Longrightarrow> keeps_quarantine d (fold f xs d)"
  by (induction xs arbitrary: d) (auto intro: keeps_quarantine_trans same_requests_keep)

lemma keep_after [simp]:
  "keeps_quarantine d (insert_event w s e t st m now d') = keeps_quarantine d d'"
  "keeps_quarantine d (update_workflow w f d') = keeps_quarantine d d'"
  "keeps_quarantine d (update_step w i g d') = keeps_quarantine d d'"
  "keeps_quarantine d (update_operation oid h d') = keeps_quarantine d d'"
  "keeps_quarantine d (delete_leases P d') = keeps_quarantine d d'"
  "keeps_quarantine d (delete_own_admission oid d') = keeps_quarantine d d'"
  "keeps_quarantine d (update_capacity Q k d') = keeps_quarantine d d'"
  by (simp_all add: keeps_quarantine_def request_inv_def resource_claims_for_request_def delete_leases_def
      delete_own_admission_def)

lemma keeps_quarantine_refl [simp]: "keeps_quarantine d d"
  by (simp add: same_requests_keep)

lemma recover_operation_keep: "keeps_quarantine d (recover_operation now w x d)"
  unfolding recover_operation_def Let_def
  by (auto intro!: keeps_quarantine_trans [OF _ drop_requests_keep])

lemma recover_dag_keep: "keeps_quarantine d (recover_dag_execution now w d)"
proof -
  have "keeps_quarantine d (drop_requests now False lease_lost P (fold (recover_operation now w) xs d))" for P xs
    by (rule keeps_quarantine_trans [OF fold_keep drop_requests_keep]) (rule recover_operation_keep)
  then show ?thesis by (auto simp: recover_dag_execution_def Let_def split: prod.splits)
qed

lemma settle_sequential_keep: "keeps_quarantine d (settle_sequential now row x d') = keeps_quarantine d d'"
  by (auto simp: settle_sequential_def Let_def split: option.splits)

lemma recover_sequential_keep: "keeps_quarantine d (recover_sequential now row d)"
  unfolding recover_sequential_def Let_def
  by (simp add: settle_sequential_keep)
    (intro keeps_quarantine_trans [OF update_requests_keep update_requests_keep], auto simp: tame_update_def)

lemma drop_native_keep: "keeps_quarantine d (fst (fold (drop_native now) stale (d, n)))"
proof (induction stale arbitrary: d n)
  case (Cons s stale)
  have "keeps_quarantine d (fst (drop_native now s (d, n)))"
    by (simp add: drop_native_def Let_def drop_requests_keep)
  then show ?case
    using Cons.IH [of "fst (drop_native now s (d, n))" "snd (drop_native now s (d, n))"]
    by (auto intro: keeps_quarantine_trans)
qed simp

lemma recover_with_keep: "keeps_quarantine d (fst (recover_with now stale d))"
proof -
  obtain d1 n where d1: "fold (drop_native now) stale (d, 0) = (d1, n)" by fastforce
  have "keeps_quarantine d d1" using drop_native_keep [of d now stale 0] d1 by simp
  moreover have "keeps_quarantine d1 (fold (recover_workflow now) xs d1)" for xs
    by (rule fold_keep) (simp add: recover_workflow_def recover_dag_keep recover_sequential_keep)
  ultimately show ?thesis
    by (auto simp: recover_with_def d1 Let_def intro: keeps_quarantine_trans)
qed

lemma make_request_room_keep: "make_request_room limit d = Inr d' \<Longrightarrow> keeps_quarantine d d'"
  unfolding keeps_quarantine_def
  using make_request_room_benign [of d limit d'] make_request_room_keeps [of d limit d']
  by (fastforce simp: requests_benign_def)

lemma insert_request_keep:
  assumes "insert_request q owner cat w oid t now policy cs d = Inr d'" "q \<notin> rr_request_id ` set (db_requests d)"
  shows "keeps_quarantine d d'"
proof -
  have "set (db_requests d) \<subseteq> set (db_requests d')"
    "\<And>r. r \<noteq> q \<Longrightarrow> resource_claims_for_request d' r = resource_claims_for_request d r"
    using assms(1) by (auto simp: insert_request_def resource_claims_for_request_def Let_def filter_empty_conv split: if_splits)
  with assms insert_request_benign [OF assms(1) _ assms(2)] show ?thesis
    unfolding keeps_quarantine_def requests_benign_def by (metis imageI subsetD)
qed

lemma settle_request_keep:
  assumes "settle_request q owner cat cs now policy d = Inr (d', a)"
  shows "keeps_quarantine d d'"
proof (cases "request_inv d")
  case True
  then show ?thesis
    using assms
  proof (cases rule: settle_request_cases)
    case (waits row reason)
    show ?thesis unfolding waits(4) by (rule update_requests_keep) (auto simp: tame_update_def)
  next
    case (admitted row)
    have "request_inv d'" unfolding admitted(6) using True by (rule activation_inv)
    then show ?thesis
      unfolding keeps_quarantine_def admitted(6)
      by (auto simp: set_sql_update update_requests_def resource_claims_for_request_def)
  qed simp
qed (simp add: keeps_quarantine_def)

lemma reserve_keep:
  assumes "reserve_resource_claims limit policy now q owner claims cat w oid t d = Inr (d', a)"
  shows "keeps_quarantine d d'"
proof (cases "find_request d (py_strip q)")
  case (Some row)
  with assms show ?thesis
    by (auto simp: reserve_resource_claims_def Let_def split: if_splits intro: settle_request_keep)
next
  case None
  with assms obtain d0 d1 where d: "make_request_room limit d = Inr d0"
    "insert_request (py_strip q) (py_strip owner) (py_strip cat) w oid t now policy (canonical_claims claims) d0 = Inr d1"
    "settle_request (py_strip q) (py_strip owner) (py_strip cat) (canonical_claims claims) now policy d1 = Inr (d', a)"
    by (auto simp: reserve_resource_claims_def Let_def split: if_splits sum.splits)
  have "py_strip q \<notin> rr_request_id ` set (db_requests d0)"
    using None make_request_room_ids [OF d(1)] by (auto simp: find_request_def)
  then show ?thesis
    using keeps_quarantine_trans make_request_room_keep [OF d(1)] insert_request_keep [OF d(2)] settle_request_keep [OF d(3)]
    by blast
qed

lemma request_calls_keep:
  "bind_resource_request_attempt now q owner t d = Inr (d', r) \<Longrightarrow> keeps_quarantine d d'"
  "release_resource_request now q owner d = Inr (d', b) \<Longrightarrow> keeps_quarantine d d'"
  "quarantine_resource_request now q owner reason d = Inr (d', r) \<Longrightarrow> keeps_quarantine d d'"
  "quarantine_capacity now a owner d = Inr (d', u) \<Longrightarrow> keeps_quarantine d d'"
  unfolding bind_resource_request_attempt_def release_resource_request_def quarantine_resource_request_def
    quarantine_capacity_def Let_def
  by (auto split: option.splits if_splits intro!: update_requests_keep
      keeps_quarantine_trans [OF iffD2 [OF keep_after(7) keeps_quarantine_refl] update_requests_keep] simp: tame_update_def)

lemma lease_calls_requests:
  "acquire_lease now_us token w owner ttl re d = Inr (d', l) \<Longrightarrow> same_requests d d'"
  "renew_lease now_us w ttl t d = Inr (d', l) \<Longrightarrow> same_requests d d'"
  "release_lease w t d = Inr (d', u) \<Longrightarrow> same_requests d d'"
  "release_lease_if_current w t d = Inr (d', b) \<Longrightarrow> same_requests d d'"
  by (drule lease_call_rest, erule ssubst, simp add: same_requests_def)+

lemma create_requests:
  "create sha flt validate iok now w wd inputs key initial d = Inr (d', x) \<Longrightarrow> same_requests d d'"
  "materialize_operations sha now w d = Inr (d', u) \<Longrightarrow> same_requests d d'"
  using materialize_workflow_grows
  by (auto simp: grows_def materialize_operations_def split: sum.splits dest!: create_effect(1))

lemma ownership_requests: "same_ownership d d' \<Longrightarrow> same_requests d d'"
  by (simp add: same_ownership_def)

lemmas calls_same_requests = create_requests lease_calls_requests reserve_capacity_requests release_capacity_requests
  release_process_requests call_ownership [THEN ownership_requests] claim_ready_ownership [THEN ownership_requests]

lemma store_call_keep:
  assumes "store_call caps gmax call d d'" "call \<noteq> ''resolve_quarantined_resource_request''"
  shows "keeps_quarantine d d'"
  using assms
proof (induction rule: store_call.induct)
  case (call_reserve limit policy now q owner claims cat w oid t d d' a)
  from call_reserve(1) show ?case by (rule reserve_keep)
next
  case (call_bind now q owner t d d' r)
  from call_bind(1) show ?case by (rule request_calls_keep)
next
  case (call_release now q owner d d' b)
  from call_release(1) show ?case by (rule request_calls_keep)
next
  case (call_quarantine now q owner reason d d' r)
  from call_quarantine(1) show ?case by (rule request_calls_keep)
next
  case (call_quarantine_capacity now a owner d d' u)
  from call_quarantine_capacity(1) show ?case by (rule request_calls_keep)
next
  case (call_recover now stale d d' n)
  then show ?case using recover_with_keep [of d now stale] by simp
qed (rule same_requests_keep, erule calls_same_requests | simp)+

text \<open>C5. Quarantine ends only by explicit resolution: no other call of the store, not even recovery after
  a crash or the release of the owner, ends the quarantine of a request or changes its claims.\<close>

theorem quarantine_persists:
  assumes "reach store_start (store_step caps gmax) d" "store_call caps gmax call d d'"
    "call \<noteq> ''resolve_quarantined_resource_request''" "r \<in> set (db_requests d)" "rr_state r = Quarantined"
  shows "\<exists>r' \<in> set (db_requests d'). rr_request_id r' = rr_request_id r \<and> rr_state r' = Quarantined \<and>
    resource_claims_for_request d' (rr_request_id r) = resource_claims_for_request d (rr_request_id r)"
  using store_call_keep [OF assms(2,3)] resource_holding.reach_inv [OF assms(1)] assms(4,5)
  by (auto simp: keeps_quarantine_def)

subsection \<open>An example run\<close>

lemma reach_call: "reach store_start (store_step caps gmax) d \<Longrightarrow> store_call caps gmax call d d' \<Longrightarrow>
  reach store_start (store_step caps gmax) d'"
  by (meson reach.reach_step store_step_def)

lemma reach_empty: "reach store_start (store_step caps gmax) empty_db"
  by (rule reach.reach_start) (simp add: store_start_def)

definition held_db :: "db \<Rightarrow> string \<Rightarrow> resource_claim \<Rightarrow> db" where
  "held_db d q c = db_after (settle_request q ''owner'' ''edit'' [c] 5 ''p1''
     (case insert_request q ''owner'' ''edit'' None None None 5 ''p1'' [c] d of Inr d' \<Rightarrow> d' | Inl _ \<Rightarrow> d))"

lemma held_db_call:
  assumes "find_request d q = None" "py_strip q = q" "q \<noteq> []" "length q \<le> 200" "length (db_requests d) < 10"
    "claims_size [c] \<le> 65536" "\<not> is_error (insert_request q ''owner'' ''edit'' None None None 5 ''p1'' [c] d)"
    "\<not> is_error (settle_request q ''owner'' ''edit'' [c] 5 ''p1''
     (case insert_request q ''owner'' ''edit'' None None None 5 ''p1'' [c] d of Inr d' \<Rightarrow> d' | Inl _ \<Rightarrow> d))"
  shows "store_call caps gmax ''reserve_resource_claims'' d (held_db d q c)"
proof -
  obtain d1 where d1: "insert_request q ''owner'' ''edit'' None None None 5 ''p1'' [c] d = Inr d1"
    using not_error_Inr [OF assms(7)] by blast
  then obtain a where "settle_request q ''owner'' ''edit'' [c] 5 ''p1'' d1 = Inr (held_db d q c, a)"
    using db_after_ok [OF assms(8)] by (auto simp: held_db_def)
  then have "reserve_resource_claims 10 ''p1'' 5 q ''owner'' [c] ''edit'' None None None d = Inr (held_db d q c, a)"
    using assms d1 by (simp add: reserve_resource_claims_def make_request_room_def Let_def)
  then show ?thesis by (rule call_reserve)
qed

definition one_holder :: db where "one_holder = held_db empty_db ''q1'' (example_path ''/srv/app'' Subtree)"

definition two_holders :: db where "two_holders = held_db one_holder ''q2'' (example_path ''/srv/log'' Exact)"

lemma reach_two_holders: "reach store_start (store_step caps gmax) two_holders"
proof -
  have "store_call caps gmax ''reserve_resource_claims'' empty_db one_holder"
    unfolding one_holder_def by (rule held_db_call) (simp_all add: example_size, code_simp+)
  moreover have "store_call caps gmax ''reserve_resource_claims'' one_holder two_holders"
    unfolding two_holders_def by (rule held_db_call) (simp_all add: example_size, code_simp+)
  ultimately show ?thesis using reach_empty reach_call by blast
qed

lemma two_holders_rows:
  "length (db_requests two_holders) = 2" "list_all (\<lambda>r. rr_state r = Active) (db_requests two_holders)"
  "rr_request_id (db_requests two_holders ! 0) = ''q1''" "rr_request_id (db_requests two_holders ! 1) = ''q2''"
  by code_simp+

theorem active_requests_exclusive_witness:
  "rr_state (db_requests two_holders ! 0) = Active \<and> rr_state (db_requests two_holders ! 1) = Active \<and>
   \<not> claim_sets_conflict (resource_claims_for_request two_holders ''q1'') (resource_claims_for_request two_holders ''q2'')"
proof -
  have "db_requests two_holders ! i \<in> set (db_requests two_holders)" "rr_state (db_requests two_holders ! i) = Active" if "i < 2" for i
    using that two_holders_rows(1,2) by (auto simp: list_all_length)
  with active_requests_exclusive [OF reach_two_holders, of "db_requests two_holders ! 0" "db_requests two_holders ! 1"]
  show ?thesis by (simp add: two_holders_rows(3) two_holders_rows(4) [unfolded One_nat_def])
qed


definition fenced_db :: db where
  "fenced_db = db_after (quarantine_resource_request 6 ''q1'' ''owner'' ''lost'' two_holders)"

theorem quarantine_persists_witness:
  "\<exists>d. store_call (\<lambda>_. 1) (\<lambda>_. 1) ''release_resource_request'' fenced_db d \<and>
     (\<exists>r \<in> set (db_requests d). rr_request_id r = ''q1'' \<and> rr_state r = Quarantined)"
proof -
  have "\<not> is_error (quarantine_resource_request 6 ''q1'' ''owner'' ''lost'' two_holders)" by code_simp
  then have "store_call (\<lambda>_. 1) (\<lambda>_. 1) ''quarantine_resource_request'' two_holders fenced_db"
    unfolding fenced_db_def using db_after_ok call_quarantine by blast
  then have reach: "reach store_start (store_step (\<lambda>_. 1) (\<lambda>_. 1)) fenced_db"
    using reach_two_holders reach_call by blast
  have "\<not> is_error (release_resource_request 7 ''q1'' ''owner'' fenced_db)" by code_simp
  then obtain d b where "release_resource_request 7 ''q1'' ''owner'' fenced_db = Inr (d, b)"
    using db_after_ok by blast
  then have call: "store_call (\<lambda>_. 1) (\<lambda>_. 1) ''release_resource_request'' fenced_db d" by (rule call_release)
  have "\<exists>r \<in> set (db_requests fenced_db). rr_request_id r = ''q1'' \<and> rr_state r = Quarantined" by code_simp
  then obtain r where "r \<in> set (db_requests fenced_db)" "rr_request_id r = ''q1''" "rr_state r = Quarantined" by blast
  with quarantine_persists [OF reach call _ this(1,3)] call show ?thesis by auto
qed

definition permitted_db :: db where
  "permitted_db = db_after (reserve_capacity 10 ''p1'' (\<lambda>_. None) 5 ''a1'' ''job'' ''o1'' 1 2 None None empty_db)"

theorem capacity_bounded_witness: "active_weight ''job'' permitted_db = 1 \<and> active_weight ''job'' permitted_db \<le> 2"
proof -
  have "\<not> is_error (reserve_capacity 10 ''p1'' (\<lambda>_. None) 5 ''a1'' ''job'' ''o1'' 1 2 None None empty_db)"
    and weight: "active_weight ''job'' permitted_db = 1"
    by code_simp+
  then have "store_call (\<lambda>_. 2) (\<lambda>_. 1) ''reserve_capacity'' empty_db permitted_db"
    unfolding permitted_db_def using db_after_ok call_reserve_capacity [where caps = "\<lambda>_. 2" and limit = 2]
    by (metis order_refl)
  from capacity_bounded [OF reach_call [OF reach_empty this], of "''job''"] weight show ?thesis by simp
qed


end
