(* ===== verification/Jobs.thy ===== *)
theory Jobs
  imports Workflow_Db
begin

text \<open>
  Durable command jobs: \<open>JobStore\<close> of \<open>core/jobs.py\<close>, the launch accounting \<open>core/job_scheduler.py\<close>
  drives and the statements \<open>scripts/job_worker.py\<close> issues. The state is the table \<open>jobs\<close>. \<open>probe pid created\<close> tells
  whether a process with that identity runs (\<open>psutil\<close>); times are seconds as rationals; fresh
  identifiers (\<open>uuid4\<close>) are arguments. A method that reads first and writes in a later transaction is
  the composition of the two, and \<open>job_call\<close> at the end has them as separate steps, so that calls of
  other processes may come between.
\<close>

datatype job_status = JQueued | JRunning | JOrphaned | JInterrupted | JTimedOut | JCancelled | JFailed | JSucceeded

datatype job_phase = PhasePending | PhaseMayDispatch | PhaseLegacy

record job_row =
  jb_id :: string
  jb_request_key :: string
  jb_fingerprint :: string
  jb_spec :: json
  jb_status :: job_status
  jb_created :: rat
  jb_updated :: rat
  jb_version :: int
  jb_queue_deadline :: "rat option"
  jb_launch_token :: "string option"
  jb_launch_started :: "rat option"
  jb_worker_pid :: "int option"
  jb_worker_created :: "rat option"
  jb_pid :: "int option"
  jb_pid_created :: "rat option"
  jb_exit_code :: "int option"
  jb_cancel_requested :: bool
  jb_error :: "string option"
  jb_dispatch_phase :: job_phase

type_synonym jobs = "job_row list"
type_synonym probe = "int \<Rightarrow> rat \<Rightarrow> bool"

definition queue_timeout_error :: string where
  "queue_timeout_error = ''Queue deadline exceeded before execution started.''"

definition active_status :: "job_status \<Rightarrow> bool" where
  "active_status s \<longleftrightarrow> s \<in> {JRunning, JOrphaned}"

definition same_process :: "probe \<Rightarrow> int option \<Rightarrow> rat option \<Rightarrow> bool" where
  "same_process probe pid created \<longleftrightarrow>
     (case (pid, created) of (Some p, Some c) \<Rightarrow> p \<noteq> 0 \<and> probe p c | _ \<Rightarrow> False)"

definition find_job :: "string \<Rightarrow> jobs \<Rightarrow> job_row option" where
  "find_job job_id db = sql_one (\<lambda>r. jb_id r = job_id) db"

text \<open>Every statement that writes a row sets \<open>updated\<close> and counts the version up.\<close>

definition touch :: "rat \<Rightarrow> (job_row \<Rightarrow> job_row) \<Rightarrow> job_row \<Rightarrow> job_row" where
  "touch now f r = (f r)\<lparr>jb_updated := now, jb_version := jb_version r + 1\<rparr>"

subsection \<open>Reconciling with the running processes\<close>

definition job_change :: "probe \<Rightarrow> rat \<Rightarrow> job_row \<Rightarrow> (job_status \<times> string option) option" where
  "job_change probe now row =
     (if jb_status row = JRunning \<and> \<not> same_process probe (jb_worker_pid row) (jb_worker_created row)
      then Some (if same_process probe (jb_pid row) (jb_pid_created row) then JOrphaned else JInterrupted, None)
      else if jb_status row = JOrphaned \<and> \<not> same_process probe (jb_pid row) (jb_pid_created row)
      then Some (JInterrupted, None)
      else if jb_status row = JQueued \<and> (case jb_queue_deadline row of None \<Rightarrow> False | Some t \<Rightarrow> t \<le> now)
      then Some (JTimedOut, Some queue_timeout_error)
      else None)"

definition apply_change :: "probe \<Rightarrow> rat \<Rightarrow> job_row \<Rightarrow> jobs \<Rightarrow> jobs" where
  "apply_change probe now row db =
     (case job_change probe now row of
        None \<Rightarrow> db
      | Some (status, error) \<Rightarrow>
          sql_update (\<lambda>r. jb_id r = jb_id row \<and> jb_status r = jb_status row)
            (touch now (\<lambda>r. r\<lparr>jb_status := status, jb_error := error\<rparr>)) db)"

definition reconcile :: "probe \<Rightarrow> rat \<Rightarrow> job_row list \<Rightarrow> jobs \<Rightarrow> jobs" where
  "reconcile probe now rows db = fold (apply_change probe now) rows db"

definition reconcile_active_rows :: "probe \<Rightarrow> rat \<Rightarrow> jobs \<Rightarrow> jobs" where
  "reconcile_active_rows probe now db = reconcile probe now (filter (\<lambda>r. active_status (jb_status r)) db) db"

definition get_job :: "probe \<Rightarrow> rat \<Rightarrow> string \<Rightarrow> jobs \<Rightarrow> (jobs \<times> job_row) res" where
  "get_job probe now job_id db =
     (case find_job job_id db of
        None \<Rightarrow> Inl (ToolError ''job_not_found'')
      | Some row \<Rightarrow>
        let db' = reconcile probe now [row] db
        in Inr (db', case find_job job_id db' of None \<Rightarrow> row | Some r \<Rightarrow> r))"

definition get_by_request_key :: "probe \<Rightarrow> rat \<Rightarrow> string \<Rightarrow> jobs \<Rightarrow> (jobs \<times> job_row) res" where
  "get_by_request_key probe now request_key db =
     (case sql_one (\<lambda>r. jb_request_key r = request_key) db of
        None \<Rightarrow> Inl (ToolError ''job_request_key_not_found'')
      | Some row \<Rightarrow>
        let db' = reconcile probe now [row] db
        in Inr (db', case find_job (jb_id row) db' of None \<Rightarrow> row | Some r \<Rightarrow> r))"

subsection \<open>Submitting\<close>

text \<open>\<open>dir_ok\<close> is \<open>cwd.is_dir()\<close>, \<open>codec_ok\<close> the result of \<open>codecs.lookup\<close>, \<open>dumps\<close> is \<open>json.dumps\<close> with its default
  separators, \<open>flt\<close> the text of a float.\<close>

definition spec_data :: "(rat \<Rightarrow> string) \<Rightarrow> string list \<Rightarrow> string \<Rightarrow> rat \<Rightarrow> string \<Rightarrow> rat option \<Rightarrow> (string \<times> json) list" where
  "spec_data flt command cwd timeout encoding queue_timeout =
     [(''command'', JList (map JStr command)), (''cwd'', JStr cwd), (''timeout_sec'', JFloat (flt timeout)),
      (''encoding'', JStr encoding)] @
     (case queue_timeout of None \<Rightarrow> [] | Some t \<Rightarrow> [(''queue_timeout_sec'', JFloat (flt t))])"

definition fingerprint :: "(string \<Rightarrow> string) \<Rightarrow> (json \<Rightarrow> string) \<Rightarrow> (string \<times> json) list \<Rightarrow> string" where
  "fingerprint sha dumps spec = sha (dumps (canonical_json (JObj spec)))"

definition new_job :: "string \<Rightarrow> string \<Rightarrow> string \<Rightarrow> json \<Rightarrow> rat \<Rightarrow> rat option \<Rightarrow> job_row" where
  "new_job job_id request_key fp spec now deadline =
     \<lparr>jb_id = job_id, jb_request_key = request_key, jb_fingerprint = fp, jb_spec = spec, jb_status = JQueued,
      jb_created = now, jb_updated = now, jb_version = 1, jb_queue_deadline = deadline, jb_launch_token = None,
      jb_launch_started = None, jb_worker_pid = None, jb_worker_created = None, jb_pid = None, jb_pid_created = None,
      jb_exit_code = None, jb_cancel_requested = False, jb_error = None, jb_dispatch_phase = PhasePending\<rparr>"

definition insert_or_ignore :: "job_row \<Rightarrow> jobs \<Rightarrow> jobs \<times> bool" where
  "insert_or_ignore row db =
     (if sql_exists (\<lambda>r. jb_id r = jb_id row \<or> jb_request_key r = jb_request_key row) db then (db, False)
      else (db @ [row], True))"

text \<open>The checks of the arguments, in the order of the code.\<close>

definition submit_check :: "bool \<Rightarrow> bool \<Rightarrow> nat \<Rightarrow> string list \<Rightarrow> rat \<Rightarrow> rat option \<Rightarrow> string option \<Rightarrow> py_error option" where
  "submit_check dir_ok codec_ok capability_limit command timeout queue_timeout capability =
     (if command = [] \<or> hd command = [] \<or> \<not> dir_ok then Some ValueError
      else if timeout \<le> 0 then Some ValueError
      else if (case queue_timeout of None \<Rightarrow> False | Some t \<Rightarrow> t \<le> 0) then Some ValueError
      else if (case capability of None \<Rightarrow> False | Some c \<Rightarrow> c = [] \<or> capability_limit < length c) then Some ValueError
      else if \<not> codec_ok then Some LookupError
      else None)"

text \<open>The second attempt of \<open>submit\<close> answers a deletion by another process between its two transactions;
  run in sequence the row is always found, so it does not occur here.\<close>

definition submit ::
  "(string \<Rightarrow> string) \<Rightarrow> (json \<Rightarrow> string) \<Rightarrow> (rat \<Rightarrow> string) \<Rightarrow> probe \<Rightarrow> rat \<Rightarrow> string \<Rightarrow> bool \<Rightarrow> bool \<Rightarrow> nat \<Rightarrow>
   string list \<Rightarrow> string \<Rightarrow> rat \<Rightarrow> string \<Rightarrow> string \<Rightarrow> rat option \<Rightarrow> string option \<Rightarrow> json option \<Rightarrow> jobs \<Rightarrow>
   (jobs \<times> bool \<times> job_row) res" where
  "submit sha dumps flt probe now job_id dir_ok codec_ok capability_limit command cwd timeout request_key encoding
     queue_timeout capability trace db =
     (case submit_check dir_ok codec_ok capability_limit command timeout queue_timeout capability of
        Some e \<Rightarrow> Inl e
      | None \<Rightarrow>
        let base = spec_data flt command cwd timeout encoding queue_timeout;
            fp = fingerprint sha dumps base;
            spec = canonical_json (JObj (base @
              (case capability of None \<Rightarrow> [] | Some c \<Rightarrow> [(''_resource_capability'', JStr c)]) @
              (case trace of None \<Rightarrow> [] | Some t \<Rightarrow> if truthy (Some t) then [(''_trace'', t)] else [])));
            (db1, inserted) = insert_or_ignore
              (new_job job_id request_key fp spec now (map_option (\<lambda>t. now + t) queue_timeout)) db
        in if inserted then (case get_job probe now job_id db1 of Inl e \<Rightarrow> Inl e | Inr (db2, row) \<Rightarrow> Inr (db2, False, row))
           else case sql_one (\<lambda>r. jb_request_key r = request_key) db1 of
             None \<Rightarrow> Inl TypeError
           | Some existing \<Rightarrow>
               if jb_fingerprint existing \<noteq> fp then Inl (ToolError ''idempotency_conflict'')
               else (case get_job probe now (jb_id existing) db1 of
                       Inl e \<Rightarrow> Inl e | Inr (db2, row) \<Rightarrow> Inr (db2, True, row)))"

subsection \<open>Updating\<close>

text \<open>The columns \<open>update\<close> may assign; any other keyword is refused.\<close>

datatype job_assignment =
    SetStatus job_status
  | SetWorkerPid "int option"
  | SetWorkerCreated "rat option"
  | SetPid "int option"
  | SetPidCreated "rat option"
  | SetExitCode "int option"
  | SetCancelRequested bool
  | SetError "string option"
  | SetOther string

fun mutable_column :: "job_assignment \<Rightarrow> bool" where
  "mutable_column (SetOther _) = False"
| "mutable_column _ = True"

fun assign :: "job_assignment \<Rightarrow> job_row \<Rightarrow> job_row" where
  "assign (SetStatus s) r = r\<lparr>jb_status := s\<rparr>"
| "assign (SetWorkerPid p) r = r\<lparr>jb_worker_pid := p\<rparr>"
| "assign (SetWorkerCreated c) r = r\<lparr>jb_worker_created := c\<rparr>"
| "assign (SetPid p) r = r\<lparr>jb_pid := p\<rparr>"
| "assign (SetPidCreated c) r = r\<lparr>jb_pid_created := c\<rparr>"
| "assign (SetExitCode c) r = r\<lparr>jb_exit_code := c\<rparr>"
| "assign (SetCancelRequested b) r = r\<lparr>jb_cancel_requested := b\<rparr>"
| "assign (SetError e) r = r\<lparr>jb_error := e\<rparr>"
| "assign (SetOther _) r = r"

definition update_job :: "rat \<Rightarrow> string \<Rightarrow> job_assignment list \<Rightarrow> jobs \<Rightarrow> (jobs \<times> unit) res" where
  "update_job now job_id values db =
     (if values = [] \<or> \<not> list_all mutable_column values then Inl ValueError
      else Inr (sql_update (\<lambda>r. jb_id r = job_id) (touch now (fold assign values)) db, ()))"

subsection \<open>Launching workers\<close>

definition drop_launch :: "job_row \<Rightarrow> job_row" where
  "drop_launch r = r\<lparr>jb_launch_token := None, jb_launch_started := None\<rparr>"

definition stale_launch :: "probe \<Rightarrow> rat \<Rightarrow> job_row \<Rightarrow> bool" where
  "stale_launch probe now row \<longleftrightarrow> jb_status row = JQueued \<and> jb_launch_token row \<noteq> None \<and>
     \<not> same_process probe (jb_worker_pid row) (jb_worker_created row) \<and>
     (case jb_launch_started row of None \<Rightarrow> True | Some t \<Rightarrow> 10 \<le> now - t)"

definition release_launch :: "rat \<Rightarrow> job_row \<Rightarrow> jobs \<Rightarrow> jobs" where
  "release_launch now row db =
     sql_update (\<lambda>r. jb_id r = jb_id row \<and> jb_status r = JQueued \<and> jb_launch_token row \<noteq> None \<and>
         jb_launch_token r = jb_launch_token row)
       (touch now (\<lambda>r. (drop_launch r)\<lparr>jb_worker_pid := None, jb_worker_created := None\<rparr>)) db"

definition recover_stale_launch_reservations :: "probe \<Rightarrow> rat \<Rightarrow> jobs \<Rightarrow> jobs" where
  "recover_stale_launch_reservations probe now db = fold (release_launch now) (filter (stale_launch probe now) db) db"

definition deadline_passed :: "rat \<Rightarrow> job_row \<Rightarrow> bool" where
  "deadline_passed now r \<longleftrightarrow> (case jb_queue_deadline r of None \<Rightarrow> False | Some t \<Rightarrow> t \<le> now)"

definition time_out_row :: "job_row \<Rightarrow> job_row" where
  "time_out_row r = (drop_launch r)\<lparr>jb_status := JTimedOut, jb_error := Some queue_timeout_error\<rparr>"

definition expire_queued :: "rat \<Rightarrow> jobs \<Rightarrow> jobs" where
  "expire_queued now db =
     sql_update (\<lambda>r. jb_status r = JQueued \<and> deadline_passed now r) (touch now time_out_row)
       (sql_update (\<lambda>r. jb_status r = JQueued \<and> jb_cancel_requested r)
          (touch now (\<lambda>r. (drop_launch r)\<lparr>jb_status := JCancelled\<rparr>)) db)"

definition active_count :: "jobs \<Rightarrow> nat" where
  "active_count db = sql_count (\<lambda>r. active_status (jb_status r)) db"

definition reserved_count :: "jobs \<Rightarrow> nat" where
  "reserved_count db = sql_count (\<lambda>r. jb_status r = JQueued \<and> jb_launch_token r \<noteq> None) db"

definition launchable :: "rat \<Rightarrow> job_row \<Rightarrow> bool" where
  "launchable now r \<longleftrightarrow> jb_status r = JQueued \<and> jb_launch_token r = None \<and> \<not> jb_cancel_requested r \<and>
     \<not> deadline_passed now r"

fun reserve_launches :: "rat \<Rightarrow> (string \<times> string) list \<Rightarrow> jobs \<Rightarrow> jobs \<times> (string \<times> string) list" where
  "reserve_launches now [] db = (db, [])"
| "reserve_launches now ((job_id, token) # rest) db =
     (let P = (\<lambda>r. jb_id r = job_id \<and> launchable now r);
          db1 = sql_update P (touch now (\<lambda>r. r\<lparr>jb_launch_token := Some token, jb_launch_started := Some now\<rparr>)) db;
          (db2, done) = reserve_launches now rest db1
      in (db2, if sql_exists P db then (job_id, token) # done else done))"

definition reserve_transaction ::
  "rat \<Rightarrow> string list \<Rightarrow> int \<Rightarrow> jobs \<Rightarrow> jobs \<times> (string \<times> string) list \<times> nat" where
  "reserve_transaction now tokens max_running db =
     (let db1 = expire_queued now db;
          available = nat (max (max_running - int (active_count db1) - int (reserved_count db1)) 0);
          ids = map jb_id (take available (sort_key (\<lambda>r. (jb_created r, jb_id r)) (filter (launchable now) db1)));
          (db2, reservations) = reserve_launches now (zip ids tokens) db1
      in (db2, reservations, sql_count (\<lambda>r. jb_status r = JQueued) db2))"

definition reserve_worker_launches ::
  "probe \<Rightarrow> rat \<Rightarrow> string list \<Rightarrow> int \<Rightarrow> jobs \<Rightarrow> (jobs \<times> (string \<times> string) list \<times> nat) res" where
  "reserve_worker_launches probe now tokens max_running db =
     (if max_running < 1 then Inl ValueError
      else Inr (reserve_transaction now tokens max_running
             (reconcile_active_rows probe now (recover_stale_launch_reservations probe now db))))"

definition record_worker_launch :: "rat \<Rightarrow> string \<Rightarrow> string \<Rightarrow> int \<Rightarrow> rat option \<Rightarrow> jobs \<Rightarrow> jobs" where
  "record_worker_launch now job_id token worker_pid worker_created db =
     sql_update (\<lambda>r. jb_id r = job_id \<and> jb_status r = JQueued \<and> jb_launch_token r = Some token)
       (touch now (\<lambda>r. r\<lparr>jb_worker_pid := Some worker_pid, jb_worker_created := worker_created\<rparr>)) db"

definition fail_worker_launch :: "rat \<Rightarrow> string \<Rightarrow> string \<Rightarrow> string \<Rightarrow> jobs \<Rightarrow> jobs" where
  "fail_worker_launch now job_id token error db =
     sql_update (\<lambda>r. jb_id r = job_id \<and> jb_status r = JQueued \<and> jb_launch_token r = Some token)
       (touch now (\<lambda>r. (drop_launch r)\<lparr>jb_status := JFailed, jb_error := Some error\<rparr>)) db"

definition has_queued_jobs :: "jobs \<Rightarrow> bool" where
  "has_queued_jobs db = sql_exists (\<lambda>r. jb_status r = JQueued) db"

subsection \<open>Claiming and dispatching\<close>

datatype claim_result = Claimed | Wait | Terminated

text \<open>\<open>time.time()\<close> is read twice: \<open>now\<close> at the start and \<open>claim_time\<close> right before the claim.\<close>

definition claim_transaction ::
  "rat \<Rightarrow> rat \<Rightarrow> string \<Rightarrow> int \<Rightarrow> rat \<Rightarrow> int \<Rightarrow> string option \<Rightarrow> jobs \<Rightarrow> (jobs \<times> claim_result) res" where
  "claim_transaction now claim_time job_id worker_pid worker_created max_running token db =
     (case find_job job_id db of
        None \<Rightarrow> Inl (ToolError ''job_not_found'')
      | Some row \<Rightarrow>
        if jb_status row \<noteq> JQueued \<or> jb_launch_token row \<noteq> token then Inr (db, Terminated)
        else if jb_cancel_requested row
        then Inr (sql_update (\<lambda>r. jb_id r = job_id \<and> jb_status r = JQueued)
               (touch now (\<lambda>r. (drop_launch r)\<lparr>jb_status := JCancelled\<rparr>)) db, Terminated)
        else if deadline_passed now row
        then Inr (sql_update (\<lambda>r. jb_id r = job_id \<and> jb_status r = JQueued) (touch now time_out_row) db, Terminated)
        else if max_running \<le> int (active_count db) then Inr (db, Wait)
        else
          let P = (\<lambda>r. jb_id r = job_id \<and> jb_status r = JQueued \<and> jb_launch_token r = token \<and>
                       \<not> jb_cancel_requested r \<and> \<not> deadline_passed claim_time r);
              Q = (\<lambda>r. jb_id r = job_id \<and> jb_status r = JQueued \<and> jb_launch_token r = token \<and> deadline_passed claim_time r)
          in if sql_exists P db
             then Inr (sql_update P (touch claim_time (\<lambda>r. (drop_launch r)\<lparr>jb_status := JRunning,
                    jb_dispatch_phase := PhasePending, jb_worker_pid := Some worker_pid,
                    jb_worker_created := Some worker_created\<rparr>)) db, Claimed)
             else Inr (sql_update Q (touch claim_time time_out_row) db, if sql_exists Q db then Terminated else Wait))"

definition claim_for_execution ::
  "probe \<Rightarrow> rat \<Rightarrow> rat \<Rightarrow> string \<Rightarrow> int \<Rightarrow> rat \<Rightarrow> int \<Rightarrow> string option \<Rightarrow> jobs \<Rightarrow> (jobs \<times> claim_result) res" where
  "claim_for_execution probe now claim_time job_id worker_pid worker_created max_running token db =
     (if max_running < 1 then Inl ValueError
      else claim_transaction now claim_time job_id worker_pid worker_created max_running token
             (reconcile_active_rows probe now db))"

definition own_pending :: "string \<Rightarrow> int \<Rightarrow> rat \<Rightarrow> job_row \<Rightarrow> bool" where
  "own_pending job_id worker_pid worker_created r \<longleftrightarrow> jb_id r = job_id \<and> jb_status r = JRunning \<and>
     jb_dispatch_phase r = PhasePending \<and> jb_worker_pid r = Some worker_pid \<and> jb_worker_created r = Some worker_created"

definition mark_may_dispatch :: "rat \<Rightarrow> string \<Rightarrow> int \<Rightarrow> rat \<Rightarrow> jobs \<Rightarrow> jobs \<times> bool" where
  "mark_may_dispatch now job_id worker_pid worker_created db =
     (let P = (\<lambda>r. own_pending job_id worker_pid worker_created r \<and> \<not> jb_cancel_requested r);
          admitted = (sql_count P db = 1);
          db1 = sql_update P (touch now (\<lambda>r. r\<lparr>jb_dispatch_phase := PhaseMayDispatch\<rparr>)) db
      in (if admitted then db1
          else sql_update (\<lambda>r. own_pending job_id worker_pid worker_created r \<and> jb_cancel_requested r)
                 (touch now (\<lambda>r. r\<lparr>jb_status := JCancelled\<rparr>)) db1, admitted))"

subsection \<open>Cancelling\<close>

definition cancel_request :: "rat \<Rightarrow> string \<Rightarrow> jobs \<Rightarrow> (jobs \<times> (int option \<times> rat option) option) res" where
  "cancel_request now job_id db =
     (case find_job job_id db of
        None \<Rightarrow> Inl (ToolError ''job_not_found'')
      | Some row \<Rightarrow>
        let status = jb_status row; P = (\<lambda>r. jb_id r = job_id \<and> jb_status r = status) in
        if status = JQueued
        then Inr (sql_update P (touch now (\<lambda>r. r\<lparr>jb_status := JCancelled, jb_cancel_requested := True\<rparr>)) db, None)
        else if status = JRunning
        then Inr (sql_update P (touch now (\<lambda>r. r\<lparr>jb_cancel_requested := True\<rparr>)) db, None)
        else if status = JOrphaned
        then Inr (sql_update P (touch now (\<lambda>r. r\<lparr>jb_cancel_requested := True\<rparr>)) db, Some (jb_pid row, jb_pid_created row))
        else Inr (db, None))"

definition cancel_settle :: "rat \<Rightarrow> string \<Rightarrow> jobs \<Rightarrow> jobs" where
  "cancel_settle now job_id db =
     sql_update (\<lambda>r. jb_id r = job_id \<and> jb_cancel_requested r \<and> jb_status r \<in> {JOrphaned, JInterrupted})
       (touch now (\<lambda>r. r\<lparr>jb_status := JCancelled\<rparr>)) db"

text \<open>Between the two transactions the process tree of an orphan is terminated.\<close>

definition cancel :: "probe \<Rightarrow> rat \<Rightarrow> string \<Rightarrow> jobs \<Rightarrow> (jobs \<times> job_row) res" where
  "cancel probe now job_id db =
     (case cancel_request now job_id db of
        Inl e \<Rightarrow> Inl e
      | Inr (db1, orphan) \<Rightarrow>
          get_job probe now job_id (if orphan = None then db1 else cancel_settle now job_id db1))"

subsection \<open>Listing\<close>

definition list_jobs :: "probe \<Rightarrow> rat \<Rightarrow> nat \<Rightarrow> nat \<Rightarrow> jobs \<Rightarrow> jobs \<times> job_row list \<times> nat \<times> bool" where
  "list_jobs probe now offset limit db =
     (let total = length db;
          rows = take limit (drop offset (rev (sort_key (\<lambda>r. (jb_created r, jb_id r)) db)));
          db' = reconcile probe now rows db
      in (db', map (\<lambda>r. case find_job (jb_id r) db' of None \<Rightarrow> r | Some x \<Rightarrow> x) rows, total,
          offset + length rows < total))"

subsection \<open>The table as a transition system\<close>

text \<open>What the worker assigns: never the cancellation flag, and only a final status.\<close>

fun worker_value :: "job_assignment \<Rightarrow> bool" where
  "worker_value (SetStatus s) \<longleftrightarrow> s \<in> {JCancelled, JSucceeded, JTimedOut, JFailed}"
| "worker_value (SetCancelRequested _) \<longleftrightarrow> False"
| "worker_value _ \<longleftrightarrow> True"

text \<open>One committed transaction of any process. The rows a reconciliation or a launch recovery acts on
  were read earlier, so they are arbitrary here; \<open>limit\<close> bounds the \<open>max_running\<close> of the callers.\<close>

inductive job_call :: "int \<Rightarrow> jobs \<Rightarrow> jobs \<Rightarrow> bool" for limit where
  jobs_insert: "insert_or_ignore (new_job job_id key fp spec now deadline) db = (db', b) \<Longrightarrow> job_call limit db db'"
| jobs_reconcile: "job_call limit db (reconcile probe now rows db)"
| jobs_recover: "job_call limit db (fold (release_launch now) rows db)"
| jobs_reserve: "reserve_transaction now tokens max_running db = (db', reservations, n) \<Longrightarrow> job_call limit db db'"
| jobs_record: "job_call limit db (record_worker_launch now job_id token pid created db)"
| jobs_fail: "job_call limit db (fail_worker_launch now job_id token error db)"
| jobs_claim: "claim_transaction now claim_time job_id pid created max_running tok db = Inr (db', c) \<Longrightarrow>
    max_running \<le> limit \<Longrightarrow> job_call limit db db'"
| jobs_dispatch: "mark_may_dispatch now job_id pid created' db = (db', b) \<Longrightarrow> job_call limit db db'"
| jobs_cancel: "cancel_request now job_id db = Inr (db', orphan) \<Longrightarrow> job_call limit db db'"
| jobs_cancel_settle: "job_call limit db (cancel_settle now job_id db)"
| jobs_update: "update_job now job_id values db = Inr (db', u) \<Longrightarrow> list_all worker_value values \<Longrightarrow> job_call limit db db'"

definition jobs_inv :: "jobs \<Rightarrow> bool" where
  "jobs_inv db \<longleftrightarrow> unique_by jb_id db \<and> unique_by jb_request_key db"

definition job_identity :: "job_row \<Rightarrow> string \<times> string \<times> string \<times> json \<times> rat \<times> rat option" where
  "job_identity r = (jb_id r, jb_request_key r, jb_fingerprint r, jb_spec r, jb_created r, jb_queue_deadline r)"

definition row_advances :: "job_row \<Rightarrow> job_row \<Rightarrow> bool" where
  "row_advances r r' \<longleftrightarrow> r' = r \<or> job_identity r' = job_identity r \<and> jb_version r < jb_version r'"

definition advances :: "jobs \<Rightarrow> jobs \<Rightarrow> bool" where
  "advances db db' \<longleftrightarrow> length db \<le> length db' \<and> (\<forall>i < length db. row_advances (db ! i) (db' ! i))"

lemma row_advances_trans: "row_advances a b \<Longrightarrow> row_advances b c \<Longrightarrow> row_advances a c"
  by (auto simp: row_advances_def)

lemma advances_trans: "advances a b \<Longrightarrow> advances b c \<Longrightarrow> advances a c"
  unfolding advances_def by (meson le_trans less_le_trans row_advances_trans)

lemma advances_refl [simp]: "advances db db"
  by (simp add: advances_def row_advances_def)

definition keeps_identity :: "(job_row \<Rightarrow> job_row) \<Rightarrow> bool" where
  "keeps_identity f \<longleftrightarrow> (\<forall>r. job_identity (f r) = job_identity r)"

text \<open>A statement is tame when it keeps what identifies a row and makes no row active.\<close>

definition tame :: "(job_row \<Rightarrow> bool) \<Rightarrow> (job_row \<Rightarrow> job_row) \<Rightarrow> bool" where
  "tame P f \<longleftrightarrow> keeps_identity f \<and> (\<forall>r. P r \<longrightarrow> active_status (jb_status (f r)) \<longrightarrow> active_status (jb_status r))"

lemma touch_simps [simp]:
  "job_identity (touch now f r) = job_identity (f r)" "jb_status (touch now f r) = jb_status (f r)"
  "jb_version (touch now f r) = jb_version r + 1" "jb_cancel_requested (touch now f r) = jb_cancel_requested (f r)"
  "jb_dispatch_phase (touch now f r) = jb_dispatch_phase (f r)" "jb_id (touch now f r) = jb_id (f r)"
  "jb_launch_token (touch now f r) = jb_launch_token (f r)" "jb_worker_pid (touch now f r) = jb_worker_pid (f r)"
  "jb_worker_created (touch now f r) = jb_worker_created (f r)"
  by (simp_all add: touch_def job_identity_def)

lemma update_advances:
  "keeps_identity f \<Longrightarrow> advances db (sql_update P (touch now f) db)"
  by (simp add: advances_def sql_update_def row_advances_def keeps_identity_def)

lemma map_identity_update:
  "keeps_identity f \<Longrightarrow> map job_identity (sql_update P (touch now f) db) = map job_identity db"
  by (simp add: sql_update_def keeps_identity_def)

lemma jobs_inv_identity: "map job_identity db' = map job_identity db \<Longrightarrow> jobs_inv db' = jobs_inv db"
proof -
  have "map (g \<circ> job_identity) xs = map g (map job_identity xs)" for g :: "_ \<Rightarrow> string" and xs by simp
  moreover have "jb_id = fst \<circ> job_identity" "jb_request_key = (fst \<circ> snd) \<circ> job_identity"
    by (auto simp: job_identity_def fun_eq_iff)
  ultimately show "map job_identity db' = map job_identity db \<Longrightarrow> jobs_inv db' = jobs_inv db"
    unfolding jobs_inv_def unique_by_def by (metis (no_types))
qed

text \<open>A call is benign when it keeps the rows and makes none active.\<close>

definition jobs_benign :: "jobs \<Rightarrow> jobs \<Rightarrow> bool" where
  "jobs_benign db db' \<longleftrightarrow> map job_identity db' = map job_identity db \<and> advances db db' \<and> active_count db' \<le> active_count db"

lemma jobs_benign_refl [simp]: "jobs_benign db db"
  by (simp add: jobs_benign_def)

lemma jobs_benign_trans: "jobs_benign a b \<Longrightarrow> jobs_benign b c \<Longrightarrow> jobs_benign a c"
  unfolding jobs_benign_def by (auto intro: advances_trans)

lemma active_update:
  "\<forall>r \<in> set db. P r \<longrightarrow> active_status (jb_status (f r)) \<longrightarrow> active_status (jb_status r) \<Longrightarrow>
   active_count (sql_update P f db) \<le> active_count db"
  by (induction db) (auto simp: active_count_def sql_count_def sql_update_def)

lemma tame_benign: "tame P f \<Longrightarrow> jobs_benign db (sql_update P (touch now f) db)"
  unfolding jobs_benign_def tame_def by (simp add: update_advances map_identity_update active_update)

lemma benign_fold: "(\<And>x db. jobs_benign db (f x db)) \<Longrightarrow> jobs_benign db (fold f xs db)"
  by (induction xs arbitrary: db) (auto intro: jobs_benign_trans)

subsection \<open>Every call keeps the rows and counts the version\<close>

named_theorems job_defs "definitions of the statements on the jobs table"

lemmas [job_defs] = tame_def keeps_identity_def job_identity_def active_status_def drop_launch_def time_out_row_def
  own_pending_def

lemma apply_change_benign: "jobs_benign db (apply_change probe now row db)"
proof -
  have "tame (\<lambda>r. jb_id r = jb_id row \<and> jb_status r = jb_status row) (\<lambda>r. r\<lparr>jb_status := s, jb_error := e\<rparr>)"
    if "job_change probe now row = Some (s, e)" for s e
    using that by (auto simp: job_change_def job_defs split: if_splits)
  then show ?thesis by (auto simp: apply_change_def tame_benign split: option.splits)
qed

lemma reconcile_benign: "jobs_benign db (reconcile probe now rows db)"
  unfolding reconcile_def by (rule benign_fold) (rule apply_change_benign)

lemma release_launch_benign: "jobs_benign db (fold (release_launch now) rows db)"
  by (rule benign_fold) (auto simp: release_launch_def job_defs intro!: tame_benign)

lemma expire_benign: "jobs_benign db (expire_queued now db)"
  unfolding expire_queued_def by (rule jobs_benign_trans [OF tame_benign tame_benign]) (auto simp: job_defs)

lemma reserve_launches_benign: "jobs_benign db (fst (reserve_launches now ids db))"
proof (induction now ids db rule: reserve_launches.induct)
  case (2 now job_id token rest db)
  let ?P = "\<lambda>r. jb_id r = job_id \<and> launchable now r"
  let ?d = "sql_update ?P (touch now (\<lambda>r. r\<lparr>jb_launch_token := Some token, jb_launch_started := Some now\<rparr>)) db"
  have "jobs_benign db ?d" by (rule tame_benign) (auto simp: job_defs launchable_def)
  moreover have "jobs_benign ?d (fst (reserve_launches now rest ?d))" by (rule 2) simp_all
  ultimately show ?case by (auto simp: Let_def split: prod.splits intro: jobs_benign_trans)
qed simp

lemma reserve_benign: "jobs_benign db (fst (reserve_transaction now tokens m db))"
  using jobs_benign_trans [OF expire_benign reserve_launches_benign] by (simp add: reserve_transaction_def Let_def split_beta)

lemma launch_benign:
  "jobs_benign db (record_worker_launch now job_id token pid created db)"
  "jobs_benign db (fail_worker_launch now job_id token error db)"
  "jobs_benign db (cancel_settle now job_id db)"
  unfolding record_worker_launch_def fail_worker_launch_def cancel_settle_def
  by (auto intro!: tame_benign simp: job_defs)

lemma dispatch_mark_benign: "jobs_benign db (fst (mark_may_dispatch now job_id pid created db))"
proof -
  have a: "jobs_benign db (sql_update (\<lambda>r. own_pending job_id pid created r \<and> \<not> jb_cancel_requested r)
      (touch now (\<lambda>r. r\<lparr>jb_dispatch_phase := PhaseMayDispatch\<rparr>)) db)" for db
    by (rule tame_benign) (auto simp: job_defs)
  have b: "jobs_benign db (sql_update (\<lambda>r. own_pending job_id pid created r \<and> jb_cancel_requested r)
      (touch now (\<lambda>r. r\<lparr>jb_status := JCancelled\<rparr>)) db)" for db
    by (rule tame_benign) (auto simp: job_defs)
  show ?thesis using a jobs_benign_trans [OF a b] by (simp add: mark_may_dispatch_def Let_def)
qed

lemma cancel_request_benign: "cancel_request now job_id db = Inr (db', x) \<Longrightarrow> jobs_benign db db'"
  by (auto simp: cancel_request_def Let_def job_defs split: option.splits if_splits intro!: tame_benign)

lemma assign_identity: "job_identity (fold assign vs r) = job_identity r"
proof (induction vs arbitrary: r)
  case (Cons v vs)
  have "job_identity (assign v r) = job_identity r" by (cases v) (simp_all add: job_identity_def)
  with Cons show ?case by simp
qed simp

lemma worker_values_status:
  "list_all worker_value vs \<Longrightarrow> active_status (jb_status (fold assign vs r)) \<Longrightarrow> active_status (jb_status r)"
proof (induction vs arbitrary: r)
  case (Cons v vs)
  have "active_status (jb_status (assign v r)) \<Longrightarrow> active_status (jb_status r)"
    using Cons.prems(1) by (cases v) (auto simp: active_status_def)
  with Cons.IH [of "assign v r"] Cons.prems show ?case by simp
qed simp

lemma update_job_benign:
  "update_job now job_id vs db = Inr (db', u) \<Longrightarrow> list_all worker_value vs \<Longrightarrow> jobs_benign db db'"
  by (auto simp: update_job_def tame_def keeps_identity_def assign_identity split: if_splits
      intro!: tame_benign dest: worker_values_status)

lemma claim_cases:
  assumes "claim_transaction now ct job_id pid created m tok db = Inr (db', c)"
  obtains (benign) "jobs_benign db db'"
  | (claimed) P where "int (active_count db) < m" "\<And>r. P r \<Longrightarrow> jb_id r = job_id"
      "db' = sql_update P (touch ct (\<lambda>r. (drop_launch r)\<lparr>jb_status := JRunning, jb_dispatch_phase := PhasePending,
         jb_worker_pid := Some pid, jb_worker_created := Some created\<rparr>)) db"
proof -
  let ?P = "\<lambda>r. jb_id r = job_id \<and> jb_status r = JQueued \<and> jb_launch_token r = tok \<and> \<not> jb_cancel_requested r \<and>
      \<not> deadline_passed ct r"
  have tame: "jobs_benign db (sql_update Q (touch t (\<lambda>r. (drop_launch r)\<lparr>jb_status := JCancelled\<rparr>)) db)"
    "jobs_benign db (sql_update Q (touch t time_out_row) db)" for Q t
    by (rule tame_benign; auto simp: job_defs)+
  obtain row where row: "find_job job_id db = Some row"
    using assms by (auto simp: claim_transaction_def split: option.splits)
  note eq = assms [unfolded claim_transaction_def row option.case Let_def]
  show ?thesis
  proof (cases "(jb_status row \<noteq> JQueued \<or> jb_launch_token row \<noteq> tok) \<or> jb_cancel_requested row \<or>
      deadline_passed now row \<or> m \<le> int (active_count db) \<or> \<not> sql_exists ?P db")
    case True
    then have "jobs_benign db db'"
      using eq tame by (simp only: split: if_splits) (auto simp del: sql_exists_iff)
    then show ?thesis by (rule benign)
  next
    case False
    with eq show ?thesis by (intro claimed [of ?P]) (simp_all del: sql_exists_iff)
  qed
qed

lemma active_update_one:
  assumes "unique_by jb_id db" "\<And>r. P r \<Longrightarrow> jb_id r = job_id"
  shows "active_count (sql_update P f db) \<le> Suc (active_count db)"
  using assms(1)
proof (induction db)
  case (Cons x db)
  show ?case
  proof (cases "P x")
    case True
    have "\<not> P y" if "y \<in> set db" for y
    proof
      assume "P y"
      with True assms(2) have "jb_id y = jb_id x" by simp
      with that Cons.prems show False unfolding unique_by_Cons by (metis imageI)
    qed
    then have "sql_update P f db = db" by (simp add: sql_update_def map_idI)
    with True show ?thesis by (simp add: active_count_def sql_count_def sql_update_def)
  next
    case False
    with Cons show ?thesis by (simp add: active_count_def sql_count_def sql_update_def unique_by_Cons)
  qed
qed (simp add: active_count_def sql_count_def sql_update_def)

lemma insert_effect:
  assumes "insert_or_ignore (new_job job_id key fp spec now deadline) db = (db', b)"
  shows "advances db db' \<and> active_count db' = active_count db \<and> (jobs_inv db \<longrightarrow> jobs_inv db')"
  using assms
  by (auto simp: insert_or_ignore_def advances_def row_advances_def nth_append active_count_def sql_count_def
      active_status_def jobs_inv_def new_job_def intro!: unique_by_insert split: if_splits)

lemma benign_effect: "jobs_benign db db' \<Longrightarrow> advances db db' \<and> active_count db' \<le> active_count db \<and> (jobs_inv db \<longrightarrow> jobs_inv db')"
  unfolding jobs_benign_def using jobs_inv_identity by blast

lemma job_call_cases:
  assumes "job_call limit db db'"
  obtains (benign) "jobs_benign db db'"
  | (inserted) job_id key fp spec now deadline b where "insert_or_ignore (new_job job_id key fp spec now deadline) db = (db', b)"
  | (claimed) now ct job_id pid created m tok c where
      "claim_transaction now ct job_id pid created m tok db = Inr (db', c)" "m \<le> limit"
  using assms
proof (cases rule: job_call.cases)
  case (jobs_reserve now tokens m reservations n)
  then show ?thesis using reserve_benign [of db now tokens m] benign by simp
next
  case (jobs_dispatch now job_id pid created b)
  then show ?thesis using dispatch_mark_benign [of db now job_id pid created] benign by simp
qed (auto intro: that reconcile_benign release_launch_benign launch_benign cancel_request_benign update_job_benign)

lemma job_call_effect:
  assumes "job_call limit db db'" "jobs_inv db"
  shows "jobs_inv db' \<and> advances db db' \<and> (active_count db' \<le> active_count db \<or> int (active_count db') \<le> limit)"
  using assms(1)
proof (cases rule: job_call_cases)
  case benign
  with benign_effect assms(2) show ?thesis by blast
next
  case inserted
  with insert_effect assms(2) show ?thesis by (metis order_refl)
next
  case (claimed now ct job_id pid created m tok c)
  from claimed(1) show ?thesis
  proof (cases rule: claim_cases)
    case benign
    with benign_effect assms(2) show ?thesis by blast
  next
    case (claimed P)
    let ?f = "\<lambda>r. (drop_launch r)\<lparr>jb_status := JRunning, jb_dispatch_phase := PhasePending,
         jb_worker_pid := Some pid, jb_worker_created := Some created\<rparr>"
    have id: "keeps_identity ?f" by (simp add: job_defs)
    have "active_count db' \<le> Suc (active_count db)"
      unfolding claimed(3) using assms(2) claimed(2) by (intro active_update_one) (auto simp: jobs_inv_def)
    then show ?thesis
      using claimed(1,3) \<open>m \<le> limit\<close> assms(2) update_advances [OF id] jobs_inv_identity [OF map_identity_update [OF id]]
      by auto
  qed
qed

interpretation job_slots: bounded_load "\<lambda>db. db = []" "job_call limit" jobs_inv "\<lambda>db. int (active_count db)" "max 0 limit"
  for limit
  by unfold_locales
    (auto simp: jobs_inv_def unique_by_def active_count_def sql_count_def le_max_iff_disj dest: job_call_effect)

text \<open>C20. Jobs never exceed their slots: however the workers, schedulers and clients of the table
  interleave, at most \<open>limit\<close> jobs are running or orphaned when no caller claims with a larger
  \<open>max_running\<close>.\<close>

theorem active_jobs_bounded:
  assumes "reach (\<lambda>db. db = []) (job_call limit) db" "0 \<le> limit"
  shows "int (active_count db) \<le> limit"
  using job_slots.reach_load [OF assms(1)] assms(2) by simp

text \<open>C22. A version never misses a change: over any call of the store (history retention aside), a job keeps its identity, request, specification and
  deadline, and whenever anything of its row changes its version grows; so a client that waits for a
  larger version sees every change.\<close>

theorem job_version_tracks:
  assumes "reach (\<lambda>db. db = []) (job_call limit) db" "job_call limit db db'" "r \<in> set db"
  shows "\<exists>r' \<in> set db'. job_identity r' = job_identity r \<and> (r' = r \<or> jb_version r < jb_version r')"
proof -
  have adv: "advances db db'"
    using job_call_effect [OF assms(2)] job_slots.reach_load [OF assms(1)] by blast
  from assms(3) obtain i where "i < length db" "db ! i = r" by (auto simp: in_set_conv_nth)
  with adv have "db' ! i \<in> set db'" "row_advances r (db' ! i)" by (auto simp: advances_def)
  then show ?thesis by (auto simp: row_advances_def)
qed

subsection \<open>Cancellation against dispatch\<close>

lemma find_job_Some: "find_job job_id db = Some r \<Longrightarrow> r \<in> set db \<and> jb_id r = job_id"
  by (simp add: find_job_def) (auto dest: sql_one_Some)

lemma count_unique:
  assumes "unique_by jb_id db" "r \<in> set db" "P r" "\<And>x. P x \<Longrightarrow> jb_id x = jb_id r"
  shows "sql_count P db = 1"
proof -
  have "filter P db = [r]"
    using assms(1,2)
  proof (induction db)
    case (Cons x db)
    show ?case
    proof (cases "x = r")
      case True
      have "\<not> P y" if "y \<in> set db" for y
        using that Cons.prems(1) True assms(4) unfolding unique_by_Cons by (metis imageI)
      with True assms(3) show ?thesis by (simp add: filter_empty_conv)
    next
      case False
      with Cons.prems have "r \<in> set db" "\<not> P x"
        using assms(4) unfolding unique_by_Cons by (auto dest: imageI [of r "set db" jb_id])
      with Cons show ?thesis by (simp add: unique_by_Cons)
    qed
  qed simp
  then show ?thesis by (simp add: sql_count_def)
qed

lemma mark_admitted:
  assumes "unique_by jb_id db" "find_job job_id db = Some r"
  shows "snd (mark_may_dispatch now job_id pid created db) \<longleftrightarrow> own_pending job_id pid created r \<and> \<not> jb_cancel_requested r"
proof
  let ?P = "\<lambda>x. own_pending job_id pid created x \<and> \<not> jb_cancel_requested x"
  note r = find_job_Some [OF assms(2)]
  { assume "snd (mark_may_dispatch now job_id pid created db)"
    then have "filter ?P db \<noteq> []" by (auto simp: mark_may_dispatch_def Let_def sql_count_def)
    then obtain x where "x \<in> set db" "?P x" by (auto simp: filter_empty_conv)
    moreover from this r assms(1) have "x = r" using unique_byD [of jb_id db x r] by (simp add: own_pending_def)
    ultimately show "?P r" by simp }
  assume "?P r"
  then have "sql_count ?P db = 1"
    using r by (intro count_unique [OF assms(1)]) (auto simp: own_pending_def)
  then show "snd (mark_may_dispatch now job_id pid created db)" by (simp add: mark_may_dispatch_def Let_def)
qed

lemma find_job_update:
  assumes "\<And>r. jb_id (f r) = jb_id r"
  shows "find_job job_id (sql_update P f db) = map_option (\<lambda>r. if P r then f r else r) (find_job job_id db)"
  unfolding find_job_def using assms by (intro sql_one_update) auto

lemma update_keeps_unique: "unique_by jb_id db \<Longrightarrow> (\<And>r. jb_id (f r) = jb_id r) \<Longrightarrow> unique_by jb_id (sql_update P f db)"
  by (rule unique_by_update)

text \<open>C21. Cancellation and dispatch exclude each other: for a running job that its worker has not dispatched, either
  the worker crosses the barrier first, and then no second crossing is admitted; or the cancellation
  comes first, and then the worker is refused and the job ends cancelled.\<close>

theorem cancel_or_dispatch:
  assumes "jobs_inv db" "find_job job_id db = Some r" "own_pending job_id pid created r" "\<not> jb_cancel_requested r"
  shows "(\<exists>db1. mark_may_dispatch now job_id pid created db = (db1, True) \<and>
      (\<forall>now pid created. \<not> snd (mark_may_dispatch now job_id pid created db1))) \<and>
    (\<exists>db1 orphan db2 r2. cancel_request now job_id db = Inr (db1, orphan) \<and>
      mark_may_dispatch now job_id pid created db1 = (db2, False) \<and> find_job job_id db2 = Some r2 \<and> jb_status r2 = JCancelled)"
proof -
  have u: "unique_by jb_id db" using assms(1) by (simp add: jobs_inv_def)
  let ?P = "\<lambda>x. own_pending job_id pid created x \<and> \<not> jb_cancel_requested x"
  let ?f = "touch now (\<lambda>r. r\<lparr>jb_dispatch_phase := PhaseMayDispatch\<rparr>)"
  let ?d = "sql_update ?P ?f db"
  have "snd (mark_may_dispatch now job_id pid created db)" using mark_admitted [OF u assms(2)] assms(3,4) by simp
  then have mark: "mark_may_dispatch now job_id pid created db = (?d, True)" by (simp add: mark_may_dispatch_def Let_def)
  have find: "find_job job_id ?d = Some (?f r)" using assms(2-4) by (simp add: find_job_update)
  have "unique_by jb_id ?d" using u by (rule update_keeps_unique) simp
  from mark_admitted [OF this find] have again: "\<forall>now pid created. \<not> snd (mark_may_dispatch now job_id pid created ?d)"
    by (simp add: own_pending_def)
  let ?c = "touch now (\<lambda>r. r\<lparr>jb_cancel_requested := True\<rparr>)"
  let ?e = "sql_update (\<lambda>x. jb_id x = job_id \<and> jb_status x = jb_status r) ?c db"
  have r: "jb_status r = JRunning" "jb_id r = job_id" using assms(3) by (simp_all add: own_pending_def)
  have cancel: "cancel_request now job_id db = Inr (?e, None)"
    using assms(2) r by (simp add: cancel_request_def)
  have find2: "find_job job_id ?e = Some (?c r)" using assms(2) r by (simp add: find_job_update)
  have ue: "unique_by jb_id ?e" using u by (rule update_keeps_unique) simp
  have "\<not> snd (mark_may_dispatch now job_id pid created ?e)" using mark_admitted [OF ue find2] by simp
  then obtain db2 where mark2: "mark_may_dispatch now job_id pid created ?e = (db2, False)"
    by (cases "mark_may_dispatch now job_id pid created ?e") auto
  then have "db2 = sql_update (\<lambda>x. own_pending job_id pid created x \<and> jb_cancel_requested x)
      (touch now (\<lambda>r. r\<lparr>jb_status := JCancelled\<rparr>)) (sql_update ?P ?f ?e)"
    by (auto simp: mark_may_dispatch_def Let_def split: if_splits)
  moreover have "find_job job_id (sql_update ?P ?f ?e) = Some (?c r)"
    by (subst find_job_update, simp, subst find2) simp
  moreover have "own_pending job_id pid created (?c r)" using assms(3) by (simp add: own_pending_def)
  ultimately have "find_job job_id db2 = Some (touch now (\<lambda>r. r\<lparr>jb_status := JCancelled\<rparr>) (?c r))"
    by (simp only:, subst find_job_update, simp) simp
  with mark again cancel mark2 show ?thesis by force
qed

subsection \<open>Submitting twice\<close>

lemma get_job_row:
  assumes "find_job job_id db = Some r"
  shows "\<exists>db' r'. get_job probe now job_id db = Inr (db', r') \<and> jobs_benign db db' \<and> jb_id r' = job_id \<and>
    find_job job_id db' = Some r'"
proof -
  let ?db = "reconcile probe now [r] db"
  have ids: "map job_identity ?db = map job_identity db"
    using reconcile_benign [of db probe now "[r]"] by (simp add: jobs_benign_def)
  have "map jb_id ?db = map (fst \<circ> job_identity) ?db" "map jb_id db = map (fst \<circ> job_identity) db"
    by (simp_all add: job_identity_def)
  then have "map jb_id ?db = map jb_id db" using ids by (metis map_map)
  then have "jb_id ` set ?db = jb_id ` set db" by (metis set_map)
  moreover have "job_id \<in> jb_id ` set db" using find_job_Some [OF assms] by blast
  ultimately have "\<exists>x \<in> set ?db. jb_id x = job_id" by (metis imageE)
  then obtain r' where r': "find_job job_id ?db = Some r'"
    unfolding find_job_def by (cases "sql_one (\<lambda>r. jb_id r = job_id) ?db") auto
  with find_job_Some [OF r'] assms reconcile_benign [of db probe now "[r]"] show ?thesis by (simp add: get_job_def)
qed

lemma get_job_benign: "get_job probe now job_id db = Inr (db', r) \<Longrightarrow> jobs_benign db db'"
  by (auto simp: get_job_def Let_def reconcile_benign split: option.splits)

lemma find_key:
  assumes "unique_by jb_request_key db" "x \<in> set db"
  shows "sql_one (\<lambda>r. jb_request_key r = jb_request_key x) db = Some x"
proof (cases "sql_one (\<lambda>r. jb_request_key r = jb_request_key x) db")
  case None
  with assms(2) show ?thesis by auto
next
  case (Some y)
  then have "y \<in> set db" "jb_request_key y = jb_request_key x" by (auto dest: sql_one_Some)
  with Some assms unique_byD [of jb_request_key db y x] show ?thesis by simp
qed

lemma find_id:
  assumes "unique_by jb_id db" "x \<in> set db"
  shows "find_job (jb_id x) db = Some x"
proof (cases "find_job (jb_id x) db")
  case None
  with assms(2) show ?thesis by (auto simp: find_job_def)
next
  case (Some y)
  with find_job_Some [OF Some] assms unique_byD [of jb_id db y x] show ?thesis by simp
qed

text \<open>What a request leaves behind: the row that carries its key and fingerprint.\<close>

definition has_request :: "string \<Rightarrow> string \<Rightarrow> string \<Rightarrow> jobs \<Rightarrow> bool" where
  "has_request job_id key fp db \<longleftrightarrow> jobs_inv db \<and> (\<exists>x \<in> set db. jb_id x = job_id \<and> jb_request_key x = key \<and> jb_fingerprint x = fp)"

lemma has_request_advances:
  assumes "has_request job_id key fp db" "advances db db'" "jobs_inv db'"
  shows "has_request job_id key fp db'"
proof -
  from assms(1) obtain i where "i < length db" "jb_id (db ! i) = job_id" "jb_request_key (db ! i) = key"
    "jb_fingerprint (db ! i) = fp" unfolding has_request_def by (metis in_set_conv_nth)
  with assms(2) have "db' ! i \<in> set db'" "jb_id (db' ! i) = job_id" "jb_request_key (db' ! i) = key"
    "jb_fingerprint (db' ! i) = fp" by (auto simp: advances_def row_advances_def job_identity_def)
  with assms(3) show ?thesis unfolding has_request_def by blast
qed

lemma has_request_benign: "has_request job_id key fp db \<Longrightarrow> jobs_benign db db' \<Longrightarrow> has_request job_id key fp db'"
  using has_request_advances benign_effect unfolding has_request_def by blast

lemma has_request_calls:
  assumes "(job_call limit)\<^sup>*\<^sup>* db db'" "has_request job_id key fp db"
  shows "has_request job_id key fp db'"
  using assms
proof (induction rule: rtranclp_induct)
  case (step y z)
  from step.IH [OF step.prems] have y: "has_request job_id key fp y" .
  then have "jobs_inv y" by (simp add: has_request_def)
  from job_call_effect [OF step.hyps(2) this] y has_request_advances show ?case by blast
qed

lemma submit_valid:
  "submit sha dumps flt probe now job_id dir_ok codec_ok cap_limit command cwd timeout key encoding qt cap trace db = Inr z \<Longrightarrow>
   submit_check dir_ok codec_ok cap_limit command timeout qt cap = None"
  by (auto simp: submit_def split: option.splits)

lemma submit_records:
  assumes "jobs_inv db"
    "submit sha dumps flt probe now job_id dir_ok codec_ok cap_limit command cwd timeout key encoding qt cap trace db = Inr (db1, dup, r1)"
  shows "has_request (jb_id r1) key (fingerprint sha dumps (spec_data flt command cwd timeout encoding qt)) db1"
proof -
  let ?fp = "fingerprint sha dumps (spec_data flt command cwd timeout encoding qt)"
  obtain spec deadline d ins where ins: "insert_or_ignore (new_job job_id key ?fp spec now deadline) db = (d, ins)"
    and rest: "(if ins then (case get_job probe now job_id d of Inl e \<Rightarrow> Inl e | Inr (db2, row) \<Rightarrow> Inr (db2, False, row))
      else case sql_one (\<lambda>r. jb_request_key r = key) d of None \<Rightarrow> Inl TypeError
        | Some existing \<Rightarrow> if jb_fingerprint existing \<noteq> ?fp then Inl (ToolError ''idempotency_conflict'')
            else (case get_job probe now (jb_id existing) d of Inl e \<Rightarrow> Inl e | Inr (db2, row) \<Rightarrow> Inr (db2, True, row)))
      = Inr (db1, dup, r1)"
    using assms(2) submit_valid [OF assms(2)] unfolding submit_def Let_def by (auto split: prod.splits)
  obtain x where x: "x \<in> set d" "jb_request_key x = key" "jb_fingerprint x = ?fp"
    and get: "get_job probe now (jb_id x) d = Inr (db1, r1)"
  proof (cases ins)
    case True
    with ins have "new_job job_id key ?fp spec now deadline \<in> set d" by (auto simp: insert_or_ignore_def split: if_splits)
    with True rest that [of "new_job job_id key ?fp spec now deadline"] show ?thesis
      by (auto simp: new_job_def split: sum.splits)
  next
    case False
    with rest that show ?thesis by (auto dest: sql_one_Some split: option.splits if_splits sum.splits)
  qed
  have "jobs_inv d" using insert_effect [OF ins] assms(1) by blast
  then have find: "find_job (jb_id x) d = Some x" using x(1) by (simp add: find_id jobs_inv_def)
  have "has_request (jb_id x) key ?fp d" using x \<open>jobs_inv d\<close> by (auto simp: has_request_def)
  moreover have "jb_id r1 = jb_id x" using get_job_row [OF find, of probe now] get by auto
  ultimately show ?thesis using has_request_benign get_job_benign [OF get] by simp
qed

lemma resubmit:
  assumes "has_request id1 key fp db" "submit_check dir_ok codec_ok cap_limit command timeout qt cap = None"
  shows "submit sha dumps flt probe now job_id dir_ok codec_ok cap_limit command cwd timeout key encoding qt cap trace db =
    (if fp \<noteq> fingerprint sha dumps (spec_data flt command cwd timeout encoding qt) then Inl (ToolError ''idempotency_conflict'')
     else case get_job probe now id1 db of Inl e \<Rightarrow> Inl e | Inr (d, row) \<Rightarrow> Inr (d, True, row))"
proof -
  from assms(1) obtain x where x: "x \<in> set db" "jb_id x = id1" "jb_request_key x = key" "jb_fingerprint x = fp"
    and inv: "jobs_inv db" by (auto simp: has_request_def)
  have key: "sql_one (\<lambda>r. jb_request_key r = key) db = Some x" using find_key [of db x] x inv by (simp add: jobs_inv_def)
  have "insert_or_ignore (new_job job_id key f spec now deadline) db = (db, False)" for f spec deadline
    using x(1,3) by (auto simp: insert_or_ignore_def new_job_def)
  then show ?thesis using assms(2) key x(2,4) by (simp add: submit_def Let_def)
qed

text \<open>C19. A request key is idempotent: once a submission under a key has succeeded, and after any calls of the store
  by any process (history retention aside), a second valid submission under the same key creates no job. It answers with the first job,
  marked as a duplicate, when its specification has the fingerprint of the first, and fails with
  \<open>idempotency_conflict\<close> when it has not.\<close>

theorem submit_idempotent:
  assumes "jobs_inv db"
    "submit sha dumps flt probe now job_id dir_ok codec_ok cap_limit command cwd timeout key encoding qt cap trace db = Inr (db1, dup, r1)"
    "(job_call limit)\<^sup>*\<^sup>* db1 db2"
    "submit_check dir_ok2 codec_ok2 cap_limit command2 timeout2 qt2 cap2 = None"
  shows "case submit sha dumps flt probe2 now2 job_id2 dir_ok2 codec_ok2 cap_limit command2 cwd2 timeout2 key encoding2 qt2 cap2 trace2 db2 of
      Inr (db3, dup2, r2) \<Rightarrow> fingerprint sha dumps (spec_data flt command2 cwd2 timeout2 encoding2 qt2) =
        fingerprint sha dumps (spec_data flt command cwd timeout encoding qt) \<and>
        dup2 \<and> jb_id r2 = jb_id r1 \<and> map job_identity db3 = map job_identity db2
    | Inl e \<Rightarrow> fingerprint sha dumps (spec_data flt command2 cwd2 timeout2 encoding2 qt2) \<noteq>
        fingerprint sha dumps (spec_data flt command cwd timeout encoding qt) \<and> e = ToolError ''idempotency_conflict''"
proof -
  have has: "has_request (jb_id r1) key (fingerprint sha dumps (spec_data flt command cwd timeout encoding qt)) db2"
    using has_request_calls [OF assms(3) submit_records [OF assms(1,2)]] .
  then obtain x where "x \<in> set db2" "jb_id x = jb_id r1" "jobs_inv db2" by (auto simp: has_request_def)
  then have "find_job (jb_id r1) db2 = Some x" using find_id [of db2 x] by (simp add: jobs_inv_def)
  from get_job_row [OF this, of probe2 now2] resubmit [OF has assms(4)] show ?thesis
    by (auto simp: jobs_benign_def)
qed

subsection \<open>Examples\<close>

definition example_job :: job_row where
  "example_job = new_job ''j1'' ''k1'' ''f1'' JNull 0 (Some 30)"

definition example_running :: job_row where
  "example_running = example_job\<lparr>jb_updated := 2, jb_version := 2, jb_status := JRunning, jb_worker_pid := Some 7,
     jb_worker_created := Some 1\<rparr>"

lemma example_insert: "job_call 1 [] [example_job]"
proof (rule jobs_insert)
  show "insert_or_ignore (new_job ''j1'' ''k1'' ''f1'' JNull 0 (Some 30)) [] = ([example_job], True)" by code_simp
qed

lemma example_claim: "job_call 1 [example_job] [example_running]"
proof (rule jobs_claim)
  show "claim_transaction 1 2 ''j1'' 7 1 1 None [example_job] = Inr ([example_running], Claimed)" by code_simp
qed simp

lemma example_reach: "reach (\<lambda>db. db = []) (job_call 1) [example_running]"
  by (blast intro: reach.intros example_insert example_claim)

lemma active_jobs_bounded_witness: "int (active_count [example_running]) \<le> 1"
  using active_jobs_bounded [OF example_reach] by simp

lemma example_reach_job: "reach (\<lambda>db. db = []) (job_call 1) [example_job]"
  by (blast intro: reach.intros example_insert)

lemma job_version_tracks_witness:
  "\<exists>r' \<in> set [example_running]. job_identity r' = job_identity example_job \<and> (r' = example_job \<or> jb_version example_job < jb_version r')"
  using job_version_tracks [OF example_reach_job example_claim, of example_job] by simp

lemma cancel_or_dispatch_witness:
  "\<exists>db1. mark_may_dispatch 3 ''j1'' 7 1 [example_running] = (db1, True)"
proof -
  have "jobs_inv [example_running]" "find_job ''j1'' [example_running] = Some example_running"
    "own_pending ''j1'' 7 1 example_running" "\<not> jb_cancel_requested example_running"
    by (simp add: jobs_inv_def unique_by_def) code_simp+
  from cancel_or_dispatch [OF this, of 3] show ?thesis by blast
qed

definition example_submit :: "string list \<Rightarrow> jobs \<Rightarrow> (jobs \<times> bool \<times> job_row) res" where
  "example_submit command db = submit (\<lambda>s. s) (\<lambda>j. case j of JObj ((_, JList (JStr a # _)) # _) \<Rightarrow> a | _ \<Rightarrow> []) (\<lambda>_. ''1.0'')
     (\<lambda>_ _. False) 0 ''j1'' True True 8 command ''/'' 1 ''k1'' ''utf-8'' None None None db"

lemma example_submitted: "example_submit [''ls''] [] = Inr ([new_job ''j1'' ''k1'' ''ls'' (canonical_json (JObj (spec_data (\<lambda>_. ''1.0'') [''ls''] ''/'' 1 ''utf-8'' None))) 0 None],
   False, new_job ''j1'' ''k1'' ''ls'' (canonical_json (JObj (spec_data (\<lambda>_. ''1.0'') [''ls''] ''/'' 1 ''utf-8'' None))) 0 None)"
  by code_simp

lemma submit_idempotent_witness:
  "case example_submit [''ls''] [] of Inl e \<Rightarrow> False
   | Inr (db1, dup, r1) \<Rightarrow> (case example_submit [''rm''] db1 of Inr x \<Rightarrow> False | Inl e \<Rightarrow> e = ToolError ''idempotency_conflict'')"
proof -
  have inv: "jobs_inv []" by (simp add: jobs_inv_def unique_by_def)
  have ok: "submit_check True True 8 [''rm''] 1 None None = None" by code_simp
  note first = example_submitted [unfolded example_submit_def]
  note second = submit_idempotent [OF inv first rtranclp.rtrancl_refl ok, where ?cwd2.0 = "''/''" and ?encoding2.0 = "''utf-8''" and
      ?probe2.0 = "\<lambda>_ _. False" and ?now2.0 = 0 and ?job_id2.0 = "''j1''" and ?trace2.0 = None]
  have "fingerprint (\<lambda>s. s) (\<lambda>j. case j of JObj ((_, JList (JStr a # _)) # _) \<Rightarrow> a | _ \<Rightarrow> []) (spec_data (\<lambda>_. ''1.0'') [''rm''] ''/'' 1 ''utf-8'' None) \<noteq>
    fingerprint (\<lambda>s. s) (\<lambda>j. case j of JObj ((_, JList (JStr a # _)) # _) \<Rightarrow> a | _ \<Rightarrow> []) (spec_data (\<lambda>_. ''1.0'') [''ls''] ''/'' 1 ''utf-8'' None)"
    by code_simp
  with second show ?thesis
    unfolding example_submitted by (simp add: example_submit_def split: sum.splits prod.splits)
qed

end
