(* ===== verification/Job_Views.thy ===== *)
theory Job_Views
  imports Jobs "HOL-Library.Word"
begin

text \<open>
  Observing a durable job: the long poll \<open>JobStore.wait\<close> and the output cursors of \<open>JobStore.progress\<close>
  (\<open>core/jobs.py\<close>). The monotonic clock is a sequence of readings, what other processes do to the table
  while a poll sleeps is a parameter, and an incremental decoder is a function from the bytes and the
  \<open>final\<close> flag to the decoded text and the bytes it still holds back.
\<close>

section \<open>Waiting for a newer version\<close>

definition job_wait_poll_interval :: "rat \<Rightarrow> rat" where
  "job_wait_poll_interval elapsed =
     (if elapsed < 1 then 1 / 20 else if elapsed < 5 then 1 / 10 else if elapsed < 30 then 1 / 4 else 1 / 2)"

text \<open>\<open>started\<close> is reading \<open>0\<close> of the clock; round \<open>k\<close> takes the readings \<open>2 k + 1\<close> and \<open>2 k + 2\<close>, reads the wall
  clock \<open>wall k\<close> and the processes \<open>probe k\<close>, and sleeps while others turn the table \<open>db\<close> into \<open>others k db\<close>.
  The result is \<open>None\<close> when \<open>fuel\<close> rounds were not enough.\<close>

definition wait_remaining :: "(nat \<Rightarrow> rat) \<Rightarrow> rat \<Rightarrow> nat \<Rightarrow> rat" where
  "wait_remaining clock timeout k = clock 0 + timeout - clock (2 * k + 1)"

definition wait_sleep :: "(nat \<Rightarrow> rat) \<Rightarrow> rat \<Rightarrow> nat \<Rightarrow> rat" where
  "wait_sleep clock timeout k =
     min (job_wait_poll_interval (clock (2 * k + 2) - clock 0)) (wait_remaining clock timeout k)"

fun wait_loop ::
  "nat \<Rightarrow> nat \<Rightarrow> (nat \<Rightarrow> probe) \<Rightarrow> (nat \<Rightarrow> rat) \<Rightarrow> (nat \<Rightarrow> rat) \<Rightarrow> (nat \<Rightarrow> jobs \<Rightarrow> jobs) \<Rightarrow> string \<Rightarrow> int \<Rightarrow> rat \<Rightarrow> jobs \<Rightarrow>
   (jobs \<times> bool \<times> job_row) res option" where
  "wait_loop 0 k probe wall clock others job_id after timeout db = None"
| "wait_loop (Suc fuel) k probe wall clock others job_id after timeout db =
     (case get_job (probe k) (wall k) job_id db of
        Inl e \<Rightarrow> Some (Inl e)
      | Inr (db1, current) \<Rightarrow>
          if jb_version current < after then Some (Inl (ToolError ''job_version_ahead''))
          else if after < jb_version current then Some (Inr (db1, True, current))
          else if wait_remaining clock timeout k \<le> 0 then Some (Inr (db1, False, current))
          else wait_loop fuel (Suc k) probe wall clock others job_id after timeout (others k db1))"

definition wait_job ::
  "nat \<Rightarrow> (nat \<Rightarrow> probe) \<Rightarrow> (nat \<Rightarrow> rat) \<Rightarrow> (nat \<Rightarrow> rat) \<Rightarrow> (nat \<Rightarrow> jobs \<Rightarrow> jobs) \<Rightarrow> string \<Rightarrow> int \<Rightarrow> rat \<Rightarrow> jobs \<Rightarrow>
   (jobs \<times> bool \<times> job_row) res option" where
  "wait_job fuel probe wall clock others job_id after timeout db =
     (if after < 0 then Some (Inl ValueError)
      else if timeout < 0 \<or> 300 < timeout then Some (Inl ValueError)
      else wait_loop fuel 0 probe wall clock others job_id after timeout db)"

text \<open>A clock that never runs backwards, and a sleep that lasts at least as long as it was asked to.\<close>

definition honest_clock :: "(nat \<Rightarrow> rat) \<Rightarrow> rat \<Rightarrow> bool" where
  "honest_clock clock timeout \<longleftrightarrow> (\<forall>n. clock n \<le> clock (Suc n)) \<and>
     (\<forall>k. clock (2 * k + 2) + wait_sleep clock timeout k \<le> clock (2 * k + 3))"

lemma poll_interval_bounds: "1 / 20 \<le> job_wait_poll_interval t \<and> job_wait_poll_interval t \<le> 1 / 2"
  by (simp add: job_wait_poll_interval_def)

lemma clock_advances:
  assumes "honest_clock clock timeout"
  shows "wait_remaining clock timeout k \<le> 0 \<or> clock 0 + of_nat k / 20 \<le> clock (2 * k + 1)"
proof -
  have tick: "clock n \<le> clock (Suc n)" for n using assms unfolding honest_clock_def by blast
  have sleep: "clock (2 * k + 2) + wait_sleep clock timeout k \<le> clock (2 * k + 3)" for k
    using assms unfolding honest_clock_def by blast
  have step: "clock (2 * k + 1) \<le> clock (2 * k + 2)" "clock (2 * k + 2) \<le> clock (2 * k + 3)" for k
    using tick [of "2 * k + 1"] tick [of "2 * k + 2"] by (simp_all add: numeral_3_eq_3)
  have next_reading: "2 * Suc k + 1 = 2 * k + 3" for k :: nat by simp
  have "clock 0 + timeout \<le> clock (2 * k + 1) \<or> clock (2 * 0 + 1) + of_nat k * (1 / 20) \<le> clock (2 * k + 1)"
  proof (rule poll_deadline [of "\<lambda>k. clock (2 * k + 1)"])
    fix k
    show "clock (2 * k + 1) \<le> clock (2 * Suc k + 1)" unfolding next_reading using step [of k] by linarith
    have "wait_remaining clock timeout k = clock 0 + timeout - clock (2 * k + 1)" by (simp add: wait_remaining_def)
    then show "min (clock (2 * k + 1) + 1 / 20) (clock 0 + timeout) \<le> clock (2 * Suc k + 1)"
      unfolding next_reading using sleep [of k] step(1) [of k] poll_interval_bounds [of "clock (2 * k + 2) - clock 0"]
      unfolding wait_sleep_def min_def by (auto split: if_splits)
  qed
  with tick [of 0] show ?thesis by (auto simp: wait_remaining_def)
qed

definition wait_result_ok :: "(nat \<Rightarrow> rat) \<Rightarrow> string \<Rightarrow> int \<Rightarrow> rat \<Rightarrow> (jobs \<times> bool \<times> job_row) res \<Rightarrow> bool" where
  "wait_result_ok clock job_id after timeout result \<longleftrightarrow>
     (case result of
        Inl e \<Rightarrow> e = ToolError ''job_not_found'' \<or> e = ToolError ''job_version_ahead''
      | Inr (db, changed, row) \<Rightarrow> find_job job_id db = Some row \<and>
          (if changed then after < jb_version row
           else jb_version row = after \<and> (\<exists>n. clock 0 + timeout \<le> clock n)))"

lemma get_job_result:
  "get_job probe now job_id db = Inr (db', r) \<Longrightarrow> find_job job_id db' = Some r"
proof -
  assume get: "get_job probe now job_id db = Inr (db', r)"
  then obtain row where "find_job job_id db = Some row" by (auto simp: get_job_def split: option.splits)
  from get_job_row [OF this, of probe now] get show ?thesis by auto
qed

lemma get_job_error: "get_job probe now job_id db = Inl e \<Longrightarrow> e = ToolError ''job_not_found''"
  by (auto simp: get_job_def Let_def split: option.splits)

lemma wait_result_simps [simp]:
  "wait_result_ok clock job_id after timeout (Inl e) \<longleftrightarrow> e = ToolError ''job_not_found'' \<or> e = ToolError ''job_version_ahead''"
  "wait_result_ok clock job_id after timeout (Inr (db, changed, row)) \<longleftrightarrow> find_job job_id db = Some row \<and>
     (if changed then after < jb_version row else jb_version row = after \<and> (\<exists>n. clock 0 + timeout \<le> clock n))"
  by (simp_all add: wait_result_ok_def)

lemma wait_loop_returns:
  assumes "honest_clock clock timeout" "20 * timeout \<le> of_nat (k + fuel)"
  shows "\<exists>result. wait_loop (Suc fuel) k probe wall clock others job_id after timeout db = Some result \<and>
    wait_result_ok clock job_id after timeout result"
  using assms(2)
proof (induction fuel arbitrary: k db)
  case 0
  then have "wait_remaining clock timeout k \<le> 0"
    using clock_advances [OF assms(1), of k] by (auto simp: wait_remaining_def)
  moreover from this have "\<exists>n. clock 0 + timeout \<le> clock n" unfolding wait_remaining_def by (metis diff_le_0_iff_le)
  ultimately show ?case
    by (cases "get_job (probe k) (wall k) job_id db") (auto dest: get_job_error get_job_result)
next
  case (Suc fuel)
  from Suc.prems have "20 * timeout \<le> of_nat (Suc k + fuel)" by simp
  note IH = Suc.IH [OF this]
  have "\<exists>n. clock 0 + timeout \<le> clock n" if "wait_remaining clock timeout k \<le> 0"
    using that unfolding wait_remaining_def by (metis diff_le_0_iff_le)
  then show ?case
    using IH by (subst wait_loop.simps, cases "get_job (probe k) (wall k) job_id db")
      (auto simp del: wait_loop.simps dest: get_job_error get_job_result)
qed



section \<open>Output cursors\<close>

type_synonym bytes = "8 word list"
type_synonym decoder = "bytes \<Rightarrow> bool \<Rightarrow> string \<times> bytes"

record chunk =
  ck_text :: string
  ck_bytes :: int
  ck_total_bytes :: int
  ck_since_byte :: int
  ck_next_byte :: int
  ck_has_more :: bool
  ck_final :: bool
  ck_encoding :: string
  ck_missing :: bool

text \<open>\<open>file\<close> is \<open>None\<close> when the output stream does not exist. A fresh decoder reads at most \<open>max_bytes\<close> bytes from
  \<open>offset\<close>; the bytes of an incomplete character at the end of the chunk stay for the next one.\<close>

definition progress_chunk :: "decoder \<Rightarrow> string \<Rightarrow> bytes option \<Rightarrow> int \<Rightarrow> int \<Rightarrow> bool \<Rightarrow> chunk res" where
  "progress_chunk decode encoding file offset max_bytes final =
     (case file of
        None \<Rightarrow>
          if offset \<noteq> 0 then Inl ValueError
          else Inr \<lparr>ck_text = [], ck_bytes = 0, ck_total_bytes = 0, ck_since_byte = 0, ck_next_byte = 0,
                 ck_has_more = False, ck_final = final, ck_encoding = encoding, ck_missing = True\<rparr>
      | Some content \<Rightarrow>
          let total = int (length content) in
          if offset < 0 \<or> total < offset then Inl ValueError
          else
            let payload = take (nat (min max_bytes (total - offset))) (drop (nat offset) content);
                (text, pending) = decode payload (final \<and> offset + int (length payload) = total);
                consumed = int (length payload) - int (length pending);
                next_byte = offset + consumed
            in Inr \<lparr>ck_text = text, ck_bytes = consumed, ck_total_bytes = total, ck_since_byte = offset,
                 ck_next_byte = next_byte, ck_has_more = next_byte < total, ck_final = final,
                 ck_encoding = encoding, ck_missing = False\<rparr>)"

definition final_status :: "job_status \<Rightarrow> bool" where
  "final_status s \<longleftrightarrow> s \<notin> {JQueued, JRunning, JOrphaned}"

definition spec_encoding :: "json \<Rightarrow> string res" where
  "spec_encoding spec =
     (case spec of
        JObj items \<Rightarrow> (case map_of items ''encoding'' of Some (JStr e) \<Rightarrow> Inr e | _ \<Rightarrow> Inl KeyError)
      | _ \<Rightarrow> Inl TypeError)"

definition progress ::
  "(string \<Rightarrow> decoder) \<Rightarrow> probe \<Rightarrow> rat \<Rightarrow> bytes option \<Rightarrow> bytes option \<Rightarrow> string \<Rightarrow> int \<Rightarrow> int \<Rightarrow> int \<Rightarrow> jobs \<Rightarrow>
   (jobs \<times> chunk \<times> chunk) res" where
  "progress decoders probe now stdout stderr job_id stdout_since_byte stderr_since_byte max_bytes db =
     (if stdout_since_byte < 0 \<or> stderr_since_byte < 0 then Inl ValueError
      else if max_bytes < 16 \<or> 65536 < max_bytes then Inl ValueError
      else case get_job probe now job_id db of
        Inl e \<Rightarrow> Inl e
      | Inr (db1, row) \<Rightarrow>
        (case spec_encoding (jb_spec row) of
           Inl e \<Rightarrow> Inl e
         | Inr encoding \<Rightarrow>
           let final = final_status (jb_status row) in
           (case progress_chunk (decoders encoding) encoding stdout stdout_since_byte max_bytes final of
              Inl e \<Rightarrow> Inl e
            | Inr out \<Rightarrow>
              (case progress_chunk (decoders encoding) encoding stderr stderr_since_byte max_bytes final of
                 Inl e \<Rightarrow> Inl e
               | Inr err \<Rightarrow> Inr (db1, out, err)))))"

text \<open>A client that follows \<open>next_byte\<close> while the stream grows. Each poll names the bytes written so far and
  whether the job had ended; \<open>read_end\<close> then reads an ended stream to its end.\<close>

fun follow :: "decoder \<Rightarrow> string \<Rightarrow> (bytes \<times> bool \<times> int) list \<Rightarrow> int \<Rightarrow> (string \<times> int) res" where
  "follow decode encoding [] offset = Inr ([], offset)"
| "follow decode encoding ((content, final, max_bytes) # polls) offset =
     (case progress_chunk decode encoding (Some content) offset max_bytes final of
        Inl e \<Rightarrow> Inl e
      | Inr c \<Rightarrow> (case follow decode encoding polls (ck_next_byte c) of
           Inl e \<Rightarrow> Inl e
         | Inr (text, n) \<Rightarrow> Inr (ck_text c @ text, n)))"

fun read_end :: "nat \<Rightarrow> decoder \<Rightarrow> string \<Rightarrow> bytes \<Rightarrow> int \<Rightarrow> int \<Rightarrow> string res option" where
  "read_end 0 decode encoding content max_bytes offset = None"
| "read_end (Suc fuel) decode encoding content max_bytes offset =
     (case progress_chunk decode encoding (Some content) offset max_bytes True of
        Inl e \<Rightarrow> Some (Inl e)
      | Inr c \<Rightarrow>
          if \<not> ck_has_more c then Some (Inr (ck_text c))
          else (case read_end fuel decode encoding content max_bytes (ck_next_byte c) of
             None \<Rightarrow> None
           | Some (Inl e) \<Rightarrow> Some (Inl e)
           | Some (Inr text) \<Rightarrow> Some (Inr (ck_text c @ text))))"

text \<open>What an incremental decoder whose only state is the bytes it holds back promises: it holds back an
  end of its input shorter than the smallest chunk, nothing once the input is final, and decoding in two
  parts is decoding at once.\<close>

definition resumable :: "decoder \<Rightarrow> bool" where
  "resumable decode \<longleftrightarrow>
     (\<forall>fin. decode [] fin = ([], [])) \<and>
     (\<forall>p. snd (decode p True) = []) \<and>
     (\<forall>p. length (snd (decode p False)) < 16 \<and> (\<exists>c. p = c @ snd (decode p False))) \<and>
     (\<forall>p q fin. fst (decode (p @ q) fin) = fst (decode p False) @ fst (decode (snd (decode p False) @ q) fin))"

text \<open>The snapshots of an append-only stream, each ended poll seeing all of it.\<close>

fun snapshots :: "bytes \<Rightarrow> nat \<Rightarrow> (bytes \<times> bool \<times> int) list \<Rightarrow> bool" where
  "snapshots whole n [] \<longleftrightarrow> True"
| "snapshots whole n ((content, final, max_bytes) # polls) \<longleftrightarrow>
     content = take (length content) whole \<and> n \<le> length content \<and> (final \<longrightarrow> content = whole) \<and> 16 \<le> max_bytes \<and>
     snapshots whole (length content) polls"

lemma resumable_empty: "resumable decode \<Longrightarrow> decode [] fin = ([], [])"
  unfolding resumable_def by blast

lemma resumable_final: "resumable decode \<Longrightarrow> decode p True = (t, r) \<Longrightarrow> r = []"
  unfolding resumable_def by (metis snd_conv)

lemma resumable_held:
  assumes "resumable decode" "decode p False = (t, r)"
  obtains k where "length r < 16" "p = k @ r"
proof -
  from assms(1) have "length (snd (decode p False)) < 16 \<and> (\<exists>c. p = c @ snd (decode p False))"
    unfolding resumable_def by blast
  with assms(2) that show ?thesis by auto
qed

lemma resumable_split:
  assumes "resumable decode" "decode p False = (t, r)"
  shows "fst (decode (p @ q) fin) = t @ fst (decode (r @ q) fin)"
proof -
  from assms(1) have "fst (decode (p @ q) fin) = fst (decode p False) @ fst (decode (snd (decode p False) @ q) fin)"
    unfolding resumable_def by blast
  with assms(2) show ?thesis by simp
qed

lemma chunk_value:
  assumes "0 \<le> offset" "offset \<le> int (length content)"
    "payload = take (nat (min max_bytes (int (length content) - offset))) (drop (nat offset) content)"
    "decode payload (final \<and> offset + int (length payload) = int (length content)) = (t, r)"
  shows "progress_chunk decode encoding (Some content) offset max_bytes final =
    Inr \<lparr>ck_text = t, ck_bytes = int (length payload) - int (length r), ck_total_bytes = int (length content),
      ck_since_byte = offset, ck_next_byte = offset + (int (length payload) - int (length r)),
      ck_has_more = offset + (int (length payload) - int (length r)) < int (length content), ck_final = final,
      ck_encoding = encoding, ck_missing = False\<rparr>"
  using assms(1,2) unfolding progress_chunk_def option.case Let_def assms(3) [symmetric] assms(4) prod.case by simp

lemma payload_prefix:
  assumes "content = take (length content) whole" "n \<le> length content"
  shows "\<exists>q. drop n whole = take m (drop n content) @ q"
proof -
  have "whole = content @ drop (length content) whole" by (subst (1) assms(1)) simp
  then have "drop n whole = drop n content @ drop (length content) whole"
    using assms(2) by (metis drop_append diff_is_0_eq drop0)
  moreover have "drop n content = take m (drop n content) @ drop m (drop n content)" by (simp only: append_take_drop_id)
  ultimately show ?thesis by (metis append_assoc)
qed

text \<open>One chunk splits the text that is left into its own text and the text after its cursor.\<close>

lemma chunk_splits:
  assumes "resumable decode" "n \<le> length content" "content = take (length content) whole"
    "final \<longrightarrow> content = whole" "16 \<le> max_bytes"
  obtains c j where "progress_chunk decode encoding (Some content) (int n) max_bytes final = Inr c"
    "ck_next_byte c = int j" "n \<le> j" "j \<le> length content" "ck_has_more c \<longleftrightarrow> j < length content"
    "ck_text c @ fst (decode (drop j whole) True) = fst (decode (drop n whole) True)"
    "final \<longrightarrow> n < length content \<longrightarrow> n < j"
proof -
  define p where "p = take (nat (min max_bytes (int (length content) - int n))) (drop (nat (int n)) content)"
  let ?whole_read = "final \<and> int n + int (length p) = int (length content)"
  obtain t r where d: "decode p ?whole_read = (t, r)" by (cases "decode p ?whole_read")
  have len: "length p = min (nat max_bytes) (length content - n)"
    unfolding p_def using assms(2,5) by auto
  obtain q where q: "drop n whole = p @ q"
    using payload_prefix [OF assms(3,2)] unfolding p_def by auto
  note val = chunk_value [of "int n" content p max_bytes decode final t r encoding, OF _ _ p_def d]
  have split: "length r \<le> length p \<and> (final \<longrightarrow> n < length content \<longrightarrow> length r < length p) \<and>
    t @ fst (decode (r @ q) True) = fst (decode (p @ q) True) \<and> drop (n + (length p - length r)) whole = r @ q"
  proof (cases ?whole_read)
    case True
    then have "r = []" using resumable_final [OF assms(1)] d by simp
    moreover have "length whole - n = length p + length q" "n + length p = length whole"
      using arg_cong [OF q, of length] True assms(4) by auto
    then have "length q = 0" by linarith
    then have "q = []" by simp
    moreover have "drop (n + length p) whole = q" using q by (metis add.commute append_eq_conv_conj drop_drop)
    ultimately show ?thesis using True d len assms(5) resumable_empty [OF assms(1)] by simp
  next
    case False
    then have "?whole_read = False" by blast
    with d have d': "decode p False = (t, r)" by simp
    obtain k where k: "length r < 16" "p = k @ r" by (rule resumable_held [OF assms(1) d'])
    have "length r < length p" if "final" "n < length content"
      using that False k(1) len assms(2,5) by auto
    moreover have "drop (n + length k) whole = r @ q" using q k(2) by (metis add.commute append.assoc append_eq_conv_conj drop_drop)
    ultimately show ?thesis using resumable_split [OF assms(1) d', of q True] k(2) by simp
  qed
  define j where "j = n + (length p - length r)"
  have j: "n \<le> j" "j \<le> length content" "drop j whole = r @ q" "final \<longrightarrow> n < length content \<longrightarrow> n < j"
    and next_byte: "int n + (int (length p) - int (length r)) = int j"
    using split len assms(2) unfolding j_def by auto
  have "progress_chunk decode encoding (Some content) (int n) max_bytes final =
    Inr \<lparr>ck_text = t, ck_bytes = int (length p) - int (length r), ck_total_bytes = int (length content),
      ck_since_byte = int n, ck_next_byte = int j, ck_has_more = int j < int (length content), ck_final = final,
      ck_encoding = encoding, ck_missing = False\<rparr>" using val assms(2) unfolding next_byte by simp
  from that [OF this] split j q show ?thesis by simp
qed

lemma follow_splits:
  assumes "resumable decode" "snapshots whole m polls" "n \<le> m" "m \<le> length whole"
  shows "\<exists>out j. follow decode encoding polls (int n) = Inr (out, int j) \<and> j \<le> length whole \<and>
    out @ fst (decode (drop j whole) True) = fst (decode (drop n whole) True)"
  using assms(2-4)
proof (induction polls arbitrary: n m)
  case (Cons poll polls)
  obtain content final max_bytes where poll: "poll = (content, final, max_bytes)" by (cases poll)
  from Cons.prems(1) have s: "content = take (length content) whole" "m \<le> length content" "final \<longrightarrow> content = whole"
    "16 \<le> max_bytes" "snapshots whole (length content) polls" unfolding poll by auto
  have "n \<le> length content" using s(2) Cons.prems(2) by simp
  then obtain c j where c: "progress_chunk decode encoding (Some content) (int n) max_bytes final = Inr c"
    "ck_next_byte c = int j" "j \<le> length content"
    "ck_text c @ fst (decode (drop j whole) True) = fst (decode (drop n whole) True)"
    by (rule chunk_splits [OF assms(1) _ s(1,3,4)]) blast
  have "length content \<le> length whole" using s(1) by (metis length_take min.cobounded1)
  from Cons.IH [OF s(5) c(3) this] obtain out i where
    "follow decode encoding polls (int j) = Inr (out, int i)" "i \<le> length whole"
    "out @ fst (decode (drop i whole) True) = fst (decode (drop j whole) True)" by blast
  with c show ?case unfolding poll by (auto simp: c(4) [symmetric])
qed simp

lemma read_end_splits:
  assumes "resumable decode" "16 \<le> max_bytes" "n \<le> length whole" "length whole - n < fuel"
  shows "read_end fuel decode encoding whole max_bytes (int n) = Some (Inr (fst (decode (drop n whole) True)))"
  using assms(3,4)
proof (induction fuel arbitrary: n)
  case (Suc fuel)
  obtain c j where c: "progress_chunk decode encoding (Some whole) (int n) max_bytes True = Inr c"
    "ck_next_byte c = int j" "j \<le> length whole" "ck_has_more c \<longleftrightarrow> j < length whole"
    "ck_text c @ fst (decode (drop j whole) True) = fst (decode (drop n whole) True)"
    "n < length whole \<longrightarrow> n < j" "n \<le> j"
    by (rule chunk_splits [OF assms(1) Suc.prems(1) _ _ assms(2), where whole = whole and final = True]) auto
  show ?case
  proof (cases "j < length whole")
    case True
    with c(6,7) Suc.prems have "length whole - j < fuel" by linarith
    from Suc.IH [OF c(3) this] c True show ?thesis by simp
  next
    case False
    with c resumable_empty [OF assms(1)] show ?thesis by simp
  qed
qed simp


text \<open>Latin-1 maps every byte to the character of its number.\<close>

definition latin1 :: decoder where
  "latin1 p final = (map (\<lambda>b. char_of (unat b)) p, [])"


end
