(* ===== verification/Job_Retention.thy ===== *)
theory Job_Retention
  imports Jobs
begin

text \<open>
  Bounded history of durable jobs (\<open>core/job_retention.py\<close>): which ended jobs a cleanup selects, how their rows
  and output directories are deleted, and what a whole cleanup leaves. What the file system answers is a
  parameter: the listing of a directory, and the outcome of removing one. A batch whose transaction
  raises is rolled back, and which batches do is a parameter too.
\<close>

section \<open>Model\<close>

definition terminal_status :: "job_status \<Rightarrow> bool" where
  "terminal_status s \<longleftrightarrow> s \<in> {JSucceeded, JFailed, JCancelled, JTimedOut, JInterrupted}"

record job_history_policy =
  jp_max_age_sec :: rat
  jp_max_count :: int
  jp_max_bytes :: int
  jp_cleanup_interval_sec :: rat
  jp_orphan_grace_sec :: rat

record job_history_entry =
  he_job_id :: string
  he_updated :: rat
  he_output_bytes :: int

record job_history_result =
  jr_terminal_rows_scanned :: nat
  jr_terminal_output_bytes :: int
  jr_removed_jobs :: nat
  jr_removed_output_bytes :: int
  jr_removed_for_age :: nat
  jr_removed_for_count :: nat
  jr_removed_for_quota :: nat
  jr_orphan_dirs_removed :: nat
  jr_remaining_terminal_rows :: nat
  jr_remaining_output_bytes :: int
  jr_quota_satisfied :: bool
  jr_safety_floor_preserved :: bool
  jr_errors :: nat

definition job_policy_from_settings :: "int \<Rightarrow> int \<Rightarrow> int \<Rightarrow> int \<Rightarrow> job_history_policy" where
  "job_policy_from_settings max_age_days max_count max_bytes cleanup_interval_sec =
     \<lparr>jp_max_age_sec = of_int (max_age_days * 86400), jp_max_count = max_count, jp_max_bytes = max_bytes,
      jp_cleanup_interval_sec = of_int cleanup_interval_sec, jp_orphan_grace_sec = 60\<rparr>"

datatype dir_item = RegularFile int | OtherItem | ItemError

datatype dir_listing = DirMissing | DirError | DirItems "dir_item list"

datatype rm_outcome = RmRemoved | RmMissing | RmError

definition directory_size :: "dir_listing \<Rightarrow> int \<times> nat" where
  "directory_size listing =
     (case listing of
        DirMissing \<Rightarrow> (0, 0)
      | DirError \<Rightarrow> (0, 1)
      | DirItems items \<Rightarrow>
          fold (\<lambda>item (total, errors). case item of
              RegularFile n \<Rightarrow> (total + n, errors) | OtherItem \<Rightarrow> (total, errors) | ItemError \<Rightarrow> (total, Suc errors)) items (0, 0))"

definition terminal_rows :: "(string \<Rightarrow> dir_listing) \<Rightarrow> jobs \<Rightarrow> job_history_entry list \<times> nat" where
  "terminal_rows listing db =
     (let rows = sort_key (\<lambda>r. (jb_updated r, jb_id r)) (filter (\<lambda>r. terminal_status (jb_status r)) db)
      in (map (\<lambda>r. \<lparr>he_job_id = jb_id r, he_updated = jb_updated r,
                 he_output_bytes = fst (directory_size (listing (jb_id r)))\<rparr>) rows,
          sum_list (map (\<lambda>r. snd (directory_size (listing (jb_id r)))) rows)))"

subsection \<open>Selecting\<close>

datatype removal_reason = ForAge | ForCount | ForQuota

type_synonym removals = "(string \<times> removal_reason) list"

fun age_pass :: "string \<Rightarrow> rat \<Rightarrow> job_history_entry list \<Rightarrow> removals \<times> job_history_entry list" where
  "age_pass newest cutoff [] = ([], [])"
| "age_pass newest cutoff (e # es) =
     (let (reasons, kept) = age_pass newest cutoff es
      in if he_job_id e \<noteq> newest \<and> he_updated e < cutoff then ((he_job_id e, ForAge) # reasons, kept)
         else (reasons, e # kept))"

fun count_pass :: "string \<Rightarrow> nat \<Rightarrow> job_history_entry list \<Rightarrow> removals \<times> job_history_entry list" where
  "count_pass newest excess [] = ([], [])"
| "count_pass newest excess (e # es) =
     (if excess \<noteq> 0 \<and> he_job_id e \<noteq> newest
      then (let (reasons, kept) = count_pass newest (excess - 1) es in ((he_job_id e, ForCount) # reasons, kept))
      else (let (reasons, kept) = count_pass newest excess es in (reasons, e # kept)))"

fun quota_pass :: "string \<Rightarrow> int \<Rightarrow> int \<Rightarrow> job_history_entry list \<Rightarrow> removals" where
  "quota_pass newest max_bytes held [] = []"
| "quota_pass newest max_bytes held (e # es) =
     (if held \<le> max_bytes then []
      else if he_job_id e \<noteq> newest then (he_job_id e, ForQuota) # quota_pass newest max_bytes (held - he_output_bytes e) es
      else quota_pass newest max_bytes held es)"

definition select_removals :: "job_history_entry list \<Rightarrow> job_history_policy \<Rightarrow> rat \<Rightarrow> removals \<times> bool" where
  "select_removals entries policy now =
     (if entries = [] then ([], False)
      else
        let newest = he_job_id (last entries);
            (r1, s1) = (if 0 < jp_max_age_sec policy then age_pass newest (now - jp_max_age_sec policy) entries else ([], entries));
            (r2, s2) = (if 0 < jp_max_count policy
                        then count_pass newest (nat (max (int (length s1) - jp_max_count policy) 0)) s1 else ([], s1));
            r3 = (if 0 < jp_max_bytes policy
                  then quota_pass newest (jp_max_bytes policy) (sum_list (map he_output_bytes s2)) s2 else [])
        in (r1 @ r2 @ r3, s2 \<noteq> []))"

subsection \<open>Deleting\<close>

definition deletable :: "job_history_entry \<Rightarrow> job_row \<Rightarrow> bool" where
  "deletable e r \<longleftrightarrow> jb_id r = he_job_id e \<and> jb_updated r \<le> he_updated e \<and> terminal_status (jb_status r)"

fun delete_rows :: "job_history_entry list \<Rightarrow> jobs \<Rightarrow> jobs \<times> job_history_entry list" where
  "delete_rows [] db = (db, [])"
| "delete_rows (e # es) db =
     (let (db', deleted) = delete_rows es (sql_delete (deletable e) db)
      in (db', if sql_exists (deletable e) db then e # deleted else deleted))"

definition delete_terminal_batch ::
  "(string \<Rightarrow> rm_outcome) \<Rightarrow> job_history_entry list \<Rightarrow> jobs \<Rightarrow> jobs \<times> job_history_entry list \<times> int \<times> nat" where
  "delete_terminal_batch rmtree entries db =
     (let (db', deleted) = delete_rows entries db
      in (db', deleted,
          sum_list (map he_output_bytes (filter (\<lambda>e. rmtree (he_job_id e) \<noteq> RmError) deleted)),
          length (filter (\<lambda>e. rmtree (he_job_id e) = RmError) deleted)))"

text \<open>A directory as the scan of the output root sees it; its modification time is \<open>None\<close> when \<open>stat\<close> fails.\<close>

record output_dir =
  od_name :: string
  od_is_dir :: bool
  od_mtime :: "rat option"

definition job_id_char :: "char \<Rightarrow> bool" where
  "job_id_char c \<longleftrightarrow> (''0'' ! 0 \<le> c \<and> c \<le> ''9'' ! 0) \<or> (''a'' ! 0 \<le> c \<and> c \<le> ''f'' ! 0)"

definition is_job_id :: "string \<Rightarrow> bool" where
  "is_job_id s \<longleftrightarrow> length s = 32 \<and> list_all job_id_char s"

fun cleanup_orphan_dirs :: "(string \<Rightarrow> rm_outcome) \<Rightarrow> rat \<Rightarrow> rat \<Rightarrow> output_dir list \<Rightarrow> jobs \<Rightarrow> string list \<times> nat" where
  "cleanup_orphan_dirs rmtree now grace [] db = ([], 0)"
| "cleanup_orphan_dirs rmtree now grace (d # ds) db =
     (let (removed, errors) = cleanup_orphan_dirs rmtree now grace ds db in
      if \<not> od_is_dir d \<or> \<not> is_job_id (od_name d) then (removed, errors)
      else case od_mtime d of
        None \<Rightarrow> (removed, Suc errors)
      | Some mtime \<Rightarrow>
          if now - mtime < grace then (removed, errors)
          else if sql_exists (\<lambda>r. jb_id r = od_name d) db then (removed, errors)
          else (case rmtree (od_name d) of
                  RmMissing \<Rightarrow> (removed, errors) | RmError \<Rightarrow> (removed, Suc errors) | RmRemoved \<Rightarrow> (od_name d # removed, errors)))"

subsection \<open>A whole cleanup\<close>

function batches :: "'a list \<Rightarrow> 'a list list" where
  "batches xs = (if xs = [] then [] else take 100 xs # batches (drop 100 xs))"
  by pat_completeness auto
termination
  by (relation "measure length") auto

declare batches.simps [simp del]

text \<open>The state of the loop over the batches: the table, what was deleted, the bytes, the errors.\<close>

fun delete_batches ::
  "(nat \<Rightarrow> bool) \<Rightarrow> (string \<Rightarrow> rm_outcome) \<Rightarrow> nat \<Rightarrow> job_history_entry list list \<Rightarrow> jobs \<Rightarrow>
   jobs \<times> job_history_entry list \<times> int \<times> nat" where
  "delete_batches fails rmtree n [] db = (db, [], 0, 0)"
| "delete_batches fails rmtree n (batch # rest) db =
     (if fails n
      then (let (db', deleted, bytes, errors) = delete_batches fails rmtree (Suc n) rest db
            in (db', deleted, bytes, Suc errors))
      else (let (db1, deleted1, bytes1, errors1) = delete_terminal_batch rmtree batch db;
                (db2, deleted2, bytes2, errors2) = delete_batches fails rmtree (Suc n) rest db1
            in (db2, deleted1 @ deleted2, bytes1 + bytes2, errors1 + errors2)))"

definition reason_count :: "removals \<Rightarrow> removal_reason \<Rightarrow> job_history_entry list \<Rightarrow> nat" where
  "reason_count reasons why deleted = length (filter (\<lambda>e. map_of reasons (he_job_id e) = Some why) deleted)"

text \<open>\<open>directories\<close> is \<open>None\<close> when the output root cannot be listed; \<open>root_ok\<close> and \<open>db_ok\<close> are the checks against links in the paths; \<open>listing'\<close> is the listing after the deletions.\<close>

definition cleanup_job_history ::
  "bool \<Rightarrow> bool \<Rightarrow> (string \<Rightarrow> dir_listing) \<Rightarrow> (string \<Rightarrow> dir_listing) \<Rightarrow> (nat \<Rightarrow> bool) \<Rightarrow> (string \<Rightarrow> rm_outcome) \<Rightarrow>
   output_dir list option \<Rightarrow> job_history_policy \<Rightarrow> rat \<Rightarrow> jobs \<Rightarrow> jobs \<times> job_history_result" where
  "cleanup_job_history root_ok db_ok listing listing' fails rmtree directories policy now db =
     (let none = \<lparr>jr_terminal_rows_scanned = 0, jr_terminal_output_bytes = 0, jr_removed_jobs = 0,
            jr_removed_output_bytes = 0, jr_removed_for_age = 0, jr_removed_for_count = 0, jr_removed_for_quota = 0,
            jr_orphan_dirs_removed = 0, jr_remaining_terminal_rows = 0, jr_remaining_output_bytes = 0,
            jr_quota_satisfied = True, jr_safety_floor_preserved = False, jr_errors = 0\<rparr>
      in
      if \<not> root_ok then (db, none\<lparr>jr_errors := 1\<rparr>)
      else if \<not> db_ok then (db, none)
      else
        let (entries, errors) = terminal_rows listing db;
            (reasons, safety_floor) = select_removals entries policy now;
            selected = filter (\<lambda>e. he_job_id e \<in> fst ` set reasons) entries;
            (db', deleted, bytes, delete_errors) = delete_batches fails rmtree 0 (batches selected) db;
            (orphans, orphan_errors) = (case directories of
               None \<Rightarrow> ([], 1) | Some ds \<Rightarrow> cleanup_orphan_dirs rmtree now (jp_orphan_grace_sec policy) ds db');
            (remaining, remaining_errors) = (if selected \<noteq> [] then terminal_rows listing' db' else (entries, 0));
            remaining_bytes = sum_list (map he_output_bytes remaining)
        in (db', \<lparr>jr_terminal_rows_scanned = length entries,
              jr_terminal_output_bytes = sum_list (map he_output_bytes entries),
              jr_removed_jobs = length deleted, jr_removed_output_bytes = bytes,
              jr_removed_for_age = reason_count reasons ForAge deleted,
              jr_removed_for_count = reason_count reasons ForCount deleted,
              jr_removed_for_quota = reason_count reasons ForQuota deleted,
              jr_orphan_dirs_removed = length orphans, jr_remaining_terminal_rows = length remaining,
              jr_remaining_output_bytes = remaining_bytes,
              jr_quota_satisfied = (jp_max_bytes policy \<le> 0 \<or> remaining_bytes \<le> jp_max_bytes policy),
              jr_safety_floor_preserved = (safety_floor \<and> remaining \<noteq> []),
              jr_errors = errors + delete_errors + orphan_errors + remaining_errors\<rparr>))"

section \<open>What the selection keeps\<close>

definition survivors :: "removals \<Rightarrow> job_history_entry list \<Rightarrow> job_history_entry list" where
  "survivors reasons es = filter (\<lambda>e. he_job_id e \<notin> fst ` set reasons) es"

text \<open>Each pass removes only entries it was given, never the newest, and keeps the others in order.\<close>

definition selects :: "string \<Rightarrow> job_history_entry list \<Rightarrow> removals \<Rightarrow> bool" where
  "selects newest es reasons \<longleftrightarrow> fst ` set reasons \<subseteq> he_job_id ` set es - {newest}"

lemma survivors_simps [simp]:
  "survivors reasons [] = []" "survivors [] es = es"
  "survivors reasons (e # es) = (if he_job_id e \<in> fst ` set reasons then survivors reasons es else e # survivors reasons es)"
  by (simp_all add: survivors_def)

lemma survivors_other: "he_job_id e \<notin> he_job_id ` set es \<Longrightarrow> survivors ((he_job_id e, w) # rs) es = survivors rs es"
  unfolding survivors_def by (rule filter_cong) (auto, metis imageI)

lemma survivors_append: "survivors (r1 @ r2) es = survivors r2 (survivors r1 es)"
  unfolding survivors_def filter_filter by (rule filter_cong) auto

lemma unique_survivors: "unique_by he_job_id es \<Longrightarrow> unique_by he_job_id (survivors rs es)"
  by (simp add: survivors_def unique_by_def distinct_map_filter)

lemma selects_out: "selects newest es rs \<Longrightarrow> he_job_id e \<notin> he_job_id ` set es \<Longrightarrow> he_job_id e \<notin> fst ` set rs"
  by (auto simp: selects_def)

lemma selects_Cons:
  "selects newest es rs \<Longrightarrow> selects newest (e # es) rs"
  "selects newest es rs \<Longrightarrow> he_job_id e \<noteq> newest \<Longrightarrow> selects newest (e # es) ((he_job_id e, w) # rs)"
  by (auto simp: selects_def)

lemma age_pass_result:
  assumes "age_pass newest cutoff es = (reasons, kept)" "unique_by he_job_id es"
  shows "selects newest es reasons \<and> kept = survivors reasons es \<and>
    list_all (\<lambda>e. he_job_id e = newest \<or> cutoff \<le> he_updated e) kept"
  using assms
proof (induction es arbitrary: reasons kept)
  case (Cons e es)
  obtain rs ks where rec: "age_pass newest cutoff es = (rs, ks)" by fastforce
  from Cons.prems(2) have e: "he_job_id e \<notin> he_job_id ` set es" "unique_by he_job_id es" by (simp_all add: unique_by_Cons)
  note IH = Cons.IH [OF rec e(2)]
  then show ?case
    using Cons.prems(1) selects_out [OF _ e(1)] survivors_other [OF e(1)]
    by (cases "he_job_id e \<noteq> newest \<and> he_updated e < cutoff") (auto simp: rec selects_Cons)
qed (simp add: selects_def)

lemma count_pass_result:
  assumes "count_pass newest excess es = (reasons, kept)" "unique_by he_job_id es"
  shows "selects newest es reasons \<and> kept = survivors reasons es \<and>
    length kept + min excess (length (filter (\<lambda>e. he_job_id e \<noteq> newest) es)) = length es"
  using assms
proof (induction es arbitrary: excess reasons kept)
  case (Cons e es)
  from Cons.prems(2) have e: "he_job_id e \<notin> he_job_id ` set es" "unique_by he_job_id es" by (simp_all add: unique_by_Cons)
  show ?case
  proof (cases "excess \<noteq> 0 \<and> he_job_id e \<noteq> newest")
    case True
    obtain rs ks where rec: "count_pass newest (excess - 1) es = (rs, ks)" by fastforce
    with Cons.prems(1) True have eq: "reasons = (he_job_id e, ForCount) # rs" "kept = ks" by simp_all
    note IH = Cons.IH [OF rec e(2)]
    have "length ks + min excess (length (filter (\<lambda>e. he_job_id e \<noteq> newest) (e # es))) = length (e # es)"
      using IH True by (cases excess) auto
    with IH True survivors_other [OF e(1)] show ?thesis unfolding eq by (simp add: selects_Cons)
  next
    case False
    obtain rs ks where rec: "count_pass newest excess es = (rs, ks)" by fastforce
    from False have "count_pass newest excess (e # es) = (rs, e # ks)" by (auto simp: rec)
    with Cons.prems(1) have eq: "reasons = rs" "kept = e # ks" by simp_all
    note IH = Cons.IH [OF rec e(2)]
    have "length (e # ks) + min excess (length (filter (\<lambda>e. he_job_id e \<noteq> newest) (e # es))) = length (e # es)"
      using IH False by (cases excess) auto
    moreover have "he_job_id e \<notin> fst ` set rs" using IH selects_out [OF _ e(1)] by blast
    ultimately show ?thesis using IH unfolding eq by (simp add: selects_Cons)
  qed
qed (simp add: selects_def)

lemma quota_pass_result:
  assumes "unique_by he_job_id es"
  shows "selects newest es (quota_pass newest m held es) \<and>
    (held - (sum_list (map he_output_bytes es) - sum_list (map he_output_bytes (survivors (quota_pass newest m held es) es))) \<le> m \<or>
     survivors (quota_pass newest m held es) es = filter (\<lambda>e. he_job_id e = newest) es)"
  using assms
proof (induction es arbitrary: held)
  case (Cons e es)
  from Cons.prems have e: "he_job_id e \<notin> he_job_id ` set es" "unique_by he_job_id es" by (simp_all add: unique_by_Cons)
  show ?case
  proof (cases "held \<le> m")
    case False
    show ?thesis
    proof (cases "he_job_id e = newest")
      case True
      with Cons.IH [OF e(2), of held] False selects_out [OF _ e(1)] show ?thesis by (auto simp: selects_Cons)
    next
      case nonew: False
      with Cons.IH [OF e(2), of "held - he_output_bytes e"] False survivors_other [OF e(1)] show ?thesis
        by (auto simp: selects_Cons)
    qed
  qed (simp add: selects_def)
qed (simp add: selects_def)

lemma unique_newest:
  assumes "unique_by he_job_id es" "e \<in> set es"
  shows "filter (\<lambda>x. he_job_id x = he_job_id e) es = [e]"
  using assms
proof (induction es)
  case (Cons x es)
  show ?case
  proof (cases "x = e")
    case True
    with Cons.prems(1) have "filter (\<lambda>x. he_job_id x = he_job_id e) es = []"
      unfolding unique_by_Cons filter_empty_conv by (metis imageI)
    with True show ?thesis by simp
  next
    case False
    with Cons.prems have "he_job_id x \<noteq> he_job_id e" "e \<in> set es" unfolding unique_by_Cons by (auto intro: imageI)
    with Cons show ?thesis by (simp add: unique_by_Cons)
  qed
qed simp

text \<open>What the policy asks of the history that is left: the newest job stays, no other one is older than the
  age limit, and the limits on the number and the size hold unless the newest job alone exceeds them.\<close>

definition within_policy :: "job_history_policy \<Rightarrow> rat \<Rightarrow> job_history_entry \<Rightarrow> job_history_entry list \<Rightarrow> bool" where
  "within_policy policy now newest es \<longleftrightarrow> newest \<in> set es \<and>
     (0 < jp_max_age_sec policy \<longrightarrow> list_all (\<lambda>e. e = newest \<or> now - jp_max_age_sec policy \<le> he_updated e) es) \<and>
     (0 < jp_max_count policy \<longrightarrow> int (length es) \<le> jp_max_count policy) \<and>
     (0 < jp_max_bytes policy \<longrightarrow> sum_list (map he_output_bytes es) \<le> jp_max_bytes policy \<or> es = [newest])"

lemma survivors_subset: "set (survivors rs es) \<subseteq> set es"
  by (auto simp: survivors_def)

lemma selects_subset: "selects newest (survivors r es) rs \<Longrightarrow> selects newest es rs"
  using survivors_subset [of r es] by (auto simp: selects_def)

lemma selects_append: "selects n es r1 \<Longrightarrow> selects n es r2 \<Longrightarrow> selects n es (r1 @ r2)"
  by (auto simp: selects_def)

lemma newest_survives: "selects (he_job_id e) es rs \<Longrightarrow> e \<in> set es \<Longrightarrow> e \<in> set (survivors rs es)"
  by (auto simp: selects_def survivors_def)

lemma count_kept:
  assumes "unique_by he_job_id es" "e \<in> set es" "0 < m"
    "length kept + min (nat (max (int (length es) - m) 0)) (length (filter (\<lambda>x. he_job_id x \<noteq> he_job_id e) es)) = length es"
  shows "int (length kept) \<le> m"
proof -
  have "length (filter (\<lambda>x. he_job_id x \<noteq> he_job_id e) es) + length (filter (\<lambda>x. he_job_id x = he_job_id e) es) = length es"
    using sum_length_filter_compl [of "\<lambda>x. he_job_id x = he_job_id e" es] by simp
  then have "length (filter (\<lambda>x. he_job_id x \<noteq> he_job_id e) es) + 1 = length es"
    by (simp add: unique_newest [OF assms(1,2)])
  with assms(3,4) show ?thesis by linarith
qed

lemma select_removals_result:
  assumes "unique_by he_job_id es" "es \<noteq> []" "select_removals es policy now = (reasons, safe)"
  shows "selects (he_job_id (last es)) es reasons \<and> within_policy policy now (last es) (survivors reasons es)"
proof -
  let ?new = "he_job_id (last es)"
  obtain r1 s1 where 1: "(if 0 < jp_max_age_sec policy then age_pass ?new (now - jp_max_age_sec policy) es else ([], es)) = (r1, s1)"
    by fastforce
  obtain r2 s2 where 2: "(if 0 < jp_max_count policy
      then count_pass ?new (nat (max (int (length s1) - jp_max_count policy) 0)) s1 else ([], s1)) = (r2, s2)" by fastforce
  define r3 where "r3 = (if 0 < jp_max_bytes policy
      then quota_pass ?new (jp_max_bytes policy) (sum_list (map he_output_bytes s2)) s2 else [])"
  have reasons: "reasons = r1 @ r2 @ r3" using assms(2,3) unfolding select_removals_def r3_def by (simp add: 1 2)
  have mem: "last es \<in> set es" using assms(2) by simp
  have a: "selects ?new es r1" "s1 = survivors r1 es"
    "0 < jp_max_age_sec policy \<longrightarrow> list_all (\<lambda>e. he_job_id e = ?new \<or> now - jp_max_age_sec policy \<le> he_updated e) s1"
    using 1 age_pass_result [OF _ assms(1)] by (auto simp: selects_def split: if_splits)
  have u1: "unique_by he_job_id s1" and m1: "last es \<in> set s1"
    using a(1) mem assms(1) unfolding a(2) by (auto intro: unique_survivors newest_survives)
  have b: "selects ?new s1 r2 \<and> s2 = survivors r2 s1 \<and> (0 < jp_max_count policy \<longrightarrow> int (length s2) \<le> jp_max_count policy)"
  proof (cases "0 < jp_max_count policy")
    case True
    with 2 have pass: "count_pass ?new (nat (max (int (length s1) - jp_max_count policy) 0)) s1 = (r2, s2)" by simp
    from count_pass_result [OF pass u1] count_kept [OF u1 m1 True] show ?thesis by blast
  next
    case False
    with 2 show ?thesis by (simp add: selects_def)
  qed
  note b = conjunct1 [OF b] conjunct1 [OF conjunct2 [OF b]] conjunct2 [OF conjunct2 [OF b]]
  have u2: "unique_by he_job_id s2" and m2: "last es \<in> set s2"
    using b(1) m1 u1 unfolding b(2) by (auto intro: unique_survivors newest_survives)
  have c: "selects ?new s2 r3" "0 < jp_max_bytes policy \<longrightarrow>
      sum_list (map he_output_bytes (survivors r3 s2)) \<le> jp_max_bytes policy \<or> survivors r3 s2 = [last es]"
    using quota_pass_result [OF u2, of ?new "jp_max_bytes policy" "sum_list (map he_output_bytes s2)"] unique_newest [OF u2 m2]
    by (auto simp: r3_def selects_def)
  have "selects ?new es reasons"
    unfolding reasons using a(1) b(1) c(1) unfolding a(2) b(2) by (blast intro: selects_append selects_subset)
  moreover have "survivors reasons es = survivors r3 s2" unfolding reasons survivors_append a(2) b(2) ..
  moreover have "length (survivors r3 s2) \<le> length s2" by (simp add: survivors_def)
  moreover have "list_all (\<lambda>e. e = last es \<or> now - jp_max_age_sec policy \<le> he_updated e) (survivors r3 s2)"
    if "0 < jp_max_age_sec policy"
    using a(3) that survivors_subset [of r3 s2] survivors_subset [of r2 s1] unique_byD [OF u1 _ m1]
    unfolding b(2) list_all_iff by blast
  ultimately show ?thesis using b(3) c(2) newest_survives [OF c(1) m2] by (auto simp: within_policy_def)
qed

section \<open>What a cleanup deletes\<close>

lemma delete_rows_result:
  "fst (delete_rows es db) = filter (\<lambda>r. \<not> (\<exists>e \<in> set es. deletable e r)) db"
proof (induction es arbitrary: db)
  case (Cons e es)
  have "fst (delete_rows (e # es) db) = fst (delete_rows es (sql_delete (deletable e) db))"
    by (simp add: Let_def split_beta)
  also have "\<dots> = filter (\<lambda>r. \<not> (\<exists>x \<in> set (e # es). deletable x r)) db"
    unfolding Cons.IH sql_delete_def filter_filter by (rule filter_cong) auto
  finally show ?case .
qed simp

lemma batch_result:
  "fst (delete_terminal_batch rmtree es db) = filter (\<lambda>r. \<not> (\<exists>e \<in> set es. deletable e r)) db"
  by (simp add: delete_terminal_batch_def split_beta delete_rows_result)

lemma delete_batches_rec:
  "fst (delete_batches fails rmtree n (b # bs) db) =
     fst (delete_batches fails rmtree (Suc n) bs (if fails n then db else fst (delete_terminal_batch rmtree b db)))"
  by (simp add: Let_def split_beta)

lemma delete_batches_subset:
  "\<exists>Q. fst (delete_batches fails rmtree n bs db) = filter Q db \<and> (\<forall>r. Q r \<or> (\<exists>e \<in> set (concat bs). deletable e r))"
proof (induction bs arbitrary: n db)
  case Nil
  show ?case by (rule exI [of _ "\<lambda>_. True"]) simp
next
  case (Cons b bs)
  let ?d = "if fails n then db else fst (delete_terminal_batch rmtree b db)"
  let ?P = "\<lambda>r. fails n \<or> \<not> (\<exists>e \<in> set b. deletable e r)"
  have d: "?d = filter ?P db" by (simp add: batch_result)
  obtain Q where "fst (delete_batches fails rmtree (Suc n) bs ?d) = filter Q ?d"
    "\<forall>r. Q r \<or> (\<exists>e \<in> set (concat bs). deletable e r)" using Cons.IH by blast
  then show ?case
    unfolding delete_batches_rec d filter_filter by (intro exI [of _ "\<lambda>r. ?P r \<and> Q r"]) auto
qed

lemma delete_batches_complete:
  assumes "\<And>n. \<not> fails n"
  shows "fst (delete_batches fails rmtree n bs db) = filter (\<lambda>r. \<not> (\<exists>e \<in> set (concat bs). deletable e r)) db"
proof (induction bs arbitrary: n db)
  case (Cons b bs)
  have "fst (delete_batches fails rmtree n (b # bs) db) =
    filter (\<lambda>r. \<not> (\<exists>e \<in> set (concat bs). deletable e r)) (filter (\<lambda>r. \<not> (\<exists>e \<in> set b. deletable e r)) db)"
    unfolding delete_batches_rec Cons.IH using assms by (simp only: if_False batch_result)
  also have "\<dots> = filter (\<lambda>r. \<not> (\<exists>e \<in> set (concat (b # bs)). deletable e r)) db"
    unfolding filter_filter by (rule filter_cong) auto
  finally show ?case .
qed simp

lemma concat_batches [simp]: "concat (batches xs) = xs"
proof (induction xs rule: batches.induct)
  case (1 xs)
  show ?case
  proof (cases "xs = []")
    case False
    with 1 show ?thesis by (subst batches.simps) simp
  qed (simp add: batches.simps)
qed

definition entry_of :: "(string \<Rightarrow> dir_listing) \<Rightarrow> job_row \<Rightarrow> job_history_entry" where
  "entry_of listing r = \<lparr>he_job_id = jb_id r, he_updated = jb_updated r,
     he_output_bytes = fst (directory_size (listing (jb_id r)))\<rparr>"

definition ended_jobs :: "jobs \<Rightarrow> jobs" where
  "ended_jobs db = sort_key (\<lambda>r. (jb_updated r, jb_id r)) (filter (\<lambda>r. terminal_status (jb_status r)) db)"

lemma entries_eq: "fst (terminal_rows listing db) = map (entry_of listing) (ended_jobs db)"
  by (simp add: terminal_rows_def ended_jobs_def entry_of_def Let_def)

lemma set_ended_jobs: "set (ended_jobs db) = {r \<in> set db. terminal_status (jb_status r)}"
  by (auto simp: ended_jobs_def)

lemma unique_entries: "jobs_inv db \<Longrightarrow> unique_by he_job_id (fst (terminal_rows listing db))"
  unfolding entries_eq unique_by_def map_map comp_def entry_of_def ended_jobs_def jobs_inv_def
  by (simp add: distinct_map_filter distinct_map inj_on_def)

lemma deletable_selected:
  assumes "jobs_inv db" "r \<in> set db"
  shows "(\<exists>e \<in> set (filter (\<lambda>e. he_job_id e \<in> ids) (fst (terminal_rows listing db))). deletable e r) \<longleftrightarrow>
    terminal_status (jb_status r) \<and> jb_id r \<in> ids"
proof -
  have "unique_by jb_id db" using assms(1) by (simp add: jobs_inv_def)
  then show ?thesis
    using assms(2) by (auto simp: entries_eq set_ended_jobs entry_of_def deletable_def)
qed

lemma filtered_entries:
  assumes "\<And>r. r \<in> set db \<Longrightarrow> Q r \<longleftrightarrow> \<not> (terminal_status (jb_status r) \<and> jb_id r \<in> fst ` set reasons)"
  shows "fst (terminal_rows listing (filter Q db)) = survivors reasons (fst (terminal_rows listing db))"
proof -
  have "filter (\<lambda>r. terminal_status (jb_status r)) (filter Q db) =
      filter (\<lambda>r. jb_id r \<notin> fst ` set reasons) (filter (\<lambda>r. terminal_status (jb_status r)) db)"
    unfolding filter_filter by (rule filter_cong) (auto simp: assms)
  then have "ended_jobs (filter Q db) = filter (\<lambda>r. jb_id r \<notin> fst ` set reasons) (ended_jobs db)"
    by (simp add: ended_jobs_def filter_sort)
  then show ?thesis by (simp add: entries_eq survivors_def filter_map comp_def entry_of_def)
qed

text \<open>The table after a cleanup, by the entries it selected.\<close>

lemma cleanup_table:
  assumes "fst (terminal_rows listing db) = entries" "select_removals entries policy now = (reasons, safe)"
  shows "fst (cleanup_job_history True True listing listing' fails rmtree directories policy now db) =
    fst (delete_batches fails rmtree 0 (batches (filter (\<lambda>e. he_job_id e \<in> fst ` set reasons) entries)) db)"
  using assms unfolding cleanup_job_history_def Let_def by (simp add: split_beta)

text \<open>A cleanup never touches a job that has not ended: whatever the file system answers and whichever batches
  fail, the rows that are queued, running or orphaned stay as they are, every other row stays or goes
  as a whole, and the newest ended job stays.\<close>

theorem cleanup_spares_live_jobs:
  assumes "jobs_inv db" "cleanup_job_history root_ok db_ok listing listing' fails rmtree directories policy now db = (db', result)"
  shows "filter (\<lambda>r. \<not> terminal_status (jb_status r)) db' = filter (\<lambda>r. \<not> terminal_status (jb_status r)) db \<and>
    set db' \<subseteq> set db \<and> (ended_jobs db = [] \<or> last (ended_jobs db) \<in> set db')"
proof (cases "root_ok \<and> db_ok")
  case False
  then have "db' = db" using assms(2) by (auto simp: cleanup_job_history_def Let_def split: if_splits)
  moreover have "ended_jobs db = [] \<or> last (ended_jobs db) \<in> set db"
    using last_in_set [of "ended_jobs db"] set_ended_jobs [of db] by auto
  ultimately show ?thesis by simp
next
  case True
  let ?es = "fst (terminal_rows listing db)"
  obtain reasons safe where sel: "select_removals ?es policy now = (reasons, safe)" by fastforce
  let ?sel = "filter (\<lambda>e. he_job_id e \<in> fst ` set reasons) ?es"
  have "fst (cleanup_job_history True True listing listing' fails rmtree directories policy now db) = db'"
    using assms(2) True by simp
  then have "db' = fst (delete_batches fails rmtree 0 (batches ?sel) db)" unfolding cleanup_table [OF refl sel] ..
  then obtain Q where Q: "db' = filter Q db" "\<forall>r. Q r \<or> (\<exists>e \<in> set ?sel. deletable e r)"
    using delete_batches_subset [of fails rmtree 0 "batches ?sel" db] by auto
  have gone: "terminal_status (jb_status r) \<and> jb_id r \<in> fst ` set reasons" if "r \<in> set db" "\<not> Q r" for r
    using Q(2) that deletable_selected [OF assms(1) that(1)] by blast
  have "last (ended_jobs db) \<in> set db'" if ne: "ended_jobs db \<noteq> []"
  proof -
    let ?r = "last (ended_jobs db)"
    have "?r \<in> set db" using last_in_set [OF ne] by (simp add: set_ended_jobs)
    moreover have "he_job_id (last ?es) = jb_id ?r" using ne by (simp add: entries_eq last_map entry_of_def)
    then have "jb_id ?r \<notin> fst ` set reasons"
      using select_removals_result [OF unique_entries [OF assms(1)] _ sel] ne by (auto simp: entries_eq selects_def)
    ultimately show ?thesis using gone Q(1) by auto
  qed
  then show ?thesis using gone unfolding Q(1) filter_filter by (auto intro!: filter_cong)
qed

text \<open>A cleanup whose transactions succeed brings the history within its policy: of the ended jobs that are
  left, the newest is among them, no other is older than the age limit, their number is within the
  limit, and so is the size of their output unless only the newest is left.\<close>

theorem cleanup_meets_policy:
  assumes "jobs_inv db" "\<And>n. \<not> fails n" "ended_jobs db \<noteq> []"
    "cleanup_job_history True True listing listing' fails rmtree directories policy now db = (db', result)"
  shows "within_policy policy now (entry_of listing (last (ended_jobs db))) (fst (terminal_rows listing db'))"
proof -
  let ?es = "fst (terminal_rows listing db)"
  obtain reasons safe where sel: "select_removals ?es policy now = (reasons, safe)" by fastforce
  let ?sel = "filter (\<lambda>e. he_job_id e \<in> fst ` set reasons) ?es"
  have "fst (cleanup_job_history True True listing listing' fails rmtree directories policy now db) = db'"
    using assms(4) by simp
  then have "db' = filter (\<lambda>r. \<not> (\<exists>e \<in> set ?sel. deletable e r)) db"
    unfolding cleanup_table [OF refl sel] delete_batches_complete [OF assms(2)] concat_batches ..
  moreover have "fst (terminal_rows listing (filter (\<lambda>r. \<not> (\<exists>e \<in> set ?sel. deletable e r)) db)) = survivors reasons ?es"
    by (rule filtered_entries) (simp only: deletable_selected [OF assms(1)])
  ultimately have "fst (terminal_rows listing db') = survivors reasons ?es" by (simp only:)
  moreover have "?es \<noteq> []" "last ?es = entry_of listing (last (ended_jobs db))"
    using assms(3) by (simp_all add: entries_eq last_map)
  ultimately show ?thesis using select_removals_result [OF unique_entries [OF assms(1)] _ sel] by simp
qed

section \<open>Examples\<close>

definition example_history :: jobs where
  "example_history =
     [(new_job ''j1'' ''k1'' ''f'' JNull 0 None)\<lparr>jb_status := JFailed, jb_updated := 1\<rparr>,
      (new_job ''j2'' ''k2'' ''f'' JNull 0 None)\<lparr>jb_status := JSucceeded, jb_updated := 2\<rparr>,
      new_job ''j3'' ''k3'' ''f'' JNull 0 None]"

definition example_policy :: job_history_policy where
  "example_policy = job_policy_from_settings 30 1 1000 60"

definition example_cleanup :: "jobs \<times> job_history_result" where
  "example_cleanup = cleanup_job_history True True (\<lambda>_. DirMissing) (\<lambda>_. DirMissing) (\<lambda>_. False) (\<lambda>_. RmRemoved) (Some [])
     example_policy 3 example_history"

lemma example_history_inv: "jobs_inv example_history"
  by (simp add: example_history_def jobs_inv_def unique_by_def new_job_def)

lemma example_removes_oldest: "map jb_id (fst example_cleanup) = [''j2'', ''j3'']"
  by code_simp

lemma cleanup_spares_live_jobs_witness:
  "filter (\<lambda>r. \<not> terminal_status (jb_status r)) (fst example_cleanup) = filter (\<lambda>r. \<not> terminal_status (jb_status r)) example_history"
  unfolding example_cleanup_def using cleanup_spares_live_jobs [OF example_history_inv surjective_pairing] by blast

lemma cleanup_meets_policy_witness:
  "within_policy example_policy 3 (entry_of (\<lambda>_. DirMissing) (last (ended_jobs example_history)))
     (fst (terminal_rows (\<lambda>_. DirMissing) (fst example_cleanup)))"
proof -
  have "ended_jobs example_history \<noteq> []" by code_simp
  from cleanup_meets_policy [OF example_history_inv _ this surjective_pairing] show ?thesis unfolding example_cleanup_def by simp
qed

end
