(* ===== verification/Workflow_Retention.thy ===== *)
theory Workflow_Retention
  imports Attempts Leases Resource_Admission
begin

text \<open>
  Bounded history of workflows (\<open>core/workflow_retention.py\<close>): which ended workflows a cleanup may delete, in
  what order it takes them, and what the foreign keys of the schema (\<open>core/workflow_store.py\<close>) delete with a
  workflow. Times are milliseconds; \<open>fail_at\<close> is the statement at which the database raises, if it does.
\<close>

section \<open>Model\<close>

record workflow_history_policy =
  wp_max_age_days :: int
  wp_max_count :: int
  wp_cleanup_interval_sec :: rat

record workflow_history_result =
  wh_eligible_rows :: nat
  wh_removed_rows :: nat
  wh_removed_for_age :: nat
  wh_removed_for_count :: nat
  wh_remaining_eligible_rows :: nat
  wh_protected_unresolved_rows :: nat
  wh_errors :: nat

definition workflow_policy_from_settings :: "int \<Rightarrow> int \<Rightarrow> int \<Rightarrow> workflow_history_policy" where
  "workflow_policy_from_settings max_age_days max_count cleanup_interval_sec =
     \<lparr>wp_max_age_days = max_age_days, wp_max_count = max_count, wp_cleanup_interval_sec = of_int cleanup_interval_sec\<rparr>"

definition ended_state :: "workflow_state \<Rightarrow> bool" where
  "ended_state s \<longleftrightarrow> s \<in> {WCompleted, WCancelled}"

text \<open>Requests join their operation by \<open>LEFT JOIN\<close>: a request belongs to a workflow by its own column or by
  the workflow of its operation.\<close>

definition request_of_workflow :: "db \<Rightarrow> string \<Rightarrow> request_row \<Rightarrow> bool" where
  "request_of_workflow d w r \<longleftrightarrow> rr_workflow_id r = Some w \<or>
     sql_exists (\<lambda>x. rr_operation_id r = Some (op_id x) \<and> op_workflow_id x = w) (db_operations d)"

definition unsettled_evidence :: "db \<Rightarrow> string \<Rightarrow> bool" where
  "unsettled_evidence d w \<longleftrightarrow>
     sql_exists (\<lambda>x. op_workflow_id x = w \<and> op_state x \<in> {OUncertain, OReconciling, OUnresolvable}) (db_operations d) \<or>
     sql_exists (\<lambda>r. request_of_workflow d w r \<and> rr_state r \<noteq> Released) (db_requests d) \<or>
     sql_exists (\<lambda>a. adm_workflow_id a = w) (db_admissions d)"

definition leased :: "db \<Rightarrow> time \<Rightarrow> string \<Rightarrow> bool" where
  "leased d now w \<longleftrightarrow> sql_exists (\<lambda>l. ls_workflow_id l = w \<and> now < ls_expires_at l) (db_leases d)"

definition eligible :: "db \<Rightarrow> time \<Rightarrow> workflow_row \<Rightarrow> bool" where
  "eligible d now r \<longleftrightarrow> ended_state (wf_state r) \<and> \<not> unsettled_evidence d (wf_id r) \<and> \<not> leased d now (wf_id r)"

definition eligible_workflows :: "db \<Rightarrow> time \<Rightarrow> (string \<times> time) list" where
  "eligible_workflows d now =
     map (\<lambda>r. (wf_id r, wf_updated_at r))
       (sort_key (\<lambda>r. (wf_updated_at r, wf_id r)) (filter (eligible d now) (db_workflows d)))"

text \<open>Deleting a workflow row deletes, by \<open>ON DELETE CASCADE\<close>, its steps with their dependencies, operations,
  lease, events and admissions, and the requests of it or of its operations with their claims; a permit keeps
  its row and loses its reference (\<open>ON DELETE SET NULL\<close>).\<close>

definition delete_workflow :: "string \<Rightarrow> db \<Rightarrow> db" where
  "delete_workflow w d =
     (let ops = map op_id (filter (\<lambda>x. op_workflow_id x = w) (db_operations d));
          steps = map st_step_index (filter (\<lambda>s. st_workflow_id s = w) (db_steps d));
          gone = (\<lambda>r. rr_workflow_id r = Some w \<or> rr_operation_id r \<in> Some ` set ops);
          reqs = map rr_request_id (filter gone (db_requests d))
      in d\<lparr>db_workflows := sql_delete (\<lambda>r. wf_id r = w) (db_workflows d),
           db_steps := sql_delete (\<lambda>r. st_workflow_id r = w) (db_steps d),
           db_operations := sql_delete (\<lambda>r. op_workflow_id r = w) (db_operations d),
           db_leases := sql_delete (\<lambda>r. ls_workflow_id r = w) (db_leases d),
           db_events := sql_delete (\<lambda>r. ev_workflow_id r = w) (db_events d),
           db_dependencies := sql_delete (\<lambda>r. dep_workflow_id r = w \<and> (dep_step_index r \<in> set steps \<or> dep_dependency r \<in> set steps))
             (db_dependencies d),
           db_admissions := sql_delete (\<lambda>a. adm_workflow_id a = w \<or> adm_operation_id a \<in> set ops) (db_admissions d),
           db_requests := sql_delete gone (db_requests d),
           db_claims := sql_delete (\<lambda>c. cl_request_id c \<in> set reqs) (db_claims d),
           db_capacity := sql_update (\<lambda>c. cap_resource_request_id c \<in> Some ` set reqs)
             (\<lambda>c. c\<lparr>cap_resource_request_id := None\<rparr>) (db_capacity d)\<rparr>)"

definition age_reasons :: "time \<Rightarrow> int \<Rightarrow> (string \<times> time) list \<Rightarrow> string list" where
  "age_reasons now max_age_days rows =
     (if 0 < max_age_days then map fst (filter (\<lambda>(w, updated). updated < now - max_age_days * 86400000) rows) else [])"

definition count_reasons :: "int \<Rightarrow> string list \<Rightarrow> (string \<times> time) list \<Rightarrow> string list" where
  "count_reasons max_count aged rows =
     (let survivors = filter (\<lambda>(w, _). w \<notin> set aged) rows
      in if 0 < max_count \<and> max_count < int (length survivors)
         then map fst (take (nat (int (length survivors) - max_count)) survivors) else [])"

text \<open>The loop of guarded deletions, with the workflows it really removed.\<close>

fun delete_eligible :: "time \<Rightarrow> string list \<Rightarrow> db \<Rightarrow> db \<times> string list" where
  "delete_eligible now [] d = (d, [])"
| "delete_eligible now (w # ws) d =
     (if sql_exists (\<lambda>r. wf_id r = w \<and> eligible d now r) (db_workflows d)
      then (let (d', removed) = delete_eligible now ws (delete_workflow w d) in (d', w # removed))
      else delete_eligible now ws d)"

definition remaining_rows :: "db \<Rightarrow> nat" where
  "remaining_rows d = sql_count (\<lambda>r. ended_state (wf_state r) \<and> \<not> unsettled_evidence d (wf_id r)) (db_workflows d)"

definition cleanup_workflow_history ::
  "bool \<Rightarrow> bool \<Rightarrow> nat option \<Rightarrow> workflow_history_policy \<Rightarrow> time \<Rightarrow> db \<Rightarrow> db \<times> workflow_history_result" where
  "cleanup_workflow_history root_ok db_ok fail_at policy now d =
     (let none = \<lparr>wh_eligible_rows = 0, wh_removed_rows = 0, wh_removed_for_age = 0, wh_removed_for_count = 0,
            wh_remaining_eligible_rows = 0, wh_protected_unresolved_rows = 0, wh_errors = 0\<rparr> in
      if \<not> root_ok then (d, none\<lparr>wh_errors := 1\<rparr>)
      else if \<not> db_ok then (d, none)
      else
        let protected = sql_count (\<lambda>r. ended_state (wf_state r) \<and> unsettled_evidence d (wf_id r)) (db_workflows d);
            rows = eligible_workflows d now;
            aged = age_reasons now (wp_max_age_days policy) rows;
            counted = count_reasons (wp_max_count policy) aged rows;
            executed = (case fail_at of None \<Rightarrow> aged @ counted | Some k \<Rightarrow> take k (aged @ counted));
            (d', removed) = delete_eligible now executed d;
            removed_age = length (filter (\<lambda>w. w \<in> set aged) removed);
            removed_count = length (filter (\<lambda>w. w \<notin> set aged) removed);
            failed = (fail_at \<noteq> None \<and> aged @ counted \<noteq> []);
            d2 = (if failed then d else d')
        in (d2, \<lparr>wh_eligible_rows = length rows, wh_removed_rows = removed_age + removed_count,
              wh_removed_for_age = removed_age, wh_removed_for_count = removed_count,
              wh_remaining_eligible_rows = remaining_rows d2, wh_protected_unresolved_rows = protected,
              wh_errors = (if failed then 1 else 0)\<rparr>))"

section \<open>Deleting one workflow\<close>

lemma delete_workflow_simps [simp]:
  "db_workflows (delete_workflow w d) = sql_delete (\<lambda>r. wf_id r = w) (db_workflows d)"
  "db_operations (delete_workflow w d) = sql_delete (\<lambda>r. op_workflow_id r = w) (db_operations d)"
  "db_leases (delete_workflow w d) = sql_delete (\<lambda>r. ls_workflow_id r = w) (db_leases d)"
  by (simp_all add: delete_workflow_def Let_def)

text \<open>What deleting workflows keeps: every request that is not released with its claims, and every admission.\<close>

definition keeps_holders :: "db \<Rightarrow> db \<Rightarrow> bool" where
  "keeps_holders d d' \<longleftrightarrow>
     filter (\<lambda>r. rr_state r \<noteq> Released) (db_requests d') = filter (\<lambda>r. rr_state r \<noteq> Released) (db_requests d) \<and>
     (\<forall>r \<in> set (db_requests d). rr_state r \<noteq> Released \<longrightarrow>
        resource_claims_for_request d' (rr_request_id r) = resource_claims_for_request d (rr_request_id r)) \<and>
     db_admissions d' = db_admissions d"

definition retention_inv :: "db \<Rightarrow> bool" where
  "retention_inv d \<longleftrightarrow> attempt_inv d \<and> request_inv d \<and> unique_by wf_id (db_workflows d)"

lemma deleted_requests:
  "db_requests (delete_workflow w d) = sql_delete (request_of_workflow d w) (db_requests d)"
proof -
  have "(rr_workflow_id r = Some w \<or> rr_operation_id r \<in> Some ` set (map op_id (filter (\<lambda>x. op_workflow_id x = w) (db_operations d)))) =
    request_of_workflow d w r" for r by (auto simp: request_of_workflow_def)
  then show ?thesis by (simp add: delete_workflow_def Let_def)
qed

lemma deleted_claims:
  "db_claims (delete_workflow w d) =
     sql_delete (\<lambda>c. cl_request_id c \<in> rr_request_id ` {r \<in> set (db_requests d). request_of_workflow d w r}) (db_claims d)"
proof -
  have "(rr_workflow_id r = Some w \<or> rr_operation_id r \<in> Some ` set (map op_id (filter (\<lambda>x. op_workflow_id x = w) (db_operations d)))) =
    request_of_workflow d w r" for r by (auto simp: request_of_workflow_def)
  then show ?thesis by (simp add: delete_workflow_def Let_def)
qed

lemma deleted_admissions:
  assumes "attempt_inv d" "\<not> unsettled_evidence d w"
  shows "db_admissions (delete_workflow w d) = db_admissions d"
proof -
  have "\<not> (adm_workflow_id a = w \<or> adm_operation_id a \<in> op_id ` {x \<in> set (db_operations d). op_workflow_id x = w})"
    if a: "a \<in> set (db_admissions d)" for a
  proof -
    have other: "adm_workflow_id a \<noteq> w" using assms(2) a by (auto simp: unsettled_evidence_def)
    from assms(1) a obtain r where "r \<in> set (db_operations d)" "op_id r = adm_operation_id a" "op_workflow_id r = adm_workflow_id a"
      by (auto simp: attempt_inv_def admission_backed_def)
    then have same: "op_workflow_id x \<noteq> w" if "x \<in> set (db_operations d)" "op_id x = adm_operation_id a" for x
      using that other assms(1) unique_byD [of op_id "db_operations d" x r] by (auto simp: attempt_inv_def)
    have "adm_operation_id a \<notin> op_id ` {x \<in> set (db_operations d). op_workflow_id x = w}"
      by (rule notI, elim imageE) (use same in auto)
    with other show ?thesis by simp
  qed
  then show ?thesis by (simp add: delete_workflow_def Let_def sql_delete_def filter_id_conv)
qed

lemma settled_requests:
  assumes "\<not> unsettled_evidence d w" "r \<in> set (db_requests d)" "rr_state r \<noteq> Released"
  shows "\<not> request_of_workflow d w r"
  using assms by (auto simp: unsettled_evidence_def)

lemma delete_keeps_holders:
  assumes "retention_inv d" "\<not> unsettled_evidence d w"
  shows "keeps_holders d (delete_workflow w d)"
proof -
  have u: "unique_by rr_request_id (db_requests d)" using assms(1) by (simp add: retention_inv_def request_inv_def)
  have "filter (\<lambda>r. rr_state r \<noteq> Released) (db_requests (delete_workflow w d)) = filter (\<lambda>r. rr_state r \<noteq> Released) (db_requests d)"
    unfolding deleted_requests sql_delete_def filter_filter using settled_requests [OF assms(2)] by (auto intro!: filter_cong)
  moreover have "resource_claims_for_request (delete_workflow w d) (rr_request_id r) = resource_claims_for_request d (rr_request_id r)"
    if r: "r \<in> set (db_requests d)" "rr_state r \<noteq> Released" for r
  proof -
    have "rr_request_id r \<notin> rr_request_id ` {r \<in> set (db_requests d). request_of_workflow d w r}"
      using settled_requests [OF assms(2) r] unique_byD [OF u _ r(1)] by auto
    then have "filter (\<lambda>c. cl_request_id c = rr_request_id r) (db_claims (delete_workflow w d)) =
        filter (\<lambda>c. cl_request_id c = rr_request_id r) (db_claims d)"
      unfolding deleted_claims sql_delete_def filter_filter by (intro filter_cong [OF refl]) metis
    then show ?thesis by (simp add: resource_claims_for_request_def)
  qed
  ultimately show ?thesis
    using assms deleted_admissions [of d w] by (auto simp: keeps_holders_def retention_inv_def)
qed

lemma delete_keeps_inv:
  assumes "retention_inv d" "\<not> unsettled_evidence d w"
  shows "retention_inv (delete_workflow w d)"
proof -
  have inv: "attempt_inv d" "request_inv d" "unique_by wf_id (db_workflows d)" using assms(1) by (simp_all add: retention_inv_def)
  have adm: "db_admissions (delete_workflow w d) = db_admissions d" by (rule deleted_admissions [OF inv(1) assms(2)])
  have other: "adm_workflow_id a \<noteq> w" if "a \<in> set (db_admissions d)" for a
    using assms(2) that by (auto simp: unsettled_evidence_def)
  have "attempt_inv (delete_workflow w d)"
    using inv(1) other
    by (auto simp: attempt_inv_def adm admission_backed_def workflow_limits_def set_sql_delete intro: unique_by_delete) (metis, force)
  moreover have "request_inv (delete_workflow w d)"
    unfolding request_inv_def deleted_requests deleted_claims
  proof (intro conjI)
    let ?P = "request_of_workflow d w"
    show "\<forall>c \<in> set (sql_delete (\<lambda>c. cl_request_id c \<in> rr_request_id ` {r \<in> set (db_requests d). ?P r}) (db_claims d)).
        cl_request_id c \<in> rr_request_id ` set (sql_delete ?P (db_requests d))"
      using inv(2) unfolding set_sql_delete request_inv_def by blast
  qed (use inv(2) in \<open>auto simp: request_inv_def set_sql_delete delete_workflow_def Let_def intro: unique_by_delete\<close>)
  moreover have "unique_by wf_id (db_workflows (delete_workflow w d))" using inv(3) by (simp add: unique_by_delete)
  ultimately show ?thesis by (simp add: retention_inv_def)
qed

lemma eligible_other:
  assumes "retention_inv d" "\<not> unsettled_evidence d w" "wf_id r \<noteq> w"
  shows "eligible (delete_workflow w d) now r \<longleftrightarrow> eligible d now r"
proof -
  let ?d = "delete_workflow w d" and ?v = "wf_id r"
  have ops: "filter (\<lambda>x. op_workflow_id x = ?v) (db_operations ?d) = filter (\<lambda>x. op_workflow_id x = ?v) (db_operations d)"
    using assms(3) by (auto simp: sql_delete_def intro!: filter_cong)
  have req: "request_of_workflow ?d ?v x = request_of_workflow d ?v x" for x
    using assms(3) by (auto simp: request_of_workflow_def set_sql_delete)
  have "(\<exists>x \<in> set (db_requests ?d). rr_state x \<noteq> Released \<and> request_of_workflow d ?v x) \<longleftrightarrow>
      (\<exists>x \<in> set (db_requests d). rr_state x \<noteq> Released \<and> request_of_workflow d ?v x)"
    unfolding deleted_requests set_sql_delete using settled_requests [OF assms(2)] by blast
  moreover have "db_admissions ?d = db_admissions d"
    using deleted_admissions assms(1,2) by (simp add: retention_inv_def)
  ultimately have "unsettled_evidence ?d ?v = unsettled_evidence d ?v"
    using assms(3) by (auto simp: unsettled_evidence_def req set_sql_delete)
  moreover have "leased ?d now ?v = leased d now ?v" using assms(3) by (auto simp: leased_def set_sql_delete)
  ultimately show ?thesis by (simp add: eligible_def)
qed

section \<open>A whole cleanup\<close>

lemma keeps_holders_refl [simp]: "keeps_holders d d"
  by (simp add: keeps_holders_def)

lemma keeps_holders_trans:
  assumes "keeps_holders a b" "keeps_holders b c"
  shows "keeps_holders a c"
proof -
  have "set (filter (\<lambda>r. rr_state r \<noteq> Released) (db_requests b)) = set (filter (\<lambda>r. rr_state r \<noteq> Released) (db_requests a))"
    using assms(1) by (simp add: keeps_holders_def)
  then have "r \<in> set (db_requests b)" if "r \<in> set (db_requests a)" "rr_state r \<noteq> Released" for r
    using that unfolding set_filter by blast
  with assms show ?thesis unfolding keeps_holders_def by simp
qed

lemma eligible_settled: "eligible d now r \<Longrightarrow> \<not> unsettled_evidence d (wf_id r)"
  by (simp add: eligible_def)

lemma delete_eligible_result:
  assumes "delete_eligible now ws d = (d', removed)" "retention_inv d"
  shows "retention_inv d' \<and> keeps_holders d d' \<and>
    db_workflows d' = sql_delete (\<lambda>r. wf_id r \<in> set ws \<and> eligible d now r) (db_workflows d) \<and>
    (\<forall>r \<in> set (db_workflows d'). eligible d' now r = eligible d now r)"
  using assms
proof (induction ws arbitrary: d removed)
  case Nil
  then show ?case by (simp add: sql_delete_def)
next
  case (Cons w ws)
  show ?case
  proof (cases "\<exists>x \<in> set (db_workflows d). wf_id x = w \<and> eligible d now x")
    case False
    then have "(wf_id r \<in> set ws \<and> eligible d now r) = (wf_id r \<in> set (w # ws) \<and> eligible d now r)" if "r \<in> set (db_workflows d)" for r
      using that by auto
    then have "sql_delete (\<lambda>r. wf_id r \<in> set ws \<and> eligible d now r) (db_workflows d) =
        sql_delete (\<lambda>r. wf_id r \<in> set (w # ws) \<and> eligible d now r) (db_workflows d)"
      unfolding sql_delete_def by (intro filter_cong) simp_all
    moreover have "delete_eligible now ws d = (d', removed)" using Cons.prems(1) False by (simp split: if_splits)
    ultimately show ?thesis using Cons.IH [OF _ Cons.prems(2)] by simp
  next
    case True
    then obtain x where x: "x \<in> set (db_workflows d)" "wf_id x = w" "eligible d now x" by blast
    have settled: "\<not> unsettled_evidence d w" using eligible_settled [OF x(3)] x(2) by simp
    let ?d = "delete_workflow w d"
    obtain rest where "delete_eligible now ws ?d = (d', rest)"
      using Cons.prems(1) True by (auto split: if_splits prod.splits)
    note IH = Cons.IH [OF this delete_keeps_inv [OF Cons.prems(2) settled]]
    have same: "eligible ?d now r = eligible d now r" if "r \<in> set (db_workflows ?d)" for r
      using that eligible_other [OF Cons.prems(2) settled] by (simp add: set_sql_delete)
    have "r = x" if "r \<in> set (db_workflows d)" "wf_id r = w" for r
      using that x unique_byD [of wf_id "db_workflows d" r x] Cons.prems(2) by (simp add: retention_inv_def)
    then have "sql_delete (\<lambda>r. wf_id r \<in> set ws \<and> eligible ?d now r) (db_workflows ?d) =
        sql_delete (\<lambda>r. wf_id r \<in> set (w # ws) \<and> eligible d now r) (db_workflows d)"
      using same x(3) unfolding delete_workflow_simps sql_delete_def filter_filter by (intro filter_cong) auto
    moreover have "set (db_workflows d') \<subseteq> set (db_workflows ?d)" using IH by (auto simp: set_sql_delete)
    ultimately show ?thesis
      using IH same keeps_holders_trans [OF delete_keeps_holders [OF Cons.prems(2) settled]] by auto
  qed
qed

text \<open>A cleanup of the workflow history deletes only what has ended and settled: every workflow that is
  gone had completed or was cancelled, had no operation in doubt, no request that was not released, no
  admitted attempt and no unexpired lease; every request that is not released keeps its row and claims,
  every admission stays; and when the transaction fails nothing is deleted.\<close>

theorem workflow_cleanup_safe:
  assumes "retention_inv d" "cleanup_workflow_history root_ok db_ok fail_at policy now d = (d', result)"
  shows "retention_inv d' \<and> keeps_holders d d' \<and> (wh_errors result \<noteq> 0 \<longrightarrow> d' = d) \<and>
    set (db_workflows d') \<subseteq> set (db_workflows d) \<and>
    (\<forall>r \<in> set (db_workflows d). r \<in> set (db_workflows d') \<or> eligible d now r)"
proof -
  obtain ws d1 removed where del: "delete_eligible now ws d = (d1, removed)" and d': "d' = d1 \<or> d' = d"
    and err: "wh_errors result \<noteq> 0 \<longrightarrow> d' = d"
    using assms(2) unfolding cleanup_workflow_history_def Let_def
    by (cases "root_ok \<and> db_ok") (auto split: prod.splits if_splits)
  note res = delete_eligible_result [OF del assms(1)]
  have kept: "set (db_workflows d1) \<subseteq> set (db_workflows d) \<and>
      (\<forall>r \<in> set (db_workflows d). r \<in> set (db_workflows d1) \<or> eligible d now r)"
    using res by (auto simp: set_sql_delete)
  from d' show ?thesis
  proof
    assume "d' = d1"
    with res kept err show ?thesis by blast
  next
    assume "d' = d"
    with assms(1) show ?thesis by simp
  qed
qed

lemma filter_untaken:
  assumes "distinct (map fst xs)"
  shows "filter (\<lambda>x. fst x \<notin> fst ` set (take k xs)) xs = drop k xs"
proof -
  have "distinct (map fst (take k xs) @ map fst (drop k xs))"
    unfolding map_append [symmetric] append_take_drop_id by (rule assms)
  then have "filter (\<lambda>x. fst x \<notin> fst ` set (take k xs)) (drop k xs) = drop k xs" by (auto simp: filter_id_conv)
  moreover have "filter (\<lambda>x. fst x \<notin> fst ` set (take k xs)) (take k xs) = []" by (simp add: filter_empty_conv)
  ultimately show ?thesis
    using filter_append [of "\<lambda>x. fst x \<notin> fst ` set (take k xs)" "take k xs" "drop k xs"] by simp
qed

lemma key_in_filtered:
  assumes "distinct (map fst xs)" "x \<in> set xs"
  shows "fst x \<in> fst ` {y \<in> set xs. P y} \<longleftrightarrow> P x"
proof
  assume "fst x \<in> fst ` {y \<in> set xs. P y}"
  then obtain y where "y \<in> set xs" "P y" "fst y = fst x" by (metis (mono_tags, lifting) imageE mem_Collect_eq)
  moreover from this assms have "y = x" by (auto simp: distinct_map dest: inj_onD)
  ultimately show "P x" by simp
qed (use assms(2) in simp)

lemma eligible_after:
  assumes "db_workflows d' = sql_delete (\<lambda>r. wf_id r \<in> W \<and> eligible d now r) (db_workflows d)"
    "\<forall>r \<in> set (db_workflows d'). eligible d' now r = eligible d now r"
  shows "eligible_workflows d' now = filter (\<lambda>x. fst x \<notin> W) (eligible_workflows d now)"
proof -
  have "filter (eligible d' now) (db_workflows d') = filter (eligible d now) (db_workflows d')"
    using assms(2) by (intro filter_cong) auto
  also have "\<dots> = filter (\<lambda>r. wf_id r \<notin> W) (filter (eligible d now) (db_workflows d))"
    unfolding assms(1) sql_delete_def filter_filter by (intro filter_cong) auto
  finally show ?thesis by (simp add: eligible_workflows_def filter_sort filter_map comp_def)
qed

lemma distinct_eligible: "retention_inv d \<Longrightarrow> distinct (map fst (eligible_workflows d now))"
  by (simp add: eligible_workflows_def comp_def retention_inv_def unique_by_def distinct_map inj_on_def)

text \<open>A cleanup whose transaction succeeds brings the workflow history within its policy: at most \<open>max_count\<close>
  workflows that may be deleted are left, none of them older than \<open>max_age_days\<close>, and they are the newest.\<close>

theorem workflow_cleanup_bounded:
  assumes "retention_inv d" "cleanup_workflow_history True True None policy now d = (d', result)"
  shows "(\<exists>k. eligible_workflows d' now =
      drop k (filter (\<lambda>(w, updated). wp_max_age_days policy \<le> 0 \<or> now - wp_max_age_days policy * 86400000 \<le> updated)
        (eligible_workflows d now))) \<and>
    (wp_max_count policy \<le> 0 \<or> int (length (eligible_workflows d' now)) \<le> wp_max_count policy)"
proof -
  let ?rows = "eligible_workflows d now"
  let ?aged = "age_reasons now (wp_max_age_days policy) ?rows"
  let ?counted = "count_reasons (wp_max_count policy) ?aged ?rows"
  define fresh where "fresh = filter (\<lambda>(w, updated). wp_max_age_days policy \<le> 0 \<or> now - wp_max_age_days policy * 86400000 \<le> updated) ?rows"
  have dist: "distinct (map fst ?rows)" by (rule distinct_eligible [OF assms(1)])
  obtain removed where "delete_eligible now (?aged @ ?counted) d = (d', removed)"
    using assms(2) by (auto simp: cleanup_workflow_history_def Let_def split: prod.splits)
  from delete_eligible_result [OF this assms(1)]
  have after: "eligible_workflows d' now = filter (\<lambda>x. fst x \<notin> set (?aged @ ?counted)) ?rows" by (intro eligible_after) auto
  have aged: "fst x \<notin> set ?aged \<longleftrightarrow> wp_max_age_days policy \<le> 0 \<or> now - wp_max_age_days policy * 86400000 \<le> snd x"
    if "x \<in> set ?rows" for x
    using key_in_filtered [OF dist that, of "\<lambda>x. snd x < now - wp_max_age_days policy * 86400000"]
    by (simp add: age_reasons_def not_less not_le split_beta)
  have fresh: "filter (\<lambda>(w, _). w \<notin> set ?aged) ?rows = fresh"
    unfolding fresh_def using aged by (intro filter_cong) (auto simp: split_beta)
  have "distinct (map fst fresh)" unfolding fresh_def using dist by (rule distinct_map_filter)
  note drop = filter_untaken [OF this]
  have split: "eligible_workflows d' now = filter (\<lambda>x. fst x \<notin> set ?counted) fresh"
    unfolding after fresh [symmetric] filter_filter by (intro filter_cong) auto
  show ?thesis
  proof (cases "0 < wp_max_count policy \<and> wp_max_count policy < int (length fresh)")
    case True
    then have "?counted = map fst (take (nat (int (length fresh) - wp_max_count policy)) fresh)"
      unfolding count_reasons_def fresh Let_def by simp
    with split drop have "eligible_workflows d' now = drop (nat (int (length fresh) - wp_max_count policy)) fresh" by simp
    with True show ?thesis unfolding fresh_def by auto
  next
    case False
    then have "eligible_workflows d' now = drop 0 fresh" unfolding split count_reasons_def fresh Let_def by auto
    with False show ?thesis unfolding fresh_def [symmetric] by (intro conjI exI [of _ 0]) auto
  qed
qed

section \<open>Examples\<close>

definition example_workflow :: "string \<Rightarrow> workflow_state \<Rightarrow> time \<Rightarrow> workflow_row" where
  "example_workflow w s updated = \<lparr>wf_id = w, wf_idempotency_key = None, wf_definition = JNull, wf_inputs = JNull,
     wf_inputs_hash = None, wf_state = s, wf_current_step = 0, wf_version = 1, wf_created_at = 0, wf_updated_at = updated,
     wf_last_error = None, wf_execution_definition = None, wf_execution_hash = None, wf_execution_compatible = 1,
     wf_cancel_requested_at = None, wf_cancel_reason = None, wf_execution_mode = ''dag'', wf_graph_contract_version = 1,
     wf_max_parallel_steps = 1, wf_total_timeout_sec = None\<rparr>"

definition example_workflows :: db where
  "example_workflows = empty_db\<lparr>db_workflows := [example_workflow ''w1'' WCompleted 10, example_workflow ''w2'' WCancelled 20,
     example_workflow ''w3'' WRunning 5]\<rparr>"

definition example_workflow_cleanup :: "db \<times> workflow_history_result" where
  "example_workflow_cleanup = cleanup_workflow_history True True None (workflow_policy_from_settings 30 1 60) 100 example_workflows"

lemma example_workflows_inv: "retention_inv example_workflows"
  by (simp add: retention_inv_def attempt_inv_def request_inv_def unique_by_def example_workflows_def empty_db_def example_workflow_def)

lemma example_workflow_removes: "map wf_id (db_workflows (fst example_workflow_cleanup)) = [''w2'', ''w3'']"
  by code_simp

lemma workflow_cleanup_safe_witness: "keeps_holders example_workflows (fst example_workflow_cleanup)"
  unfolding example_workflow_cleanup_def using workflow_cleanup_safe [OF example_workflows_inv surjective_pairing] by blast

lemma workflow_cleanup_bounded_witness: "length (eligible_workflows (fst example_workflow_cleanup) 100) \<le> 1"
  using workflow_cleanup_bounded [OF example_workflows_inv surjective_pairing, of "workflow_policy_from_settings 30 1 60" 100]
  by (simp add: example_workflow_cleanup_def workflow_policy_from_settings_def)

end
