(* ===== verification/Artifact_Retention.thy ===== *)
theory Artifact_Retention
  imports Workflow_Db
begin

text \<open>
  Retention of output artifacts (\<open>core/artifact_retention.py\<close>) and the background manager that the artifact, job
  and workflow retention share in structure. What happens when a file is removed is a parameter of the
  cleanup: the file is gone already, \<open>stat\<close> or \<open>unlink\<close> fails, it was written again meanwhile, or it is removed.
\<close>

section \<open>Cleaning up artifacts\<close>

record artifact_policy =
  ap_max_bytes :: int
  ap_max_age_sec :: rat
  ap_max_count :: int
  ap_cleanup_interval_sec :: rat
  ap_recent_grace_sec :: rat

record artifact_entry =
  ae_path :: string
  ae_size :: int
  ae_mtime :: rat

datatype file_state = FileGone | StatFails | FileAt rat bool

text \<open>\<open>FileAt mtime ok\<close>: the file is there with this modification time, and \<open>unlink\<close> succeeds or raises.\<close>

record tally =
  ty_errors :: nat
  ty_files :: nat
  ty_bytes :: int

definition remove_artifact :: "artifact_policy \<Rightarrow> rat \<Rightarrow> (string \<Rightarrow> file_state) \<Rightarrow> artifact_entry \<Rightarrow> tally \<Rightarrow> bool \<times> tally" where
  "remove_artifact policy current files e t =
     (case files (ae_path e) of
        FileGone \<Rightarrow> (True, t)
      | StatFails \<Rightarrow> (False, t\<lparr>ty_errors := Suc (ty_errors t)\<rparr>)
      | FileAt mtime ok \<Rightarrow>
          if 0 < ap_recent_grace_sec policy \<and> current - ap_recent_grace_sec policy \<le> mtime then (False, t)
          else if \<not> ok then (False, t\<lparr>ty_errors := Suc (ty_errors t)\<rparr>)
          else (True, t\<lparr>ty_files := Suc (ty_files t), ty_bytes := ty_bytes t + ae_size e\<rparr>))"

fun artifact_age_pass ::
  "(artifact_entry \<Rightarrow> tally \<Rightarrow> bool \<times> tally) \<Rightarrow> (artifact_entry \<Rightarrow> bool) \<Rightarrow> rat \<Rightarrow> artifact_entry list \<Rightarrow> tally \<Rightarrow>
   artifact_entry list \<times> nat \<times> tally" where
  "artifact_age_pass remove protected cutoff [] t = ([], 0, t)"
| "artifact_age_pass remove protected cutoff (e # es) t =
     (if ae_mtime e < cutoff \<and> \<not> protected e
      then (case remove e t of
          (True, t1) \<Rightarrow> (let (kept, n, t2) = artifact_age_pass remove protected cutoff es t1 in (kept, Suc n, t2))
        | (False, t1) \<Rightarrow> (let (kept, n, t2) = artifact_age_pass remove protected cutoff es t1 in (e # kept, n, t2)))
      else (let (kept, n, t1) = artifact_age_pass remove protected cutoff es t in (e # kept, n, t1)))"

text \<open>The two loops over \<open>index\<close>; \<open>load\<close> is the number or the bytes of the survivors, \<open>weight e\<close> what an entry
  contributes to it.\<close>

function artifact_limit_loop ::
  "(artifact_entry \<Rightarrow> tally \<Rightarrow> bool \<times> tally) \<Rightarrow> (artifact_entry \<Rightarrow> bool) \<Rightarrow> (artifact_entry \<Rightarrow> int) \<Rightarrow> int \<Rightarrow> int \<Rightarrow> nat \<Rightarrow>
   artifact_entry list \<Rightarrow> tally \<Rightarrow> artifact_entry list \<times> nat \<times> tally" where
  "artifact_limit_loop remove protected weight limit load index survivors t =
     (if limit < load \<and> index < length survivors
      then (let e = survivors ! index in
        if protected e then artifact_limit_loop remove protected weight limit load (Suc index) survivors t
        else (case remove e t of
            (True, t1) \<Rightarrow>
              (let (kept, n, t2) = artifact_limit_loop remove protected weight limit (load - weight e) index
                 (take index survivors @ drop (Suc index) survivors) t1 in (kept, Suc n, t2))
          | (False, t1) \<Rightarrow> artifact_limit_loop remove protected weight limit load (Suc index) survivors t1))
      else (survivors, 0, t))"
  by pat_completeness auto
termination
  by (relation "measure (\<lambda>(_, _, _, _, _, index, survivors, _). length survivors - index)") auto

declare artifact_limit_loop.simps [simp del]

text \<open>One candidate of \<open>directory.glob\<close>, by what \<open>lstat\<close> says of it.\<close>

datatype candidate = PlainFile string int rat | NotPlain | Vanished | LstatFails

fun scan_candidates :: "candidate list \<Rightarrow> artifact_entry list \<times> nat" where
  "scan_candidates [] = ([], 0)"
| "scan_candidates (c # cs) =
     (let (entries, errors) = scan_candidates cs in
      case c of
        PlainFile path bytes mtime \<Rightarrow> (\<lparr>ae_path = path, ae_size = bytes, ae_mtime = mtime\<rparr> # entries, errors)
      | NotPlain \<Rightarrow> (entries, errors)
      | Vanished \<Rightarrow> (entries, errors)
      | LstatFails \<Rightarrow> (entries, Suc errors))"

definition scan_artifacts :: "candidate list option \<Rightarrow> artifact_entry list \<times> nat" where
  "scan_artifacts listing =
     (case listing of
        None \<Rightarrow> ([], 1)
      | Some cs \<Rightarrow> (let (entries, errors) = scan_candidates cs
                    in (sort_key (\<lambda>e. (ae_mtime e, casefold (ae_path e))) entries, errors)))"

record artifact_result =
  ar_scanned_files :: nat
  ar_scanned_bytes :: int
  ar_removed_files :: nat
  ar_removed_bytes :: int
  ar_removed_for_age :: nat
  ar_removed_for_count :: nat
  ar_removed_for_quota :: nat
  ar_remaining_files :: nat
  ar_remaining_bytes :: int
  ar_quota_satisfied :: bool
  ar_safety_floor_preserved :: bool
  ar_errors :: nat

definition protected_artifact :: "artifact_policy \<Rightarrow> rat \<Rightarrow> string set \<Rightarrow> artifact_entry list \<Rightarrow> artifact_entry \<Rightarrow> bool" where
  "protected_artifact policy current protected_paths entries e \<longleftrightarrow>
     ae_path e \<in> protected_paths \<or> ae_path e = ae_path (last entries) \<or>
     (0 < ap_recent_grace_sec policy \<and>
       list_ex (\<lambda>x. ae_path x = ae_path e \<and> current - ap_recent_grace_sec policy \<le> ae_mtime x) entries)"

text \<open>The passes over a non-empty scan: the survivors, the three counts and the tally.\<close>

definition artifact_passes ::
  "artifact_policy \<Rightarrow> rat \<Rightarrow> (string \<Rightarrow> file_state) \<Rightarrow> (artifact_entry \<Rightarrow> bool) \<Rightarrow> nat \<Rightarrow> artifact_entry list \<Rightarrow>
   artifact_entry list \<times> nat \<times> nat \<times> nat \<times> tally" where
  "artifact_passes policy current files protected errors entries =
     (let remove = remove_artifact policy current files;
          t0 = \<lparr>ty_errors = errors, ty_files = 0, ty_bytes = 0\<rparr>;
          (s1, aged, t1) = (if 0 < ap_max_age_sec policy
             then artifact_age_pass remove protected (current - ap_max_age_sec policy) entries t0 else (entries, 0, t0));
          (s2, counted, t2) = (if 0 < ap_max_count policy
             then artifact_limit_loop remove protected (\<lambda>_. 1) (ap_max_count policy) (int (length s1)) 0 s1 t1 else (s1, 0, t1));
          (s3, quota, t3) = (if 0 < ap_max_bytes policy
             then artifact_limit_loop remove protected ae_size (ap_max_bytes policy) (sum_list (map ae_size s2)) 0 s2 t2
             else (s2, 0, t2))
      in (s3, aged, counted, quota, t3))"

definition no_artifacts :: "nat \<Rightarrow> artifact_result" where
  "no_artifacts errors = \<lparr>ar_scanned_files = 0, ar_scanned_bytes = 0, ar_removed_files = 0, ar_removed_bytes = 0,
     ar_removed_for_age = 0, ar_removed_for_count = 0, ar_removed_for_quota = 0, ar_remaining_files = 0,
     ar_remaining_bytes = 0, ar_quota_satisfied = True, ar_safety_floor_preserved = False, ar_errors = errors\<rparr>"

text \<open>\<open>root_ok\<close> is the check against links in the path before and after the directory is made.\<close>

definition cleanup_artifacts ::
  "bool \<Rightarrow> artifact_policy \<Rightarrow> rat \<Rightarrow> string set \<Rightarrow> (string \<Rightarrow> file_state) \<Rightarrow> candidate list option \<Rightarrow>
   artifact_entry list \<times> artifact_result" where
  "cleanup_artifacts root_ok policy current protected_paths files listing =
     (if \<not> root_ok then ([], no_artifacts 1)
      else
        let (entries, errors) = scan_artifacts listing in
        if entries = [] then ([], no_artifacts errors)
        else
          let protected = protected_artifact policy current protected_paths entries;
              (kept, aged, counted, quota, t) = artifact_passes policy current files protected errors entries;
              remaining_bytes = sum_list (map ae_size kept)
          in (kept, \<lparr>ar_scanned_files = length entries, ar_scanned_bytes = sum_list (map ae_size entries),
                ar_removed_files = ty_files t, ar_removed_bytes = ty_bytes t, ar_removed_for_age = aged,
                ar_removed_for_count = counted, ar_removed_for_quota = quota, ar_remaining_files = length kept,
                ar_remaining_bytes = remaining_bytes,
                ar_quota_satisfied = (ap_max_bytes policy \<le> 0 \<or> remaining_bytes \<le> ap_max_bytes policy),
                ar_safety_floor_preserved = (kept \<noteq> []), ar_errors = ty_errors t\<rparr>))"

subsection \<open>What a cleanup keeps\<close>

text \<open>An entry may be removed only if it is not protected, and its file is gone or was not written within the
  grace period.\<close>

definition may_remove :: "artifact_policy \<Rightarrow> rat \<Rightarrow> (string \<Rightarrow> file_state) \<Rightarrow> artifact_entry \<Rightarrow> bool" where
  "may_remove policy current files e \<longleftrightarrow>
     (case files (ae_path e) of
        FileGone \<Rightarrow> True | StatFails \<Rightarrow> False
      | FileAt mtime ok \<Rightarrow> ok \<and> \<not> (0 < ap_recent_grace_sec policy \<and> current - ap_recent_grace_sec policy \<le> mtime))"

lemma remove_artifact_iff: "fst (remove_artifact policy current files e t) \<longleftrightarrow> may_remove policy current files e"
  by (simp add: remove_artifact_def may_remove_def split: file_state.splits)

lemma remove_artifact_cases:
  obtains (removed) t' where "remove_artifact policy current files e t = (True, t')" "may_remove policy current files e"
  | (kept) t' where "remove_artifact policy current files e t = (False, t')" "\<not> may_remove policy current files e"
  using remove_artifact_iff [of policy current files e t] by (cases "remove_artifact policy current files e t") auto

lemma age_pass_keeps:
  assumes "artifact_age_pass (remove_artifact policy current files) protected cutoff es t = (kept, n, t')"
  shows "kept = filter (\<lambda>e. \<not> (ae_mtime e < cutoff \<and> \<not> protected e \<and> may_remove policy current files e)) es"
  using assms
proof (induction es arbitrary: t kept n t')
  case (Cons e es)
  show ?case
  proof (cases "ae_mtime e < cutoff \<and> \<not> protected e")
    case True
    show ?thesis
    proof (cases rule: remove_artifact_cases [of policy current files e t])
      case (removed t1)
      obtain kept1 n1 t2 where rec: "artifact_age_pass (remove_artifact policy current files) protected cutoff es t1 = (kept1, n1, t2)"
        by (cases "artifact_age_pass (remove_artifact policy current files) protected cutoff es t1") auto
      from Cons.IH [OF rec] Cons.prems True removed rec show ?thesis by auto
    next
      case (kept t1)
      obtain kept1 n1 t2 where rec: "artifact_age_pass (remove_artifact policy current files) protected cutoff es t1 = (kept1, n1, t2)"
        by (cases "artifact_age_pass (remove_artifact policy current files) protected cutoff es t1") auto
      from Cons.IH [OF rec] Cons.prems True kept rec show ?thesis by auto
    qed
  next
    case False
    obtain kept1 n1 t2 where rec: "artifact_age_pass (remove_artifact policy current files) protected cutoff es t = (kept1, n1, t2)"
      by (cases "artifact_age_pass (remove_artifact policy current files) protected cutoff es t") auto
    from Cons.IH [OF rec] Cons.prems False rec show ?thesis by auto
  qed
qed simp

text \<open>What no pass can remove.\<close>

definition stuck :: "artifact_policy \<Rightarrow> rat \<Rightarrow> (string \<Rightarrow> file_state) \<Rightarrow> (artifact_entry \<Rightarrow> bool) \<Rightarrow> artifact_entry \<Rightarrow> bool" where
  "stuck policy current files protected e \<longleftrightarrow> protected e \<or> \<not> may_remove policy current files e"

lemma filter_stuck_drop:
  assumes "index < length es" "\<not> P (es ! index)"
  shows "filter P (take index es @ drop (Suc index) es) = filter P es"
proof -
  have "es = take index es @ es ! index # drop (Suc index) es" using assms(1) by (simp add: id_take_nth_drop)
  then have "filter P es = filter P (take index es @ es ! index # drop (Suc index) es)" by simp
  with assms(2) show ?thesis by simp
qed

lemma sum_list_drop:
  fixes weight :: "'a \<Rightarrow> int"
  assumes "index < length es"
  shows "sum_list (map weight (take index es @ drop (Suc index) es)) = sum_list (map weight es) - weight (es ! index)"
proof -
  have "es = take index es @ es ! index # drop (Suc index) es" using assms by (simp add: id_take_nth_drop)
  then have "sum_list (map weight es) = sum_list (map weight (take index es @ es ! index # drop (Suc index) es))" by simp
  then show ?thesis by simp
qed

text \<open>A limit loop keeps every stuck entry, and ends within the limit or with stuck entries only.\<close>

lemma limit_loop_result:
  assumes "artifact_limit_loop (remove_artifact policy current files) protected weight limit load index es t = (kept, n, t')"
    "index \<le> length es" "load = sum_list (map weight es)" "list_all (stuck policy current files protected) (take index es)"
  shows "filter (stuck policy current files protected) kept = filter (stuck policy current files protected) es \<and>
    set kept \<subseteq> set es \<and> length kept \<le> length es \<and>
    (sum_list (map weight kept) \<le> limit \<or> list_all (stuck policy current files protected) kept)"
  using assms
proof (induction "remove_artifact policy current files" protected weight limit load index es t arbitrary: kept n t'
    rule: artifact_limit_loop.induct)
  case (1 protected weight limit load index es t)
  let ?stuck = "stuck policy current files protected"
  note unfolded = "1.prems"(1) [unfolded artifact_limit_loop.simps [of _ protected weight limit load index es t] Let_def]
  show ?case
  proof (cases "limit < load \<and> index < length es")
    case False
    then have "kept = es" using unfolded by auto
    with False "1.prems" show ?thesis by auto
  next
    case True
    let ?e = "es ! index"
    have next_take: "list_all ?stuck (take (Suc index) es)" if "?stuck ?e"
      using that True "1.prems"(4) by (simp add: take_Suc_conv_app_nth)
    show ?thesis
    proof (cases "protected ?e")
      case prot: True
      then have "?stuck ?e" by (simp add: stuck_def)
      with True prot unfolded "1.hyps"(1) [OF True refl prot _ _ "1.prems"(3) next_take] show ?thesis by simp
    next
      case free: False
      show ?thesis
      proof (cases rule: remove_artifact_cases [of policy current files ?e t])
        case (kept t1)
        then have "?stuck ?e" by (simp add: stuck_def)
        with True free kept unfolded "1.hyps"(3) [OF True refl free kept(1) [symmetric] refl _ _ "1.prems"(3) next_take] show ?thesis by simp
      next
        case (removed t1)
        let ?es = "take index es @ drop (Suc index) es"
        have nostuck: "\<not> ?stuck ?e" using free removed by (simp add: stuck_def)
        obtain n1 t2 where rec: "artifact_limit_loop (remove_artifact policy current files) protected weight limit (load - weight ?e) index ?es t1 = (kept, n1, t2)"
          using unfolded True free removed(1) by (auto split: prod.splits)
        have es: "set ?es \<subseteq> set es" using set_take_subset set_drop_subset by fastforce
        have "index \<le> length ?es" "list_all ?stuck (take index ?es)" using "1.prems"(4) True by (simp, linarith, simp)
        moreover have "load - weight ?e = sum_list (map weight ?es)" using "1.prems"(3) True sum_list_drop [of index es weight] by simp
        ultimately have "filter ?stuck kept = filter ?stuck ?es \<and> set kept \<subseteq> set ?es \<and> length kept \<le> length ?es \<and>
            (sum_list (map weight kept) \<le> limit \<or> list_all ?stuck kept)"
          using "1.hyps"(2) [OF True refl free removed(1) [symmetric] refl rec] by blast
        with es filter_stuck_drop [of index es ?stuck] nostuck True show ?thesis by auto
      qed
    qed
  qed
qed

lemma stuck_after_age:
  assumes "kept = filter (\<lambda>e. \<not> (ae_mtime e < cutoff \<and> \<not> protected e \<and> may_remove policy current files e)) es"
  shows "filter (stuck policy current files protected) kept = filter (stuck policy current files protected) es \<and> set kept \<subseteq> set es"
  unfolding assms filter_filter by (auto simp: stuck_def intro!: filter_cong)

text \<open>Every pass keeps the stuck entries; each limit that is set holds at the end unless only they are left.\<close>

lemma passes_result:
  assumes "artifact_passes policy current files protected errors es = (kept, aged, counted, quota, t)"
  shows "filter (stuck policy current files protected) kept = filter (stuck policy current files protected) es \<and>
    set kept \<subseteq> set es \<and>
    (ap_max_count policy \<le> 0 \<or> int (length kept) \<le> ap_max_count policy \<or> list_all (stuck policy current files protected) kept) \<and>
    (ap_max_bytes policy \<le> 0 \<or> sum_list (map ae_size kept) \<le> ap_max_bytes policy \<or> list_all (stuck policy current files protected) kept)"
proof -
  let ?remove = "remove_artifact policy current files" and ?stuck = "stuck policy current files protected"
  let ?t0 = "\<lparr>ty_errors = errors, ty_files = 0, ty_bytes = 0\<rparr>"
  obtain s1 n1 t1 where 1: "(if 0 < ap_max_age_sec policy
      then artifact_age_pass ?remove protected (current - ap_max_age_sec policy) es ?t0 else (es, 0, ?t0)) = (s1, n1, t1)"
    by (metis prod_cases3)
  obtain s2 n2 t2 where 2: "(if 0 < ap_max_count policy
      then artifact_limit_loop ?remove protected (\<lambda>_. 1) (ap_max_count policy) (int (length s1)) 0 s1 t1 else (s1, 0, t1)) = (s2, n2, t2)"
    by (metis prod_cases3)
  obtain s3 n3 t3 where 3: "(if 0 < ap_max_bytes policy
      then artifact_limit_loop ?remove protected ae_size (ap_max_bytes policy) (sum_list (map ae_size s2)) 0 s2 t2
      else (s2, 0, t2)) = (s3, n3, t3)"
    by (metis prod_cases3)
  have kept: "kept = s3" using assms unfolding artifact_passes_def Let_def 1 2 3 prod.case by simp
  have "filter ?stuck s1 = filter ?stuck es \<and> set s1 \<subseteq> set es"
  proof (cases "0 < ap_max_age_sec policy")
    case True
    with 1 have "artifact_age_pass ?remove protected (current - ap_max_age_sec policy) es ?t0 = (s1, n1, t1)" by simp
    from stuck_after_age [OF age_pass_keeps [OF this]] show ?thesis .
  qed (use 1 in simp)
  moreover have s2: "filter ?stuck s2 = filter ?stuck s1 \<and> set s2 \<subseteq> set s1 \<and>
      (ap_max_count policy \<le> 0 \<or> int (length s2) \<le> ap_max_count policy \<or> list_all ?stuck s2)"
  proof (cases "0 < ap_max_count policy")
    case True
    with 2 have loop: "artifact_limit_loop ?remove protected (\<lambda>_. 1) (ap_max_count policy) (int (length s1)) 0 s1 t1 = (s2, n2, t2)" by simp
    have "int (length s1) = sum_list (map (\<lambda>_. 1) s1)" by (simp add: sum_list_triv)
    from limit_loop_result [OF loop _ this] show ?thesis by (simp add: sum_list_triv)
  qed (use 2 in simp)
  moreover have s3: "filter ?stuck s3 = filter ?stuck s2 \<and> set s3 \<subseteq> set s2 \<and> length s3 \<le> length s2 \<and>
      (ap_max_bytes policy \<le> 0 \<or> sum_list (map ae_size s3) \<le> ap_max_bytes policy \<or> list_all ?stuck s3)"
  proof (cases "0 < ap_max_bytes policy")
    case True
    with 3 have loop: "artifact_limit_loop ?remove protected ae_size (ap_max_bytes policy) (sum_list (map ae_size s2)) 0 s2 t2 = (s3, n3, t3)"
      by simp
    from limit_loop_result [OF loop _ refl] show ?thesis by simp
  qed (use 3 in simp)
  moreover have "ap_max_count policy \<le> 0 \<or> int (length s3) \<le> ap_max_count policy \<or> list_all ?stuck s3"
  proof -
    have "list_all ?stuck s3" if "list_all ?stuck s2" using that s3 unfolding list_all_iff by blast
    moreover have "int (length s3) \<le> int (length s2)" using s3 by simp
    ultimately show ?thesis using s2 by linarith
  qed
  ultimately show ?thesis unfolding kept by (metis subset_trans)
qed

text \<open>C25. A cleanup of artifacts never removes a protected one: the paths its caller protects, the newest artifact
  and those written within the grace period all survive in their order, and the limits on number and size
  hold afterwards
  unless everything left is protected or could not be removed.\<close>

theorem artifact_cleanup_safe:
  assumes "cleanup_artifacts True policy current protected_paths files (Some listing) = (kept, result)"
    "entries = fst (scan_artifacts (Some listing))" "entries \<noteq> []"
  shows "filter (protected_artifact policy current protected_paths entries) kept =
      filter (protected_artifact policy current protected_paths entries) entries \<and>
    last entries \<in> set kept \<and> set kept \<subseteq> set entries \<and>
    (ar_quota_satisfied result \<and> (ap_max_count policy \<le> 0 \<or> int (length kept) \<le> ap_max_count policy) \<or>
     list_all (stuck policy current files (protected_artifact policy current protected_paths entries)) kept)"
proof -
  let ?P = "protected_artifact policy current protected_paths entries"
  obtain errors where scan: "scan_artifacts (Some listing) = (entries, errors)" using assms(2) by (metis prod.collapse)
  obtain s a c q t where passes: "artifact_passes policy current files ?P errors entries = (s, a, c, q, t)"
    by (metis prod_cases5)
  have kept: "kept = s" "ar_quota_satisfied result = (ap_max_bytes policy \<le> 0 \<or> sum_list (map ae_size s) \<le> ap_max_bytes policy)"
    using assms(1,3) unfolding cleanup_artifacts_def scan Let_def by (auto simp: passes)
  note res = passes_result [OF passes]
  have sub: "filter ?P xs = filter ?P (filter (stuck policy current files ?P) xs)" for xs
    unfolding filter_filter by (rule filter_cong) (auto simp: stuck_def)
  have same: "filter ?P s = filter ?P entries" using res sub [of s] sub [of entries] by simp
  have "last entries \<in> set (filter ?P entries)" using assms(3) by (simp add: protected_artifact_def)
  then have "last entries \<in> set s" unfolding same [symmetric] by simp
  with same res kept show ?thesis by auto
qed

definition example_artifacts :: "candidate list" where
  "example_artifacts = [PlainFile ''b.bin'' 50 20, PlainFile ''a.bin'' 60 10, PlainFile ''c.bin'' 70 90, NotPlain]"

definition example_artifact_policy :: artifact_policy where
  "example_artifact_policy = \<lparr>ap_max_bytes = 125, ap_max_age_sec = 1000, ap_max_count = 0, ap_cleanup_interval_sec = 0,
     ap_recent_grace_sec = 60\<rparr>"

lemma artifact_cleanup_example:
  "map ae_path (fst (cleanup_artifacts True example_artifact_policy 100 {} (\<lambda>p. FileAt 20 True) (Some example_artifacts))) =
     [''b.bin'', ''c.bin'']"
  by code_simp

lemma artifact_cleanup_safe_witness:
  "last (fst (scan_artifacts (Some example_artifacts))) \<in>
     set (fst (cleanup_artifacts True example_artifact_policy 100 {} (\<lambda>p. FileAt 20 True) (Some example_artifacts)))"
proof -
  have "fst (scan_artifacts (Some example_artifacts)) \<noteq> []" by code_simp
  from artifact_cleanup_safe [OF surjective_pairing refl this] show ?thesis by blast
qed

end
