(* ===== verification/Retention_Manager.thy ===== *)
theory Retention_Manager
  imports Prelude
begin

text \<open>
  The background thread that runs cleanups: \<open>ArtifactRetentionManager\<close> of \<open>core/artifact_retention.py\<close>. The
  managers of \<open>core/job_retention.py\<close> and \<open>core/workflow_retention.py\<close> are the same without protected paths. A
  step is one critical section under the condition's lock, or the end of a cleanup, so that calls of
  \<open>schedule\<close> may come between any two sections of the thread.
\<close>

datatype thread_phase = NotStarted | AtCheck | Cleaning "string set"

record manager =
  mg_dirty :: bool
  mg_running :: bool
  mg_protected :: "string set"
  mg_thread :: thread_phase
  mg_last_result :: "string option"
  mg_last_error :: "string option"

definition new_manager :: manager where
  "new_manager = \<lparr>mg_dirty = False, mg_running = False, mg_protected = {}, mg_thread = NotStarted,
     mg_last_result = None, mg_last_error = None\<rparr>"

definition schedule :: "string option \<Rightarrow> manager \<Rightarrow> manager" where
  "schedule path m =
     (let m1 = m\<lparr>mg_protected := mg_protected m \<union> set_option path, mg_dirty := True\<rparr>
      in if mg_running m1 then m1 else m1\<lparr>mg_running := True, mg_thread := AtCheck\<rparr>)"

definition run_check :: "manager \<Rightarrow> manager" where
  "run_check m =
     (if \<not> mg_dirty m then m\<lparr>mg_running := False, mg_thread := NotStarted\<rparr>
      else m\<lparr>mg_dirty := False, mg_protected := {}, mg_thread := Cleaning (mg_protected m)\<rparr>)"

text \<open>A cleanup ends with a result or an exception, which only differ in what is recorded.\<close>

definition run_cleanup :: "string + string \<Rightarrow> manager \<Rightarrow> manager" where
  "run_cleanup outcome m =
     (case outcome of
        Inl error \<Rightarrow> m\<lparr>mg_last_error := Some error, mg_thread := AtCheck\<rparr>
      | Inr result \<Rightarrow> m\<lparr>mg_last_result := Some result, mg_last_error := None, mg_thread := AtCheck\<rparr>)"

text \<open>\<open>flush\<close> returns true when it sees the thread ended, and false at its deadline; \<open>seen\<close> are the states it
  wakes in before that.\<close>

fun flush :: "manager list \<Rightarrow> bool" where
  "flush [] = False"
| "flush (m # seen) = (if \<not> mg_running m then True else flush seen)"

text \<open>What happened, newest first.\<close>

datatype event = Scheduled "string option" | Started "string set"

inductive manager_step :: "manager \<times> event list \<Rightarrow> manager \<times> event list \<Rightarrow> bool" where
  step_schedule: "manager_step (m, tr) (schedule path m, Scheduled path # tr)"
| step_start: "mg_thread m = AtCheck \<Longrightarrow> mg_dirty m \<Longrightarrow> manager_step (m, tr) (run_check m, Started (mg_protected m) # tr)"
| step_stop: "mg_thread m = AtCheck \<Longrightarrow> \<not> mg_dirty m \<Longrightarrow> manager_step (m, tr) (run_check m, tr)"
| step_cleaned: "mg_thread m = Cleaning paths \<Longrightarrow> manager_step (m, tr) (run_cleanup outcome m, tr)"

fun waiting_request :: "event list \<Rightarrow> bool" where
  "waiting_request [] = False"
| "waiting_request (Scheduled _ # tr) = True"
| "waiting_request (Started _ # tr) = False"

fun waiting_paths :: "event list \<Rightarrow> string set" where
  "waiting_paths [] = {}"
| "waiting_paths (Scheduled path # tr) = set_option path \<union> waiting_paths tr"
| "waiting_paths (Started _ # tr) = {}"

text \<open>Every cleanup protects exactly the paths scheduled since the one before it.\<close>

fun starts_cover :: "event list \<Rightarrow> bool" where
  "starts_cover [] = True"
| "starts_cover (Scheduled _ # tr) = starts_cover tr"
| "starts_cover (Started paths # tr) = (paths = waiting_paths tr \<and> waiting_request tr \<and> starts_cover tr)"

definition manager_inv :: "manager \<times> event list \<Rightarrow> bool" where
  "manager_inv s \<longleftrightarrow> (case s of (m, tr) \<Rightarrow>
     mg_dirty m = waiting_request tr \<and> mg_protected m = waiting_paths tr \<and> starts_cover tr \<and>
     mg_running m = (mg_thread m \<noteq> NotStarted) \<and> (mg_dirty m \<longrightarrow> mg_running m))"

lemma manager_step_inv: "manager_step s s' \<Longrightarrow> manager_inv s \<Longrightarrow> manager_inv s'"
  by (induction rule: manager_step.induct)
    (auto simp: manager_inv_def schedule_def run_check_def run_cleanup_def Let_def split: sum.splits)

lemma reach_manager_inv: "reach (\<lambda>s. s = (new_manager, [])) manager_step s \<Longrightarrow> manager_inv s"
proof (erule reach_invariant)
  show "manager_inv s" if "s = (new_manager, [])" for s using that by (simp add: manager_inv_def new_manager_def)
qed (rule manager_step_inv)

text \<open>The thread on its own, its cleanups ending with \<open>outcome\<close>.\<close>

definition thread_step :: "string + string \<Rightarrow> manager \<Rightarrow> manager" where
  "thread_step outcome m =
     (case mg_thread m of NotStarted \<Rightarrow> m | AtCheck \<Rightarrow> run_check m | Cleaning _ \<Rightarrow> run_cleanup outcome m)"

lemma thread_settles:
  assumes "mg_running m = (mg_thread m \<noteq> NotStarted)" "mg_dirty m \<longrightarrow> mg_running m"
  shows "\<not> mg_running ((thread_step outcome ^^ 4) m) \<and> \<not> mg_dirty ((thread_step outcome ^^ 4) m)"
  using assms by (cases "mg_thread m"; cases "mg_dirty m"; cases outcome)
    (simp_all add: thread_step_def run_check_def run_cleanup_def eval_nat_numeral)



end
