(* ===== verification/Runtime_Capacity.thy ===== *)
theory Runtime_Capacity
  imports Capacity
begin

text \<open>
  The client side of shared capacity (\<open>core/runtime_capacity.py\<close>): waiting for a permit under a deadline without
  holding a transaction, and giving it back. Round \<open>k\<close> reads the monotonic clock once (\<open>clock k\<close>) and the wall
  clock (\<open>now k\<close>), and while it sleeps other processes turn the database \<open>d\<close> into \<open>others k d\<close>. The inherited
  capability is an argument: its validation and parsing belong to \<open>core/resource_claims.py\<close>.
\<close>

record runtime_permit =
  pm_admission_id :: string
  pm_owner_token :: string
  pm_released :: bool

type_synonym outcome = "db \<times> runtime_permit option res"

text \<open>The exception handler: release, then raise again; an exception of the release itself wins.\<close>

definition abandon :: "time \<Rightarrow> string \<Rightarrow> string \<Rightarrow> py_error \<Rightarrow> db \<Rightarrow> outcome" where
  "abandon now admission_id owner_token e d =
     (case release_capacity now admission_id owner_token d of
        Inl e2 \<Rightarrow> (d, Inl e2)
      | Inr (d', _) \<Rightarrow> (d', Inl e))"

text \<open>\<open>None\<close> when \<open>fuel\<close> rounds were not enough.\<close>

fun acquire_loop ::
  "nat \<Rightarrow> nat \<Rightarrow> (nat \<Rightarrow> db \<Rightarrow> db) \<Rightarrow> (nat \<Rightarrow> rat) \<Rightarrow> (nat \<Rightarrow> time) \<Rightarrow> nat \<Rightarrow> string \<Rightarrow> (string \<Rightarrow> bool option) \<Rightarrow> string \<Rightarrow> string \<Rightarrow>
   string \<Rightarrow> int \<Rightarrow> rat option \<Rightarrow> (string \<times> string) option \<Rightarrow> db \<Rightarrow> outcome option" where
  "acquire_loop 0 k others clock now records policy alive admission_id owner_token category limit deadline inherited d = None"
| "acquire_loop (Suc fuel) k others clock now records policy alive admission_id owner_token category limit deadline inherited d =
     (case reserve_capacity records policy alive (now k) admission_id category owner_token 1 limit
         (map_option fst inherited) (map_option snd inherited) d of
        Inl e \<Rightarrow> Some (abandon (now k) admission_id owner_token e d)
      | Inr (d1, answer) \<Rightarrow>
          if res_admitted answer
          then Some (d1, Inr (Some \<lparr>pm_admission_id = admission_id, pm_owner_token = owner_token, pm_released = False\<rparr>))
          else if (case deadline of None \<Rightarrow> False | Some t \<Rightarrow> t - clock k \<le> 0)
          then (case release_capacity (now k) admission_id owner_token d1 of
                  Inl e \<Rightarrow> Some (abandon (now k) admission_id owner_token e d1)
                | Inr (d2, _) \<Rightarrow> Some (d2, Inr None))
          else acquire_loop fuel (Suc k) others clock now records policy alive admission_id owner_token category limit deadline
                 inherited (others k d1))"

definition acquire_runtime_capacity ::
  "nat \<Rightarrow> (nat \<Rightarrow> db \<Rightarrow> db) \<Rightarrow> (nat \<Rightarrow> rat) \<Rightarrow> (nat \<Rightarrow> time) \<Rightarrow> nat \<Rightarrow> string \<Rightarrow> (string \<Rightarrow> bool option) \<Rightarrow> string \<Rightarrow> string \<Rightarrow>
   string \<Rightarrow> int \<Rightarrow> rat option \<Rightarrow> (string \<times> string) option \<Rightarrow> db \<Rightarrow> outcome option" where
  "acquire_runtime_capacity fuel others clock now records policy alive nonce owner_token category limit deadline inherited d =
     acquire_loop fuel 0 others clock now records policy alive (''capacity-'' @ nonce) owner_token category limit deadline inherited d"

definition release_permit :: "time \<Rightarrow> runtime_permit \<Rightarrow> db \<Rightarrow> (db \<times> runtime_permit) res" where
  "release_permit now p d =
     (if pm_released p then Inr (d, p)
      else case release_capacity now (pm_admission_id p) (pm_owner_token p) d of
        Inl e \<Rightarrow> Inl e
      | Inr (d', _) \<Rightarrow> Inr (d', p\<lparr>pm_released := True\<rparr>))"

text \<open>Leaving the \<open>with\<close> block: an incomplete process cleanup keeps the permit as a fence.\<close>

definition exit_permit :: "time \<Rightarrow> py_error option \<Rightarrow> runtime_permit \<Rightarrow> db \<Rightarrow> (db \<times> runtime_permit) res" where
  "exit_permit now exc p d =
     (if exc = Some (ToolError ''process_cleanup_incomplete'')
      then (case quarantine_capacity now (pm_admission_id p) (pm_owner_token p) d of
              Inl e \<Rightarrow> Inl e
            | Inr (d', _) \<Rightarrow> Inr (d', p\<lparr>pm_released := True\<rparr>))
      else release_permit now p d)"

subsection \<open>What a call leaves in the table\<close>

definition own_state :: "db \<Rightarrow> string \<Rightarrow> claim_state option" where
  "own_state d a = map_option cap_state (find_capacity d a)"

lemma find_updated:
  assumes "\<And>r. cap_admission_id (f r) = cap_admission_id r"
  shows "find_capacity (update_capacity P f d) a = map_option (\<lambda>r. if P r then f r else r) (find_capacity d a)"
  unfolding find_capacity_def update_capacity_frame using assms by (intro sql_one_update) simp

lemma find_capacity_id: "find_capacity d a = Some r \<Longrightarrow> cap_admission_id r = a"
  by (simp add: find_capacity_Some)

lemma release_leaves:
  assumes "release_capacity now a owner d = Inr (d', b)"
  shows "own_state d' a \<notin> {Some Active, Some Pending}"
proof (cases "find_capacity d a")
  case None
  with assms show ?thesis by (auto simp: release_capacity_def own_state_def)
next
  case (Some row)
  with assms show ?thesis
    by (auto simp: release_capacity_def own_state_def find_updated find_capacity_id split: if_splits)
qed

lemma release_error:
  "release_capacity now a owner d = Inl e \<Longrightarrow> \<exists>row. find_capacity d a = Some row \<and> cap_owner_token row \<noteq> owner"
  by (auto simp: release_capacity_def split: option.splits if_splits)

lemma settle_owner:
  assumes "settle_capacity a c owner w limit now q d = Inr (d', ans)"
  shows "\<exists>row. find_capacity d' a = Some row \<and> cap_owner_token row = owner \<and> (res_admitted ans \<longrightarrow> cap_state row = Active)"
proof -
  obtain row where "find_capacity d a = Some row" using assms by (auto simp: settle_capacity_def split: option.splits)
  with assms show ?thesis
    by (cases "cap_state row") (auto simp: settle_capacity_def Let_def find_updated find_capacity_id split: if_splits)
qed

lemma reserve_owner:
  assumes "reserve_capacity records policy alive now a c owner w limit q qo d = Inr (d', ans)"
  shows "\<exists>row. find_capacity d' a = Some row \<and> cap_owner_token row = owner \<and> (res_admitted ans \<longrightarrow> cap_state row = Active)"
proof -
  from assms obtain d1 where "settle_capacity a c owner w limit now q d1 = Inr (d', ans)"
    by (auto simp: reserve_capacity_def split: if_splits option.splits sum.splits)
  then show ?thesis by (rule settle_owner)
qed

text \<open>What the caller may rely on: a permit is active and his; without one nothing of his is left waiting or active,
  unless the identifier belongs to another owner.\<close>

definition outcome_ok :: "string \<Rightarrow> string \<Rightarrow> outcome \<Rightarrow> bool" where
  "outcome_ok a owner out \<longleftrightarrow>
     (case out of
        (d, Inr (Some p)) \<Rightarrow> pm_admission_id p = a \<and> pm_owner_token p = owner \<and>
          (\<exists>row. find_capacity d a = Some row \<and> cap_owner_token row = owner \<and> cap_state row = Active)
      | (d, Inr None) \<Rightarrow> own_state d a \<notin> {Some Active, Some Pending}
      | (d, Inl e) \<Rightarrow> own_state d a \<notin> {Some Active, Some Pending} \<or>
          (\<exists>row. find_capacity d a = Some row \<and> cap_owner_token row \<noteq> owner))"

lemma abandon_ok: "outcome_ok a owner (abandon now a owner e d)"
proof (cases "release_capacity now a owner d")
  case (Inl e2)
  with release_error [OF Inl] show ?thesis by (auto simp: abandon_def outcome_ok_def)
next
  case (Inr x)
  then show ?thesis by (cases x) (use release_leaves in \<open>auto simp: abandon_def outcome_ok_def\<close>)
qed

lemma acquire_loop_ok:
  "acquire_loop fuel k others clock now records policy alive a owner category limit deadline inherited d = Some out \<Longrightarrow>
   outcome_ok a owner out"
proof (induction fuel arbitrary: k d)
  case (Suc fuel)
  show ?case
  proof (cases "reserve_capacity records policy alive (now k) a category owner 1 limit (map_option fst inherited) (map_option snd inherited) d")
    case (Inl e)
    with Suc.prems have "out = abandon (now k) a owner e d" by simp
    then show ?thesis by (simp add: abandon_ok)
  next
    case (Inr x)
    then obtain d1 ans where res: "x = (d1, ans)" by fastforce
    note owner = reserve_owner [OF Inr [unfolded res]]
    consider (admitted) "res_admitted ans"
      | (late) "\<not> res_admitted ans" "case deadline of None \<Rightarrow> False | Some t \<Rightarrow> t - clock k \<le> 0"
      | (again) "\<not> res_admitted ans" "\<not> (case deadline of None \<Rightarrow> False | Some t \<Rightarrow> t - clock k \<le> 0)" by blast
    then show ?thesis
    proof cases
      case admitted
      with Suc.prems Inr res owner show ?thesis by (auto simp: outcome_ok_def)
    next
      case late
      with Suc.prems Inr res have late_out: "(case release_capacity (now k) a owner d1 of
          Inl e \<Rightarrow> Some (abandon (now k) a owner e d1) | Inr (d2, _) \<Rightarrow> Some (d2, Inr None)) = Some out" by simp
      then show ?thesis
      proof (cases "release_capacity (now k) a owner d1")
        case (Inr y)
        with late_out release_leaves [of "now k" a owner d1] show ?thesis by (cases y) (auto simp: outcome_ok_def)
      qed (auto simp: abandon_ok)
    next
      case again
      with Suc.prems Inr res Suc.IH show ?thesis by simp
    qed
  qed
qed simp

subsection \<open>A deadline ends the wait\<close>

definition honest_poll :: "(nat \<Rightarrow> rat) \<Rightarrow> rat \<Rightarrow> rat \<Rightarrow> bool" where
  "honest_poll clock deadline poll \<longleftrightarrow>
     (\<forall>k. clock k \<le> clock (Suc k) \<and> clock k + min poll (deadline - clock k) \<le> clock (Suc k))"

lemma acquire_loop_returns:
  assumes "honest_poll clock deadline poll" "0 < poll" "deadline - clock 0 \<le> of_nat (k + fuel) * poll"
  shows "\<exists>out. acquire_loop (Suc fuel) k others clock now records policy alive a owner category limit (Some deadline) inherited d = Some out"
  using assms(3)
proof (induction fuel arbitrary: k d)
  case 0
  have "deadline \<le> clock k \<or> clock 0 + of_nat k * poll \<le> clock k"
  proof (rule poll_deadline)
    fix k
    have "clock k \<le> clock (Suc k)" "clock k + min poll (deadline - clock k) \<le> clock (Suc k)"
      using assms(1) unfolding honest_poll_def by blast+
    then show "clock k \<le> clock (Suc k)" "min (clock k + poll) deadline \<le> clock (Suc k)" by linarith+
  qed
  with 0 have "deadline - clock k \<le> 0" by auto
  then show ?case by (auto split: sum.splits)
next
  case (Suc fuel)
  from Suc.prems have "deadline - clock 0 \<le> of_nat (Suc k + fuel) * poll" by simp
  from Suc.IH [OF this] show ?case
    by (subst acquire_loop.simps) (auto simp del: acquire_loop.simps split: sum.splits)
qed

text \<open>C27. Waiting for capacity ends with its deadline and leaks nothing: whatever other processes do meanwhile, the
  call returns after at most one round more than there are polls until the deadline; a permit it returns
  is active under the caller's token, and when it returns none or raises, no request of the caller is
  left waiting or active.\<close>

theorem acquire_ends_cleanly:
  assumes "honest_poll clock deadline poll" "0 < poll"
  shows "\<exists>out. acquire_runtime_capacity (Suc (nat \<lceil>(deadline - clock 0) / poll\<rceil>)) others clock now records policy alive nonce owner
      category limit (Some deadline) inherited d = Some out \<and> outcome_ok (''capacity-'' @ nonce) owner out"
proof -
  let ?n = "nat \<lceil>(deadline - clock 0) / poll\<rceil>"
  have "(deadline - clock 0) / poll \<le> of_nat ?n" by linarith
  then have "deadline - clock 0 \<le> of_nat (0 + ?n) * poll" using assms(2) by (simp add: pos_divide_le_eq)
  from acquire_loop_returns [OF assms this] obtain out where
    "acquire_loop (Suc ?n) 0 others clock now records policy alive (''capacity-'' @ nonce) owner category limit (Some deadline) inherited d = Some out"
    by blast
  with acquire_loop_ok [OF this] show ?thesis by (auto simp: acquire_runtime_capacity_def simp del: acquire_loop.simps)
qed

text \<open>Leaving the block ends the permit: it is released, or kept as a fence.\<close>

lemma quarantine_leaves:
  assumes "quarantine_capacity now a owner d = Inr (d', u)"
  shows "own_state d' a = Some Quarantined"
proof -
  obtain row where row: "find_capacity d a = Some row" using assms by (auto simp: quarantine_capacity_def split: option.splits)
  have "find_capacity (update_requests P f x) a = find_capacity x a" for P f x by (simp add: find_capacity_def)
  with assms row find_capacity_id [OF row] show ?thesis
    by (auto simp: quarantine_capacity_def Let_def own_state_def find_updated split: if_splits)
qed

lemma exit_permit_ends:
  assumes "exit_permit now exc p d = Inr (d', p')" "\<not> pm_released p"
  shows "pm_released p' \<and> own_state d' (pm_admission_id p) \<notin> {Some Active, Some Pending}"
proof (cases "exc = Some (ToolError ''process_cleanup_incomplete'')")
  case True
  with assms have "quarantine_capacity now (pm_admission_id p) (pm_owner_token p) d = Inr (d', ()) \<and> pm_released p'"
    by (auto simp: exit_permit_def split: sum.splits)
  moreover from this have "own_state d' (pm_admission_id p) = Some Quarantined"
    using quarantine_leaves by blast
  ultimately show ?thesis by simp
next
  case False
  with assms release_leaves show ?thesis by (auto simp: exit_permit_def release_permit_def split: sum.splits)
qed

lemma acquire_ends_cleanly_witness:
  "\<exists>out. acquire_runtime_capacity (Suc (nat \<lceil>(1 - of_nat 0) / (1 / 20 :: rat)\<rceil>)) (\<lambda>_ d. d) (\<lambda>n. of_nat n) (\<lambda>_. 5) 10 ''p1'' (\<lambda>_. None)
     ''n1'' ''o3'' ''job'' 1 (Some 1) None permit_db = Some out \<and> outcome_ok (''capacity-'' @ ''n1'') ''o3'' out"
  by (rule acquire_ends_cleanly) (auto simp: honest_poll_def min_def)

end
