(* ===== verification/Execution_Models.thy ===== *)
theory Execution_Models
  imports Workflow_Db
begin

text \<open>
  The immutable models of route planning, \<open>core/execution_models.py\<close>: the enumerations with the
  strings they carry, the four data classes, and what each \<open>__post_init__\<close> accepts. A Python
  object of one of the classes exists only after its \<open>__post_init__\<close> returned, so building a value
  (or a changed copy by \<open>replace\<close>) is a function into the sum type, and the predicates \<open>*_ok\<close> say
  what holds of every object of the class.
\<close>

subsection \<open>The enumerations\<close>

datatype route_class =
    NATIVE_FILESYSTEM | NATIVE_CODE | NATIVE_GIT | NATIVE_PROCESS | NATIVE_SYSTEM
  | NATIVE_EXCEL | NATIVE_DOCX | NATIVE_PDF
  | SEMANTIC_BROWSER | SEMANTIC_WINDOWS_UIA | VISUAL_DESKTOP | RAW_DESKTOP | EXTERNAL_MCP

fun route_value :: "route_class \<Rightarrow> string" where
  "route_value NATIVE_FILESYSTEM = ''native.filesystem''"
| "route_value NATIVE_CODE = ''native.code''"
| "route_value NATIVE_GIT = ''native.git''"
| "route_value NATIVE_PROCESS = ''native.process''"
| "route_value NATIVE_SYSTEM = ''native.system''"
| "route_value NATIVE_EXCEL = ''native.excel''"
| "route_value NATIVE_DOCX = ''native.docx''"
| "route_value NATIVE_PDF = ''native.pdf''"
| "route_value SEMANTIC_BROWSER = ''semantic.browser''"
| "route_value SEMANTIC_WINDOWS_UIA = ''semantic.windows_uia''"
| "route_value VISUAL_DESKTOP = ''visual.desktop''"
| "route_value RAW_DESKTOP = ''raw.desktop''"
| "route_value EXTERNAL_MCP = ''external.mcp''"

datatype risk_class = RISK_LOW | RISK_MEDIUM | RISK_HIGH

fun risk_value :: "risk_class \<Rightarrow> string" where
  "risk_value RISK_LOW = ''low''"
| "risk_value RISK_MEDIUM = ''medium''"
| "risk_value RISK_HIGH = ''high''"

datatype recoverability_class = REC_WEAK | REC_MEDIUM | REC_STRONG

fun recoverability_value :: "recoverability_class \<Rightarrow> string" where
  "recoverability_value REC_WEAK = ''weak''"
| "recoverability_value REC_MEDIUM = ''medium''"
| "recoverability_value REC_STRONG = ''strong''"

subsection \<open>The data classes\<close>

record external_route_metadata =
  xm_extension_id :: string
  xm_provider :: string
  xm_catalog_generation :: int

definition external_metadata_ok :: "external_route_metadata \<Rightarrow> bool" where
  "external_metadata_ok m \<longleftrightarrow>
     1 \<le> length (xm_extension_id m) \<and> length (xm_extension_id m) \<le> 32 \<and>
     1 \<le> length (xm_provider m) \<and> length (xm_provider m) \<le> 64 \<and>
     0 \<le> xm_catalog_generation m"

definition new_external_metadata :: "string \<Rightarrow> string \<Rightarrow> int \<Rightarrow> external_route_metadata res" where
  "new_external_metadata ext provider generation =
     (let m = \<lparr>xm_extension_id = ext, xm_provider = provider, xm_catalog_generation = generation\<rparr>
      in if external_metadata_ok m then Inr m else Inl ValueError)"

definition external_metadata_as_dict :: "external_route_metadata \<Rightarrow> (string \<times> json) list" where
  "external_metadata_as_dict m =
     [(''source_type'', JStr ''external_mcp''), (''extension_id'', JStr (xm_extension_id m)),
      (''provider'', JStr (xm_provider m)), (''catalog_generation'', JInt (xm_catalog_generation m)),
      (''classification_source'', JStr ''operator_policy'')]"

record execution_intent =
  in_name :: string
  in_destructive :: bool
  in_semantic_ambiguous :: bool
  in_semantic_stale :: bool
  in_requires_macro_preservation :: bool
  in_allow_raw_desktop :: bool
  in_preferred_tool :: "string option"

definition intent_post_init :: "execution_intent \<Rightarrow> execution_intent res" where
  "intent_post_init i =
     (let normalized = casefold (py_strip (in_name i)) in
      if normalized = [] \<or> 200 < length normalized then Inl ValueError
      else
        let i' = i\<lparr>in_name := normalized\<rparr> in
        case in_preferred_tool i of
          None \<Rightarrow> Inr i'
        | Some tool \<Rightarrow>
            let preferred = py_strip tool in
            if preferred = [] \<or> 200 < length preferred then Inl ValueError
            else Inr (i'\<lparr>in_preferred_tool := Some preferred\<rparr>))"

definition json_opt :: "('a \<Rightarrow> json) \<Rightarrow> 'a option \<Rightarrow> json" where
  "json_opt f x = (case x of None \<Rightarrow> JNull | Some v \<Rightarrow> f v)"

definition intent_as_dict :: "execution_intent \<Rightarrow> (string \<times> json) list" where
  "intent_as_dict i =
     [(''name'', JStr (in_name i)), (''destructive'', JBool (in_destructive i)),
      (''semantic_ambiguous'', JBool (in_semantic_ambiguous i)),
      (''semantic_stale'', JBool (in_semantic_stale i)),
      (''requires_macro_preservation'', JBool (in_requires_macro_preservation i)),
      (''allow_raw_desktop'', JBool (in_allow_raw_desktop i)),
      (''preferred_tool'', json_opt JStr (in_preferred_tool i))]"

record route_candidate =
  rc_route :: route_class
  rc_tool :: string
  rc_determinism :: int
  rc_risk :: risk_class
  rc_recoverability :: recoverability_class
  rc_confidence :: int
  rc_cost_tier :: int
  rc_latency_tier :: int
  rc_fallback_level :: int
  rc_checks :: "string list"
  rc_supported :: bool
  rc_reason :: string
  rc_rejection_code :: "string option"
  rc_preserves_macros :: bool
  rc_external :: "external_route_metadata option"

definition tier_ok :: "int \<Rightarrow> bool" where
  "tier_ok v \<longleftrightarrow> 1 \<le> v \<and> v \<le> 5"

text \<open>The checks of \<open>RouteCandidate.__post_init__\<close> in their order; each failing one raises
  \<open>ValueError\<close>.\<close>

definition candidate_post_init :: "route_candidate \<Rightarrow> route_candidate res" where
  "candidate_post_init c =
     (if rc_tool c = [] \<or> 200 < length (rc_tool c) then Inl ValueError
      else if \<not> list_all tier_ok [rc_determinism c, rc_confidence c, rc_cost_tier c, rc_latency_tier c]
        then Inl ValueError
      else if \<not> (0 \<le> rc_fallback_level c \<and> rc_fallback_level c \<le> 10) then Inl ValueError
      else if (rc_route c = EXTERNAL_MCP) \<noteq> (rc_external c \<noteq> None) then Inl ValueError
      else if rc_route c = EXTERNAL_MCP \<and> 4 < rc_determinism c then Inl ValueError
      else if rc_supported c \<and> (case rc_external c of None \<Rightarrow> False | Some m \<Rightarrow> xm_catalog_generation m = 0)
        then Inl ValueError
      else Inr c)"

definition candidate_as_dict :: "route_candidate \<Rightarrow> (string \<times> json) list" where
  "candidate_as_dict c =
     [(''route'', JStr (route_value (rc_route c))), (''representative_tool'', JStr (rc_tool c)),
      (''determinism'', JInt (rc_determinism c)), (''risk_class'', JStr (risk_value (rc_risk c))),
      (''recoverability'', JStr (recoverability_value (rc_recoverability c))),
      (''capability_confidence'', JInt (rc_confidence c)), (''cost_tier'', JInt (rc_cost_tier c)),
      (''latency_tier'', JInt (rc_latency_tier c)), (''fallback_level'', JInt (rc_fallback_level c)),
      (''capability_checks'', JList (map JStr (rc_checks c))), (''supported'', JBool (rc_supported c)),
      (''reason'', JStr (rc_reason c)), (''rejection_code'', json_opt JStr (rc_rejection_code c)),
      (''preserves_macros'', JBool (rc_preserves_macros c))]
     @ (case rc_external c of None \<Rightarrow> [] | Some m \<Rightarrow> external_metadata_as_dict m)"

record route_decision =
  rd_intent :: string
  rd_selected_route :: "route_class option"
  rd_tool :: "string option"
  rd_candidate_count :: int
  rd_selection_reason :: string
  rd_fallback_level :: "int option"
  rd_checks :: "string list"
  rd_risk :: "risk_class option"
  rd_policy_version :: string
  rd_external :: "external_route_metadata option"

definition decision_post_init :: "route_decision \<Rightarrow> route_decision res" where
  "decision_post_init d =
     (if rd_candidate_count d < 0 then Inl ValueError
      else if (case rd_fallback_level d of None \<Rightarrow> False | Some l \<Rightarrow> \<not> (0 \<le> l \<and> l \<le> 10)) then Inl ValueError
      else if rd_policy_version d = [] \<or> 100 < length (rd_policy_version d) then Inl ValueError
      else if (rd_selected_route d = Some EXTERNAL_MCP) \<noteq> (rd_external d \<noteq> None) then Inl ValueError
      else if (case rd_external d of None \<Rightarrow> False | Some m \<Rightarrow> xm_catalog_generation m = 0) then Inl ValueError
      else Inr d)"

definition decision_as_dict :: "route_decision \<Rightarrow> (string \<times> json) list" where
  "decision_as_dict d =
     [(''intent'', JStr (rd_intent d)),
      (''selected_route'', json_opt (JStr \<circ> route_value) (rd_selected_route d)),
      (''representative_tool'', json_opt JStr (rd_tool d)),
      (''candidate_count'', JInt (rd_candidate_count d)),
      (''selection_reason'', JStr (rd_selection_reason d)),
      (''fallback_level'', json_opt JInt (rd_fallback_level d)),
      (''capability_checks'', JList (map JStr (rd_checks d))),
      (''risk_class'', json_opt (JStr \<circ> risk_value) (rd_risk d)),
      (''router_policy_version'', JStr (rd_policy_version d))]
     @ (case rd_external d of None \<Rightarrow> [] | Some m \<Rightarrow> external_metadata_as_dict m)"

subsection \<open>What every object of the classes satisfies\<close>

definition candidate_ok :: "route_candidate \<Rightarrow> bool" where
  "candidate_ok c \<longleftrightarrow> candidate_post_init c = Inr c"

definition decision_ok :: "route_decision \<Rightarrow> bool" where
  "decision_ok d \<longleftrightarrow> decision_post_init d = Inr d"

text \<open>The class invariant as one conjunction, the form the proofs use.\<close>

lemma candidate_ok_iff:
  "candidate_ok c \<longleftrightarrow>
     rc_tool c \<noteq> [] \<and> length (rc_tool c) \<le> 200 \<and>
     tier_ok (rc_determinism c) \<and> tier_ok (rc_confidence c) \<and>
     tier_ok (rc_cost_tier c) \<and> tier_ok (rc_latency_tier c) \<and>
     0 \<le> rc_fallback_level c \<and> rc_fallback_level c \<le> 10 \<and>
     (rc_route c = EXTERNAL_MCP \<longleftrightarrow> rc_external c \<noteq> None) \<and>
     (rc_route c = EXTERNAL_MCP \<longrightarrow> rc_determinism c \<le> 4) \<and>
     (rc_supported c \<longrightarrow> (\<forall>m. rc_external c = Some m \<longrightarrow> xm_catalog_generation m \<noteq> 0))"
  unfolding candidate_ok_def candidate_post_init_def
  by (auto split: option.splits)

lemma candidate_post_init_cases:
  "candidate_post_init c = (if candidate_ok c then Inr c else Inl ValueError)"
  unfolding candidate_ok_def candidate_post_init_def by (simp split: if_splits)

lemma decision_post_init_cases:
  "decision_post_init d = (if decision_ok d then Inr d else Inl ValueError)"
  unfolding decision_ok_def decision_post_init_def by (simp split: if_splits)

lemma decision_ok_iff:
  "decision_ok d \<longleftrightarrow>
     0 \<le> rd_candidate_count d \<and>
     (\<forall>l. rd_fallback_level d = Some l \<longrightarrow> 0 \<le> l \<and> l \<le> 10) \<and>
     rd_policy_version d \<noteq> [] \<and> length (rd_policy_version d) \<le> 100 \<and>
     (rd_selected_route d = Some EXTERNAL_MCP \<longleftrightarrow> rd_external d \<noteq> None) \<and>
     (\<forall>m. rd_external d = Some m \<longrightarrow> xm_catalog_generation m \<noteq> 0)"
  unfolding decision_ok_def decision_post_init_def
  by (auto split: option.splits)

text \<open>Withdrawing a candidate (\<open>replace\<close> with \<open>supported=False\<close>) never raises.\<close>

lemma candidate_ok_reject:
  "candidate_ok c \<Longrightarrow>
   candidate_ok (c\<lparr>rc_supported := False, rc_rejection_code := code, rc_reason := reason\<rparr>)"
  by (simp add: candidate_ok_iff)

lemma intent_post_init_bounds:
  assumes "intent_post_init i = Inr j"
  shows "in_name j \<noteq> []" and "length (in_name j) \<le> 200"
  using assms by (auto simp: intent_post_init_def Let_def split: if_splits option.splits)

lemma route_value_inj [simp]: "route_value r = route_value q \<longleftrightarrow> r = q"
  by (cases r; cases q) simp_all

end
