(* ===== verification/Tool_Catalog.thy ===== *)
theory Tool_Catalog
  imports Execution_Models
begin

text \<open>
  The static catalogue of \<open>core/tool_catalog.py\<close>: the metadata of every tool that takes part in
  routing, and the route rules of every execution intent. Both dictionaries are written out as
  association lists in the order of the source, whose keys are distinct. The lemmas evaluate the
  tables once; every proof about routing uses only these.
\<close>

record tool_execution_metadata =
  tm_name :: string
  tm_domain :: string
  tm_route :: route_class
  tm_determinism :: int
  tm_risk :: risk_class
  tm_recoverability :: recoverability_class
  tm_preserves_macros :: bool
  tm_external :: "external_route_metadata option"

definition tool_meta ::
  "string \<Rightarrow> string \<Rightarrow> route_class \<Rightarrow> int \<Rightarrow> risk_class \<Rightarrow> recoverability_class \<Rightarrow> bool \<Rightarrow> tool_execution_metadata" where
  "tool_meta name domain route determinism risk recoverability preserves =
     \<lparr>tm_name = name, tm_domain = domain, tm_route = route, tm_determinism = determinism, tm_risk = risk,
      tm_recoverability = recoverability, tm_preserves_macros = preserves, tm_external = None\<rparr>"

definition TOOL_EXECUTION_METADATA :: "(string \<times> tool_execution_metadata) list" where
  "TOOL_EXECUTION_METADATA =
    [(''read_file'', tool_meta ''read_file'' ''filesystem'' NATIVE_FILESYSTEM 5 RISK_LOW REC_STRONG False),
      (''native_read_batch'', tool_meta ''native_read_batch'' ''filesystem'' NATIVE_FILESYSTEM 5 RISK_LOW REC_STRONG False),
      (''write_file'', tool_meta ''write_file'' ''filesystem'' NATIVE_FILESYSTEM 5 RISK_MEDIUM REC_STRONG False),
      (''create_file'', tool_meta ''create_file'' ''filesystem'' NATIVE_FILESYSTEM 5 RISK_MEDIUM REC_STRONG False),
      (''delete_file'', tool_meta ''delete_file'' ''filesystem'' NATIVE_FILESYSTEM 5 RISK_HIGH REC_STRONG False),
      (''replace_exact'', tool_meta ''replace_exact'' ''filesystem'' NATIVE_FILESYSTEM 5 RISK_MEDIUM REC_STRONG False),
      (''apply_patch'', tool_meta ''apply_patch'' ''filesystem'' NATIVE_FILESYSTEM 5 RISK_MEDIUM REC_STRONG False),
      (''code_context'', tool_meta ''code_context'' ''project'' NATIVE_CODE 5 RISK_LOW REC_STRONG False),
      (''rename_symbol'', tool_meta ''rename_symbol'' ''language'' NATIVE_CODE 5 RISK_MEDIUM REC_STRONG False),
      (''apply_code_action'', tool_meta ''apply_code_action'' ''language'' NATIVE_CODE 5 RISK_MEDIUM REC_STRONG False),
      (''affected_tests'', tool_meta ''affected_tests'' ''testing'' NATIVE_CODE 5 RISK_LOW REC_STRONG False),
      (''verify_changes'', tool_meta ''verify_changes'' ''testing'' NATIVE_CODE 5 RISK_LOW REC_STRONG False),
      (''start_verification'', tool_meta ''start_verification'' ''testing'' NATIVE_CODE 5 RISK_MEDIUM REC_STRONG False),
      (''git_status'', tool_meta ''git_status'' ''git'' NATIVE_GIT 5 RISK_LOW REC_STRONG False),
      (''git_diff'', tool_meta ''git_diff'' ''git'' NATIVE_GIT 5 RISK_LOW REC_STRONG False),
      (''git_stage'', tool_meta ''git_stage'' ''git'' NATIVE_GIT 5 RISK_MEDIUM REC_STRONG False),
      (''git_commit'', tool_meta ''git_commit'' ''git'' NATIVE_GIT 5 RISK_MEDIUM REC_STRONG False),
      (''run_process'', tool_meta ''run_process'' ''process'' NATIVE_PROCESS 5 RISK_MEDIUM REC_MEDIUM False),
      (''submit_job'', tool_meta ''submit_job'' ''jobs'' NATIVE_PROCESS 5 RISK_MEDIUM REC_STRONG False),
      (''system_info'', tool_meta ''system_info'' ''system'' NATIVE_SYSTEM 5 RISK_LOW REC_STRONG False),
      (''installed_software'', tool_meta ''installed_software'' ''system'' NATIVE_SYSTEM 5 RISK_LOW REC_STRONG False),
      (''excel_inspect'', tool_meta ''excel_inspect'' ''documents'' NATIVE_EXCEL 5 RISK_LOW REC_STRONG True),
      (''excel_read_range'', tool_meta ''excel_read_range'' ''documents'' NATIVE_EXCEL 5 RISK_LOW REC_STRONG True),
      (''excel_find'', tool_meta ''excel_find'' ''documents'' NATIVE_EXCEL 5 RISK_LOW REC_STRONG True),
      (''excel_write_range'', tool_meta ''excel_write_range'' ''documents'' NATIVE_EXCEL 5 RISK_MEDIUM REC_STRONG True),
      (''excel_clear_range'', tool_meta ''excel_clear_range'' ''documents'' NATIVE_EXCEL 5 RISK_MEDIUM REC_STRONG True),
      (''excel_set_formula'', tool_meta ''excel_set_formula'' ''documents'' NATIVE_EXCEL 5 RISK_MEDIUM REC_STRONG True),
      (''docx_inspect'', tool_meta ''docx_inspect'' ''documents'' NATIVE_DOCX 5 RISK_LOW REC_STRONG False),
      (''docx_read'', tool_meta ''docx_read'' ''documents'' NATIVE_DOCX 5 RISK_LOW REC_STRONG False),
      (''docx_find'', tool_meta ''docx_find'' ''documents'' NATIVE_DOCX 5 RISK_LOW REC_STRONG False),
      (''docx_replace_text'', tool_meta ''docx_replace_text'' ''documents'' NATIVE_DOCX 5 RISK_MEDIUM REC_STRONG False),
      (''docx_insert_paragraph'', tool_meta ''docx_insert_paragraph'' ''documents'' NATIVE_DOCX 5 RISK_MEDIUM REC_STRONG False),
      (''pdf_inspect'', tool_meta ''pdf_inspect'' ''documents'' NATIVE_PDF 5 RISK_LOW REC_STRONG False),
      (''pdf_extract_text'', tool_meta ''pdf_extract_text'' ''documents'' NATIVE_PDF 5 RISK_LOW REC_STRONG False),
      (''pdf_create_from_text'', tool_meta ''pdf_create_from_text'' ''documents'' NATIVE_PDF 5 RISK_MEDIUM REC_STRONG False),
      (''pdf_create_from_markdown'', tool_meta ''pdf_create_from_markdown'' ''documents'' NATIVE_PDF 5 RISK_MEDIUM REC_STRONG False),
      (''browser_click_semantic'', tool_meta ''browser_click_semantic'' ''browser'' SEMANTIC_BROWSER 4 RISK_MEDIUM REC_MEDIUM False),
      (''browser_fill_semantic'', tool_meta ''browser_fill_semantic'' ''browser'' SEMANTIC_BROWSER 4 RISK_MEDIUM REC_MEDIUM False),
      (''browser_click'', tool_meta ''browser_click'' ''browser'' SEMANTIC_BROWSER 4 RISK_MEDIUM REC_MEDIUM False),
      (''browser_fill'', tool_meta ''browser_fill'' ''browser'' SEMANTIC_BROWSER 4 RISK_MEDIUM REC_MEDIUM False),
      (''ui_invoke'', tool_meta ''ui_invoke'' ''windows'' SEMANTIC_WINDOWS_UIA 4 RISK_MEDIUM REC_MEDIUM False),
      (''ui_set_value'', tool_meta ''ui_set_value'' ''windows'' SEMANTIC_WINDOWS_UIA 4 RISK_MEDIUM REC_MEDIUM False),
      (''ui_select'', tool_meta ''ui_select'' ''windows'' SEMANTIC_WINDOWS_UIA 4 RISK_MEDIUM REC_MEDIUM False),
      (''mouse_click'', tool_meta ''mouse_click'' ''desktop'' RAW_DESKTOP 1 RISK_MEDIUM REC_WEAK False),
      (''keyboard_type'', tool_meta ''keyboard_type'' ''desktop'' RAW_DESKTOP 1 RISK_MEDIUM REC_WEAK False),
      (''hotkey'', tool_meta ''hotkey'' ''desktop'' RAW_DESKTOP 1 RISK_MEDIUM REC_WEAK False)]"

record intent_route_rule =
  ir_intent :: string
  ir_route :: route_class
  ir_tool :: string
  ir_determinism :: int
  ir_risk :: risk_class
  ir_recoverability :: recoverability_class
  ir_confidence :: int
  ir_cost_tier :: int
  ir_latency_tier :: int
  ir_fallback_level :: int
  ir_required_capabilities :: "string list"
  ir_preserves_macros :: bool

definition rule ::
  "string \<Rightarrow> route_class \<Rightarrow> string \<Rightarrow> int \<Rightarrow> risk_class \<Rightarrow> recoverability_class \<Rightarrow> int \<Rightarrow> int \<Rightarrow> int \<Rightarrow> int
   \<Rightarrow> string list \<Rightarrow> bool \<Rightarrow> intent_route_rule" where
  "rule intent route tool determinism risk recoverability confidence cost latency fallback required preserves =
     \<lparr>ir_intent = intent, ir_route = route, ir_tool = tool, ir_determinism = determinism, ir_risk = risk,
      ir_recoverability = recoverability, ir_confidence = confidence, ir_cost_tier = cost,
      ir_latency_tier = latency, ir_fallback_level = fallback, ir_required_capabilities = required,
      ir_preserves_macros = preserves\<rparr>"

definition native_semantic_raw ::
  "string \<Rightarrow> route_class \<Rightarrow> string \<Rightarrow> risk_class \<Rightarrow> bool \<Rightarrow> intent_route_rule list" where
  "native_semantic_raw intent native_route native_tool risk preserves =
     [rule intent native_route native_tool 5 risk REC_STRONG 5 1 1 0 [] preserves,
      rule intent SEMANTIC_WINDOWS_UIA (if risk \<noteq> RISK_LOW then ''ui_set_value'' else ''ui_invoke'')
        4 risk REC_MEDIUM 4 3 3 1 [''semantic_ui''] False,
      rule intent RAW_DESKTOP (if risk \<noteq> RISK_LOW then ''keyboard_type'' else ''mouse_click'')
        1 risk REC_WEAK 2 5 5 2 [''desktop_input''] False]"

definition INTENT_ROUTE_RULES :: "(string \<times> intent_route_rule list) list" where
  "INTENT_ROUTE_RULES =
    [(''filesystem.read'',
       native_semantic_raw ''filesystem.read'' NATIVE_FILESYSTEM ''read_file'' RISK_LOW False),
      (''filesystem.write'',
       native_semantic_raw ''filesystem.write'' NATIVE_FILESYSTEM ''replace_exact'' RISK_MEDIUM False),
      (''filesystem.edit_batch'',
       [rule ''filesystem.edit_batch'' NATIVE_FILESYSTEM ''safe_refactor'' 5 RISK_MEDIUM REC_STRONG 5 1 1 0 [] False]),
      (''filesystem.patch'',
       [rule ''filesystem.patch'' NATIVE_FILESYSTEM ''apply_patch'' 5 RISK_MEDIUM REC_STRONG 5 1 1 0 [] False]),
      (''code.rename'',
       native_semantic_raw ''code.rename'' NATIVE_CODE ''rename_symbol'' RISK_MEDIUM False),
      (''git.read'',
       [rule ''git.read'' NATIVE_GIT ''git_status'' 5 RISK_LOW REC_STRONG 5 1 1 0 [] False,
        rule ''git.read'' NATIVE_PROCESS ''run_process'' 4 RISK_LOW REC_MEDIUM 4 2 2 1 [] False]),
      (''git.write'',
       [rule ''git.write'' NATIVE_GIT ''git_commit'' 5 RISK_MEDIUM REC_STRONG 5 1 1 0 [] False,
        rule ''git.write'' NATIVE_PROCESS ''run_process'' 4 RISK_MEDIUM REC_MEDIUM 4 2 2 1 [] False,
        rule ''git.write'' RAW_DESKTOP ''keyboard_type'' 1 RISK_MEDIUM REC_WEAK 2 5 5 2 [''desktop_input''] False]),
      (''process.run'',
       [rule ''process.run'' NATIVE_PROCESS ''run_process'' 5 RISK_MEDIUM REC_MEDIUM 5 1 1 0 [] False]),
      (''process.powershell'',
       [rule ''process.powershell'' NATIVE_PROCESS ''run_powershell'' 5 RISK_MEDIUM REC_MEDIUM 5 3 3 0 [''powershell''] False]),
      (''process.durable'',
       [rule ''process.durable'' NATIVE_PROCESS ''submit_job'' 5 RISK_MEDIUM REC_STRONG 5 3 3 0 [] False]),
      (''system.inspect'',
       [rule ''system.inspect'' NATIVE_SYSTEM ''system_info'' 5 RISK_LOW REC_STRONG 5 1 1 0 [] False,
        rule ''system.inspect'' NATIVE_PROCESS ''run_process'' 4 RISK_LOW REC_MEDIUM 4 2 2 1 [] False]),
      (''document.excel.read'',
       native_semantic_raw ''document.excel.read'' NATIVE_EXCEL ''excel_read_range'' RISK_LOW True),
      (''document.excel.write'',
       native_semantic_raw ''document.excel.write'' NATIVE_EXCEL ''excel_write_range'' RISK_MEDIUM True),
      (''document.docx.read'',
       native_semantic_raw ''document.docx.read'' NATIVE_DOCX ''docx_read'' RISK_LOW False),
      (''document.docx.write'',
       native_semantic_raw ''document.docx.write'' NATIVE_DOCX ''docx_replace_text'' RISK_MEDIUM False),
      (''document.pdf.read'',
       native_semantic_raw ''document.pdf.read'' NATIVE_PDF ''pdf_extract_text'' RISK_LOW False),
      (''document.pdf.create'',
       native_semantic_raw ''document.pdf.create'' NATIVE_PDF ''pdf_create_from_text'' RISK_MEDIUM False),
      (''browser.interact'',
       [rule ''browser.interact'' SEMANTIC_BROWSER ''browser_click_semantic'' 4 RISK_MEDIUM REC_MEDIUM 5 2 2 0 [''browser''] False,
        rule ''browser.interact'' RAW_DESKTOP ''mouse_click'' 1 RISK_MEDIUM REC_WEAK 2 5 5 1 [''desktop_input''] False]),
      (''desktop.semantic.interact'',
       [rule ''desktop.semantic.interact'' SEMANTIC_WINDOWS_UIA ''ui_invoke'' 4 RISK_MEDIUM REC_MEDIUM 5 2 2 0 [''semantic_ui''] False,
        rule ''desktop.semantic.interact'' RAW_DESKTOP ''mouse_click'' 1 RISK_MEDIUM REC_WEAK 2 5 5 1 [''desktop_input''] False]),
      (''desktop.raw.interact'',
       [rule ''desktop.raw.interact'' RAW_DESKTOP ''mouse_click'' 1 RISK_MEDIUM REC_WEAK 5 4 4 0 [''desktop_input''] False])]"

definition tool_metadata :: "string \<Rightarrow> tool_execution_metadata option" where
  "tool_metadata name = map_of TOOL_EXECUTION_METADATA name"

definition route_for_tool :: "string \<Rightarrow> string option" where
  "route_for_tool name = map_option (\<lambda>m. route_value (tm_route m)) (tool_metadata name)"

definition intent_route_rules :: "string \<Rightarrow> intent_route_rule list res" where
  "intent_route_rules intent =
     (case map_of INTENT_ROUTE_RULES (casefold (py_strip intent)) of
        None \<Rightarrow> Inl (ToolError ''unknown_execution_intent'')
      | Some rules \<Rightarrow> Inr rules)"

subsection \<open>The tables\<close>

text \<open>What makes a rule usable: it passes the bounds of \<open>RouteCandidate\<close> and is not external.\<close>

definition rule_ok :: "intent_route_rule \<Rightarrow> bool" where
  "rule_ok r \<longleftrightarrow>
     ir_tool r \<noteq> [] \<and> length (ir_tool r) \<le> 200 \<and> list_all tier_ok
       [ir_determinism r, ir_confidence r, ir_cost_tier r, ir_latency_tier r] \<and>
     0 \<le> ir_fallback_level r \<and> ir_fallback_level r \<le> 10 \<and> ir_route r \<noteq> EXTERNAL_MCP"

text \<open>A rule that moves the desktop asks for the capability to do so, and is the least
  deterministic.\<close>

definition desktop_rule_guarded :: "intent_route_rule \<Rightarrow> bool" where
  "desktop_rule_guarded r \<longleftrightarrow>
     (ir_route r = RAW_DESKTOP \<longrightarrow> ''desktop_input'' \<in> set (ir_required_capabilities r) \<and> ir_determinism r = 1) \<and>
     (ir_route r = SEMANTIC_WINDOWS_UIA \<longrightarrow> ''semantic_ui'' \<in> set (ir_required_capabilities r)) \<and>
     (ir_route r = SEMANTIC_BROWSER \<longrightarrow> ''browser'' \<in> set (ir_required_capabilities r)) \<and>
     ir_route r \<noteq> VISUAL_DESKTOP"

lemma catalog_rules_ok:
  "list_all (\<lambda>(name, rules). list_all rule_ok rules) INTENT_ROUTE_RULES"
  by code_simp

lemma catalog_routes_distinct:
  "list_all (\<lambda>(name, rules). distinct (map ir_route rules)) INTENT_ROUTE_RULES"
  by code_simp

lemma catalog_desktop_guarded:
  "list_all (\<lambda>(name, rules). list_all desktop_rule_guarded rules) INTENT_ROUTE_RULES"
  by code_simp

lemma catalog_keys_distinct:
  "distinct (map fst INTENT_ROUTE_RULES)" "distinct (map fst TOOL_EXECUTION_METADATA)"
  by code_simp+

lemma catalog_names:
  "list_all (\<lambda>(name, m). tm_name m = name) TOOL_EXECUTION_METADATA"
  "list_all (\<lambda>(name, rules). list_all (\<lambda>r. ir_intent r = name) rules) INTENT_ROUTE_RULES"
  by code_simp+

lemma intent_route_rules_in:
  "intent_route_rules intent = Inr rules \<Longrightarrow> (casefold (py_strip intent), rules) \<in> set INTENT_ROUTE_RULES"
  by (auto simp: intent_route_rules_def dest: map_of_SomeD split: option.splits)

lemma intent_route_rules_ok:
  assumes "intent_route_rules intent = Inr rules"
  shows "list_all rule_ok rules" and "distinct (map ir_route rules)" and "list_all desktop_rule_guarded rules"
  using intent_route_rules_in [OF assms] catalog_rules_ok catalog_routes_distinct catalog_desktop_guarded
  by (fastforce simp: list_all_iff)+

lemma intent_route_rules_error:
  "intent_route_rules intent = Inl e \<Longrightarrow> e = ToolError ''unknown_execution_intent''"
  by (auto simp: intent_route_rules_def split: option.splits)

end
