(* ===== verification/Execution_Router.thy ===== *)
theory Execution_Router
  imports Tool_Catalog "HOL-Library.Multiset"
begin

text \<open>
  Deterministic route selection, \<open>core/execution_router.py\<close>, and the counters it keeps,
  \<open>core/router_metrics.py\<close>. A router is a record of what its constructor stores; the platform
  capabilities are the function \<open>getattr(capabilities, name, False)\<close> computes, the extension
  manager is the function \<open>routing_candidates\<close> it offers, and the elapsed time of a
  recommendation is an argument, an exact number where Python has a float.
\<close>

subsection \<open>Metrics\<close>

record decision_entry =
  de_intent :: string
  de_selected_route :: "string option"
  de_fallback_level :: "int option"
  de_policy_version :: string
  de_candidate_count :: int
  de_rejected_candidate_count :: int

record router_metrics =
  mt_max_recent :: nat
  mt_decision_count :: nat
  mt_no_route_count :: nat
  mt_rejected_candidate_count :: int
  mt_fallback_count :: nat
  mt_route_distribution :: "(string \<times> nat) list"
  mt_usage :: "(string \<times> nat) list"
  mt_latency_total :: rat
  mt_latency_max :: rat
  mt_recent :: "decision_entry list"

definition new_metrics :: "int \<Rightarrow> router_metrics res" where
  "new_metrics max_recent =
     (if \<not> (1 \<le> max_recent \<and> max_recent \<le> 500) then Inl ValueError
      else Inr \<lparr>mt_max_recent = nat max_recent, mt_decision_count = 0, mt_no_route_count = 0,
                mt_rejected_candidate_count = 0, mt_fallback_count = 0, mt_route_distribution = [],
                mt_usage = [], mt_latency_total = 0, mt_latency_max = 0, mt_recent = []\<rparr>)"

definition startswith :: "string \<Rightarrow> string \<Rightarrow> bool" where
  "startswith s prefix \<longleftrightarrow> take (length prefix) s = prefix"

definition family :: "string option \<Rightarrow> string option" where
  "family route =
     (case route of
        None \<Rightarrow> None
      | Some r \<Rightarrow>
          Some (if startswith r ''native.'' then ''native''
                else if startswith r ''semantic.'' then ''semantic''
                else if r = ''raw.desktop'' then ''raw''
                else if r = ''visual.desktop'' then ''visual''
                else if r = ''external.mcp'' then ''external''
                else ''other''))"

text \<open>\<open>counter[key] += 1\<close> on a \<open>Counter\<close>, and \<open>counter.get(key, 0)\<close>.\<close>

fun counter_add :: "string \<Rightarrow> (string \<times> nat) list \<Rightarrow> (string \<times> nat) list" where
  "counter_add k [] = [(k, 1)]"
| "counter_add k ((q, n) # rest) = (if q = k then (q, n + 1) # rest else (q, n) # counter_add k rest)"

definition counter_get :: "string \<Rightarrow> (string \<times> nat) list \<Rightarrow> nat" where
  "counter_get k c = (case map_of c k of None \<Rightarrow> 0 | Some n \<Rightarrow> n)"

text \<open>\<open>deque(maxlen=n).append\<close>.\<close>

definition push_recent :: "nat \<Rightarrow> 'a \<Rightarrow> 'a list \<Rightarrow> 'a list" where
  "push_recent n x xs = drop (length xs + 1 - n) (xs @ [x])"

definition record_decision ::
  "string \<Rightarrow> string option \<Rightarrow> int option \<Rightarrow> string \<Rightarrow> int \<Rightarrow> int \<Rightarrow> rat \<Rightarrow> router_metrics \<Rightarrow> router_metrics" where
  "record_decision intent selected fallback policy candidates rejected elapsed m =
     (let bounded = max elapsed 0;
          m = m\<lparr>mt_decision_count := mt_decision_count m + 1\<rparr>;
          m = (if selected = None then m\<lparr>mt_no_route_count := mt_no_route_count m + 1\<rparr> else m);
          m = m\<lparr>mt_rejected_candidate_count := mt_rejected_candidate_count m + max rejected 0\<rparr>;
          m = (case selected of
                 None \<Rightarrow> m
               | Some r \<Rightarrow>
                   let m = m\<lparr>mt_route_distribution := counter_add r (mt_route_distribution m)\<rparr> in
                   (case family (Some r) of
                      None \<Rightarrow> m
                    | Some f \<Rightarrow> m\<lparr>mt_usage := counter_add f (mt_usage m)\<rparr>));
          m = (case fallback of
                 None \<Rightarrow> m
               | Some l \<Rightarrow> if 0 < l then m\<lparr>mt_fallback_count := mt_fallback_count m + 1\<rparr> else m);
          m = m\<lparr>mt_latency_total := mt_latency_total m + bounded,
                mt_latency_max := max (mt_latency_max m) bounded\<rparr>
      in m\<lparr>mt_recent := push_recent (mt_max_recent m)
             \<lparr>de_intent = take 200 intent, de_selected_route = selected, de_fallback_level = fallback,
              de_policy_version = take 100 policy, de_candidate_count = max candidates 0,
              de_rejected_candidate_count = max rejected 0\<rparr> (mt_recent m)\<rparr>)"

record metrics_snapshot =
  sn_decision_count :: nat
  sn_no_route_count :: nat
  sn_rejected_candidate_count :: int
  sn_fallback_count :: nat
  sn_fallback_rate :: rat
  sn_route_distribution :: "(string \<times> nat) list"
  sn_usage :: "(string \<times> nat) list"
  sn_latency_average :: rat
  sn_latency_max :: rat
  sn_recent_decisions :: "decision_entry list"
  sn_recent_limit :: nat

definition snapshot :: "router_metrics \<Rightarrow> metrics_snapshot" where
  "snapshot m =
     (let count = mt_decision_count m; usage = mt_usage m in
      \<lparr>sn_decision_count = count, sn_no_route_count = mt_no_route_count m,
       sn_rejected_candidate_count = mt_rejected_candidate_count m,
       sn_fallback_count = mt_fallback_count m,
       sn_fallback_rate = (if count \<noteq> 0 then of_nat (mt_fallback_count m) / of_nat count else 0),
       sn_route_distribution = sort_key fst (mt_route_distribution m),
       sn_usage =
         map (\<lambda>k. (k, counter_get k usage)) [''native'', ''semantic'', ''raw'', ''visual'', ''other'']
         @ (if counter_get ''external'' usage \<noteq> 0 then [(''external'', counter_get ''external'' usage)] else []),
       sn_latency_average = (if count \<noteq> 0 then mt_latency_total m / of_nat count else 0),
       sn_latency_max = mt_latency_max m,
       sn_recent_decisions = mt_recent m, sn_recent_limit = mt_max_recent m\<rparr>)"

subsection \<open>The router\<close>

definition ROUTER_POLICY_VERSION :: string where
  "ROUTER_POLICY_VERSION = ''deterministic-v1''"

definition MAX_CANDIDATES :: int where
  "MAX_CANDIDATES = 25"

record router =
  ro_registered_tools :: "string list"
  ro_capabilities :: "string \<Rightarrow> bool"
  ro_policy_version :: string
  ro_enabled :: bool
  ro_extension_manager :: "(execution_intent \<Rightarrow> string \<Rightarrow> route_candidate list) option"
  ro_active_profile :: string

definition new_router ::
  "string list \<Rightarrow> (string \<Rightarrow> bool) \<Rightarrow> string \<Rightarrow> bool
   \<Rightarrow> (execution_intent \<Rightarrow> string \<Rightarrow> route_candidate list) option \<Rightarrow> string \<Rightarrow> router" where
  "new_router registered capabilities policy enabled manager profile =
     \<lparr>ro_registered_tools = registered, ro_capabilities = capabilities,
      ro_policy_version = casefold (py_strip policy), ro_enabled = enabled,
      ro_extension_manager = manager, ro_active_profile = profile\<rparr>"

definition validate_policy :: "router \<Rightarrow> unit res" where
  "validate_policy ro =
     (if \<not> ro_enabled ro then Inl (ToolError ''execution_router_disabled'')
      else if ro_policy_version ro \<noteq> ROUTER_POLICY_VERSION then Inl (ToolError ''unsupported_router_policy'')
      else Inr ())"

definition hard_rejection :: "execution_intent \<Rightarrow> route_candidate \<Rightarrow> (string \<times> string) option" where
  "hard_rejection intent c =
     (let route = rc_route c in
      if route = VISUAL_DESKTOP then
        Some (''visual_route_unavailable'', ''visual desktop routing is deferred to v0.9.0'')
      else if in_semantic_stale intent \<and> route \<in> {SEMANTIC_BROWSER, SEMANTIC_WINDOWS_UIA, RAW_DESKTOP} then
        Some (''stale_semantic_reference'', ''stale semantic references cannot fall back to desktop coordinates'')
      else if in_destructive intent \<and> in_semantic_ambiguous intent \<and> route \<in> {SEMANTIC_BROWSER, SEMANTIC_WINDOWS_UIA} then
        Some (''destructive_semantic_ambiguous'', ''ambiguous semantic destructive actions are not auto-selected'')
      else if route = RAW_DESKTOP \<and> in_destructive intent then
        Some (''destructive_raw_desktop_forbidden'', ''destructive actions cannot auto-select raw desktop input'')
      else if route = RAW_DESKTOP \<and> \<not> in_allow_raw_desktop intent then
        Some (''raw_desktop_not_allowed'', ''raw desktop routing requires explicit permission'')
      else if in_requires_macro_preservation intent \<and> \<not> rc_preserves_macros c then
        Some (''macro_preservation_unsupported'', ''route cannot prove macro preservation'')
      else None)"

text \<open>\<open>replace(candidate, supported=False, ...)\<close> runs \<open>__post_init__\<close> again.\<close>

definition reject :: "route_candidate \<Rightarrow> string \<times> string \<Rightarrow> route_candidate res" where
  "reject c rejection =
     candidate_post_init
       (c\<lparr>rc_supported := False, rc_rejection_code := Some (fst rejection), rc_reason := snd rejection\<rparr>)"

text \<open>\<open>repr\<close> of a string without quotes or control characters, as tool and capability names are.\<close>

definition quoted :: "string \<Rightarrow> string" where
  "quoted s = [CHR 0x27] @ s @ [CHR 0x27]"

text \<open>The loop over the required capabilities: the checks collected, whether the route is still
  supported, the rejection code and the reason.\<close>

fun capability_loop ::
  "(string \<Rightarrow> bool) \<Rightarrow> string list \<Rightarrow> string list \<times> bool \<times> string option \<times> string
   \<Rightarrow> string list \<times> bool \<times> string option \<times> string" where
  "capability_loop caps [] acc = acc"
| "capability_loop caps (name # names) (checks, supported, code, reason) =
     (let available = caps name;
          checks = checks @ [''capability:'' @ name @ ''='' @ (if available then ''available'' else ''unavailable'')]
      in capability_loop caps names
           (if \<not> available \<and> supported
            then (checks, False, Some ''capability_unavailable'',
                  ''required capability '' @ quoted name @ '' is unavailable'')
            else (checks, supported, code, reason)))"

definition candidate_checks :: "router \<Rightarrow> intent_route_rule \<Rightarrow> string list \<times> bool \<times> string option \<times> string" where
  "candidate_checks ro r =
     capability_loop (ro_capabilities ro) (ir_required_capabilities r)
       (if ir_tool r \<notin> set (ro_registered_tools ro)
        then ([''tool:'' @ ir_tool r @ ''=unavailable''], False, Some ''tool_unavailable'',
              ''required tool '' @ quoted (ir_tool r) @ '' is not registered'')
        else ([''tool:'' @ ir_tool r @ ''=available''], True, None,
              ''registered route satisfies current capability snapshot''))"

definition rule_candidate :: "intent_route_rule \<Rightarrow> string list \<times> bool \<times> string option \<times> string \<Rightarrow> route_candidate" where
  "rule_candidate r = (\<lambda>(checks, supported, code, reason).
     \<lparr>rc_route = ir_route r, rc_tool = ir_tool r, rc_determinism = ir_determinism r, rc_risk = ir_risk r,
      rc_recoverability = ir_recoverability r, rc_confidence = ir_confidence r,
      rc_cost_tier = ir_cost_tier r, rc_latency_tier = ir_latency_tier r,
      rc_fallback_level = ir_fallback_level r, rc_checks = checks, rc_supported = supported,
      rc_reason = reason, rc_rejection_code = code, rc_preserves_macros = ir_preserves_macros r,
      rc_external = None\<rparr>)"

definition candidate_for :: "router \<Rightarrow> execution_intent \<Rightarrow> intent_route_rule \<Rightarrow> route_candidate res" where
  "candidate_for ro intent r =
     bind_res (candidate_post_init (rule_candidate r (candidate_checks ro r))) (\<lambda>c.
       if rc_supported c then
         (case hard_rejection intent c of None \<Rightarrow> Inr c | Some rejection \<Rightarrow> reject c rejection)
       else Inr c)"

fun recoverability_rank :: "recoverability_class \<Rightarrow> int" where
  "recoverability_rank REC_WEAK = 1"
| "recoverability_rank REC_MEDIUM = 2"
| "recoverability_rank REC_STRONG = 3"

fun risk_rank :: "risk_class \<Rightarrow> int" where
  "risk_rank RISK_LOW = 1"
| "risk_rank RISK_MEDIUM = 2"
| "risk_rank RISK_HIGH = 3"

definition candidate_key ::
  "route_candidate \<Rightarrow> int \<times> int \<times> int \<times> int \<times> int \<times> int \<times> string \<times> string" where
  "candidate_key c =
     (- rc_determinism c, - recoverability_rank (rc_recoverability c), risk_rank (rc_risk c),
      - rc_confidence c, rc_cost_tier c, rc_latency_tier c, route_value (rc_route c), rc_tool c)"

definition rejected_key :: "route_candidate \<Rightarrow> int \<times> string \<times> string" where
  "rejected_key c = (rc_fallback_level c, route_value (rc_route c), rc_tool c)"

definition screen_external :: "router \<Rightarrow> execution_intent \<Rightarrow> route_candidate \<Rightarrow> route_candidate res" where
  "screen_external ro intent c =
     (if \<not> rc_supported c then Inr c
      else if rc_tool c \<notin> set (ro_registered_tools ro) then
        reject c (''tool_unavailable'', ''external tool is absent from the current client catalog'')
      else (case hard_rejection intent c of None \<Rightarrow> Inr c | Some rejection \<Rightarrow> reject c rejection))"

definition order_candidates :: "route_candidate list \<Rightarrow> route_candidate list" where
  "order_candidates items =
     sort_key candidate_key (filter rc_supported items)
     @ sort_key rejected_key (filter (\<lambda>c. \<not> rc_supported c) items)"

definition offered :: "router \<Rightarrow> execution_intent \<Rightarrow> route_candidate list" where
  "offered ro intent =
     (case ro_extension_manager ro of None \<Rightarrow> [] | Some routing \<Rightarrow> routing intent (ro_active_profile ro))"

definition rules_or_empty :: "execution_intent \<Rightarrow> route_candidate list \<Rightarrow> intent_route_rule list res" where
  "rules_or_empty intent external =
     (case intent_route_rules (in_name intent) of
        Inr rules \<Rightarrow> Inr rules
      | Inl e \<Rightarrow> if e \<noteq> ToolError ''unknown_execution_intent'' \<or> external = [] then Inl e else Inr [])"

definition all_candidates :: "router \<Rightarrow> execution_intent \<Rightarrow> route_candidate list res" where
  "all_candidates ro intent =
     bind_res (map_res (screen_external ro intent) (offered ro intent)) (\<lambda>external.
     bind_res (rules_or_empty intent external) (\<lambda>rules.
     bind_res (map_res (candidate_for ro intent) rules) (\<lambda>items.
       Inr (order_candidates (items @ external)))))"

record candidate_response =
  cr_intent :: string
  cr_policy_version :: string
  cr_items :: "route_candidate list"
  cr_count :: nat
  cr_total :: nat
  cr_valid_count :: nat
  cr_rejected_count :: int
  cr_truncated :: bool

definition response_of :: "router \<Rightarrow> execution_intent \<Rightarrow> route_candidate list \<Rightarrow> int \<Rightarrow> candidate_response" where
  "response_of ro intent cs max_candidates =
     (let bounded_limit = min (max max_candidates 1) MAX_CANDIDATES;
          returned = take (nat bounded_limit) cs;
          valid_count = length (filter rc_supported cs)
      in \<lparr>cr_intent = in_name intent, cr_policy_version = ro_policy_version ro, cr_items = returned,
          cr_count = length returned, cr_total = length cs, cr_valid_count = valid_count,
          cr_rejected_count = int (length cs) - int valid_count,
          cr_truncated = (length returned < length cs)\<rparr>)"

definition response_as_dict :: "candidate_response \<Rightarrow> (string \<times> json) list" where
  "response_as_dict r =
     [(''ok'', JBool True), (''intent'', JStr (cr_intent r)),
      (''router_policy_version'', JStr (cr_policy_version r)),
      (''items'', JList (map (JObj \<circ> candidate_as_dict) (cr_items r))), (''count'', JInt (int (cr_count r))),
      (''total_candidates'', JInt (int (cr_total r))),
      (''valid_candidate_count'', JInt (int (cr_valid_count r))),
      (''rejected_candidate_count'', JInt (cr_rejected_count r)), (''truncated'', JBool (cr_truncated r))]"

definition candidates :: "router \<Rightarrow> execution_intent \<Rightarrow> int \<Rightarrow> (string \<times> json) list res" where
  "candidates ro intent max_candidates =
     bind_res (validate_policy ro) (\<lambda>_.
     bind_res (all_candidates ro intent) (\<lambda>cs. Inr (response_as_dict (response_of ro intent cs max_candidates))))"

definition selected_candidate :: "route_candidate list \<Rightarrow> route_candidate option" where
  "selected_candidate cs = (case filter rc_supported cs of [] \<Rightarrow> None | c # _ \<Rightarrow> Some c)"

definition selection_reason :: "route_candidate option \<Rightarrow> string" where
  "selection_reason selected =
     (case selected of
        None \<Rightarrow> ''no valid route under current tool and capability snapshot''
      | Some c \<Rightarrow>
          if rc_external c \<noteq> None
          then ''highest valid route under deterministic-v1 using operator policy estimates''
          else ''highest deterministic valid route under deterministic-v1'')"

definition decide :: "router \<Rightarrow> execution_intent \<Rightarrow> route_candidate list \<Rightarrow> route_decision res" where
  "decide ro intent cs =
     (let valid = filter rc_supported cs; selected = selected_candidate cs in
      decision_post_init
        \<lparr>rd_intent = in_name intent, rd_selected_route = map_option rc_route selected,
         rd_tool = map_option rc_tool selected, rd_candidate_count = int (length valid),
         rd_selection_reason = selection_reason selected,
         rd_fallback_level = map_option rc_fallback_level selected,
         rd_checks = (case selected of None \<Rightarrow> [] | Some c \<Rightarrow> rc_checks c),
         rd_risk = map_option rc_risk selected, rd_policy_version = ro_policy_version ro,
         rd_external = Option.bind selected rc_external\<rparr>)"

record recommendation =
  re_ok :: bool
  re_decision :: route_decision
  re_candidates :: "route_candidate list"
  re_rejected_count :: int
  re_truncated :: bool

text \<open>\<open>recommend\<close> with \<open>explain\<close>; without it the last three entries are left out of the answer,
  as \<open>recommendation_as_dict\<close> writes it. The metrics change only when the call returns.\<close>

definition recommend ::
  "router \<Rightarrow> execution_intent \<Rightarrow> int \<Rightarrow> rat \<Rightarrow> router_metrics \<Rightarrow> (recommendation \<times> router_metrics) res" where
  "recommend ro intent max_candidates elapsed m =
     bind_res (validate_policy ro) (\<lambda>_.
     bind_res (all_candidates ro intent) (\<lambda>cs.
     bind_res (decide ro intent cs) (\<lambda>decision.
       let response = response_of ro intent cs max_candidates;
           selected = selected_candidate cs
       in Inr (\<lparr>re_ok = (selected \<noteq> None), re_decision = decision, re_candidates = cr_items response,
                re_rejected_count = cr_rejected_count response, re_truncated = cr_truncated response\<rparr>,
               record_decision (in_name intent) (map_option (\<lambda>c. route_value (rc_route c)) selected)
                 (map_option rc_fallback_level selected) (ro_policy_version ro)
                 (int (length (filter rc_supported cs))) (cr_rejected_count response) elapsed m))))"

definition recommendation_as_dict :: "bool \<Rightarrow> recommendation \<Rightarrow> (string \<times> json) list" where
  "recommendation_as_dict explain r =
     (''ok'', JBool (re_ok r)) # decision_as_dict (re_decision r)
     @ (if explain
        then [(''candidates'', JList (map (JObj \<circ> candidate_as_dict) (re_candidates r))),
              (''rejected_candidate_count'', JInt (re_rejected_count r)), (''truncated'', JBool (re_truncated r))]
        else [])"

definition build_route_planner ::
  "string list \<Rightarrow> (string \<Rightarrow> bool) \<Rightarrow> string \<Rightarrow> bool \<Rightarrow> bool
   \<Rightarrow> (execution_intent \<Rightarrow> string \<Rightarrow> route_candidate list) option \<Rightarrow> string
   \<Rightarrow> execution_intent \<Rightarrow> rat \<Rightarrow> router_metrics \<Rightarrow> ((string \<times> json) list \<times> router_metrics) res" where
  "build_route_planner registered capabilities policy enabled explain manager profile =
     (let ro = new_router registered capabilities policy enabled manager profile in
      (\<lambda>intent elapsed m. bind_res (recommend ro intent 8 elapsed m) (\<lambda>(r, m').
         Inr (recommendation_as_dict explain r, m'))))"

subsection \<open>Interface: an order that decides every tie\<close>

text \<open>
  Sorting is the router's only source of choice. Its law: two items of one rank have one identity,
  so a list of items with different identities has one sorted order whatever order it came in.
\<close>

locale total_rank =
  fixes rank :: "'a \<Rightarrow> 'k::linorder"
    and ident :: "'a \<Rightarrow> 'i"
  assumes rank_ident: "rank x = rank y \<Longrightarrow> ident x = ident y"
begin

lemma rank_inj: "distinct (map ident xs) \<Longrightarrow> inj_on rank (set xs)"
  by (auto simp: distinct_map inj_on_def dest: rank_ident)

lemma sort_unique:
  assumes "set xs = set ys" "distinct (map ident xs)" "distinct (map ident ys)"
  shows "sort_key rank xs = sort_key rank ys"
proof -
  let ?xs = "sort_key rank xs" and ?ys = "sort_key rank ys"
  have inj: "inj_on rank (set xs)" by (rule rank_inj [OF assms(2)])
  have "distinct xs" "distinct ys" using assms by (simp_all add: distinct_map)
  then have "distinct (map rank ?xs)" "distinct (map rank ?ys)"
    using inj assms(1) by (simp_all add: distinct_map)
  then have "map rank ?xs = map rank ?ys"
    using assms(1) by (intro sorted_distinct_set_unique) (simp_all add: sorted_sort_key)
  then show ?thesis using inj assms(1) by (intro map_inj_on [of rank]) simp_all
qed

lemma sort_hd_least: "x \<in> set xs \<Longrightarrow> rank (hd (sort_key rank xs)) \<le> rank x"
proof -
  assume x: "x \<in> set xs"
  obtain y ys where s: "sort_key rank xs = y # ys"
    using x by (cases "sort_key rank xs") (auto dest: arg_cong [where f = set])
  have "sorted (map rank (y # ys))" using sorted_sort_key [of rank xs] s by simp
  moreover have "x \<in> set (y # ys)" using x s by (metis set_sort)
  ultimately show ?thesis using s by auto
qed

end

definition route_tool :: "route_candidate \<Rightarrow> route_class \<times> string" where
  "route_tool c = (rc_route c, rc_tool c)"

interpretation valid_rank: total_rank candidate_key route_tool
  by unfold_locales (simp add: candidate_key_def route_tool_def)

interpretation rejected_rank: total_rank rejected_key route_tool
  by unfold_locales (simp add: rejected_key_def route_tool_def)

lemma order_candidates_unique:
  assumes "set xs = set ys" "distinct (map route_tool xs)" "distinct (map route_tool ys)"
  shows "order_candidates xs = order_candidates ys"
proof -
  have "sort_key candidate_key (filter rc_supported xs) = sort_key candidate_key (filter rc_supported ys)"
    using assms by (intro valid_rank.sort_unique) (simp_all add: distinct_map_filter)
  moreover have "sort_key rejected_key (filter (\<lambda>c. \<not> rc_supported c) xs) =
      sort_key rejected_key (filter (\<lambda>c. \<not> rc_supported c) ys)"
    using assms by (intro rejected_rank.sort_unique) (simp_all add: distinct_map_filter)
  ultimately show ?thesis by (simp add: order_candidates_def)
qed

lemma set_order_candidates [simp]: "set (order_candidates xs) = set xs"
  by (auto simp: order_candidates_def)

lemma filter_all_rejected: "filter rc_supported (sort_key k (filter (\<lambda>c. \<not> rc_supported c) xs)) = []"
  by (simp add: filter_empty_conv)

lemma filter_order_candidates:
  "filter rc_supported (order_candidates xs) = sort_key candidate_key (filter rc_supported xs)"
  by (simp add: order_candidates_def filter_all_rejected)

text \<open>The selected candidate is the first of the whole list, and the best of the supported ones.\<close>

lemma selected_first:
  assumes "selected_candidate (order_candidates xs) = Some c"
  shows "\<exists>rest. order_candidates xs = c # rest"
  using assms unfolding selected_candidate_def filter_order_candidates
  by (auto simp: order_candidates_def split: list.splits)

lemma selected_best:
  assumes "selected_candidate (order_candidates xs) = Some c"
  shows "c \<in> set xs" "rc_supported c" "d \<in> set xs \<Longrightarrow> rc_supported d \<Longrightarrow> candidate_key c \<le> candidate_key d"
proof -
  obtain rest where s: "sort_key candidate_key (filter rc_supported xs) = c # rest"
    using assms unfolding selected_candidate_def filter_order_candidates by (auto split: list.splits)
  have "c \<in> set (filter rc_supported xs)" using s by (metis list.set_intros(1) set_sort)
  then show "c \<in> set xs" "rc_supported c" by simp_all
  show "candidate_key c \<le> candidate_key d" if "d \<in> set xs" "rc_supported d"
    using valid_rank.sort_hd_least [of d "filter rc_supported xs"] that s by simp
qed

lemma selected_none:
  "selected_candidate (order_candidates xs) = None \<longleftrightarrow> (\<forall>c \<in> set xs. \<not> rc_supported c)"
proof -
  have "selected_candidate (order_candidates xs) = None \<longleftrightarrow> filter rc_supported (order_candidates xs) = []"
    by (simp add: selected_candidate_def split: list.splits)
  then show ?thesis by (simp add: filter_empty_conv)
qed

subsection \<open>Building candidates\<close>

lemma capability_loop_supported:
  "fst (snd (capability_loop caps names (checks, supported, code, reason))) \<longleftrightarrow> supported \<and> list_all caps names"
  by (induction names arbitrary: checks supported code reason) (simp_all add: Let_def)

text \<open>What a rule needs of the machine: its tool is registered and its capabilities are there.\<close>

definition rule_available :: "router \<Rightarrow> intent_route_rule \<Rightarrow> bool" where
  "rule_available ro r \<longleftrightarrow>
     ir_tool r \<in> set (ro_registered_tools ro) \<and> list_all (ro_capabilities ro) (ir_required_capabilities r)"

lemma rule_candidate_fields [simp]:
  "rc_route (rule_candidate r x) = ir_route r" "rc_tool (rule_candidate r x) = ir_tool r"
  "rc_external (rule_candidate r x) = None" "rc_preserves_macros (rule_candidate r x) = ir_preserves_macros r"
  "rc_supported (rule_candidate r x) = fst (snd x)"
  by (simp_all add: rule_candidate_def split: prod.splits)

lemma candidate_checks_supported: "fst (snd (candidate_checks ro r)) \<longleftrightarrow> rule_available ro r"
  by (simp add: candidate_checks_def capability_loop_supported rule_available_def)

lemma rule_candidate_ok: "rule_ok r \<Longrightarrow> candidate_ok (rule_candidate r x)"
  by (simp add: rule_ok_def candidate_ok_iff rule_candidate_def split: prod.splits)

definition rejected :: "route_candidate \<Rightarrow> string \<times> string \<Rightarrow> route_candidate" where
  "rejected c rejection =
     c\<lparr>rc_supported := False, rc_rejection_code := Some (fst rejection), rc_reason := snd rejection\<rparr>"

lemma rejected_fields [simp]:
  "rc_route (rejected c x) = rc_route c" "rc_tool (rejected c x) = rc_tool c"
  "rc_preserves_macros (rejected c x) = rc_preserves_macros c" "\<not> rc_supported (rejected c x)"
  by (simp_all add: rejected_def)

lemma candidate_ok_rejected: "candidate_ok c \<Longrightarrow> candidate_ok (rejected c x)"
  unfolding rejected_def by (rule candidate_ok_reject)

lemma reject_ok: "candidate_ok c \<Longrightarrow> reject c rejection = Inr (rejected c rejection)"
  unfolding reject_def rejected_def candidate_post_init_cases by (simp add: candidate_ok_reject)

text \<open>The two screens as total functions, on objects of the class.\<close>

definition screen_hard :: "execution_intent \<Rightarrow> route_candidate \<Rightarrow> route_candidate" where
  "screen_hard intent c =
     (if rc_supported c then (case hard_rejection intent c of None \<Rightarrow> c | Some x \<Rightarrow> rejected c x) else c)"

lemma screen_hard_fields [simp]:
  "rc_route (screen_hard intent c) = rc_route c" "rc_tool (screen_hard intent c) = rc_tool c"
  "rc_supported (screen_hard intent c) \<longleftrightarrow> rc_supported c \<and> hard_rejection intent c = None"
  by (simp_all add: screen_hard_def split: option.splits)

lemma screen_hard_ok: "candidate_ok c \<Longrightarrow> candidate_ok (screen_hard intent c)"
  by (simp add: screen_hard_def candidate_ok_rejected split: option.splits)

definition native :: "router \<Rightarrow> execution_intent \<Rightarrow> intent_route_rule \<Rightarrow> route_candidate" where
  "native ro intent r = screen_hard intent (rule_candidate r (candidate_checks ro r))"

lemma candidate_native: "rule_ok r \<Longrightarrow> candidate_for ro intent r = Inr (native ro intent r)"
  by (simp add: candidate_for_def native_def candidate_post_init_cases rule_candidate_ok screen_hard_def reject_ok
      split: option.splits)

definition screened :: "router \<Rightarrow> execution_intent \<Rightarrow> route_candidate \<Rightarrow> route_candidate" where
  "screened ro intent c =
     (if rc_supported c \<and> rc_tool c \<notin> set (ro_registered_tools ro)
      then rejected c (''tool_unavailable'', ''external tool is absent from the current client catalog'')
      else screen_hard intent c)"

lemma screen_external_screened:
  "candidate_ok c \<Longrightarrow> screen_external ro intent c = Inr (screened ro intent c)"
  by (simp add: screen_external_def screened_def screen_hard_def reject_ok split: option.splits)

lemma native_fields [simp]:
  "rc_route (native ro intent r) = ir_route r" "rc_tool (native ro intent r) = ir_tool r"
  by (simp_all add: native_def)

lemma native_supported:
  "rc_supported (native ro intent r) \<longleftrightarrow>
     rule_available ro r \<and> hard_rejection intent (rule_candidate r (candidate_checks ro r)) = None"
  by (simp add: native_def candidate_checks_supported)

lemma screened_fields [simp]:
  "rc_route (screened ro intent c) = rc_route c" "rc_tool (screened ro intent c) = rc_tool c"
  by (simp_all add: screened_def)

lemma screened_supported:
  "rc_supported (screened ro intent c) \<longleftrightarrow>
     rc_supported c \<and> rc_tool c \<in> set (ro_registered_tools ro) \<and> hard_rejection intent c = None"
  by (auto simp: screened_def)

lemma native_ok: "rule_ok r \<Longrightarrow> candidate_ok (native ro intent r)"
  by (simp add: native_def screen_hard_ok rule_candidate_ok)

lemma screened_ok: "candidate_ok c \<Longrightarrow> candidate_ok (screened ro intent c)"
  by (simp add: screened_def candidate_ok_rejected screen_hard_ok)

subsection \<open>The whole list\<close>

text \<open>Every offered object passed its own \<open>__post_init__\<close>.\<close>

definition offers_ok :: "router \<Rightarrow> execution_intent \<Rightarrow> bool" where
  "offers_ok ro intent \<longleftrightarrow> list_all candidate_ok (offered ro intent)"

definition plan :: "router \<Rightarrow> execution_intent \<Rightarrow> intent_route_rule list \<Rightarrow> route_candidate list" where
  "plan ro intent rules = map (native ro intent) rules @ map (screened ro intent) (offered ro intent)"

lemma screen_offers:
  "offers_ok ro intent \<Longrightarrow>
   map_res (screen_external ro intent) (offered ro intent) = Inr (map (screened ro intent) (offered ro intent))"
  by (rule map_res_total) (simp add: offers_ok_def list_all_iff screen_external_screened)

lemma build_rules:
  "list_all rule_ok rules \<Longrightarrow> map_res (candidate_for ro intent) rules = Inr (map (native ro intent) rules)"
  by (rule map_res_total) (simp add: list_all_iff candidate_native)

lemma rules_or_empty_ok:
  assumes "rules_or_empty intent external = Inr rules"
  shows "list_all rule_ok rules" "distinct (map ir_route rules)"
  using assms intent_route_rules_ok [of "in_name intent"]
  by (auto simp: rules_or_empty_def split: sum.splits if_splits)

lemma rules_or_empty_map:
  "rules_or_empty intent (map f xs) = rules_or_empty intent xs"
  by (simp add: rules_or_empty_def split: sum.splits)

lemma all_candidates_plan:
  assumes "offers_ok ro intent"
  shows "all_candidates ro intent =
    map_sum id (\<lambda>rules. order_candidates (plan ro intent rules)) (rules_or_empty intent (offered ro intent))"
proof (cases "rules_or_empty intent (offered ro intent)")
  case (Inl e)
  then show ?thesis using screen_offers [OF assms] by (simp add: all_candidates_def rules_or_empty_map)
next
  case (Inr rules)
  then show ?thesis
    using screen_offers [OF assms] build_rules [OF rules_or_empty_ok(1) [OF Inr]]
    by (simp add: all_candidates_def rules_or_empty_map plan_def)
qed

lemma plan_ok:
  assumes "offers_ok ro intent" "list_all rule_ok rules"
  shows "list_all candidate_ok (plan ro intent rules)"
  using assms by (auto simp: plan_def offers_ok_def list_all_iff native_ok screened_ok)

lemma decide_ok:
  assumes "list_all candidate_ok xs" "ro_policy_version ro = ROUTER_POLICY_VERSION"
  shows "\<exists>d. decide ro intent (order_candidates xs) = Inr d \<and> decision_ok d"
proof -
  let ?c = "selected_candidate (order_candidates xs)"
  have "candidate_ok c \<and> rc_supported c" if "?c = Some c" for c
    using selected_best(1,2) [OF that] assms(1) by (auto simp: list_all_iff)
  then show ?thesis
    using assms(2) unfolding decide_def Let_def decision_post_init_cases
    by (cases ?c) (auto simp: decision_ok_iff candidate_ok_iff ROUTER_POLICY_VERSION_def)
qed

lemma decide_fields:
  assumes "decide ro intent cs = Inr d"
  shows "rd_selected_route d = map_option rc_route (selected_candidate cs)"
    "rd_tool d = map_option rc_tool (selected_candidate cs)"
    "rd_fallback_level d = map_option rc_fallback_level (selected_candidate cs)"
    "rd_candidate_count d = int (length (filter rc_supported cs))"
  using assms by (auto simp: decide_def Let_def decision_post_init_cases split: if_splits)

definition router_ready :: "router \<Rightarrow> bool" where
  "router_ready ro \<longleftrightarrow> ro_enabled ro \<and> ro_policy_version ro = ROUTER_POLICY_VERSION"

lemma validate_policy_ready: "validate_policy ro = Inr () \<longleftrightarrow> router_ready ro"
  by (simp add: validate_policy_def router_ready_def)

text \<open>A recommendation that returns is the one of the ordered plan.\<close>

lemma recommend_plan:
  assumes "recommend ro intent k elapsed m = Inr (r, m')" "offers_ok ro intent"
  obtains rules where
    "router_ready ro" "rules_or_empty intent (offered ro intent) = Inr rules"
    "decide ro intent (order_candidates (plan ro intent rules)) = Inr (re_decision r)"
    "re_candidates r = cr_items (response_of ro intent (order_candidates (plan ro intent rules)) k)"
    "re_ok r \<longleftrightarrow> selected_candidate (order_candidates (plan ro intent rules)) \<noteq> None"
    "re_rejected_count r = cr_rejected_count (response_of ro intent (order_candidates (plan ro intent rules)) k)"
    "m' = record_decision (in_name intent)
       (map_option (\<lambda>c. route_value (rc_route c)) (selected_candidate (order_candidates (plan ro intent rules))))
       (map_option rc_fallback_level (selected_candidate (order_candidates (plan ro intent rules))))
       (ro_policy_version ro) (rd_candidate_count (re_decision r)) (re_rejected_count r) elapsed m"
proof -
  obtain cs where cs: "router_ready ro" "all_candidates ro intent = Inr cs" "decide ro intent cs = Inr (re_decision r)"
    and r: "r = \<lparr>re_ok = (selected_candidate cs \<noteq> None), re_decision = re_decision r,
        re_candidates = cr_items (response_of ro intent cs k),
        re_rejected_count = cr_rejected_count (response_of ro intent cs k),
        re_truncated = cr_truncated (response_of ro intent cs k)\<rparr>"
    and m': "m' = record_decision (in_name intent) (map_option (\<lambda>c. route_value (rc_route c)) (selected_candidate cs))
        (map_option rc_fallback_level (selected_candidate cs)) (ro_policy_version ro)
        (int (length (filter rc_supported cs))) (cr_rejected_count (response_of ro intent cs k)) elapsed m"
    using assms(1) by (auto simp: recommend_def bind_res_Inr validate_policy_ready Let_def)
  obtain rules where rules: "rules_or_empty intent (offered ro intent) = Inr rules"
    "cs = order_candidates (plan ro intent rules)"
    using cs(2) unfolding all_candidates_plan [OF assms(2)]
    by (cases "rules_or_empty intent (offered ro intent)") auto
  have "re_candidates r = cr_items (response_of ro intent cs k)" "re_ok r \<longleftrightarrow> selected_candidate cs \<noteq> None"
    "re_rejected_count r = cr_rejected_count (response_of ro intent cs k)"
    by (subst r, simp)+
  then show thesis
    using that [OF cs(1) rules(1)] cs(3) m' decide_fields(4) [OF cs(3)] unfolding rules(2) by simp
qed

lemma first_returned:
  "cs = c # rest \<Longrightarrow> \<exists>tl. cr_items (response_of ro intent cs k) = c # tl"
  by (cases "nat (min (max k 1) MAX_CANDIDATES)") (auto simp: response_of_def Let_def MAX_CANDIDATES_def)

lemma returned_bound: "length (cr_items (response_of ro intent cs k)) \<le> 25"
  by (simp add: response_of_def Let_def MAX_CANDIDATES_def)

lemma returned_subset: "set (cr_items (response_of ro intent cs k)) \<subseteq> set cs"
  by (simp add: response_of_def Let_def set_take_subset)

subsection \<open>Properties of the router\<close>

definition intent_served :: "router \<Rightarrow> execution_intent \<Rightarrow> bool" where
  "intent_served ro intent \<longleftrightarrow> \<not> is_error (intent_route_rules (in_name intent)) \<or> offered ro intent \<noteq> []"

lemma rules_or_empty_served:
  "\<not> is_error (rules_or_empty intent (offered ro intent)) \<longleftrightarrow> intent_served ro intent"
  by (auto simp: rules_or_empty_def intent_served_def intent_route_rules_error split: sum.splits if_splits)

lemma rules_or_empty_error:
  "rules_or_empty intent xs = Inl e \<Longrightarrow> e = ToolError ''unknown_execution_intent''"
  by (auto simp: rules_or_empty_def intent_route_rules_error split: sum.splits if_splits)

lemma recommend_returns:
  assumes "offers_ok ro intent" "router_ready ro" "rules_or_empty intent (offered ro intent) = Inr rules"
  shows "\<exists>r m'. recommend ro intent k elapsed m = Inr (r, m')"
proof -
  obtain d where "decide ro intent (order_candidates (plan ro intent rules)) = Inr d"
    using decide_ok [OF plan_ok [OF assms(1) rules_or_empty_ok(1) [OF assms(3)]]] assms(2)
    by (auto simp: router_ready_def)
  then show ?thesis
    using assms by (simp add: recommend_def validate_policy_ready [THEN iffD2] all_candidates_plan Let_def)
qed

lemma recommend_errors:
  assumes "offers_ok ro intent" "recommend ro intent k elapsed m = Inl e"
  shows "e = (if \<not> ro_enabled ro then ToolError ''execution_router_disabled''
              else if ro_policy_version ro \<noteq> ROUTER_POLICY_VERSION then ToolError ''unsupported_router_policy''
              else ToolError ''unknown_execution_intent'')"
proof (cases "router_ready ro")
  case True
  show ?thesis
  proof (cases "rules_or_empty intent (offered ro intent)")
    case (Inl f)
    then show ?thesis
      using assms True rules_or_empty_error [OF Inl]
      by (auto simp: recommend_def all_candidates_plan router_ready_def validate_policy_def)
  next
    case (Inr rules)
    then show ?thesis using recommend_returns [OF assms(1) True Inr, of k elapsed m] assms(2) by auto
  qed
next
  case False
  then show ?thesis using assms(2) by (auto simp: recommend_def router_ready_def validate_policy_def split: if_splits)
qed

text \<open>C31. Planning is type sound. Whatever the intent, the registered tools, the capabilities and the
  offers of the extension manager, as long as each offer is an object of its class: the call
  returns exactly when the router is ready and the intent is in the catalogue or has an offer; it
  otherwise fails with the one tool error that names the reason, and never with the \<open>ValueError\<close> of
  a data class. What it returns satisfies the checks of its class, the decision and every
  candidate listed, of which there are at most 25.\<close>

theorem recommend_well_typed:
  assumes "list_all candidate_ok (offered ro intent)"
  shows "(case recommend ro intent k elapsed m of
      Inl e \<Rightarrow> e = (if \<not> ro_enabled ro then ToolError ''execution_router_disabled''
        else if ro_policy_version ro \<noteq> ROUTER_POLICY_VERSION then ToolError ''unsupported_router_policy''
        else ToolError ''unknown_execution_intent'') \<and> \<not> (router_ready ro \<and> intent_served ro intent)
    | Inr (r, m') \<Rightarrow> router_ready ro \<and> intent_served ro intent \<and> decision_ok (re_decision r) \<and>
        (re_ok r \<longleftrightarrow> rd_selected_route (re_decision r) \<noteq> None) \<and>
        list_all candidate_ok (re_candidates r) \<and> length (re_candidates r) \<le> 25)"
proof -
  have ok: "offers_ok ro intent" using assms by (simp add: offers_ok_def)
  show ?thesis
  proof (cases "recommend ro intent k elapsed m")
    case (Inl e)
    have "\<not> (router_ready ro \<and> intent_served ro intent)"
      using recommend_returns [OF ok, of _ k elapsed m] Inl rules_or_empty_served [of intent ro]
      by (cases "rules_or_empty intent (offered ro intent)") auto
    then show ?thesis using Inl recommend_errors [OF ok Inl] by simp
  next
    case (Inr x)
    obtain r m' where x: "x = (r, m')" by (cases x)
    obtain rules where rules: "router_ready ro" "rules_or_empty intent (offered ro intent) = Inr rules"
      "decide ro intent (order_candidates (plan ro intent rules)) = Inr (re_decision r)"
      "re_candidates r = cr_items (response_of ro intent (order_candidates (plan ro intent rules)) k)"
      "re_ok r \<longleftrightarrow> selected_candidate (order_candidates (plan ro intent rules)) \<noteq> None"
      using recommend_plan [OF Inr [unfolded x] ok] by metis
    have plan: "list_all candidate_ok (plan ro intent rules)"
      by (rule plan_ok [OF ok rules_or_empty_ok(1) [OF rules(2)]])
    then have "decision_ok (re_decision r)"
      using decide_ok [OF plan, of ro intent] rules(1,3) by (simp add: router_ready_def)
    moreover have "list_all candidate_ok (re_candidates r)"
      using plan rules(4) returned_subset [of ro intent "order_candidates (plan ro intent rules)" k]
      by (auto simp: list_all_iff)
    moreover have "intent_served ro intent"
      using rules(2) rules_or_empty_served [of intent ro] by simp
    ultimately show ?thesis
      using Inr x rules by (simp add: decide_fields(1) [OF rules(3)] returned_bound)
  qed
qed

definition example_offer :: route_candidate where
  "example_offer =
     \<lparr>rc_route = EXTERNAL_MCP, rc_tool = ''external.git.status'', rc_determinism = 4, rc_risk = RISK_LOW,
      rc_recoverability = REC_STRONG, rc_confidence = 5, rc_cost_tier = 1, rc_latency_tier = 1,
      rc_fallback_level = 1, rc_checks = [''source:external_mcp''], rc_supported = True, rc_reason = ''policy'',
      rc_rejection_code = None, rc_preserves_macros = False,
      rc_external = Some \<lparr>xm_extension_id = ''git'', xm_provider = ''acme'', xm_catalog_generation = 1\<rparr>\<rparr>"

definition example_router :: router where
  "example_router = new_router [''run_process'', ''external.git.status'', ''mouse_click''] (\<lambda>_. True) '' Deterministic-V1 '' True
     (Some (\<lambda>_ _. [example_offer])) ''full''"

definition example_intent :: "string \<Rightarrow> execution_intent" where
  "example_intent name =
     \<lparr>in_name = name, in_destructive = True, in_semantic_ambiguous = False, in_semantic_stale = False,
      in_requires_macro_preservation = False, in_allow_raw_desktop = True, in_preferred_tool = None\<rparr>"

definition example_metrics :: router_metrics where
  "example_metrics = (case new_metrics 50 of Inr m \<Rightarrow> m)"

lemma example_offered: "offered example_router intent = [example_offer]"
  by (simp add: offered_def example_router_def new_router_def)

theorem recommend_well_typed_witness:
  "(case recommend example_router (example_intent ''git.read'') 8 3 example_metrics of
      Inl e \<Rightarrow> e = (if \<not> ro_enabled example_router then ToolError ''execution_router_disabled''
        else if ro_policy_version example_router \<noteq> ROUTER_POLICY_VERSION then ToolError ''unsupported_router_policy''
        else ToolError ''unknown_execution_intent'') \<and>
        \<not> (router_ready example_router \<and> intent_served example_router (example_intent ''git.read''))
    | Inr (r, m') \<Rightarrow> router_ready example_router \<and> intent_served example_router (example_intent ''git.read'') \<and>
        decision_ok (re_decision r) \<and> (re_ok r \<longleftrightarrow> rd_selected_route (re_decision r) \<noteq> None) \<and>
        list_all candidate_ok (re_candidates r) \<and> length (re_candidates r) \<le> 25)"
proof (rule recommend_well_typed)
  show "list_all candidate_ok (offered example_router (example_intent ''git.read''))"
    unfolding example_offered by code_simp
qed

lemma hard_rejection_None:
  assumes "hard_rejection intent c = None"
  shows "rc_route c \<noteq> VISUAL_DESKTOP"
    "in_semantic_stale intent \<Longrightarrow> rc_route c \<notin> {SEMANTIC_BROWSER, SEMANTIC_WINDOWS_UIA, RAW_DESKTOP}"
    "in_destructive intent \<Longrightarrow> rc_route c \<noteq> RAW_DESKTOP"
    "in_destructive intent \<Longrightarrow> in_semantic_ambiguous intent \<Longrightarrow> rc_route c \<notin> {SEMANTIC_BROWSER, SEMANTIC_WINDOWS_UIA}"
    "rc_route c = RAW_DESKTOP \<Longrightarrow> in_allow_raw_desktop intent"
    "in_requires_macro_preservation intent \<Longrightarrow> rc_preserves_macros c"
  using assms by (auto simp: hard_rejection_def Let_def split: if_splits)

lemma plan_supported:
  assumes "c \<in> set (plan ro intent rules)" "rc_supported c"
  shows "rc_tool c \<in> set (ro_registered_tools ro)" "hard_rejection intent c = None"
proof -
  consider r where "r \<in> set rules" "c = native ro intent r"
    | d where "d \<in> set (offered ro intent)" "c = screened ro intent d"
    using assms(1) by (auto simp: plan_def)
  then have "rc_tool c \<in> set (ro_registered_tools ro) \<and> hard_rejection intent c = None"
  proof cases
    case 1
    then show ?thesis
      using assms(2) by (simp add: native_supported rule_available_def) (simp add: native_def screen_hard_def candidate_checks_supported rule_available_def)
  next
    case 2
    then show ?thesis using assms(2) by (simp add: screened_supported) (simp add: screened_def screen_hard_def)
  qed
  then show "rc_tool c \<in> set (ro_registered_tools ro)" "hard_rejection intent c = None" by simp_all
qed

text \<open>C32. Routing is safe: a route that is recommended heads the list of candidates, belongs to a
  registered tool, is never the visual desktop; for an intent whose semantic reference is stale
  it is neither a semantic nor the raw desktop route, for a destructive intent it is not raw
  desktop, nor semantic when the reference is ambiguous; raw desktop needs the explicit
  permission, and an intent that must keep macros gets a route that keeps them.\<close>

theorem recommend_safe:
  assumes "list_all candidate_ok (offered ro intent)"
    and "recommend ro intent k elapsed m = Inr (r, m')"
    and "rd_selected_route (re_decision r) = Some route"
  shows "\<exists>c rest. re_candidates r = c # rest \<and> rc_supported c \<and> rc_route c = route \<and>
      rd_tool (re_decision r) = Some (rc_tool c) \<and> rc_tool c \<in> set (ro_registered_tools ro) \<and>
      route \<noteq> VISUAL_DESKTOP \<and>
      (in_semantic_stale intent \<longrightarrow> route \<notin> {SEMANTIC_BROWSER, SEMANTIC_WINDOWS_UIA, RAW_DESKTOP}) \<and>
      (in_destructive intent \<longrightarrow> route \<noteq> RAW_DESKTOP) \<and>
      (in_destructive intent \<and> in_semantic_ambiguous intent \<longrightarrow> route \<notin> {SEMANTIC_BROWSER, SEMANTIC_WINDOWS_UIA}) \<and>
      (route = RAW_DESKTOP \<longrightarrow> in_allow_raw_desktop intent) \<and>
      (in_requires_macro_preservation intent \<longrightarrow> rc_preserves_macros c)"
proof -
  have ok: "offers_ok ro intent" using assms(1) by (simp add: offers_ok_def)
  obtain rules where rules:
    "decide ro intent (order_candidates (plan ro intent rules)) = Inr (re_decision r)"
    "re_candidates r = cr_items (response_of ro intent (order_candidates (plan ro intent rules)) k)"
    using recommend_plan [OF assms(2) ok] by metis
  obtain c where c: "selected_candidate (order_candidates (plan ro intent rules)) = Some c" "rc_route c = route"
    "rd_tool (re_decision r) = Some (rc_tool c)"
    using assms(3) decide_fields(1,2) [OF rules(1)] by auto
  obtain rest where "re_candidates r = c # rest"
    using selected_first [OF c(1)] first_returned rules(2) by metis
  moreover have "c \<in> set (plan ro intent rules)" "rc_supported c" by (rule selected_best [OF c(1)])+
  moreover note plan_supported [OF this]
  ultimately show ?thesis using c(2,3) hard_rejection_None [of intent c] by blast
qed

lemma example_recommend_route:
  "(case recommend example_router (example_intent ''git.read'') 8 3 example_metrics of
      Inl e \<Rightarrow> False | Inr (r, m') \<Rightarrow> rd_selected_route (re_decision r) = Some EXTERNAL_MCP)"
  by code_simp

lemma example_recommend:
  "\<exists>r m'. recommend example_router (example_intent ''git.read'') 8 3 example_metrics = Inr (r, m') \<and>
     rd_selected_route (re_decision r) = Some EXTERNAL_MCP"
  using example_recommend_route by (simp split: sum.splits prod.splits)

theorem recommend_safe_witness:
  "\<exists>r m' c rest. recommend example_router (example_intent ''git.read'') 8 3 example_metrics = Inr (r, m') \<and>
     re_candidates r = c # rest \<and> rc_supported c \<and> rc_route c = EXTERNAL_MCP \<and> rc_tool c \<in> set (ro_registered_tools example_router)"
proof -
  obtain r m' where r: "recommend example_router (example_intent ''git.read'') 8 3 example_metrics = Inr (r, m')"
    "rd_selected_route (re_decision r) = Some EXTERNAL_MCP"
    using example_recommend by blast
  have "list_all candidate_ok (offered example_router (example_intent ''git.read''))"
    unfolding example_offered by code_simp
  from recommend_safe [OF this r] r(1) show ?thesis by blast
qed

subsection \<open>The choice among the admissible routes\<close>

text \<open>The abstract view: what may be chosen is what the machine offers and no hard rule forbids,
  and the choice is the least of it in the order of preference.\<close>

definition admissible :: "router \<Rightarrow> execution_intent \<Rightarrow> route_candidate \<Rightarrow> bool" where
  "admissible ro intent c \<longleftrightarrow>
     rc_supported c \<and> rc_tool c \<in> set (ro_registered_tools ro) \<and> hard_rejection intent c = None"

definition choices :: "router \<Rightarrow> execution_intent \<Rightarrow> intent_route_rule list \<Rightarrow> route_candidate list" where
  "choices ro intent rules =
     filter (admissible ro intent) (map (\<lambda>r. rule_candidate r (candidate_checks ro r)) rules @ offered ro intent)"

lemma filter_map_kept:
  assumes "\<And>x. x \<in> set xs \<Longrightarrow> P (f x) \<longleftrightarrow> Q (g x)" "\<And>x. x \<in> set xs \<Longrightarrow> P (f x) \<Longrightarrow> f x = g x"
  shows "filter P (map f xs) = filter Q (map g xs)"
  using assms
proof (induction xs)
  case (Cons x xs)
  have IH: "filter P (map f xs) = filter Q (map g xs)"
    by (rule Cons.IH) (rule Cons.prems; simp)+
  show ?case
  proof (cases "P (f x)")
    case True
    then have "f x = g x" "Q (g x)" using Cons.prems(1,2) [of x] by simp_all
    with IH show ?thesis using True by simp
  next
    case False
    then have "\<not> Q (g x)" using Cons.prems(1) [of x] by simp
    with IH False show ?thesis by simp
  qed
qed simp

lemma screen_hard_kept: "rc_supported (screen_hard intent c) \<Longrightarrow> screen_hard intent c = c"
  unfolding screen_hard_fields(3) by (simp add: screen_hard_def)

lemma screened_kept: "rc_supported (screened ro intent c) \<Longrightarrow> screened ro intent c = c"
  by (auto simp: screened_def screen_hard_kept)

lemma supported_plan: "filter rc_supported (plan ro intent rules) = choices ro intent rules"
proof -
  have "filter rc_supported (map (native ro intent) rules) =
      filter (admissible ro intent) (map (\<lambda>r. rule_candidate r (candidate_checks ro r)) rules)"
    by (rule filter_map_kept)
      (auto simp: native_def admissible_def candidate_checks_supported rule_available_def intro: screen_hard_kept)
  moreover have "filter rc_supported (map (screened ro intent) (offered ro intent)) =
      filter (admissible ro intent) (map (\<lambda>c. c) (offered ro intent))"
    by (rule filter_map_kept) (auto simp: screened_supported admissible_def intro: screened_kept)
  ultimately show ?thesis by (simp add: plan_def choices_def)
qed

lemma length_supported_order:
  "length (filter rc_supported (order_candidates xs)) = length (filter rc_supported xs)"
  by (simp add: filter_order_candidates)

text \<open>C33. The recommendation is the best admissible route: the number of valid candidates reported is the
  number of admissible routes, none is selected exactly when there is none, and a selected one is
  admissible and least, over the rules of the catalogue and the offers alike, by determinism, then
  recoverability, risk, confidence, cost, latency and the names.\<close>

theorem recommend_best:
  assumes "list_all candidate_ok (offered ro intent)"
    and "recommend ro intent k elapsed m = Inr (r, m')"
    and "rules_or_empty intent (offered ro intent) = Inr rules"
  shows "rd_candidate_count (re_decision r) = int (length (choices ro intent rules)) \<and>
    (case rd_selected_route (re_decision r) of
       None \<Rightarrow> choices ro intent rules = []
     | Some route \<Rightarrow> (\<exists>c \<in> set (choices ro intent rules).
         rc_route c = route \<and> rd_tool (re_decision r) = Some (rc_tool c) \<and>
         rd_fallback_level (re_decision r) = Some (rc_fallback_level c) \<and>
         (\<forall>d \<in> set (choices ro intent rules). candidate_key c \<le> candidate_key d)))"
proof -
  have ok: "offers_ok ro intent" using assms(1) by (simp add: offers_ok_def)
  obtain d: "decide ro intent (order_candidates (plan ro intent rules)) = Inr (re_decision r)"
    using recommend_plan [OF assms(2) ok] assms(3) by (metis Inr_inject)
  note d = decide_fields [OF d]
  have supported: "set (choices ro intent rules) = {c \<in> set (plan ro intent rules). rc_supported c}"
    unfolding supported_plan [symmetric] by auto
  show ?thesis
  proof (cases "selected_candidate (order_candidates (plan ro intent rules))")
    case None
    then have "choices ro intent rules = []"
      by (simp add: selected_none supported_plan [symmetric] filter_empty_conv)
    with None d show ?thesis by (simp add: length_supported_order supported_plan)
  next
    case (Some c)
    then show ?thesis
      using d selected_best [OF Some] unfolding supported
      by (auto simp: length_supported_order supported_plan intro!: bexI [of _ c])
  qed
qed

theorem recommend_best_witness:
  "\<exists>r m' rules. recommend example_router (example_intent ''git.read'') 8 3 example_metrics = Inr (r, m') \<and>
     rules_or_empty (example_intent ''git.read'') [example_offer] = Inr rules \<and>
     rd_candidate_count (re_decision r) = int (length (choices example_router (example_intent ''git.read'') rules)) \<and>
     (\<exists>c \<in> set (choices example_router (example_intent ''git.read'') rules). rc_route c = EXTERNAL_MCP)"
proof -
  obtain r m' where r: "recommend example_router (example_intent ''git.read'') 8 3 example_metrics = Inr (r, m')"
    "rd_selected_route (re_decision r) = Some EXTERNAL_MCP"
    using example_recommend by blast
  have ok: "list_all candidate_ok (offered example_router (example_intent ''git.read''))"
    unfolding example_offered by code_simp
  have "\<not> is_error (rules_or_empty (example_intent ''git.read'') [example_offer])" by code_simp
  then obtain rules where rules: "rules_or_empty (example_intent ''git.read'') [example_offer] = Inr rules"
    by (cases "rules_or_empty (example_intent ''git.read'') [example_offer]") auto
  from recommend_best [OF ok r(1), unfolded example_offered, OF rules] r rules show ?thesis by auto
qed

subsection \<open>Independence of the order of offers\<close>

lemma distinct_plan:
  assumes "distinct (map ir_route rules)" "list_all rule_ok rules"
    "list_all (\<lambda>c. rc_route c = EXTERNAL_MCP) (offered ro intent)" "distinct (map rc_tool (offered ro intent))"
  shows "distinct (map route_tool (plan ro intent rules))"
proof -
  have eqs: "map route_tool (map (native ro intent) rules) = map (\<lambda>r. (ir_route r, ir_tool r)) rules"
    "map route_tool (map (screened ro intent) (offered ro intent)) = map (\<lambda>c. (EXTERNAL_MCP, rc_tool c)) (offered ro intent)"
    using assms(3) by (auto simp: route_tool_def list_all_iff)
  have "distinct (map (\<lambda>r. (ir_route r, ir_tool r)) rules)"
    "distinct (map (\<lambda>c. (EXTERNAL_MCP, rc_tool c)) (offered ro intent))"
    using assms(1,4) by (auto simp: distinct_map inj_on_def)
  then show ?thesis
    using assms(2) unfolding plan_def map_append eqs by (auto simp: list_all_iff rule_ok_def)
qed

text \<open>C34. Routing is deterministic: two routers that differ only in the order in which their extension managers offer
  the same external tools give the same recommendation, the same explanation and the same metrics.\<close>

theorem recommend_order_independent:
  assumes "list_all candidate_ok (routing intent profile)" "list_all candidate_ok (routing2 intent profile)"
    and "list_all (\<lambda>c. rc_route c = EXTERNAL_MCP) (routing intent profile)"
    and "set (routing2 intent profile) = set (routing intent profile)"
    and "distinct (map rc_tool (routing intent profile))" "distinct (map rc_tool (routing2 intent profile))"
  shows "recommend (new_router registered caps policy enabled (Some routing) profile) intent k elapsed m =
    recommend (new_router registered caps policy enabled (Some routing2) profile) intent k elapsed m"
proof -
  define a b where ab: "a = new_router registered caps policy enabled (Some routing) profile"
    "b = new_router registered caps policy enabled (Some routing2) profile"
  have offered: "offered a intent = routing intent profile" "offered b intent = routing2 intent profile"
    by (simp_all add: ab offered_def new_router_def)
  have ok: "offers_ok a intent" "offers_ok b intent" using assms by (simp_all add: offers_ok_def offered)
  have ext: "list_all (\<lambda>c. rc_route c = EXTERNAL_MCP) (offered b intent)"
    using assms(3,4) by (simp add: offered list_all_iff)
  have "native a intent r = native b intent r" "screened a intent c = screened b intent c" for r c
    by (simp_all add: ab native_def screened_def new_router_def candidate_checks_def)
  then have plan: "set (plan a intent rules) = set (plan b intent rules)" for rules
    using assms(4) by (simp add: plan_def offered)
  have empty: "routing intent profile = [] \<longleftrightarrow> routing2 intent profile = []"
    using assms(4) by (metis set_empty)
  have rules: "rules_or_empty intent (offered a intent) = rules_or_empty intent (offered b intent)"
    unfolding rules_or_empty_def offered empty by (rule refl)
  have "order_candidates (plan a intent rules) = order_candidates (plan b intent rules)"
    if "rules_or_empty intent (offered b intent) = Inr rules" for rules
    using rules_or_empty_ok [OF that] assms(3,5,6) ext
    by (intro order_candidates_unique plan distinct_plan) (simp_all add: offered)
  then have "all_candidates a intent = all_candidates b intent"
    unfolding all_candidates_plan [OF ok(1)] all_candidates_plan [OF ok(2)] rules
    by (cases "rules_or_empty intent (offered b intent)") simp_all
  moreover have "validate_policy a = validate_policy b" "decide a intent = decide b intent"
    "response_of a intent = response_of b intent" "ro_policy_version a = ro_policy_version b"
    by (simp_all add: ab validate_policy_def decide_def response_of_def new_router_def fun_eq_iff)
  ultimately show ?thesis unfolding ab [symmetric] by (simp add: recommend_def)
qed

theorem recommend_order_independent_witness:
  "recommend (new_router [''run_process''] (\<lambda>_. True) ''deterministic-v1'' True
      (Some (\<lambda>_ _. [example_offer, example_offer\<lparr>rc_tool := ''external.git.log''\<rparr>])) ''full'') (example_intent ''git.read'') 8 3 example_metrics =
   recommend (new_router [''run_process''] (\<lambda>_. True) ''deterministic-v1'' True
      (Some (\<lambda>_ _. [example_offer\<lparr>rc_tool := ''external.git.log''\<rparr>, example_offer])) ''full'') (example_intent ''git.read'') 8 3 example_metrics"
proof (rule recommend_order_independent)
  show "list_all candidate_ok [example_offer, example_offer\<lparr>rc_tool := ''external.git.log''\<rparr>]"
    "list_all candidate_ok [example_offer\<lparr>rc_tool := ''external.git.log''\<rparr>, example_offer]"
    "list_all (\<lambda>c. rc_route c = EXTERNAL_MCP) [example_offer, example_offer\<lparr>rc_tool := ''external.git.log''\<rparr>]"
    "distinct (map rc_tool [example_offer, example_offer\<lparr>rc_tool := ''external.git.log''\<rparr>])"
    "distinct (map rc_tool [example_offer\<lparr>rc_tool := ''external.git.log''\<rparr>, example_offer])"
    by code_simp+
qed auto

subsection \<open>The counters\<close>

definition counter_total :: "(string \<times> nat) list \<Rightarrow> nat" where
  "counter_total c = sum_list (map snd c)"

lemma counter_total_add: "counter_total (counter_add k c) = counter_total c + 1"
  by (induction k c rule: counter_add.induct) (simp_all add: counter_total_def)

lemma counter_add_keys: "fst ` set (counter_add k c) = insert k (fst ` set c)"
  by (induction k c rule: counter_add.induct) auto

lemma counter_add_distinct: "distinct (map fst c) \<Longrightarrow> distinct (map fst (counter_add k c))"
proof (induction k c rule: counter_add.induct)
  case (2 k q n rest)
  have "fst ` set (counter_add k rest) = insert k (fst ` set rest)" by (rule counter_add_keys)
  with 2 show ?case by auto
qed simp

text \<open>\<open>counter[key] += 1\<close> seen through \<open>counter.get\<close>.\<close>

lemma counter_get_add: "counter_get k (counter_add q c) = counter_get k c + (if k = q then 1 else 0)"
  by (induction q c rule: counter_add.induct) (auto simp: counter_get_def)

lemma counter_get_absent: "k \<notin> fst ` set c \<Longrightarrow> counter_get k c = 0"
  by (simp add: counter_get_def split: option.split) (metis map_of_eq_None_iff option.distinct(1))

lemma counter_total_listed:
  assumes "distinct (map fst c)" "fst ` set c \<subseteq> set ks" "distinct ks"
  shows "sum_list (map (\<lambda>k. counter_get k c) ks) = counter_total c"
  using assms
proof (induction c)
  case Nil
  then show ?case by (simp add: counter_total_def counter_get_def)
next
  case (Cons x c)
  obtain q n where x: "x = (q, n)" by (cases x)
  have absent: "counter_get q c = 0" using Cons.prems(1) x by (intro counter_get_absent) auto
  have "counter_get k (x # c) = counter_get k c + (if k = q then n else 0)" for k
    using absent by (auto simp: x counter_get_def)
  then have "sum_list (map (\<lambda>k. counter_get k (x # c)) ks) =
      sum_list (map (\<lambda>k. counter_get k c) ks) + sum_list (map (\<lambda>k. if k = q then n else 0) ks)"
    by (simp add: sum_list_addf)
  moreover have "sum_list (map (\<lambda>k. if k = q then n else 0) ks) = n"
    using Cons.prems(2,3) x by (simp add: sum_list_distinct_conv_sum_set)
  ultimately show ?case using Cons x by (simp add: counter_total_def)
qed

lemma length_push_recent: "length (push_recent n x xs) = min n (length xs + 1)"
  by (simp add: push_recent_def)

lemma min_Suc_min: "min a (Suc (min a b)) = min a (Suc b)"
  by (simp add: min_def)

definition families :: "string list" where
  "families = [''native'', ''semantic'', ''raw'', ''visual'', ''other'', ''external'']"

lemma family_listed: "family r = Some f \<Longrightarrow> f \<in> set families"
  by (auto simp: family_def families_def split: option.splits if_splits)

definition metrics_ok :: "router_metrics \<Rightarrow> bool" where
  "metrics_ok m \<longleftrightarrow>
     counter_total (mt_route_distribution m) + mt_no_route_count m = mt_decision_count m \<and>
     counter_total (mt_usage m) = counter_total (mt_route_distribution m) \<and>
     distinct (map fst (mt_usage m)) \<and> fst ` set (mt_usage m) \<subseteq> set families \<and>
     mt_fallback_count m + mt_no_route_count m \<le> mt_decision_count m \<and>
     length (mt_recent m) = min (mt_max_recent m) (mt_decision_count m) \<and>
     0 \<le> mt_latency_max m"

lemma new_metrics_ok: "new_metrics n = Inr m \<Longrightarrow> metrics_ok m"
  by (auto simp: new_metrics_def metrics_ok_def counter_total_def split: if_splits)

lemma record_no_route_ok:
  "metrics_ok m \<Longrightarrow> metrics_ok (record_decision i None None p c j e m)"
  by (auto simp: metrics_ok_def record_decision_def Let_def length_push_recent)

lemma record_route_ok:
  assumes "metrics_ok m"
  shows "metrics_ok (record_decision i (Some q) (Some l) p c j e m)"
proof -
  obtain f where f: "family (Some q) = Some f" "f \<in> set families"
    using family_listed [of "Some q"] by (auto simp: family_def)
  have "fst ` set (counter_add f (mt_usage m)) \<subseteq> set families"
    using assms f(2) by (simp add: counter_add_keys metrics_ok_def)
  moreover have "distinct (map fst (counter_add f (mt_usage m)))"
    using assms by (intro counter_add_distinct) (simp add: metrics_ok_def)
  ultimately show ?thesis
    using assms unfolding metrics_ok_def record_decision_def Let_def option.case f(1)
    by (cases "0 < l") (simp_all add: length_push_recent counter_total_add min_Suc_min le_max_iff_disj)
qed

lemma recommend_metrics_ok:
  assumes "recommend ro intent k elapsed m = Inr (r, m')" "metrics_ok m"
  shows "metrics_ok m'"
proof -
  obtain cs policy n j where "m' = record_decision (in_name intent)
      (map_option (\<lambda>c. route_value (rc_route c)) (selected_candidate cs))
      (map_option rc_fallback_level (selected_candidate cs)) policy n j elapsed m"
    using assms(1) by (auto simp: recommend_def bind_res_Inr Let_def)
  then show ?thesis
    using assms(2) by (cases "selected_candidate cs") (simp_all add: record_no_route_ok record_route_ok)
qed

definition recommend_step :: "router_metrics \<Rightarrow> router_metrics \<Rightarrow> bool" where
  "recommend_step m m' \<longleftrightarrow> (\<exists>ro intent k elapsed r. recommend ro intent k elapsed m = Inr (r, m'))"

text \<open>C35. The counters add up: after any recommendations of any routers that share one \<open>RouterMetrics\<close>, the snapshot counts
  every decision once, as a route of the distribution and of one family of the usage table or as
  no route; the fallbacks are among the decisions with a route, so the rate is at most 1; and the
  recent list holds all decisions up to its limit.\<close>

theorem metrics_add_up:
  assumes "reach (\<lambda>m. \<exists>n. new_metrics n = Inr m) recommend_step m"
  shows "counter_total (sn_route_distribution (snapshot m)) + sn_no_route_count (snapshot m) = sn_decision_count (snapshot m)
    \<and> counter_total (sn_usage (snapshot m)) = counter_total (sn_route_distribution (snapshot m))
    \<and> sn_fallback_count (snapshot m) + sn_no_route_count (snapshot m) \<le> sn_decision_count (snapshot m)
    \<and> 0 \<le> sn_fallback_rate (snapshot m) \<and> sn_fallback_rate (snapshot m) \<le> 1
    \<and> length (sn_recent_decisions (snapshot m)) = min (sn_recent_limit (snapshot m)) (sn_decision_count (snapshot m))"
proof -
  have m: "metrics_ok m"
    using assms by (rule reach_invariant) (auto simp: recommend_step_def intro: new_metrics_ok recommend_metrics_ok)
  have sorted: "counter_total (sort_key fst c) = counter_total c" for c
    unfolding counter_total_def sum_mset_sum_list [symmetric] by simp
  have "counter_total (sn_usage (snapshot m)) = sum_list (map (\<lambda>k. counter_get k (mt_usage m)) families)"
    by (simp add: snapshot_def Let_def counter_total_def families_def)
  also have "\<dots> = counter_total (mt_usage m)"
    using m by (intro counter_total_listed) (simp_all add: metrics_ok_def families_def)
  finally show ?thesis
    using m by (simp add: snapshot_def Let_def metrics_ok_def sorted divide_le_eq)
qed

theorem metrics_add_up_witness:
  "\<exists>m. reach (\<lambda>m. \<exists>n. new_metrics n = Inr m) recommend_step m \<and> sn_decision_count (snapshot m) = 1 \<and>
     counter_total (sn_route_distribution (snapshot m)) + sn_no_route_count (snapshot m) = 1"
proof -
  obtain r m' where r: "recommend example_router (example_intent ''git.read'') 8 3 example_metrics = Inr (r, m')"
    using example_recommend by blast
  have start: "new_metrics 50 = Inr example_metrics" by (simp add: example_metrics_def new_metrics_def)
  have "reach (\<lambda>m. \<exists>n. new_metrics n = Inr m) recommend_step example_metrics"
    using start by (intro reach_start) blast
  then have reach: "reach (\<lambda>m. \<exists>n. new_metrics n = Inr m) recommend_step m'"
    by (rule reach_step) (unfold recommend_step_def, use r in blast)
  have "(case recommend example_router (example_intent ''git.read'') 8 3 example_metrics of
      Inl e \<Rightarrow> False | Inr (r, m') \<Rightarrow> mt_decision_count m' = 1)"
    by code_simp
  then have "sn_decision_count (snapshot m') = 1" using r by (simp add: snapshot_def Let_def)
  with metrics_add_up [OF reach] reach show ?thesis by auto
qed

end
