(* ===== verification/Journal_Records.thy ===== *)
theory Journal_Records
  imports Workflow_Db "HOL-Library.AList"
begin

text \<open>
  The records of the recovery journal, \<open>core/recovery.py\<close>, and the checks of what goes into them:
  text that looks like a secret, the metadata of external operations, the identity of a Windows UI
  element, the evidence of a workspace edit, and a file hash as postcondition.

  A record is a JSON object, an association list. Its reader looks keys up and compares whole
  values; the order of the keys, which the file sorts, is never observed, and \<open>py_eq\<close> compares
  without it. \<open>resolve\<close> stands for \<open>Path.resolve\<close> on an absolute path (\<open>None\<close> for any other).
\<close>

type_synonym dict = "(string \<times> json) list"

subsection \<open>Dictionaries\<close>

definition get_dict :: "string \<Rightarrow> dict \<Rightarrow> dict option" where
  "get_dict k d = (case lookup k d of Some (JObj v) \<Rightarrow> Some v | _ \<Rightarrow> None)"

definition get_str :: "string \<Rightarrow> dict \<Rightarrow> string option" where
  "get_str k d = (case lookup k d of Some (JStr s) \<Rightarrow> Some s | _ \<Rightarrow> None)"

definition has_key :: "string \<Rightarrow> dict \<Rightarrow> bool" where
  "has_key k d \<longleftrightarrow> k \<in> fst ` set d"

definition same_keys :: "string list \<Rightarrow> dict \<Rightarrow> bool" where
  "same_keys ks d \<longleftrightarrow> set (map fst d) = set ks"

text \<open>\<open>d.get(k)\<close> against \<open>None\<close>: a missing key and a null are alike.\<close>

definition present :: "string \<Rightarrow> dict \<Rightarrow> json option" where
  "present k d = (case lookup k d of None \<Rightarrow> None | Some JNull \<Rightarrow> None | Some v \<Rightarrow> Some v)"

text \<open>\<open>{**base, ...}\<close>: the new entries are set one after the other.\<close>

definition merge :: "dict \<Rightarrow> dict \<Rightarrow> dict" where
  "merge base new = fold (\<lambda>(k, v) d. dict_set k v d) new base"

definition py_eq :: "json \<Rightarrow> json \<Rightarrow> bool" where
  "py_eq a b \<longleftrightarrow> canonical_json a = canonical_json b"

lemma map_of_replace:
  "map_of (map (\<lambda>(k', v'). (k', if k' = q then v else v')) d) k =
     (if k = q then map_option (\<lambda>_. v) (map_of d q) else map_of d k)"
  by (induction d) auto

lemma lookup_dict_set: "lookup k (dict_set q v d) = (if k = q then Some v else lookup k d)"
proof (cases "map_of d q")
  case None
  then have "q \<notin> fst ` set d" by (simp add: map_of_eq_None_iff)
  with None show ?thesis by (auto simp: dict_set_def lookup_def map_add_def split: option.splits)
next
  case (Some w)
  then have "q \<in> fst ` set d" by (metis map_of_eq_None_iff option.distinct(1))
  with Some show ?thesis by (simp add: dict_set_def lookup_def map_of_replace)
qed

lemma keys_dict_set: "fst ` set (dict_set q v d) = insert q (fst ` set d)"
  by (force simp: dict_set_def image_iff)

lemma lookup_merge: "lookup k (merge base new) = (case map_of (rev new) k of None \<Rightarrow> lookup k base | Some v \<Rightarrow> Some v)"
proof -
  have "lookup k (fold (\<lambda>(k, v) d. dict_set k v d) new base) =
      (case map_of (rev new) k of None \<Rightarrow> lookup k base | Some v \<Rightarrow> Some v)"
    by (induction new arbitrary: base) (auto simp: lookup_dict_set map_add_def split: option.splits)
  then show ?thesis by (simp add: merge_def)
qed

lemma lookup_simps [simp]:
  "lookup k [] = None" "lookup k ((q, v) # d) = (if k = q then Some v else lookup k d)"
  by (auto simp: lookup_def)

lemma lookup_append: "lookup k (a @ b) = (case lookup k a of None \<Rightarrow> lookup k b | Some v \<Rightarrow> Some v)"
  by (simp add: lookup_def map_add_def split: option.splits)

lemma has_key_lookup: "has_key k d \<longleftrightarrow> lookup k d \<noteq> None"
  by (simp add: has_key_def lookup_def map_of_eq_None_iff)

subsection \<open>Text that must not be stored\<close>

definition ascii_lower :: "char \<Rightarrow> bool" where
  "ascii_lower c \<longleftrightarrow> (let n = of_char c :: nat in 97 \<le> n \<and> n \<le> 122)"

definition ascii_upper :: "char \<Rightarrow> bool" where
  "ascii_upper c \<longleftrightarrow> (let n = of_char c :: nat in 65 \<le> n \<and> n \<le> 90)"

definition ascii_digit :: "char \<Rightarrow> bool" where
  "ascii_digit c \<longleftrightarrow> (let n = of_char c :: nat in 48 \<le> n \<and> n \<le> 57)"

definition ascii_alnum :: "char \<Rightarrow> bool" where
  "ascii_alnum c \<longleftrightarrow> ascii_lower c \<or> ascii_upper c \<or> ascii_digit c"

definition lower_char :: "char \<Rightarrow> char" where
  "lower_char c = (if ascii_upper c then char_of (of_char c + 32 :: nat) else c)"

text \<open>What is left after a literal that is matched without regard to case.\<close>

definition after_literal :: "string \<Rightarrow> string \<Rightarrow> string option" where
  "after_literal lit s =
     (if map lower_char (take (length lit) s) = lit then Some (drop (length lit) s) else None)"

text \<open>A literal followed by at least \<open>n\<close> characters of a class.\<close>

definition literal_run :: "string \<Rightarrow> (char \<Rightarrow> bool) \<Rightarrow> nat \<Rightarrow> string \<Rightarrow> bool" where
  "literal_run lit cls n s \<longleftrightarrow>
     (case after_literal lit s of None \<Rightarrow> False | Some rest \<Rightarrow> n \<le> length (takeWhile cls rest))"

definition bearer_at :: "string \<Rightarrow> bool" where
  "bearer_at s \<longleftrightarrow>
     (case after_literal ''bearer'' s of
        None \<Rightarrow> False
      | Some rest \<Rightarrow> takeWhile py_isspace rest \<noteq> [] \<and> dropWhile py_isspace rest \<noteq> [])"

definition jwt_char :: "char \<Rightarrow> bool" where
  "jwt_char c \<longleftrightarrow> ascii_alnum c \<or> c \<in> set ''_-''"

definition jwt_at :: "string \<Rightarrow> bool" where
  "jwt_at s \<longleftrightarrow>
     (case after_literal ''eyj'' s of
        None \<Rightarrow> False
      | Some rest \<Rightarrow>
          10 \<le> length (takeWhile jwt_char rest) \<and>
          (case dropWhile jwt_char rest of
             [] \<Rightarrow> False | c # tail \<Rightarrow> c = CHR ''.'' \<and> 10 \<le> length (takeWhile jwt_char tail)))"

definition assigned :: "string \<Rightarrow> bool" where
  "assigned rest \<longleftrightarrow>
     (case dropWhile py_isspace rest of
        [] \<Rightarrow> False | c # tail \<Rightarrow> c \<in> set '':='' \<and> dropWhile py_isspace tail \<noteq> [])"

definition assignment_at :: "string \<Rightarrow> bool" where
  "assignment_at s \<longleftrightarrow>
     list_ex (\<lambda>word. case after_literal word s of None \<Rightarrow> False | Some rest \<Rightarrow> assigned rest)
       [''token'', ''secret'', ''password'', ''api_key'', ''api-key'', ''apikey'', ''authorization'']"

definition secret_at :: "string \<Rightarrow> bool" where
  "secret_at s \<longleftrightarrow>
     bearer_at s \<or> literal_run ''ghp_'' (\<lambda>c. ascii_alnum c \<or> c = CHR ''_'') 8 s \<or>
     literal_run ''github_pat_'' (\<lambda>c. ascii_alnum c \<or> c = CHR ''_'') 8 s \<or>
     literal_run ''sk-'' jwt_char 8 s \<or> literal_run ''akia'' ascii_alnum 8 s \<or>
     list_ex (\<lambda>c. literal_run (''xox'' @ [c] @ ''-'') (\<lambda>c. ascii_alnum c \<or> c = CHR ''-'') 8 s) ''baprs'' \<or>
     jwt_at s \<or> assignment_at s"

fun secret_like :: "string \<Rightarrow> bool" where
  "secret_like [] \<longleftrightarrow> False"
| "secret_like (c # cs) \<longleftrightarrow> secret_at (c # cs) \<or> secret_like cs"

definition has_forbidden_text :: "nat \<Rightarrow> string \<Rightarrow> bool" where
  "has_forbidden_text max_len s \<longleftrightarrow>
     s = [] \<or> max_len < length s \<or>
     list_ex (\<lambda>c. let n = of_char c :: nat in n < 32 \<or> n = 127) s \<or> secret_like s"

subsection \<open>External operations\<close>

definition EXTERNAL_KEYS :: "string list" where
  "EXTERNAL_KEYS =
     [''external_metadata_version'', ''extension_id'', ''provider'', ''public_name'', ''remote_name'',
      ''catalog_generation'', ''schema_fingerprint'', ''mutation_class'', ''policy_revision'', ''dispatch_stage'',
      ''external_outcome'', ''reason_code'', ''receipt_id'', ''correlation'']"

definition MUTATION_CLASSES :: "string list" where
  "MUTATION_CLASSES =
     [''local_mutation'', ''remote_mutation'', ''destructive_local_mutation'', ''destructive_remote_mutation'']"

definition DISPATCH_STAGES :: "string list" where
  "DISPATCH_STAGES = [''prepared'', ''may_dispatch'']"

definition EXTERNAL_OUTCOMES :: "string list" where
  "EXTERNAL_OUTCOMES = [''succeeded'', ''not_dispatched'', ''uncertain'', ''failed'', ''acknowledged'', ''unresolvable'']"

definition extension_id_ok :: "string \<Rightarrow> bool" where
  "extension_id_ok s \<longleftrightarrow>
     (case s of [] \<Rightarrow> False
      | c # cs \<Rightarrow> ascii_lower c \<and> length cs \<le> 31 \<and> list_all (\<lambda>c. ascii_lower c \<or> ascii_digit c \<or> c \<in> set ''_-'') cs)"

definition remote_name_ok :: "string \<Rightarrow> bool" where
  "remote_name_ok s \<longleftrightarrow>
     1 \<le> length s \<and> length s \<le> 96 \<and> list_all (\<lambda>c. ascii_alnum c \<or> c \<in> set ''._-'') s"

definition hex_char :: "char \<Rightarrow> bool" where
  "hex_char c \<longleftrightarrow> c \<in> set ''0123456789abcdefABCDEF''"

definition lower_hex :: "nat \<Rightarrow> string \<Rightarrow> bool" where
  "lower_hex n s \<longleftrightarrow> length s = n \<and> list_all (\<lambda>c. c \<in> set ''0123456789abcdef'') s"

definition invalid_external :: "'a res" where
  "invalid_external = Inl (ToolError ''invalid_external_recovery_metadata'')"

definition identity_ok :: "dict \<Rightarrow> bool" where
  "identity_ok d \<longleftrightarrow>
     (case (get_str ''extension_id'' d, get_str ''remote_name'' d, get_str ''public_name'' d) of
        (Some ext, Some remote, Some public) \<Rightarrow>
          extension_id_ok ext \<and> remote_name_ok remote \<and> length public \<le> 128 \<and>
          public = ''external.'' @ ext @ ''.'' @ remote
      | _ \<Rightarrow> False)"

definition optional_text_ok :: "string \<Rightarrow> dict \<Rightarrow> bool" where
  "optional_text_ok k d \<longleftrightarrow>
     (case present k d of None \<Rightarrow> True | Some (JStr s) \<Rightarrow> \<not> has_forbidden_text 128 s | Some _ \<Rightarrow> False)"

definition correlation_ok :: "dict \<Rightarrow> bool" where
  "correlation_ok c \<longleftrightarrow>
     same_keys [''algorithm'', ''key_id'', ''digest'', ''scope''] c \<and>
     get_str ''algorithm'' c = Some ''hmac-sha256-runtime-v1'' \<and> get_str ''scope'' c = Some ''runtime_only'' \<and>
     (case get_str ''key_id'' c of None \<Rightarrow> False | Some s \<Rightarrow> lower_hex 16 s) \<and>
     (case get_str ''digest'' c of None \<Rightarrow> False | Some s \<Rightarrow> lower_hex 64 s)"

text \<open>\<open>{key: data[key]}\<close> where the key has a value.\<close>

definition entry_of :: "string \<Rightarrow> dict \<Rightarrow> dict" where
  "entry_of k d = (case present k d of None \<Rightarrow> [] | Some v \<Rightarrow> [(k, v)])"

definition text_of :: "string \<Rightarrow> dict \<Rightarrow> string" where
  "text_of k d = (case get_str k d of None \<Rightarrow> [] | Some s \<Rightarrow> s)"

text \<open>The checks in the order of the code; a version and a stage that are missing take their
  defaults, a null does not.\<close>

definition normalize_external_metadata :: "dict \<Rightarrow> dict res" where
  "normalize_external_metadata d =
     (let version = (case lookup ''external_metadata_version'' d of None \<Rightarrow> JInt 1 | Some v \<Rightarrow> v);
          stage = (case lookup ''dispatch_stage'' d of None \<Rightarrow> JStr ''prepared'' | Some v \<Rightarrow> v)
      in
      if \<not> set (map fst d) \<subseteq> set EXTERNAL_KEYS then invalid_external
      else if version \<noteq> JInt 1 then invalid_external
      else if \<not> identity_ok d then invalid_external
      else if (case get_str ''provider'' d of None \<Rightarrow> True | Some s \<Rightarrow> has_forbidden_text 64 s) then invalid_external
      else if (case lookup ''catalog_generation'' d of Some (JInt i) \<Rightarrow> i < 1 | _ \<Rightarrow> True) then invalid_external
      else if (case get_str ''schema_fingerprint'' d of None \<Rightarrow> True | Some s \<Rightarrow> length s \<noteq> 64 \<or> \<not> list_all hex_char s)
        then invalid_external
      else if (case get_str ''mutation_class'' d of None \<Rightarrow> True | Some s \<Rightarrow> s \<notin> set MUTATION_CLASSES) then invalid_external
      else if (case stage of JStr s \<Rightarrow> s \<notin> set DISPATCH_STAGES | _ \<Rightarrow> True) then invalid_external
      else if \<not> list_all (\<lambda>k. optional_text_ok k d) [''policy_revision'', ''reason_code'', ''receipt_id''] then invalid_external
      else if (case present ''external_outcome'' d of None \<Rightarrow> False | Some (JStr s) \<Rightarrow> s \<notin> set EXTERNAL_OUTCOMES | Some _ \<Rightarrow> True)
        then invalid_external
      else if (case present ''correlation'' d of None \<Rightarrow> False | Some (JObj c) \<Rightarrow> \<not> correlation_ok c | Some _ \<Rightarrow> True)
        then invalid_external
      else Inr
        ([(''external_metadata_version'', JInt 1), (''extension_id'', JStr (text_of ''extension_id'' d)),
          (''provider'', JStr (text_of ''provider'' d)), (''public_name'', JStr (text_of ''public_name'' d)),
          (''remote_name'', JStr (text_of ''remote_name'' d)),
          (''catalog_generation'', (case lookup ''catalog_generation'' d of Some v \<Rightarrow> v | None \<Rightarrow> JNull)),
          (''schema_fingerprint'', JStr (casefold (text_of ''schema_fingerprint'' d))),
          (''mutation_class'', JStr (text_of ''mutation_class'' d)), (''dispatch_stage'', stage)]
         @ entry_of ''policy_revision'' d @ entry_of ''reason_code'' d @ entry_of ''receipt_id'' d
         @ entry_of ''external_outcome'' d
         @ (case get_dict ''correlation'' d of
              None \<Rightarrow> []
            | Some c \<Rightarrow> [(''correlation'', JObj [(''algorithm'', JStr ''hmac-sha256-runtime-v1''),
                (''key_id'', JStr (text_of ''key_id'' c)), (''digest'', JStr (text_of ''digest'' c)),
                (''scope'', JStr ''runtime_only'')])])))"

subsection \<open>Postconditions\<close>

definition MAX_TARGET_CHARS :: nat where
  "MAX_TARGET_CHARS = 1000"

definition bounded_postcondition :: "dict \<Rightarrow> dict option" where
  "bounded_postcondition candidate =
     (if get_str ''kind'' candidate \<noteq> Some ''file_sha256'' then None
      else case get_dict ''expected'' candidate of
        None \<Rightarrow> None
      | Some expected \<Rightarrow>
          (case (get_str ''path'' expected, get_str ''sha256'' expected) of
             (Some path, Some digest) \<Rightarrow>
               if path = [] \<or> MAX_TARGET_CHARS < length path \<or> length digest \<noteq> 64 \<or> \<not> list_all hex_char digest
               then None
               else Some [(''kind'', JStr ''file_sha256''),
                          (''expected'', JObj [(''path'', JStr path), (''sha256'', JStr (casefold digest))])]
           | _ \<Rightarrow> None))"

definition bounded_result_postcondition :: "json \<Rightarrow> dict option" where
  "bounded_result_postcondition result =
     (case result of
        JObj d \<Rightarrow> (case get_dict ''postcondition'' d of None \<Rightarrow> None | Some c \<Rightarrow> bounded_postcondition c)
      | _ \<Rightarrow> None)"

subsection \<open>Windows UI elements\<close>

text \<open>\<open>process_created\<close> is a JSON number; \<open>created_ok\<close> says that it is finite, positive and below
  \<open>10^12\<close>, which for an \<open>int\<close> is a comparison and for a float a test on the digits Python prints.\<close>

record native_target =
  nt_pid :: json
  nt_process_created :: json
  nt_window_handle :: json
  nt_element_handle :: json
  nt_element_runtime_id :: "json list"

definition handle_value_ok :: "json \<Rightarrow> bool" where
  "handle_value_ok v \<longleftrightarrow> (case v of JNull \<Rightarrow> True | JInt i \<Rightarrow> 0 < i \<and> i < 2 ^ 64 | _ \<Rightarrow> False)"

definition created_ok :: "(string \<Rightarrow> bool) \<Rightarrow> json \<Rightarrow> bool" where
  "created_ok float_ok v \<longleftrightarrow>
     (case v of JNull \<Rightarrow> True | JInt i \<Rightarrow> 0 < i \<and> i < 10 ^ 12 | JFloat digits \<Rightarrow> float_ok digits | _ \<Rightarrow> False)"

definition native_target_ok :: "(string \<Rightarrow> bool) \<Rightarrow> native_target \<Rightarrow> bool" where
  "native_target_ok float_ok t \<longleftrightarrow>
     handle_value_ok (nt_pid t) \<and> handle_value_ok (nt_window_handle t) \<and> handle_value_ok (nt_element_handle t) \<and>
     created_ok float_ok (nt_process_created t) \<and>
     length (nt_element_runtime_id t) \<le> 32 \<and>
     list_all (\<lambda>v. case v of JInt i \<Rightarrow> - (2 ^ 63) \<le> i \<and> i < 2 ^ 63 | _ \<Rightarrow> False) (nt_element_runtime_id t)"

definition native_target_as_dict :: "native_target \<Rightarrow> dict" where
  "native_target_as_dict t =
     [(''pid'', nt_pid t), (''process_created'', nt_process_created t), (''window_handle'', nt_window_handle t),
      (''element_handle'', nt_element_handle t), (''element_runtime_id'', JList (nt_element_runtime_id t)),
      (''identity_status'',
        JStr (if truthy (Some (nt_pid t)) \<and> truthy (Some (nt_process_created t)) \<and>
                 truthy (Some (nt_window_handle t)) \<and> nt_element_runtime_id t \<noteq> []
              then ''complete'' else ''partial''))]"

text \<open>\<open>str\<close> of a number or of nothing.\<close>

definition py_str :: "json \<Rightarrow> string" where
  "py_str v = (case v of JNull \<Rightarrow> ''None'' | JBool b \<Rightarrow> (if b then ''True'' else ''False'') | JInt i \<Rightarrow> int_text i | JFloat d \<Rightarrow> d | JStr s \<Rightarrow> s | _ \<Rightarrow> [])"

definition native_target_label :: "native_target \<Rightarrow> string" where
  "native_target_label t =
     ''windows_uia:pid='' @ py_str (nt_pid t) @ '';window='' @ py_str (nt_window_handle t) @
     '';element='' @ py_str (nt_element_handle t) @ '';runtime='' @ join_with '','' (map py_str (nt_element_runtime_id t))"

definition field_of :: "string \<Rightarrow> dict \<Rightarrow> json" where
  "field_of k d = (case lookup k d of None \<Rightarrow> JNull | Some v \<Rightarrow> v)"

definition native_target_of :: "dict \<Rightarrow> native_target option" where
  "native_target_of raw =
     (case lookup ''element_runtime_id'' raw of
        Some (JList ids) \<Rightarrow>
          Some \<lparr>nt_pid = field_of ''pid'' raw, nt_process_created = field_of ''process_created'' raw,
                nt_window_handle = field_of ''window_handle'' raw, nt_element_handle = field_of ''element_handle'' raw,
                nt_element_runtime_id = ids\<rparr>
      | _ \<Rightarrow> None)"

definition native_uia_metadata :: "(string \<Rightarrow> bool) \<Rightarrow> json option \<Rightarrow> dict option" where
  "native_uia_metadata float_ok v =
     (case v of
        Some (JObj d) \<Rightarrow>
          if \<not> same_keys [''native_metadata_version'', ''kind'', ''dispatch_stage'', ''target''] d then None
          else if lookup ''native_metadata_version'' d \<noteq> Some (JInt 1) \<or> get_str ''kind'' d \<noteq> Some ''windows_uia'' \<or>
                  (case get_str ''dispatch_stage'' d of None \<Rightarrow> True | Some s \<Rightarrow> s \<notin> set DISPATCH_STAGES) then None
          else
            (case get_dict ''target'' d of
               None \<Rightarrow> None
             | Some raw \<Rightarrow>
                 if \<not> same_keys [''pid'', ''process_created'', ''window_handle'', ''element_handle'', ''element_runtime_id'',
                                 ''identity_status''] raw then None
                 else
                   (case native_target_of raw of
                      None \<Rightarrow> None
                    | Some t \<Rightarrow>
                        if native_target_ok float_ok t
                        then Some (dict_set ''target'' (JObj (native_target_as_dict t)) d) else None))
      | _ \<Rightarrow> None)"

definition native_uia_view :: "(string \<Rightarrow> bool) \<Rightarrow> dict \<Rightarrow> dict" where
  "native_uia_view float_ok checkpoint =
     (case native_uia_metadata float_ok (lookup ''native'' checkpoint) of
        None \<Rightarrow> []
      | Some native \<Rightarrow>
          (case get_dict ''target'' native of
             None \<Rightarrow> []
           | Some identity \<Rightarrow>
               (case native_target_of identity of
                  None \<Rightarrow> []
                | Some t \<Rightarrow> [(''native'', JObj native), (''target'', JStr (native_target_label t))])))"

subsection \<open>Workspace edits\<close>

record workspace_edit_file =
  we_path :: string
  we_before_sha256 :: string
  we_after_sha256 :: string
  we_backup_path :: string

definition workspace_path :: "(string \<Rightarrow> string option) \<Rightarrow> json option \<Rightarrow> string option" where
  "workspace_path resolve v =
     (case v of
        Some (JStr s) \<Rightarrow> if s = [] \<or> CHR 0x00 \<in> set s \<or> 32767 < length s then None else resolve s
      | _ \<Rightarrow> None)"

definition file_entry :: "string \<Rightarrow> string \<Rightarrow> string \<Rightarrow> string \<Rightarrow> json" where
  "file_entry path before after backup =
     JObj [(''path'', JStr path), (''before_sha256'', JStr before), (''after_sha256'', JStr after), (''backup_path'', JStr backup)]"

definition checked_entry ::
  "(string \<Rightarrow> string option) \<Rightarrow> json option \<Rightarrow> json option \<Rightarrow> json option \<Rightarrow> json option \<Rightarrow> json option" where
  "checked_entry resolve path before after backup =
     (case (workspace_path resolve path, workspace_path resolve backup, before, after) of
        (Some p, Some b, Some (JStr bs), Some (JStr as)) \<Rightarrow>
          if lower_hex 64 bs \<and> lower_hex 64 as then Some (file_entry p bs as b) else None
      | _ \<Rightarrow> None)"

definition workspace_entry :: "(string \<Rightarrow> string option) \<Rightarrow> json \<Rightarrow> json option" where
  "workspace_entry resolve item =
     (case item of
        JObj d \<Rightarrow>
          if same_keys [''path'', ''before_sha256'', ''after_sha256'', ''backup_path''] d
          then checked_entry resolve (lookup ''path'' d) (lookup ''before_sha256'' d) (lookup ''after_sha256'' d)
                 (lookup ''backup_path'' d)
          else None
      | _ \<Rightarrow> None)"

fun map_option_list :: "('a \<Rightarrow> 'b option) \<Rightarrow> 'a list \<Rightarrow> 'b list option" where
  "map_option_list f [] = Some []"
| "map_option_list f (x # xs) =
     (case f x of
        None \<Rightarrow> None
      | Some y \<Rightarrow> (case map_option_list f xs of None \<Rightarrow> None | Some ys \<Rightarrow> Some (y # ys)))"

definition MAX_WORKSPACE_EDIT_FILES :: nat where
  "MAX_WORKSPACE_EDIT_FILES = 100"

record workspace_edit =
  wk_stage :: string
  wk_files :: "json list"

definition workspace_edit_as_dict :: "workspace_edit \<Rightarrow> dict" where
  "workspace_edit_as_dict w =
     [(''evidence_version'', JInt 1), (''dispatch_stage'', JStr (wk_stage w)), (''files'', JList (wk_files w))]"

definition workspace_edit_metadata :: "(string \<Rightarrow> string option) \<Rightarrow> json option \<Rightarrow> workspace_edit option" where
  "workspace_edit_metadata resolve v =
     (case v of
        Some (JObj d) \<Rightarrow>
          if \<not> same_keys [''evidence_version'', ''dispatch_stage'', ''files''] d then None
          else if lookup ''evidence_version'' d \<noteq> Some (JInt 1) then None
          else
            (case (get_str ''dispatch_stage'' d, lookup ''files'' d) of
               (Some stage, Some (JList raw)) \<Rightarrow>
                 if stage \<notin> set DISPATCH_STAGES then None
                 else if \<not> (1 \<le> length raw \<and> length raw \<le> MAX_WORKSPACE_EDIT_FILES) then None
                 else map_option (\<lambda>files. \<lparr>wk_stage = stage, wk_files = files\<rparr>)
                        (map_option_list (workspace_entry resolve) raw)
             | _ \<Rightarrow> None)
      | _ \<Rightarrow> None)"

definition json_bytes :: "json \<Rightarrow> nat" where
  "json_bytes v = utf8_size (json_text (canonical_json v))"

definition invalid_workspace :: "'a res" where
  "invalid_workspace = Inl (ToolError ''invalid_workspace_edit_evidence'')"

definition evidence_entry :: "(string \<Rightarrow> string option) \<Rightarrow> workspace_edit_file \<Rightarrow> json option" where
  "evidence_entry resolve f =
     checked_entry resolve (Some (JStr (we_path f))) (Some (JStr (we_before_sha256 f)))
       (Some (JStr (we_after_sha256 f))) (Some (JStr (we_backup_path f)))"

definition workspace_edit_record ::
  "(string \<Rightarrow> string option) \<Rightarrow> workspace_edit_file list \<Rightarrow> string \<Rightarrow> workspace_edit res" where
  "workspace_edit_record resolve evidence stage =
     (if stage \<notin> set DISPATCH_STAGES then invalid_workspace
      else
        (case map_option_list (evidence_entry resolve) evidence of
           None \<Rightarrow> invalid_workspace
         | Some files \<Rightarrow>
             if \<not> (1 \<le> length files \<and> length files \<le> MAX_WORKSPACE_EDIT_FILES) then invalid_workspace
             else
               let w = \<lparr>wk_stage = stage, wk_files = files\<rparr> in
               if 32 * 1024 < json_bytes (JObj (workspace_edit_as_dict w))
               then Inl (ToolError ''lsp_edit_evidence_too_large'') else Inr w))"

definition validate_workspace_edit_evidence ::
  "(string \<Rightarrow> string option) \<Rightarrow> workspace_edit_file list \<Rightarrow> unit res" where
  "validate_workspace_edit_evidence resolve evidence =
     bind_res (workspace_edit_record resolve evidence ''prepared'') (\<lambda>_. Inr ())"

definition workspace_edit_view :: "(string \<Rightarrow> string option) \<Rightarrow> dict \<Rightarrow> dict" where
  "workspace_edit_view resolve checkpoint =
     (case workspace_edit_metadata resolve (lookup ''workspace_edit'' checkpoint) of
        None \<Rightarrow> [] | Some w \<Rightarrow> [(''workspace_edit'', JObj (workspace_edit_as_dict w))])"

end
