(* ===== verification/Operation_Journal.thy ===== *)
theory Operation_Journal
  imports Journal_Records
begin

text \<open>
  The recovery journal, class \<open>OperationRecoveryJournal\<close> of \<open>core/recovery.py\<close>: an append-only file
  of JSON lines in which every mutating tool call leaves a begin record, checkpoints before its
  side effect and an outcome. Several runtime processes share the file; each method runs under
  the file lock, so a call is one step on the file.

  A line of the file is a value that decodes (\<open>Line\<close>), a last value without its newline (\<open>Cut\<close>, with
  room for it), or anything that does not decode or is too long (\<open>Bad\<close>). The instance keeps only
  counters; the cache of the unresolved count is not modelled, the count is computed. What a call
  takes from outside is its environment: whether the lock and the file are to be had in time, the
  clock as text and as milliseconds, \<open>datetime.fromisoformat\<close>, the process id and the fresh identifier.
\<close>

subsection \<open>The file\<close>

datatype line = Line json | Cut json | Bad

type_synonym jfile = "line list option"

record env =
  ev_available :: bool
  ev_now :: string
  ev_time :: int
  ev_parse :: "string \<Rightarrow> int option"
  ev_resolve :: "string \<Rightarrow> string option"
  ev_float_ok :: "string \<Rightarrow> bool"
  ev_pid :: int
  ev_uuid :: string

record journal =
  jn_enabled :: bool
  jn_runtime_id :: string
  jn_record_count :: nat
  jn_next_compact_at :: nat
  jn_max_unresolved_external :: int
  jn_max_unresolved_workspace :: int
  jn_max_external_terminal_history :: int
  jn_max_external_terminal_days :: int

definition COMPACT_AFTER_RECORDS :: nat where
  "COMPACT_AFTER_RECORDS = 4096"

definition MAX_LINE_BYTES :: nat where
  "MAX_LINE_BYTES = 32768"

definition unavailable :: "'a res" where
  "unavailable = Inl (ToolError ''operation_journal_unavailable'')"

definition invalid_journal :: "'a res" where
  "invalid_journal = Inl (ToolError ''operation_journal_invalid'')"

text \<open>\<open>record.get("schema_version") == 1\<close>; in Python a true and a 1.0 pass too.\<close>

definition current_schema :: "dict \<Rightarrow> bool" where
  "current_schema d \<longleftrightarrow> lookup ''schema_version'' d \<in> {Some (JInt 1), Some (JBool True), Some (JFloat ''1.0'')}"

definition record_of_json :: "json \<Rightarrow> dict list" where
  "record_of_json v = (case v of JObj d \<Rightarrow> if current_schema d then [d] else [] | _ \<Rightarrow> [])"

definition records_of_line :: "line \<Rightarrow> dict list" where
  "records_of_line l = (case l of Line v \<Rightarrow> record_of_json v | Cut v \<Rightarrow> record_of_json v | Bad \<Rightarrow> [])"

definition load :: "jfile \<Rightarrow> dict list" where
  "load file = (case file of None \<Rightarrow> [] | Some ls \<Rightarrow> concat (map records_of_line ls))"

fun strict_lines :: "line list \<Rightarrow> dict list res" where
  "strict_lines [] = Inr []"
| "strict_lines (l # ls) =
     (case l of
        Line v \<Rightarrow>
          (case record_of_json v of
             [d] \<Rightarrow> bind_res (strict_lines ls) (\<lambda>ds. Inr (d # ds))
           | _ \<Rightarrow> invalid_journal)
      | _ \<Rightarrow> invalid_journal)"

definition load_strict :: "jfile \<Rightarrow> dict list res" where
  "load_strict file = (case file of None \<Rightarrow> unavailable | Some ls \<Rightarrow> strict_lines ls)"

text \<open>An append first ends a last line that was left without its newline.\<close>

fun end_line :: "line list \<Rightarrow> line list" where
  "end_line [] = []"
| "end_line [Cut v] = [Line v]"
| "end_line [l] = [l]"
| "end_line (l # l' # ls) = l # end_line (l' # ls)"

definition lines_of :: "jfile \<Rightarrow> line list" where
  "lines_of file = (case file of None \<Rightarrow> [] | Some ls \<Rightarrow> ls)"

definition append_record :: "dict \<Rightarrow> journal \<Rightarrow> jfile \<Rightarrow> (journal \<times> jfile) res" where
  "append_record r jn file =
     (if \<not> jn_enabled jn then Inr (jn, file)
      else if MAX_LINE_BYTES < json_bytes (JObj r) + 1 then Inl (ToolError ''operation_journal_record_too_large'')
      else Inr (jn\<lparr>jn_record_count := jn_record_count jn + 1\<rparr>, Some (end_line (lines_of file) @ [Line (JObj r)])))"

subsection \<open>The state the records denote\<close>

datatype record_kind = Begin | Checkpoint | Result | Uncertain | Reconciliation | Acknowledged

fun kind_value :: "record_kind \<Rightarrow> string" where
  "kind_value Begin = ''begin''"
| "kind_value Checkpoint = ''checkpoint''"
| "kind_value Result = ''result''"
| "kind_value Uncertain = ''uncertain''"
| "kind_value Reconciliation = ''reconciliation''"
| "kind_value Acknowledged = ''acknowledged''"

definition record_kinds :: "record_kind list" where
  "record_kinds = [Begin, Checkpoint, Result, Uncertain, Reconciliation, Acknowledged]"

definition kind_of :: "dict \<Rightarrow> record_kind option" where
  "kind_of d = (case get_str ''type'' d of None \<Rightarrow> None | Some s \<Rightarrow> find (\<lambda>k. kind_value k = s) record_kinds)"

definition op_of :: "dict \<Rightarrow> string option" where
  "op_of d = get_str ''operation_id'' d"

type_synonym item = "(record_kind \<times> dict) list"
type_synonym jstate = "(string \<times> item) list"

definition has :: "record_kind \<Rightarrow> item \<Rightarrow> bool" where
  "has k i \<longleftrightarrow> map_of i k \<noteq> None"

definition state_step :: "dict \<Rightarrow> jstate \<Rightarrow> jstate" where
  "state_step r st =
     (case (op_of r, kind_of r) of
        (Some op, Some Begin) \<Rightarrow> AList.update op [(Begin, r)] st
      | (Some op, Some k) \<Rightarrow>
          (case map_of st op of None \<Rightarrow> st | Some i \<Rightarrow> AList.update op (AList.update k r i) st)
      | _ \<Rightarrow> st)"

definition state_of :: "dict list \<Rightarrow> jstate" where
  "state_of rs = fold state_step rs []"

definition external_begin :: "dict \<Rightarrow> bool" where
  "external_begin r \<longleftrightarrow> get_dict ''external'' r \<noteq> None"

text \<open>The streaming scan: one operation only, or only the external operations that have no
  outcome yet, with the quota checked as it reads.\<close>

definition over_quota :: "int \<Rightarrow> bool \<Rightarrow> jstate \<Rightarrow> jstate res" where
  "over_quota limit unresolved st =
     (if unresolved \<and> limit < int (length st) then Inl (ToolError ''operation_limit'') else Inr st)"

definition read_step :: "int \<Rightarrow> string option \<Rightarrow> bool \<Rightarrow> dict \<Rightarrow> jstate \<Rightarrow> jstate res" where
  "read_step limit wanted unresolved r st =
     (case op_of r of
        None \<Rightarrow> Inr st
      | Some op \<Rightarrow>
          if wanted \<noteq> None \<and> wanted \<noteq> Some op then Inr st
          else
            (case kind_of r of
               Some Begin \<Rightarrow>
                 if unresolved \<and> \<not> external_begin r then Inr st
                 else over_quota limit unresolved (AList.update op [(Begin, r)] st)
             | Some k \<Rightarrow>
                 over_quota limit unresolved
                   (case map_of st op of
                      None \<Rightarrow> st
                    | Some i \<Rightarrow>
                        if unresolved \<and> k \<in> {Result, Reconciliation, Acknowledged} then AList.delete op st
                        else AList.update op (AList.update k r i) st)
             | None \<Rightarrow> over_quota limit unresolved st))"

fun read_state :: "int \<Rightarrow> string option \<Rightarrow> bool \<Rightarrow> dict list \<Rightarrow> jstate \<Rightarrow> jstate res" where
  "read_state limit wanted unresolved [] st = Inr st"
| "read_state limit wanted unresolved (r # rs) st =
     bind_res (read_step limit wanted unresolved r st) (read_state limit wanted unresolved rs)"

text \<open>\<open>[record for item in state.values() for record in item.values()]\<close>.\<close>

definition flatten :: "jstate \<Rightarrow> dict list" where
  "flatten st = concat (map (\<lambda>(op, i). map snd i) st)"

definition transaction :: "env \<Rightarrow> journal \<Rightarrow> string option \<Rightarrow> bool \<Rightarrow> jfile \<Rightarrow> dict list res" where
  "transaction env jn wanted unresolved file =
     (if \<not> jn_enabled jn then Inl (ToolError ''recovery_unavailable'')
      else if \<not> ev_available env then unavailable
      else if wanted \<noteq> None \<or> unresolved
        then bind_res (read_state (jn_max_unresolved_external jn) wanted unresolved (load file) []) (\<lambda>st. Inr (flatten st))
      else Inr (load file))"

text \<open>The item of one operation, as the methods read it inside their transaction.\<close>

definition current_item :: "env \<Rightarrow> journal \<Rightarrow> string \<Rightarrow> jfile \<Rightarrow> item option res" where
  "current_item env jn op file =
     bind_res (transaction env jn (Some op) False file) (\<lambda>rs. Inr (map_of (state_of rs) op))"

definition is_unresolved_external :: "item \<Rightarrow> bool" where
  "is_unresolved_external i \<longleftrightarrow>
     (case map_of i Begin of
        None \<Rightarrow> False
      | Some b \<Rightarrow> external_begin b \<and> \<not> has Result i \<and> \<not> has Reconciliation i \<and> \<not> has Acknowledged i)"

definition is_unresolved_workspace :: "item \<Rightarrow> bool" where
  "is_unresolved_workspace i \<longleftrightarrow>
     (case map_of i Begin of
        None \<Rightarrow> False
      | Some b \<Rightarrow>
          if has Result i \<or> has Reconciliation i \<or> has Acknowledged i then False
          else if (case map_of i Checkpoint of None \<Rightarrow> False | Some c \<Rightarrow> has_key ''workspace_edit'' c) then True
          else get_str ''operation_type'' b = Some ''workspace_edit'')"

definition count_items :: "(item \<Rightarrow> bool) \<Rightarrow> jstate \<Rightarrow> int" where
  "count_items P st = int (length (filter (\<lambda>(op, i). P i) st))"

definition unresolved_external_count :: "journal \<Rightarrow> jfile \<Rightarrow> int res" where
  "unresolved_external_count jn file =
     (if \<not> jn_enabled jn \<or> file = None then Inr 0
      else bind_res (read_state (jn_max_unresolved_external jn) None True (load file) []) (\<lambda>st.
        Inr (count_items is_unresolved_external st)))"

text \<open>\<open>lock_free\<close> says that the instance lock was free at once.\<close>

definition has_external_mutation_capacity :: "bool \<Rightarrow> journal \<Rightarrow> jfile \<Rightarrow> bool res" where
  "has_external_mutation_capacity lock_free jn file =
     (if \<not> lock_free then Inr False
      else if \<not> jn_enabled jn then Inr False
      else case unresolved_external_count jn file of
        Inl e \<Rightarrow> if e = ToolError ''operation_limit'' then Inr False else Inl e
      | Inr n \<Rightarrow> Inr (n < jn_max_unresolved_external jn))"

definition unresolved_workspace_count :: "journal \<Rightarrow> jfile \<Rightarrow> int" where
  "unresolved_workspace_count jn file =
     (if \<not> jn_enabled jn then 0 else count_items is_unresolved_workspace (state_of (load file)))"

definition has_workspace_edit_capacity :: "bool \<Rightarrow> journal \<Rightarrow> jfile \<Rightarrow> bool" where
  "has_workspace_edit_capacity lock_free jn file \<longleftrightarrow>
     lock_free \<and> jn_enabled jn \<and> unresolved_workspace_count jn file < jn_max_unresolved_workspace jn"

definition ensure_workspace_edit_capacity :: "bool \<Rightarrow> journal \<Rightarrow> jfile \<Rightarrow> unit res" where
  "ensure_workspace_edit_capacity lock_free jn file =
     (if \<not> jn_enabled jn then Inr ()
      else if \<not> has_workspace_edit_capacity lock_free jn file then Inl (ToolError ''workspace_edit_limit'') else Inr ())"

subsection \<open>External metadata of an operation\<close>

definition overlay_external :: "dict \<Rightarrow> dict \<Rightarrow> dict" where
  "overlay_external ext merged =
     fold (\<lambda>(k, v) d. if k \<in> set EXTERNAL_KEYS \<and> v \<noteq> JNull then dict_set k v d else d) ext merged"

definition overlay_record :: "record_kind \<Rightarrow> dict \<Rightarrow> dict \<Rightarrow> dict" where
  "overlay_record k r merged =
     (let merged = (case get_dict ''external'' r of None \<Rightarrow> merged | Some ext \<Rightarrow> overlay_external ext merged) in
      if k = Result \<and> get_str ''external_outcome'' r \<noteq> None then
        dict_set ''external_outcome'' (field_of ''external_outcome'' r) merged
      else if k \<in> {Reconciliation, Acknowledged} \<and> get_str ''state'' r \<noteq> None then
        dict_set ''external_outcome'' (field_of ''state'' r) merged
      else if k = Uncertain \<and> \<not> has_key ''external_outcome'' merged then
        dict_set ''external_outcome'' (JStr ''uncertain'') merged
      else merged)"

definition merged_external_metadata :: "item \<Rightarrow> dict option" where
  "merged_external_metadata i =
     (case map_of i Begin of
        None \<Rightarrow> None
      | Some b \<Rightarrow>
          (case get_dict ''external'' b of
             None \<Rightarrow> None
           | Some base \<Rightarrow>
               Some (fold (\<lambda>k merged. case map_of i k of None \<Rightarrow> merged | Some r \<Rightarrow> overlay_record k r merged)
                       [Checkpoint, Result, Uncertain, Reconciliation, Acknowledged] base)))"

subsection \<open>Compaction\<close>

definition terminal_of :: "item \<Rightarrow> dict option" where
  "terminal_of i = (case map_of i Acknowledged of Some a \<Rightarrow> Some a | None \<Rightarrow> map_of i Reconciliation)"

definition parse_iso :: "env \<Rightarrow> json option \<Rightarrow> int option" where
  "parse_iso env v = (case v of Some (JStr (c # cs)) \<Rightarrow> ev_parse env (c # cs) | _ \<Rightarrow> None)"

text \<open>\<open>str(a or b or "")\<close>.\<close>

definition text_or :: "json option \<Rightarrow> json option \<Rightarrow> string" where
  "text_or a b =
     (if truthy a then py_str (the a) else if truthy b then py_str (the b) else [])"

definition expired :: "env \<Rightarrow> journal \<Rightarrow> dict \<Rightarrow> dict \<Rightarrow> bool" where
  "expired env jn terminal begin =
     (case (case parse_iso env (lookup ''recorded_at'' terminal) of
              Some t \<Rightarrow> Some t | None \<Rightarrow> parse_iso env (lookup ''started_at'' begin)) of
        None \<Rightarrow> False
      | Some ts \<Rightarrow> max 0 (jn_max_external_terminal_days jn) * 86400000 < ev_time env - ts)"

text \<open>The entry of an external operation that was acknowledged or reconciled and is young enough.\<close>

definition terminal_candidate :: "env \<Rightarrow> journal \<Rightarrow> nat \<times> string \<times> item \<Rightarrow> (string \<times> nat \<times> string) list" where
  "terminal_candidate env jn = (\<lambda>(idx, op, i).
     (case (map_of i Begin, terminal_of i) of
        (Some b, Some terminal) \<Rightarrow>
          if has Result i \<or> \<not> external_begin b \<or> expired env jn terminal b then []
          else [(text_or (lookup ''recorded_at'' terminal) (lookup ''started_at'' b), idx, op)]
      | _ \<Rightarrow> []))"

definition allowed_terminal :: "env \<Rightarrow> journal \<Rightarrow> jstate \<Rightarrow> string list" where
  "allowed_terminal env jn st =
     (let candidates = concat (map (terminal_candidate env jn) (zip [0..<length st] st));
          keep = jn_max_external_terminal_history jn
      in if keep \<le> 0 then []
         else if keep < int (length candidates) then
           map (\<lambda>(t, idx, op). op)
             (drop (length candidates - nat keep) (sort_key (\<lambda>(t, idx, op). (t, idx)) candidates))
         else map (\<lambda>(t, idx, op). op) candidates)"

definition retains :: "string list \<Rightarrow> string \<times> item \<Rightarrow> bool" where
  "retains allowed = (\<lambda>(op, i).
     (case map_of i Begin of
        None \<Rightarrow> False
      | Some b \<Rightarrow> \<not> has Result i \<and> \<not> (terminal_of i \<noteq> None \<and> external_begin b \<and> op \<notin> set allowed)))"

definition opt_list :: "'a option \<Rightarrow> 'a list" where
  "opt_list x = (case x of None \<Rightarrow> [] | Some v \<Rightarrow> [v])"

definition item_records :: "item \<Rightarrow> dict list" where
  "item_records i =
     opt_list (map_of i Begin) @ opt_list (map_of i Checkpoint) @ opt_list (map_of i Uncertain) @ opt_list (terminal_of i)"

definition retained_records :: "env \<Rightarrow> journal \<Rightarrow> dict list \<Rightarrow> dict list" where
  "retained_records env jn rs =
     (let st = state_of rs in
      concat (map (\<lambda>(op, i). item_records i) (filter (retains (allowed_terminal env jn st)) st)))"

text \<open>What a strict reader accepts: every record belongs to a begun operation, no operation begins
  twice, no checkpoint follows an outcome, and the evidence of a workspace edit never changes and
  ends with a well-formed outcome.\<close>

definition truthy_text :: "string \<Rightarrow> dict \<Rightarrow> bool" where
  "truthy_text k d \<longleftrightarrow> (case get_str k d of None \<Rightarrow> False | Some s \<Rightarrow> s \<noteq> [])"

definition evidence_data :: "dict \<Rightarrow> dict option" where
  "evidence_data r = (case get_dict ''evidence'' r of None \<Rightarrow> None | Some e \<Rightarrow> get_dict ''data'' e)"

definition outcome_valid :: "record_kind \<Rightarrow> dict \<Rightarrow> bool" where
  "outcome_valid k r \<longleftrightarrow>
     get_str ''status'' r = Some ''completed'' \<and> truthy_text ''runtime_id'' r \<and>
     truthy_text (if k = Result then ''finished_at'' else ''recorded_at'') r \<and>
     (if k = Result then truthy_text ''known_result'' r
      else
        (case get_str ''state'' r of
           None \<Rightarrow> False
         | Some s \<Rightarrow> s \<in> set (if k = Reconciliation then [''succeeded'', ''failed'', ''unresolvable'']
                            else [''acknowledged'', ''unresolvable''])) \<and>
        (case get_dict ''evidence'' r of
           None \<Rightarrow> False
         | Some e \<Rightarrow> truthy (lookup ''source'' e) \<and> (case get_dict ''data'' e of None \<Rightarrow> False | Some data \<Rightarrow> data \<noteq> [])) \<and>
        (k = Reconciliation \<longrightarrow>
           get_dict ''postcondition'' r \<noteq> None \<and>
           (get_str ''state'' r \<in> {Some ''succeeded'', Some ''failed''} \<longrightarrow>
              (case evidence_data r of None \<Rightarrow> False | Some data \<Rightarrow> lookup ''conclusive'' data = Some (JBool True)))))"

record scan =
  sc_known :: "string list"
  sc_evidence :: "(string \<times> workspace_edit) list"
  sc_terminal :: "string list"

definition checkpoint_valid :: "json option \<Rightarrow> workspace_edit option \<Rightarrow> workspace_edit option \<Rightarrow> bool" where
  "checkpoint_valid raw workspace previous \<longleftrightarrow>
     \<not> (raw \<noteq> None \<and> workspace = None) \<and>
     (case previous of
        None \<Rightarrow> True
      | Some p \<Rightarrow>
          (case workspace of
             None \<Rightarrow> False
           | Some w \<Rightarrow> wk_files w = wk_files p \<and> \<not> (wk_stage p = ''may_dispatch'' \<and> wk_stage w \<noteq> ''may_dispatch'')))"

definition validate_record :: "env \<Rightarrow> dict \<Rightarrow> scan \<Rightarrow> scan res" where
  "validate_record env r sc =
     (case (op_of r, kind_of r) of
        (Some op, Some k) \<Rightarrow>
          if k = Begin \<and> op \<in> set (sc_known sc) then invalid_journal
          else if k \<noteq> Begin \<and> op \<notin> set (sc_known sc) then invalid_journal
          else
            let workspace = workspace_edit_metadata (ev_resolve env) (lookup ''workspace_edit'' r);
                sc = (if k = Begin then sc\<lparr>sc_known := sc_known sc @ [op]\<rparr> else sc)
            in
            if k = Checkpoint \<and> op \<in> set (sc_terminal sc) then invalid_journal
            else if k = Checkpoint \<and>
                    \<not> checkpoint_valid (lookup ''workspace_edit'' r) workspace (map_of (sc_evidence sc) op) then invalid_journal
            else
              let sc = (case workspace of
                          Some w \<Rightarrow> if k = Checkpoint then sc\<lparr>sc_evidence := AList.update op w (sc_evidence sc)\<rparr> else sc
                        | None \<Rightarrow> sc)
              in
              if k \<in> {Result, Reconciliation, Acknowledged} then
                if map_of (sc_evidence sc) op \<noteq> None \<and> \<not> outcome_valid k r then invalid_journal
                else Inr (sc\<lparr>sc_terminal := sc_terminal sc @ [op]\<rparr>)
              else Inr sc
      | _ \<Rightarrow> invalid_journal)"

fun validate_from :: "env \<Rightarrow> dict list \<Rightarrow> scan \<Rightarrow> scan res" where
  "validate_from env [] sc = Inr sc"
| "validate_from env (r # rs) sc = bind_res (validate_record env r sc) (validate_from env rs)"

definition validate_workspace_records :: "env \<Rightarrow> dict list \<Rightarrow> unit res" where
  "validate_workspace_records env rs =
     bind_res (validate_from env rs \<lparr>sc_known = [], sc_evidence = [], sc_terminal = []\<rparr>) (\<lambda>_. Inr ())"

definition compact :: "env \<Rightarrow> journal \<Rightarrow> jfile \<Rightarrow> (journal \<times> jfile) res" where
  "compact env jn file =
     (if \<not> jn_enabled jn then Inr (jn, file)
      else if \<not> ev_available env then unavailable
      else if file = None then Inr (jn, file)
      else
        bind_res (load_strict file) (\<lambda>rs.
        bind_res (validate_workspace_records env rs) (\<lambda>_.
          let retained = retained_records env jn rs in
          if list_ex (\<lambda>r. MAX_LINE_BYTES < json_bytes (JObj r) + 1) retained
          then Inl (ToolError ''operation_journal_record_too_large'')
          else Inr (jn\<lparr>jn_record_count := length retained,
                       jn_next_compact_at := length retained + COMPACT_AFTER_RECORDS\<rparr>,
                    Some (map (\<lambda>r. Line (JObj r)) retained)))))"

definition maybe_compact :: "env \<Rightarrow> journal \<times> jfile \<Rightarrow> journal \<times> jfile" where
  "maybe_compact env = (\<lambda>(jn, file).
     if jn_record_count jn < jn_next_compact_at jn then (jn, file)
     else case compact env jn file of
       Inl _ \<Rightarrow> (jn\<lparr>jn_next_compact_at := jn_record_count jn + COMPACT_AFTER_RECORDS\<rparr>, file)
     | Inr x \<Rightarrow> x)"

text \<open>The end of every method that changed the file.\<close>

definition commit :: "env \<Rightarrow> dict \<Rightarrow> journal \<Rightarrow> jfile \<Rightarrow> (journal \<times> jfile) res" where
  "commit env r jn file = bind_res (append_record r jn file) (\<lambda>x. Inr (maybe_compact env x))"

subsection \<open>Recovery of operations of earlier runtimes\<close>

definition NATIVE_UIA_OPERATIONS :: "string list" where
  "NATIVE_UIA_OPERATIONS = [''ui_invoke'', ''ui_set_value'', ''ui_select'']"

definition native_protocol :: json where
  "native_protocol =
     JObj [(''version'', JInt 1), (''kind'', JStr ''windows_uia''), (''dispatch_rule'', JStr ''may_dispatch_checkpoint_before_effect'')]"

definition recovered_result :: "env \<Rightarrow> journal \<Rightarrow> string \<Rightarrow> dict \<Rightarrow> string \<Rightarrow> dict" where
  "recovered_result env jn op b reason =
     [(''schema_version'', JInt 1), (''type'', JStr ''result''), (''status'', JStr ''completed''), (''operation_id'', JStr op),
      (''runtime_id'', field_of ''runtime_id'' b), (''recovered_by_runtime_id'', JStr (jn_runtime_id jn)),
      (''finished_at'', JStr (ev_now env)), (''known_result'', JStr ''returned_error''), (''reason'', JStr reason)]"

text \<open>\<open>merged.setdefault(key, value)\<close>.\<close>

definition dict_default :: "string \<Rightarrow> json \<Rightarrow> dict \<Rightarrow> dict" where
  "dict_default k v d = (if has_key k d then d else dict_set k v d)"

definition external_entry :: "dict option \<Rightarrow> (dict \<Rightarrow> dict) \<Rightarrow> dict" where
  "external_entry merged f = (case merged of None \<Rightarrow> [] | Some m \<Rightarrow> [(''external'', JObj (f m))])"

definition uncertain_base :: "env \<Rightarrow> string \<Rightarrow> json \<Rightarrow> json \<Rightarrow> string \<Rightarrow> dict" where
  "uncertain_base env op runtime_id marked_by reason =
     [(''schema_version'', JInt 1), (''type'', JStr ''uncertain''), (''status'', JStr ''uncertain''), (''operation_id'', JStr op),
      (''runtime_id'', runtime_id), (''marked_by_runtime_id'', marked_by), (''marked_at'', JStr (ev_now env)),
      (''reason'', JStr reason)]"

definition recovered_uncertain :: "env \<Rightarrow> journal \<Rightarrow> string \<Rightarrow> item \<Rightarrow> dict \<Rightarrow> dict" where
  "recovered_uncertain env jn op i b =
     uncertain_base env op (field_of ''runtime_id'' b) (JStr (jn_runtime_id jn)) ''runtime_ended_without_known_result''
     @ external_entry (merged_external_metadata i) (\<lambda>m.
         dict_default ''reason_code'' (JStr ''runtime_ended_without_known_result'')
           (dict_set ''external_outcome'' (JStr ''uncertain'') m))"

definition workspace_before_dispatch :: "env \<Rightarrow> item \<Rightarrow> dict \<Rightarrow> bool" where
  "workspace_before_dispatch env i b \<longleftrightarrow>
     (get_str ''operation_type'' b = Some ''workspace_edit'' \<and>
      (case map_of i Checkpoint of None \<Rightarrow> True | Some c \<Rightarrow> \<not> has_key ''workspace_edit'' c)) \<or>
     (case map_of i Checkpoint of
        None \<Rightarrow> False
      | Some c \<Rightarrow>
          (case workspace_edit_metadata (ev_resolve env) (lookup ''workspace_edit'' c) of
             None \<Rightarrow> False | Some w \<Rightarrow> wk_stage w = ''prepared''))"

definition native_before_dispatch :: "env \<Rightarrow> item \<Rightarrow> dict \<Rightarrow> bool" where
  "native_before_dispatch env i b \<longleftrightarrow>
     (case get_str ''operation_type'' b of None \<Rightarrow> False | Some t \<Rightarrow> t \<in> set NATIVE_UIA_OPERATIONS) \<and>
     (case lookup ''native_recovery'' b of None \<Rightarrow> False | Some v \<Rightarrow> py_eq v native_protocol) \<and>
     (case map_of i Checkpoint of
        None \<Rightarrow> True
      | Some c \<Rightarrow>
          \<not> has_key ''native'' c \<or>
          (case native_uia_metadata (ev_float_ok env) (lookup ''native'' c) of
             None \<Rightarrow> False | Some n \<Rightarrow> get_str ''dispatch_stage'' n = Some ''prepared''))"

definition open_item :: "item \<Rightarrow> bool" where
  "open_item i \<longleftrightarrow> \<not> has Result i \<and> \<not> has Uncertain i \<and> \<not> has Reconciliation i \<and> \<not> has Acknowledged i"

definition recovery_record :: "env \<Rightarrow> journal \<Rightarrow> string \<times> item \<Rightarrow> dict list" where
  "recovery_record env jn = (\<lambda>(op, i).
     (case map_of i Begin of
        None \<Rightarrow> []
      | Some b \<Rightarrow>
          if \<not> open_item i then []
          else if lookup ''runtime_id'' b = Some (JStr (jn_runtime_id jn)) then []
          else if workspace_before_dispatch env i b then
            [recovered_result env jn op b ''runtime_ended_before_workspace_edit_dispatch'']
          else if native_before_dispatch env i b then
            [recovered_result env jn op b ''runtime_ended_before_native_uia_dispatch'']
          else [recovered_uncertain env jn op i b]))"

fun append_all :: "dict list \<Rightarrow> journal \<Rightarrow> jfile \<Rightarrow> (journal \<times> jfile) res" where
  "append_all [] jn file = Inr (jn, file)"
| "append_all (r # rs) jn file = bind_res (append_record r jn file) (\<lambda>(jn, file). append_all rs jn file)"

definition recover_previous :: "env \<Rightarrow> dict list \<Rightarrow> journal \<Rightarrow> jfile \<Rightarrow> (journal \<times> jfile) res" where
  "recover_previous env rs jn file =
     append_all (concat (map (recovery_record env jn) (state_of rs))) jn file"

text \<open>\<open>configure\<close> with a path; \<open>runtime_id = ""\<close> and no path disable the journal. A file that
  cannot be read strictly makes the start fail.\<close>

definition configure :: "env \<Rightarrow> bool \<Rightarrow> string \<Rightarrow> journal \<Rightarrow> jfile \<Rightarrow> (journal \<times> jfile) res" where
  "configure env has_path runtime_id jn file =
     (let jn = jn\<lparr>jn_runtime_id := runtime_id, jn_enabled := (has_path \<and> runtime_id \<noteq> []), jn_record_count := 0,
                  jn_next_compact_at := COMPACT_AFTER_RECORDS\<rparr>
      in if \<not> jn_enabled jn then Inr (jn, file)
         else
           bind_res (transaction env jn None False file) (\<lambda>loaded.
           bind_res (if file \<noteq> None
                     then bind_res (load_strict file) (\<lambda>rs.
                            bind_res (validate_workspace_records env rs) (\<lambda>_. Inr rs))
                     else Inr loaded) (\<lambda>rs.
           bind_res (recover_previous env rs (jn\<lparr>jn_record_count := length rs\<rparr>) file) (\<lambda>x.
             Inr (maybe_compact env x)))))"

subsection \<open>The methods that write\<close>

record handle =
  hd_operation_id :: string
  hd_runtime_id :: string
  hd_operation_type :: string
  hd_target :: "string option"
  hd_started_at :: string

definition tool_error :: "string \<Rightarrow> 'a res" where
  "tool_error code = Inl (ToolError code)"

definition begin_record :: "env \<Rightarrow> handle \<Rightarrow> bool \<Rightarrow> dict option \<Rightarrow> dict" where
  "begin_record env h native external =
     [(''schema_version'', JInt 1), (''type'', JStr ''begin''), (''status'', JStr ''in_progress''),
      (''operation_id'', JStr (hd_operation_id h)), (''runtime_id'', JStr (hd_runtime_id h)),
      (''operation_type'', JStr (hd_operation_type h)),
      (''target'', (case hd_target h of None \<Rightarrow> JNull | Some t \<Rightarrow> JStr t)),
      (''started_at'', JStr (hd_started_at h)), (''pid'', JInt (ev_pid env))]
     @ (if native then [(''native_recovery'', native_protocol)] else [])
     @ (case external of None \<Rightarrow> [] | Some e \<Rightarrow> [(''external'', JObj e)])"

definition new_handle :: "env \<Rightarrow> journal \<Rightarrow> string \<Rightarrow> string option \<Rightarrow> handle" where
  "new_handle env jn operation_type target =
     \<lparr>hd_operation_id = ev_uuid env, hd_runtime_id = jn_runtime_id jn, hd_operation_type = operation_type,
      hd_target = (case target of None \<Rightarrow> None | Some t \<Rightarrow> if t = [] then None else Some (take MAX_TARGET_CHARS t)),
      hd_started_at = ev_now env\<rparr>"

text \<open>The external branch counts and appends in one transaction; the plain append may meet an
  unavailable lock as well.\<close>

definition begin_external :: "env \<Rightarrow> dict \<Rightarrow> journal \<Rightarrow> jfile \<Rightarrow> (journal \<times> jfile) res" where
  "begin_external env r jn file =
     bind_res (transaction env jn None True file) (\<lambda>rs.
       if jn_max_unresolved_external jn \<le> count_items is_unresolved_external (state_of rs)
       then tool_error ''operation_limit'' else append_record r jn file)"

definition begin_operation ::
  "env \<Rightarrow> string \<Rightarrow> string option \<Rightarrow> dict option \<Rightarrow> bool \<Rightarrow> journal \<Rightarrow> jfile \<Rightarrow> (handle option \<times> journal \<times> jfile) res" where
  "begin_operation env operation_type target external native jn file =
     (if native \<and> operation_type \<notin> set NATIVE_UIA_OPERATIONS then tool_error ''invalid_native_recovery_metadata''
      else
        bind_res (case external of None \<Rightarrow> Inr None | Some e \<Rightarrow> bind_res (normalize_external_metadata e) (\<lambda>n. Inr (Some n)))
        (\<lambda>normalized.
          if \<not> jn_enabled jn then
            (if normalized \<noteq> None then tool_error ''recovery_unavailable'' else Inr (None, jn, file))
          else
            let h = new_handle env jn operation_type target;
                r = begin_record env h native normalized
            in bind_res (if normalized \<noteq> None then begin_external env r jn file
                         else if \<not> ev_available env then unavailable else append_record r jn file)
                 (\<lambda>(jn, file). Inr (Some h, jn, file))))"

definition stage_of :: "dict \<Rightarrow> string option" where
  "stage_of d = get_str ''dispatch_stage'' d"

definition checkpoint_base :: "env \<Rightarrow> handle \<Rightarrow> dict" where
  "checkpoint_base env h =
     [(''schema_version'', JInt 1), (''type'', JStr ''checkpoint''), (''status'', JStr ''in_progress''),
      (''operation_id'', JStr (hd_operation_id h)), (''runtime_id'', JStr (hd_runtime_id h)), (''recorded_at'', JStr (ev_now env))]"

definition settled :: "item \<Rightarrow> bool" where
  "settled i \<longleftrightarrow> has Result i \<or> has Uncertain i \<or> has Reconciliation i \<or> has Acknowledged i"

definition checkpoint_external_dispatch :: "env \<Rightarrow> handle option \<Rightarrow> journal \<Rightarrow> jfile \<Rightarrow> (journal \<times> jfile) res" where
  "checkpoint_external_dispatch env handle jn file =
     (case handle of
        None \<Rightarrow> tool_error ''recovery_unavailable''
      | Some h \<Rightarrow>
          if \<not> jn_enabled jn then tool_error ''recovery_unavailable''
          else
            bind_res (current_item env jn (hd_operation_id h) file) (\<lambda>current.
              case current of
                None \<Rightarrow> tool_error ''operation_not_found''
              | Some i \<Rightarrow>
                  if \<not> has Begin i then tool_error ''operation_not_found''
                  else if settled i then tool_error ''operation_already_completed''
                  else
                    (case merged_external_metadata i of
                       None \<Rightarrow> tool_error ''invalid_external_recovery_metadata''
                     | Some merged \<Rightarrow>
                         (case map_of i Checkpoint of
                            Some existing \<Rightarrow>
                              (case get_dict ''external'' existing of
                                 Some e \<Rightarrow> if stage_of e = Some ''may_dispatch'' then Inr (jn, file)
                                          else tool_error ''operation_checkpoint_conflict''
                               | None \<Rightarrow> tool_error ''operation_checkpoint_conflict'')
                          | None \<Rightarrow>
                              commit env
                                (checkpoint_base env h @
                                 [(''external'', JObj (dict_set ''dispatch_stage'' (JStr ''may_dispatch'') merged))]) jn file))))"

definition result_base :: "env \<Rightarrow> handle \<Rightarrow> string \<Rightarrow> dict" where
  "result_base env h known_result =
     [(''schema_version'', JInt 1), (''type'', JStr ''result''), (''status'', JStr ''completed''),
      (''operation_id'', JStr (hd_operation_id h)), (''runtime_id'', JStr (hd_runtime_id h)),
      (''finished_at'', JStr (ev_now env)), (''known_result'', JStr known_result)]"

definition finish_not_dispatched :: "env \<Rightarrow> handle option \<Rightarrow> string \<Rightarrow> journal \<Rightarrow> jfile \<Rightarrow> (journal \<times> jfile) res" where
  "finish_not_dispatched env handle reason jn file =
     (case handle of
        None \<Rightarrow> Inr (jn, file)
      | Some h \<Rightarrow>
          if has_forbidden_text 128 reason then invalid_external
          else if \<not> jn_enabled jn then tool_error ''recovery_unavailable''
          else
            bind_res (current_item env jn (hd_operation_id h) file) (\<lambda>current.
              case current of
                None \<Rightarrow> tool_error ''operation_not_found''
              | Some i \<Rightarrow>
                  if \<not> has Begin i then tool_error ''operation_not_found''
                  else if has Result i then tool_error ''operation_already_completed''
                  else if has Uncertain i then tool_error ''operation_already_uncertain''
                  else
                    (case merged_external_metadata i of
                       None \<Rightarrow> invalid_external
                     | Some merged \<Rightarrow>
                         if stage_of merged = Some ''may_dispatch'' then tool_error ''operation_already_dispatched''
                         else
                           commit env
                             (result_base env h ''returned_error'' @
                              [(''external_outcome'', JStr ''not_dispatched''),
                               (''external'', JObj
                                  (dict_set ''reason_code'' (JStr reason)
                                    (dict_set ''external_outcome'' (JStr ''not_dispatched'')
                                      (dict_set ''dispatch_stage'' (JStr ''prepared'') merged))))]) jn file)))"

definition set_opt :: "string \<Rightarrow> string option \<Rightarrow> dict \<Rightarrow> dict" where
  "set_opt k v d = (case v of None \<Rightarrow> d | Some s \<Rightarrow> dict_set k (JStr s) d)"

definition text_bad :: "string option \<Rightarrow> bool" where
  "text_bad v \<longleftrightarrow> (case v of None \<Rightarrow> False | Some s \<Rightarrow> has_forbidden_text 128 s)"

definition mark_uncertain ::
  "env \<Rightarrow> handle option \<Rightarrow> string \<Rightarrow> string option \<Rightarrow> journal \<Rightarrow> jfile \<Rightarrow> (journal \<times> jfile) res" where
  "mark_uncertain env handle reason receipt jn file =
     (case handle of
        None \<Rightarrow> Inr (jn, file)
      | Some h \<Rightarrow>
          if has_forbidden_text 128 reason then invalid_external
          else if text_bad receipt then invalid_external
          else if \<not> jn_enabled jn then tool_error ''recovery_unavailable''
          else
            bind_res (current_item env jn (hd_operation_id h) file) (\<lambda>current.
              case current of
                None \<Rightarrow> tool_error ''operation_not_found''
              | Some i \<Rightarrow>
                  if \<not> has Begin i then tool_error ''operation_not_found''
                  else if has Result i then tool_error ''operation_already_completed''
                  else if has Uncertain i then Inr (jn, file)
                  else
                    commit env
                      (uncertain_base env (hd_operation_id h) (JStr (hd_runtime_id h)) (JStr (jn_runtime_id jn)) reason
                       @ external_entry (merged_external_metadata i) (\<lambda>m.
                           set_opt ''receipt_id'' receipt
                             (dict_set ''reason_code'' (JStr reason) (dict_set ''external_outcome'' (JStr ''uncertain'') m))))
                      jn file))"

definition native_record :: "native_target \<Rightarrow> string \<Rightarrow> dict" where
  "native_record t stage =
     [(''native_metadata_version'', JInt 1), (''kind'', JStr ''windows_uia''), (''dispatch_stage'', JStr stage),
      (''target'', JObj (native_target_as_dict t))]"

text \<open>The operation the handle stands for is still this runtime's, \<open>handle.runtime_id == self._runtime_id\<close>
  and \<open>begin["runtime_id"] == handle.runtime_id\<close>.\<close>

definition own_begin :: "journal \<Rightarrow> handle \<Rightarrow> dict \<Rightarrow> bool" where
  "own_begin jn h b \<longleftrightarrow>
     hd_runtime_id h = jn_runtime_id jn \<and> lookup ''runtime_id'' b = Some (JStr (hd_runtime_id h))"

definition previous_checkpoint :: "item \<Rightarrow> dict" where
  "previous_checkpoint i = (case map_of i Checkpoint of None \<Rightarrow> [] | Some c \<Rightarrow> c)"

definition checkpoint_native_uia ::
  "env \<Rightarrow> handle option \<Rightarrow> native_target \<Rightarrow> string \<Rightarrow> journal \<Rightarrow> jfile \<Rightarrow> (journal \<times> jfile) res" where
  "checkpoint_native_uia env handle target stage jn file =
     (case handle of
        None \<Rightarrow> Inr (jn, file)
      | Some h \<Rightarrow>
          if stage \<notin> set DISPATCH_STAGES then tool_error ''invalid_native_recovery_metadata''
          else if \<not> jn_enabled jn then unavailable
          else
            bind_res (current_item env jn (hd_operation_id h) file) (\<lambda>current.
              case Option.bind current (\<lambda>i. map_option (\<lambda>b. (i, b)) (map_of i Begin)) of
                None \<Rightarrow> tool_error ''invalid_operation_handle''
              | Some (i, b) \<Rightarrow>
                  if \<not> own_begin jn h b \<or> get_str ''operation_type'' b \<noteq> Some (hd_operation_type h) \<or>
                     hd_operation_type h \<notin> set NATIVE_UIA_OPERATIONS \<or> present ''external'' b \<noteq> None
                  then tool_error ''invalid_operation_handle''
                  else if settled i then tool_error ''operation_already_completed''
                  else
                    let previous = previous_checkpoint i;
                        native = native_record target stage;
                        old = native_uia_metadata (ev_float_ok env) (lookup ''native'' previous)
                    in
                    if has_key ''native'' previous \<and>
                       (case old of
                          None \<Rightarrow> True
                        | Some n \<Rightarrow> \<not> py_eq (field_of ''target'' n) (field_of ''target'' native) \<or>
                                   (stage_of n = Some ''may_dispatch'' \<and> stage = ''prepared''))
                    then tool_error ''operation_checkpoint_conflict''
                    else if (case old of None \<Rightarrow> False | Some n \<Rightarrow> py_eq (JObj n) (JObj native)) then Inr (jn, file)
                    else if old = None \<and> stage \<noteq> ''prepared'' then tool_error ''operation_checkpoint_conflict''
                    else
                      commit env
                        (merge previous (checkpoint_base env h @
                           [(''target'', JStr (native_target_label target)), (''native'', JObj native)])) jn file))"

definition checkpoint_postcondition :: "env \<Rightarrow> handle option \<Rightarrow> dict \<Rightarrow> journal \<Rightarrow> jfile \<Rightarrow> (journal \<times> jfile) res" where
  "checkpoint_postcondition env handle postcondition jn file =
     (case handle of
        None \<Rightarrow> Inr (jn, file)
      | Some h \<Rightarrow>
          (case bounded_postcondition postcondition of
             None \<Rightarrow> tool_error ''invalid_recovery_postcondition''
           | Some bounded \<Rightarrow>
               if \<not> jn_enabled jn then Inr (jn, file)
               else
                 bind_res (current_item env jn (hd_operation_id h) file) (\<lambda>current.
                   case current of
                     None \<Rightarrow> tool_error ''operation_not_found''
                   | Some i \<Rightarrow>
                       if \<not> has Begin i then tool_error ''operation_not_found''
                       else if has Result i then tool_error ''operation_already_completed''
                       else
                         (case present ''postcondition'' (previous_checkpoint i) of
                            Some p \<Rightarrow> if py_eq p (JObj bounded) then Inr (jn, file)
                                     else tool_error ''operation_checkpoint_conflict''
                          | None \<Rightarrow>
                              commit env
                                (merge (previous_checkpoint i)
                                   (checkpoint_base env h @ [(''postcondition'', JObj bounded)])) jn file))))"

definition other_workspace_items :: "string \<Rightarrow> jstate \<Rightarrow> int" where
  "other_workspace_items op st = int (length (filter (\<lambda>(q, i). q \<noteq> op \<and> is_unresolved_workspace i) st))"

definition checkpoint_workspace_edit ::
  "env \<Rightarrow> handle option \<Rightarrow> workspace_edit_file list \<Rightarrow> string \<Rightarrow> journal \<Rightarrow> jfile \<Rightarrow> (journal \<times> jfile) res" where
  "checkpoint_workspace_edit env handle evidence stage jn file =
     (case handle of
        None \<Rightarrow> tool_error ''recovery_unavailable''
      | Some h \<Rightarrow>
          bind_res (workspace_edit_record (ev_resolve env) evidence stage) (\<lambda>w.
          if \<not> jn_enabled jn then tool_error ''recovery_unavailable''
          else
            bind_res (current_item env jn (hd_operation_id h) file) (\<lambda>current.
              case Option.bind current (\<lambda>i. map_option (\<lambda>b. (i, b)) (map_of i Begin)) of
                None \<Rightarrow> tool_error ''invalid_operation_handle''
              | Some (i, b) \<Rightarrow>
                  if \<not> own_begin jn h b then tool_error ''invalid_operation_handle''
                  else if settled i then tool_error ''operation_already_completed''
                  else
                    let previous = previous_checkpoint i;
                        existing = workspace_edit_metadata (ev_resolve env) (lookup ''workspace_edit'' previous);
                        write = commit env (merge previous (checkpoint_base env h @
                                  [(''workspace_edit'', JObj (workspace_edit_as_dict w))])) jn file
                    in
                    if present ''workspace_edit'' previous \<noteq> None \<and> existing = None
                    then tool_error ''operation_checkpoint_conflict''
                    else
                      (case existing of
                         Some e \<Rightarrow>
                           if wk_files e \<noteq> wk_files w then tool_error ''operation_checkpoint_conflict''
                           else if wk_stage e = wk_stage w then Inr (jn, file)
                           else if wk_stage e = ''may_dispatch'' \<or> wk_stage w = ''prepared''
                             then tool_error ''operation_checkpoint_conflict''
                           else write
                       | None \<Rightarrow>
                           if wk_stage w \<noteq> ''prepared'' then tool_error ''operation_checkpoint_conflict''
                           else if jn_max_unresolved_workspace jn
                                   \<le> other_workspace_items (hd_operation_id h) (state_of (load file))
                             then tool_error ''workspace_edit_limit''
                           else write))))"

definition workspace_edit_stage :: "env \<Rightarrow> handle option \<Rightarrow> journal \<Rightarrow> jfile \<Rightarrow> string option res" where
  "workspace_edit_stage env handle jn file =
     (case handle of
        None \<Rightarrow> Inr None
      | Some h \<Rightarrow>
          if \<not> jn_enabled jn then Inr None
          else
            bind_res (current_item env jn (hd_operation_id h) file) (\<lambda>current.
              case current of
                None \<Rightarrow> Inr None
              | Some i \<Rightarrow>
                  if settled i then Inr (Some ''completed'')
                  else Inr (map_option wk_stage
                         (workspace_edit_metadata (ev_resolve env) (lookup ''workspace_edit'' (previous_checkpoint i))))))"

text \<open>The markers \<open>finish\<close> leaves when the effect may have happened.\<close>

definition finish_uncertain :: "env \<Rightarrow> handle \<Rightarrow> string \<Rightarrow> dict" where
  "finish_uncertain env h reason =
     [(''schema_version'', JInt 1), (''type'', JStr ''uncertain''), (''status'', JStr ''uncertain''),
      (''operation_id'', JStr (hd_operation_id h)), (''runtime_id'', JStr (hd_runtime_id h)),
      (''marked_at'', JStr (ev_now env)), (''reason'', JStr reason)]"

definition default_outcome :: "string \<Rightarrow> string" where
  "default_outcome known_result = (if known_result \<in> {''raised'', ''returned_error''} then ''failed'' else ''succeeded'')"

definition finish_result ::
  "env \<Rightarrow> handle \<Rightarrow> string \<Rightarrow> dict option \<Rightarrow> string option \<Rightarrow> string option \<Rightarrow> item option \<Rightarrow> dict" where
  "finish_result env h known_result postcondition outcome receipt current =
     result_base env h (take 100 known_result)
     @ (case postcondition of None \<Rightarrow> [] | Some p \<Rightarrow> [(''postcondition'', JObj p)])
     @ (case Option.bind current merged_external_metadata of
          Some merged \<Rightarrow>
            let resolved = (case outcome of Some (c # cs) \<Rightarrow> c # cs | _ \<Rightarrow> default_outcome known_result) in
            [(''external_outcome'', JStr resolved),
             (''external'', JObj (set_opt ''receipt_id'' receipt (dict_set ''external_outcome'' (JStr resolved) merged)))]
        | None \<Rightarrow> (case outcome of None \<Rightarrow> [] | Some oc \<Rightarrow> [(''external_outcome'', JStr oc)]))"

definition finish ::
  "env \<Rightarrow> handle option \<Rightarrow> string \<Rightarrow> dict option \<Rightarrow> string option \<Rightarrow> string option \<Rightarrow> journal \<Rightarrow> jfile \<Rightarrow> (journal \<times> jfile) res" where
  "finish env handle known_result postcondition outcome receipt jn file =
     (case handle of
        None \<Rightarrow> Inr (jn, file)
      | Some h \<Rightarrow>
          if (case outcome of None \<Rightarrow> False | Some oc \<Rightarrow> oc \<notin> set EXTERNAL_OUTCOMES) then invalid_external
          else if text_bad receipt then invalid_external
          else if \<not> jn_enabled jn then Inr (jn, file)
          else
            bind_res (current_item env jn (hd_operation_id h) file) (\<lambda>current.
              let checkpoint = (case current of None \<Rightarrow> [] | Some i \<Rightarrow> previous_checkpoint i);
                  workspace = workspace_edit_metadata (ev_resolve env) (lookup ''workspace_edit'' checkpoint);
                  native = native_uia_metadata (ev_float_ok env) (lookup ''native'' checkpoint)
              in
              if (case current of None \<Rightarrow> False | Some i \<Rightarrow> has Uncertain i) then tool_error ''operation_already_uncertain''
              else if (case workspace of None \<Rightarrow> False | Some w \<Rightarrow> wk_stage w = ''may_dispatch'') \<and> known_result = ''raised'' then
                append_record (finish_uncertain env h ''workspace_edit_dispatch_without_known_result'') jn file
              else if (case native of None \<Rightarrow> False | Some n \<Rightarrow> stage_of n = Some ''may_dispatch'') \<and>
                      known_result \<in> {''raised'', ''returned_error''} then
                append_record (finish_uncertain env h ''native_uia_dispatch_without_known_result'') jn file
              else commit env (finish_result env h known_result postcondition outcome receipt current) jn file))"

text \<open>\<open>finish_returned\<close> may both write and raise: it returns the outcome beside the state.\<close>

definition known_result_of :: "json \<Rightarrow> string" where
  "known_result_of result =
     (case result of
        JObj d \<Rightarrow> (case lookup ''ok'' d of Some (JBool b) \<Rightarrow> if b then ''ok'' else ''returned_error'' | _ \<Rightarrow> ''returned'')
      | _ \<Rightarrow> ''returned'')"

definition keep_state :: "journal \<times> jfile \<Rightarrow> (journal \<times> jfile) res \<Rightarrow> unit res \<times> journal \<times> jfile" where
  "keep_state s r = (case r of Inl e \<Rightarrow> (Inl e, s) | Inr s' \<Rightarrow> (Inr (), s'))"

definition finish_returned :: "env \<Rightarrow> handle option \<Rightarrow> json \<Rightarrow> journal \<Rightarrow> jfile \<Rightarrow> unit res \<times> journal \<times> jfile" where
  "finish_returned env handle result jn file =
     (if (case (handle, result) of
            (Some h, JObj d) \<Rightarrow> hd_operation_type h = ''verify_changes'' \<and> lookup ''execution_uncertain'' d = Some (JBool True)
          | _ \<Rightarrow> False)
      then keep_state (jn, file) (mark_uncertain env handle ''native_test_execution_outcome_unknown'' None jn file)
      else
        case finish env handle (known_result_of result) (bounded_result_postcondition result) None None jn file of
          Inr s \<Rightarrow> (Inr (), s)
        | Inl e \<Rightarrow>
            (case handle of
               None \<Rightarrow> (Inl e, jn, file)
             | Some h \<Rightarrow>
                 if hd_operation_type h \<notin> set NATIVE_UIA_OPERATIONS then (Inl e, jn, file)
                 else (tool_error ''operation_outcome_uncertain'',
                       snd (keep_state (jn, file) (finish env handle ''raised'' None None None jn file)))))"

subsection \<open>Views\<close>

definition state_value :: "item \<Rightarrow> string" where
  "state_value i =
     (case map_of i Acknowledged of
        Some a \<Rightarrow> if truthy (lookup ''state'' a) then py_str (field_of ''state'' a) else ''acknowledged''
      | None \<Rightarrow>
          (case map_of i Reconciliation of
             Some r \<Rightarrow> if truthy (lookup ''state'' r) then py_str (field_of ''state'' r) else ''unresolvable''
           | None \<Rightarrow>
               (case map_of i Result of
                  Some r \<Rightarrow> if get_str ''known_result'' r \<in> {Some ''raised'', Some ''returned_error''} then ''failed'' else ''succeeded''
                | None \<Rightarrow> if has Uncertain i then ''uncertain'' else ''running'')))"

definition record_evidence :: "dict option \<Rightarrow> json list" where
  "record_evidence r =
     (case r of None \<Rightarrow> [] | Some d \<Rightarrow> (case get_dict ''evidence'' d of None \<Rightarrow> [] | Some e \<Rightarrow> [JObj e]))"

definition postcondition_entry :: "dict option \<Rightarrow> dict" where
  "postcondition_entry r =
     (case r of
        None \<Rightarrow> []
      | Some d \<Rightarrow> (case get_dict ''postcondition'' d of None \<Rightarrow> [] | Some p \<Rightarrow> [(''postcondition'', JObj p)]))"

definition outcome_entry :: "dict \<Rightarrow> dict" where
  "outcome_entry d =
     (case get_str ''external_outcome'' d of None \<Rightarrow> [] | Some s \<Rightarrow> [(''external_outcome'', JStr s)])"

definition operation_view :: "env \<Rightarrow> string \<Rightarrow> item \<Rightarrow> dict" where
  "operation_view env op i =
     (let b = (case map_of i Begin of None \<Rightarrow> [] | Some b \<Rightarrow> b);
          checkpoint = previous_checkpoint i;
          base = [(''operation_id'', JStr op), (''operation_type'', field_of ''operation_type'' b),
                  (''state'', JStr (state_value i)), (''target'', field_of ''target'' b),
                  (''started_at'', field_of ''started_at'' b), (''runtime_id'', field_of ''runtime_id'' b),
                  (''evidence'', JList (record_evidence (map_of i Reconciliation) @ record_evidence (map_of i Acknowledged)))]
      in merge base
           (native_uia_view (ev_float_ok env) checkpoint @ workspace_edit_view (ev_resolve env) checkpoint
            @ postcondition_entry (map_of i Checkpoint) @ postcondition_entry (map_of i Result)
            @ postcondition_entry (map_of i Reconciliation)
            @ (case merged_external_metadata i of
                 Some e \<Rightarrow> (''external'', JObj e) # outcome_entry e
               | None \<Rightarrow> (case map_of i Result of None \<Rightarrow> [] | Some r \<Rightarrow> outcome_entry r))))"

record page =
  pg_total_count :: nat
  pg_count :: nat
  pg_offset :: int
  pg_has_more :: bool
  pg_items :: "dict list"

definition pagination :: "int \<Rightarrow> int \<Rightarrow> unit res" where
  "pagination offset max_items =
     (if offset < 0 then tool_error ''invalid_offset''
      else if \<not> (1 \<le> max_items \<and> max_items \<le> 1000) then tool_error ''invalid_max_items'' else Inr ())"

definition page_of :: "int \<Rightarrow> int \<Rightarrow> dict list \<Rightarrow> page" where
  "page_of offset max_items items =
     (let p = take (nat max_items) (drop (nat offset) items) in
      \<lparr>pg_total_count = length items, pg_count = length p, pg_offset = offset,
       pg_has_more = (offset + int (length p) < int (length items)), pg_items = p\<rparr>)"

text \<open>\<open>items.sort(key=..., reverse=True)\<close>: Python keeps the order of equal keys also when it
  sorts downwards, which is a stable sort of the reversed list read backwards.\<close>

definition sort_desc :: "('a \<Rightarrow> 'k::linorder) \<Rightarrow> 'a list \<Rightarrow> 'a list" where
  "sort_desc key xs = rev (sort_key key (rev xs))"

definition list_operations :: "env \<Rightarrow> string option \<Rightarrow> int \<Rightarrow> int \<Rightarrow> jfile \<Rightarrow> page res" where
  "list_operations env wanted offset max_items file =
     bind_res (pagination offset max_items) (\<lambda>_.
       let items = map (\<lambda>(op, i). operation_view env op i) (filter (\<lambda>(op, i). has Begin i) (state_of (load file)));
           items = (case wanted of None \<Rightarrow> items | Some s \<Rightarrow> filter (\<lambda>v. lookup ''state'' v = Some (JStr s)) items)
       in Inr (page_of offset max_items (sort_desc (\<lambda>v. text_or (lookup ''started_at'' v) None) items)))"

definition inspect :: "env \<Rightarrow> journal \<Rightarrow> string \<Rightarrow> jfile \<Rightarrow> dict res" where
  "inspect env jn op file =
     bind_res (read_state (jn_max_unresolved_external jn) (Some op) False (load file) []) (\<lambda>st.
       case map_of st op of
         None \<Rightarrow> tool_error ''operation_not_found''
       | Some i \<Rightarrow> if has Begin i then Inr (operation_view env op i) else tool_error ''operation_not_found'')"

definition history :: "string \<Rightarrow> int \<Rightarrow> int \<Rightarrow> jfile \<Rightarrow> page res" where
  "history op offset max_items file =
     bind_res (pagination offset max_items) (\<lambda>_.
       let items = filter (\<lambda>r. op_of r = Some op) (load file) in
       if items = [] then tool_error ''operation_not_found'' else Inr (page_of offset max_items items))"

record journal_summary =
  js_enabled :: bool
  js_uncertain_count :: nat
  js_pending_count :: nat
  js_uncertain :: "dict list"

definition unresolved_item :: "item \<Rightarrow> bool" where
  "unresolved_item i \<longleftrightarrow> has Begin i \<and> \<not> has Result i \<and> \<not> has Reconciliation i \<and> \<not> has Acknowledged i"

definition summary_entry :: "env \<Rightarrow> string \<Rightarrow> item \<Rightarrow> dict" where
  "summary_entry env op i =
     (let b = (case map_of i Begin of None \<Rightarrow> [] | Some b \<Rightarrow> b);
          marker = (case map_of i Uncertain of None \<Rightarrow> [] | Some u \<Rightarrow> u);
          checkpoint = previous_checkpoint i
      in merge [(''operation_id'', JStr op), (''status'', JStr ''uncertain''), (''operation_type'', field_of ''operation_type'' b),
                (''target'', field_of ''target'' b), (''started_at'', field_of ''started_at'' b),
                (''marked_at'', field_of ''marked_at'' marker), (''reason'', field_of ''reason'' marker)]
           (native_uia_view (ev_float_ok env) checkpoint @ workspace_edit_view (ev_resolve env) checkpoint
            @ external_entry (merged_external_metadata i) id))"

text \<open>\<open>xs[:n]\<close>.\<close>

definition py_take :: "int \<Rightarrow> 'a list \<Rightarrow> 'a list" where
  "py_take n xs = take (nat (if 0 \<le> n then n else int (length xs) + n)) xs"

definition summary :: "env \<Rightarrow> int \<Rightarrow> journal \<Rightarrow> jfile \<Rightarrow> journal_summary" where
  "summary env max_items jn file =
     (if \<not> jn_enabled jn then \<lparr>js_enabled = False, js_uncertain_count = 0, js_pending_count = 0, js_uncertain = []\<rparr>
      else
        let open_items = filter (\<lambda>(op, i). unresolved_item i) (state_of (load file));
            uncertain = sort_desc (\<lambda>v. text_or (lookup ''marked_at'' v) None)
              (map (\<lambda>(op, i). summary_entry env op i) (filter (\<lambda>(op, i). has Uncertain i) open_items))
        in \<lparr>js_enabled = True, js_uncertain_count = length uncertain,
            js_pending_count = length (filter (\<lambda>(op, i). \<not> has Uncertain i) open_items),
            js_uncertain = py_take max_items uncertain\<rparr>)"

subsection \<open>Resolution by an operator or a reconciler\<close>

datatype recovery_state =
  CREATED | RUNNING | WAITING_RESULT | SUCCEEDED | FAILED | UNCERTAIN | RECONCILING | ACKNOWLEDGED | UNRESOLVABLE

fun recovery_state_value :: "recovery_state \<Rightarrow> string" where
  "recovery_state_value CREATED = ''created''"
| "recovery_state_value RUNNING = ''running''"
| "recovery_state_value WAITING_RESULT = ''waiting_result''"
| "recovery_state_value SUCCEEDED = ''succeeded''"
| "recovery_state_value FAILED = ''failed''"
| "recovery_state_value UNCERTAIN = ''uncertain''"
| "recovery_state_value RECONCILING = ''reconciling''"
| "recovery_state_value ACKNOWLEDGED = ''acknowledged''"
| "recovery_state_value UNRESOLVABLE = ''unresolvable''"

record evidence =
  evi_source :: string
  evi_data :: dict

record postcondition =
  pc_kind :: string
  pc_expected :: dict

definition evidence_json :: "evidence \<Rightarrow> json" where
  "evidence_json e = JObj [(''source'', JStr (evi_source e)), (''data'', JObj (evi_data e))]"

definition postcondition_json :: "postcondition \<Rightarrow> json" where
  "postcondition_json p = JObj [(''kind'', JStr (pc_kind p)), (''expected'', JObj (pc_expected p))]"

definition terminal_base :: "env \<Rightarrow> journal \<Rightarrow> record_kind \<Rightarrow> string \<Rightarrow> recovery_state \<Rightarrow> dict" where
  "terminal_base env jn k op state =
     [(''schema_version'', JInt 1), (''type'', JStr (kind_value k)), (''status'', JStr ''completed''),
      (''state'', JStr (recovery_state_value state)), (''operation_id'', JStr op),
      (''runtime_id'', JStr (jn_runtime_id jn)), (''recorded_at'', JStr (ev_now env))]"

definition outcome_external :: "item \<Rightarrow> recovery_state \<Rightarrow> dict" where
  "outcome_external i state =
     external_entry (merged_external_metadata i) (dict_set ''external_outcome'' (JStr (recovery_state_value state)))"

definition acknowledge ::
  "env \<Rightarrow> string \<Rightarrow> recovery_state \<Rightarrow> evidence option \<Rightarrow> journal \<Rightarrow> jfile \<Rightarrow> (dict \<times> journal \<times> jfile) res" where
  "acknowledge env op state evidence jn file =
     (if state \<notin> {ACKNOWLEDGED, UNRESOLVABLE} then tool_error ''invalid_operation_state''
      else case evidence of
        None \<Rightarrow> tool_error ''evidence_required''
      | Some e \<Rightarrow>
          if py_strip (evi_source e) = [] \<or> evi_data e = [] then tool_error ''evidence_required''
          else
            bind_res (current_item env jn op file) (\<lambda>current.
              case current of
                None \<Rightarrow> tool_error ''operation_not_found''
              | Some i \<Rightarrow>
                  if \<not> has Begin i then tool_error ''operation_not_found''
                  else if has Result i then tool_error ''operation_already_completed''
                  else if has Reconciliation i then tool_error ''operation_already_reconciled''
                  else
                    (case map_of i Acknowledged of
                       Some a \<Rightarrow>
                         if get_str ''state'' a = Some (recovery_state_value state) \<and>
                            py_eq (field_of ''evidence'' a) (evidence_json e)
                         then Inr (operation_view env op i, jn, file)
                         else tool_error ''operation_already_acknowledged''
                     | None \<Rightarrow>
                         let r = terminal_base env jn Acknowledged op state @ [(''evidence'', evidence_json e)]
                                 @ outcome_external i state
                         in bind_res (commit env r jn file) (\<lambda>s.
                              Inr (operation_view env op (AList.update Acknowledged r i), s)))))"

definition record_reconciliation ::
  "env \<Rightarrow> string \<Rightarrow> recovery_state \<Rightarrow> postcondition \<Rightarrow> evidence \<Rightarrow> journal \<Rightarrow> jfile \<Rightarrow> (dict \<times> journal \<times> jfile) res" where
  "record_reconciliation env op state post e jn file =
     (if state \<notin> {SUCCEEDED, FAILED, UNRESOLVABLE} then tool_error ''invalid_operation_state''
      else if state \<in> {SUCCEEDED, FAILED} \<and> lookup ''conclusive'' (evi_data e) \<noteq> Some (JBool True)
        then tool_error ''conclusive_evidence_required''
      else
        bind_res (current_item env jn op file) (\<lambda>current.
          case current of
            None \<Rightarrow> tool_error ''operation_not_found''
          | Some i \<Rightarrow>
              if \<not> has Begin i then tool_error ''operation_not_found''
              else if has Result i then tool_error ''operation_already_completed''
              else if has Acknowledged i then tool_error ''operation_already_acknowledged''
              else
                (case map_of i Reconciliation of
                   Some x \<Rightarrow>
                     if get_str ''state'' x = Some (recovery_state_value state) \<and>
                        py_eq (field_of ''postcondition'' x) (postcondition_json post) \<and>
                        py_eq (field_of ''evidence'' x) (evidence_json e)
                     then Inr (operation_view env op i, jn, file)
                     else tool_error ''operation_already_reconciled''
                 | None \<Rightarrow>
                     let r = terminal_base env jn Reconciliation op state
                             @ [(''postcondition'', postcondition_json post), (''evidence'', evidence_json e)]
                             @ outcome_external i state
                     in bind_res (commit env r jn file) (\<lambda>s.
                          Inr (operation_view env op (AList.update Reconciliation r i), s)))))"

subsection \<open>Backups the cleanup must keep\<close>

definition MAX_WORKSPACE_PROTECTED_PATHS :: nat where
  "MAX_WORKSPACE_PROTECTED_PATHS = 10000"

definition backup_path_of :: "json \<Rightarrow> string list" where
  "backup_path_of f = (case f of JObj d \<Rightarrow> opt_list (get_str ''backup_path'' d) | _ \<Rightarrow> [])"

definition protected_item :: "env \<Rightarrow> item \<Rightarrow> string list" where
  "protected_item env i =
     (if \<not> has Begin i \<or> has Result i \<or>
         (case map_of i Reconciliation of
            None \<Rightarrow> False | Some r \<Rightarrow> get_str ''state'' r \<in> {Some ''succeeded'', Some ''failed''})
      then []
      else case workspace_edit_metadata (ev_resolve env) (lookup ''workspace_edit'' (previous_checkpoint i)) of
        None \<Rightarrow> [] | Some w \<Rightarrow> concat (map backup_path_of (wk_files w)))"

text \<open>\<open>expected\<close> tells, of the journal the caller expects, that it exists and is not the configured one.\<close>

definition protected_workspace_backups :: "env \<Rightarrow> bool \<Rightarrow> journal \<Rightarrow> jfile \<Rightarrow> string list res" where
  "protected_workspace_backups env expected_other jn file =
     (if expected_other then tool_error ''recovery_unavailable''
      else if \<not> jn_enabled jn then Inr []
      else if \<not> ev_available env then Inl TimeoutError
      else
        bind_res (load_strict file) (\<lambda>rs.
        bind_res (validate_workspace_records env rs) (\<lambda>_.
          let protected = remdups (concat (map (\<lambda>(op, i). protected_item env i) (state_of rs))) in
          if MAX_WORKSPACE_PROTECTED_PATHS < length protected then tool_error ''workspace_backup_protection_limit''
          else Inr protected)))"

end
