(* ===== verification/Journal_Safety.thy ===== *)
theory Journal_Safety
  imports Operation_Journal
begin

text \<open>
  What the journal guarantees: how the records denote the state of each operation, that reading
  one operation and scanning for admission agree with reading everything, what compaction and the
  recovery of earlier runtimes do to every operation, and that the mark of a possible dispatch
  stays.
\<close>

subsection \<open>One operation at a time\<close>

definition item_of :: "dict list \<Rightarrow> string \<Rightarrow> item option" where
  "item_of rs op = map_of (state_of rs) op"

definition item_step :: "string \<Rightarrow> dict \<Rightarrow> item option \<Rightarrow> item option" where
  "item_step op r oi =
     (if op_of r \<noteq> Some op then oi
      else case kind_of r of
        None \<Rightarrow> oi
      | Some Begin \<Rightarrow> Some [(Begin, r)]
      | Some k \<Rightarrow> map_option (AList.update k r) oi)"

lemma map_of_state_step: "map_of (state_step r st) op = item_step op r (map_of st op)"
  by (auto simp: state_step_def item_step_def update_conv' split: option.splits record_kind.splits)

lemma item_of_fold: "item_of rs op = fold (item_step op) rs None"
proof -
  have "map_of (fold state_step rs st) op = fold (item_step op) rs (map_of st op)" for st
    by (induction rs arbitrary: st) (simp_all add: map_of_state_step)
  then show ?thesis by (simp add: item_of_def state_of_def)
qed

lemma item_of_snoc: "item_of (rs @ [r]) op = item_step op r (item_of rs op)"
  by (simp add: item_of_fold)

lemma item_step_other: "op_of r \<noteq> Some op \<Longrightarrow> item_step op r oi = oi"
  by (simp add: item_step_def)

lemma item_step_kind:
  "op_of r = Some op \<Longrightarrow> kind_of r = Some k \<Longrightarrow> k \<noteq> Begin \<Longrightarrow>
   item_step op r oi = map_option (AList.update k r) oi"
  by (cases k) (simp_all add: item_step_def)

lemma item_step_begin:
  "op_of r = Some op \<Longrightarrow> kind_of r = Some Begin \<Longrightarrow> item_step op r oi = Some [(Begin, r)]"
  by (simp add: item_step_def)

lemma state_keys_distinct: "distinct (map fst (state_of rs))"
proof -
  have "distinct (map fst (state_step r st))" if "distinct (map fst st)" for r st
    using that by (auto simp: state_step_def distinct_update split: option.splits record_kind.splits)
  then have "distinct (map fst (fold state_step rs st))" if "distinct (map fst st)" for st
    using that by (induction rs arbitrary: st) auto
  then show ?thesis by (simp add: state_of_def)
qed

lemma state_of_snoc: "state_of (rs @ [r]) = state_step r (state_of rs)"
  by (simp add: state_of_def)

lemma in_state_of: "(op, i) \<in> set (state_of rs) \<longleftrightarrow> item_of rs op = Some i"
  unfolding item_of_def using state_keys_distinct by (simp add: map_of_eq_Some_iff)

text \<open>An item holds one record of each kind, the begin record first, all of its operation.\<close>

definition item_ok :: "string \<Rightarrow> item \<Rightarrow> bool" where
  "item_ok op i \<longleftrightarrow>
     (\<exists>b rest. i = (Begin, b) # rest) \<and> distinct (map fst i) \<and>
     (\<forall>(k, r) \<in> set i. op_of r = Some op \<and> kind_of r = Some k)"

lemma update_Cons_other: "k \<noteq> q \<Longrightarrow> AList.update k v ((q, w) # al) = (q, w) # AList.update k v al"
  by simp

lemma set_update_subset: "set (AList.update k v al) \<subseteq> insert (k, v) (set al)"
  by (induction al) auto

lemma item_ok_step:
  assumes "item_ok op i" "op_of r = Some op" "kind_of r = Some k" "k \<noteq> Begin"
  shows "item_ok op (AList.update k r i)"
proof -
  obtain b rest where i: "i = (Begin, b) # rest" using assms(1) by (auto simp: item_ok_def)
  have "\<exists>b rest. AList.update k r i = (Begin, b) # rest" using i assms(4) by simp
  moreover have "distinct (map fst (AList.update k r i))"
    using assms(1) by (intro distinct_update) (simp add: item_ok_def)
  moreover have "\<forall>(q, x) \<in> set (AList.update k r i). op_of x = Some op \<and> kind_of x = Some q"
    using assms set_update_subset [of k r i] by (fastforce simp: item_ok_def)
  ultimately show ?thesis unfolding item_ok_def by blast
qed

lemma item_of_ok: "item_of rs op = Some i \<Longrightarrow> item_ok op i"
proof (induction rs arbitrary: i rule: rev_induct)
  case Nil
  then show ?case by (simp add: item_of_fold)
next
  case (snoc r rs)
  show ?case
  proof (cases "op_of r = Some op \<and> kind_of r \<noteq> None")
    case False
    then show ?thesis using snoc by (auto simp: item_of_snoc item_step_def split: option.splits)
  next
    case True
    then obtain k where k: "op_of r = Some op" "kind_of r = Some k" by auto
    show ?thesis
    proof (cases "k = Begin")
      case True
      then show ?thesis using snoc.prems k by (auto simp: item_of_snoc item_step_begin item_ok_def)
    next
      case False
      then obtain j where "item_of rs op = Some j" "i = AList.update k r j"
        using snoc.prems k by (auto simp: item_of_snoc item_step_kind)
      with snoc.IH k False show ?thesis by (auto intro: item_ok_step)
    qed
  qed
qed

lemma item_ok_begin: "item_ok op i \<Longrightarrow> has Begin i"
  by (auto simp: item_ok_def has_def)

subsection \<open>Reading one operation\<close>

definition single :: "string \<Rightarrow> item option \<Rightarrow> jstate" where
  "single op oi = (case oi of None \<Rightarrow> [] | Some i \<Rightarrow> [(op, i)])"

lemma read_step_single:
  "read_step limit (Some op) False r (single op oi) = Inr (single op (item_step op r oi))"
  by (cases oi)
    (auto simp: read_step_def item_step_def single_def over_quota_def split: option.splits record_kind.splits)

lemma read_state_single:
  "read_state limit (Some op) False rs (single op oi) = Inr (single op (fold (item_step op) rs oi))"
  by (induction rs arbitrary: oi) (simp_all add: read_step_single)

lemma fold_item_step_records:
  assumes "\<forall>(k, r) \<in> set rest. op_of r = Some op \<and> kind_of r = Some k" "distinct (map fst (acc @ rest))"
    "Begin \<notin> fst ` set rest"
  shows "fold (item_step op) (map snd rest) (Some acc) = Some (acc @ rest)"
  using assms
proof (induction rest arbitrary: acc)
  case (Cons x rest)
  obtain k r where x: "x = (k, r)" by (cases x)
  have "k \<noteq> Begin" using Cons.prems(3) x by auto
  moreover have "AList.update k r acc = acc @ [(k, r)]"
    using Cons.prems(2) x by (induction acc) auto
  ultimately have "item_step op r (Some acc) = Some (acc @ [(k, r)])"
    using Cons.prems(1) x by (simp add: item_step_kind)
  moreover have "fold (item_step op) (map snd rest) (Some (acc @ [(k, r)])) = Some ((acc @ [(k, r)]) @ rest)"
    by (rule Cons.IH) (use Cons.prems x in auto)
  ultimately show ?case using x by simp
qed simp

lemma item_of_records: "item_ok op i \<Longrightarrow> item_of (map snd i) op = Some i"
proof -
  assume ok: "item_ok op i"
  then obtain b rest where i: "i = (Begin, b) # rest" by (auto simp: item_ok_def)
  have "item_step op b None = Some [(Begin, b)]" using ok i by (auto simp: item_ok_def item_step_begin)
  moreover have "fold (item_step op) (map snd rest) (Some [(Begin, b)]) = Some ([(Begin, b)] @ rest)"
    by (rule fold_item_step_records) (use ok i in \<open>auto simp: item_ok_def\<close>)
  ultimately show ?thesis by (simp add: item_of_fold i)
qed

text \<open>The item a method reads in its transaction is the item of the whole journal.\<close>

lemma current_item_eq:
  assumes "jn_enabled jn" "ev_available env"
  shows "current_item env jn op file = Inr (item_of (load file) op)"
proof -
  have "read_state (jn_max_unresolved_external jn) (Some op) False (load file) [] =
      Inr (single op (item_of (load file) op))"
    using read_state_single [of _ op "load file" None] by (simp add: item_of_fold single_def)
  moreover have "map_of (state_of (flatten (single op (item_of (load file) op)))) op = item_of (load file) op"
  proof (cases "item_of (load file) op")
    case None
    then show ?thesis by (simp add: single_def flatten_def state_of_def)
  next
    case (Some i)
    then show ?thesis
      using item_of_records [OF item_of_ok [OF Some]] by (simp add: single_def flatten_def item_of_def)
  qed
  ultimately show ?thesis using assms by (simp add: current_item_def transaction_def)
qed

lemma current_item_Inr:
  assumes "current_item env jn op file = Inr oi"
  shows "jn_enabled jn" "ev_available env" "oi = item_of (load file) op"
proof -
  show e: "jn_enabled jn" and a: "ev_available env"
    using assms by (auto simp: current_item_def transaction_def unavailable_def bind_res_Inr split: if_splits)
  show "oi = item_of (load file) op" using assms by (simp add: current_item_eq [OF e a])
qed

subsection \<open>Appending\<close>

lemma concat_records_end_line: "concat (map records_of_line (end_line ls)) = concat (map records_of_line ls)"
  by (induction ls rule: end_line.induct) (simp_all add: records_of_line_def)

lemma load_append:
  "current_schema r \<Longrightarrow> load (Some (end_line (lines_of file) @ [Line (JObj r)])) = load file @ [r]"
  by (simp add: load_def lines_of_def concat_records_end_line records_of_line_def record_of_json_def split: option.splits)

lemma append_record_load:
  assumes "append_record r jn file = Inr (jn', file')" "jn_enabled jn" "current_schema r"
  shows "load file' = load file @ [r]"
  using assms by (auto simp: append_record_def load_append split: if_splits)

lemma strict_lines_load: "strict_lines ls = Inr rs \<Longrightarrow> concat (map records_of_line ls) = rs"
proof (induction ls arbitrary: rs)
  case (Cons l ls)
  then obtain v d ds where "l = Line v" "record_of_json v = [d]" "strict_lines ls = Inr ds" "rs = d # ds"
    by (auto simp: invalid_journal_def bind_res_Inr split: line.splits list.splits)
  with Cons.IH show ?case by (simp add: records_of_line_def)
qed simp

lemma load_strict_load: "load_strict file = Inr rs \<Longrightarrow> load file = rs"
  by (auto simp: load_strict_def load_def unavailable_def strict_lines_load split: option.splits)

subsection \<open>The steps of the journal\<close>

text \<open>
  What a call may append, by the method that appends it: the guards the method checks on the item
  it read, and the record. The identifier of a new operation is fresh.
\<close>

inductive writes :: "env \<Rightarrow> journal \<Rightarrow> dict list \<Rightarrow> string \<Rightarrow> record_kind \<Rightarrow> dict \<Rightarrow> bool"
  for env :: env and jn :: journal and rs :: "dict list" where
  w_begin: "item_of rs (hd_operation_id h) = None \<Longrightarrow>
    (external = None \<or> count_items is_unresolved_external (state_of rs) < jn_max_unresolved_external jn) \<Longrightarrow>
    (\<And>e. external = Some e \<Longrightarrow> \<exists>raw. normalize_external_metadata raw = Inr e) \<Longrightarrow>
    writes env jn rs (hd_operation_id h) Begin (begin_record env h native external)"
| w_dispatch: "item_of rs (hd_operation_id h) = Some i \<Longrightarrow> \<not> settled i \<Longrightarrow> map_of i Checkpoint = None \<Longrightarrow>
    merged_external_metadata i = Some m \<Longrightarrow>
    writes env jn rs (hd_operation_id h) Checkpoint
      (checkpoint_base env h @ [(''external'', JObj (dict_set ''dispatch_stage'' (JStr ''may_dispatch'') m))])"
| w_not_dispatched: "item_of rs (hd_operation_id h) = Some i \<Longrightarrow> \<not> has Result i \<Longrightarrow> \<not> has Uncertain i \<Longrightarrow>
    merged_external_metadata i = Some m \<Longrightarrow> stage_of m \<noteq> Some ''may_dispatch'' \<Longrightarrow>
    writes env jn rs (hd_operation_id h) Result
      (result_base env h ''returned_error'' @
       [(''external_outcome'', JStr ''not_dispatched''),
        (''external'', JObj (dict_set ''reason_code'' (JStr reason)
           (dict_set ''external_outcome'' (JStr ''not_dispatched'') (dict_set ''dispatch_stage'' (JStr ''prepared'') m))))])"
| w_uncertain: "item_of rs (hd_operation_id (h :: handle)) = Some i \<Longrightarrow> \<not> has Result i \<Longrightarrow> \<not> has Uncertain i \<Longrightarrow>
    writes env jn rs (hd_operation_id h) Uncertain
      (uncertain_base env (hd_operation_id h) (JStr (hd_runtime_id h)) (JStr (jn_runtime_id jn)) reason
       @ external_entry (merged_external_metadata i) (\<lambda>m. set_opt ''receipt_id'' receipt
           (dict_set ''reason_code'' (JStr reason) (dict_set ''external_outcome'' (JStr ''uncertain'') m))))"
| w_checkpoint: "item_of rs (hd_operation_id h) = Some i \<Longrightarrow> \<not> has Result i \<Longrightarrow>
    k \<in> {''native'', ''postcondition'', ''workspace_edit''} \<Longrightarrow> (k \<noteq> ''postcondition'' \<Longrightarrow> \<not> settled i) \<Longrightarrow>
    new = checkpoint_base env h @ label @ [(k, v)] \<Longrightarrow> label = [] \<or> (\<exists>t. label = [(''target'', JStr t)]) \<Longrightarrow>
    (k = ''workspace_edit'' \<Longrightarrow> has_key k (previous_checkpoint i) \<or>
       other_workspace_items (hd_operation_id h) (state_of rs) < jn_max_unresolved_workspace jn) \<Longrightarrow>
    writes env jn rs (hd_operation_id h) Checkpoint (merge (previous_checkpoint i) new)"
| w_finish_uncertain: "item_of rs (hd_operation_id h) = Some i \<Longrightarrow> \<not> has Uncertain i \<Longrightarrow>
    writes env jn rs (hd_operation_id h) Uncertain (finish_uncertain env h reason)"
| w_finish: "(\<And>i. item_of rs (hd_operation_id h) = Some i \<Longrightarrow> \<not> has Uncertain i) \<Longrightarrow>
    writes env jn rs (hd_operation_id h) Result
      (finish_result env h known_result postcondition outcome receipt (item_of rs (hd_operation_id h)))"
| w_acknowledge: "item_of rs op = Some i \<Longrightarrow> \<not> has Result i \<Longrightarrow> \<not> has Reconciliation i \<Longrightarrow> \<not> has Acknowledged i \<Longrightarrow>
    writes env jn rs op Acknowledged
      (terminal_base env jn Acknowledged op state @ [(''evidence'', evidence_json e)] @ outcome_external i state)"
| w_reconcile: "item_of rs op = Some i \<Longrightarrow> \<not> has Result i \<Longrightarrow> \<not> has Reconciliation i \<Longrightarrow> \<not> has Acknowledged i \<Longrightarrow>
    writes env jn rs op Reconciliation
      (terminal_base env jn Reconciliation op state
       @ [(''postcondition'', postcondition_json post), (''evidence'', evidence_json e)] @ outcome_external i state)"
| w_recover_result: "item_of rs op = Some i \<Longrightarrow> open_item i \<Longrightarrow> map_of i Begin = Some b \<Longrightarrow>
    workspace_before_dispatch env i b \<or> native_before_dispatch env i b \<Longrightarrow>
    writes env jn rs op Result (recovered_result env jn op b reason)"
| w_recover_uncertain: "item_of rs op = Some i \<Longrightarrow> open_item i \<Longrightarrow> map_of i Begin = Some b \<Longrightarrow>
    writes env jn rs op Uncertain (recovered_uncertain env jn op i b)"

text \<open>The shape of the records: their schema, their operation and their kind.\<close>

definition shaped :: "string \<Rightarrow> record_kind \<Rightarrow> dict \<Rightarrow> bool" where
  "shaped op k r \<longleftrightarrow> current_schema r \<and> op_of r = Some op \<and> kind_of r = Some k"

lemma kind_of_value: "lookup ''type'' r = Some (JStr (kind_value k)) \<Longrightarrow> kind_of r = Some k"
  by (cases k) (simp_all add: kind_of_def get_str_def record_kinds_def)

lemma shapedI:
  assumes "lookup ''schema_version'' r = Some (JInt 1)" "lookup ''operation_id'' r = Some (JStr op)"
    "lookup ''type'' r = Some (JStr (kind_value k))"
  shows "shaped op k r"
  using assms by (simp add: shaped_def current_schema_def op_of_def get_str_def kind_of_value)

lemma writes_shaped: "writes env jn rs op k r \<Longrightarrow> shaped op k r"
  by (induction rule: writes.induct)
    (rule shapedI; auto simp: begin_record_def checkpoint_base_def result_base_def uncertain_base_def finish_uncertain_def
      finish_result_def terminal_base_def recovered_result_def recovered_uncertain_def lookup_merge)+

lemma item_after_write:
  assumes "writes env jn rs op k r"
  shows "item_of (rs @ [r]) q =
    (if q \<noteq> op then item_of rs q else if k = Begin then Some [(Begin, r)] else map_option (AList.update k r) (item_of rs op))"
  using writes_shaped [OF assms]
  by (simp add: item_of_snoc shaped_def item_step_other item_step_begin item_step_kind)

subsection \<open>Rebuilding a state from its records\<close>

lemma update_fresh: "k \<notin> fst ` set al \<Longrightarrow> AList.update k v al = al @ [(k, v)]"
  by (induction al) auto

lemma update_last_key: "k \<notin> fst ` set al \<Longrightarrow> AList.update k v (al @ [(k, w)]) = al @ [(k, v)]"
  by (induction al) auto

lemma map_of_last_key: "k \<notin> fst ` set al \<Longrightarrow> map_of (al @ [(k, w)]) k = Some w"
  by (induction al) auto

lemma fold_state_records:
  assumes "\<forall>(k, r) \<in> set rest. op_of r = Some op \<and> kind_of r = Some k" "distinct (map fst (acc @ rest))"
    "Begin \<notin> fst ` set rest" "op \<notin> fst ` set st"
  shows "fold state_step (map snd rest) (st @ [(op, acc)]) = st @ [(op, acc @ rest)]"
  using assms
proof (induction rest arbitrary: acc)
  case (Cons x rest)
  obtain k r where x: "x = (k, r)" by (cases x)
  have k: "k \<noteq> Begin" "op_of r = Some op" "kind_of r = Some k" "k \<notin> fst ` set acc"
    using Cons.prems x by auto
  have "state_step r (st @ [(op, acc)]) = AList.update op (AList.update k r acc) (st @ [(op, acc)])"
    using k(1-3) map_of_last_key [OF Cons.prems(4), of acc] by (cases k) (simp_all add: state_step_def)
  then have "state_step r (st @ [(op, acc)]) = st @ [(op, acc @ [(k, r)])]"
    by (simp only: update_last_key [OF Cons.prems(4)] update_fresh [OF k(4)])
  moreover have "fold state_step (map snd rest) (st @ [(op, acc @ [(k, r)])]) = st @ [(op, (acc @ [(k, r)]) @ rest)]"
    by (rule Cons.IH) (use Cons.prems x in auto)
  ultimately show ?case using x by simp
qed simp

lemma fold_state_item:
  assumes "item_ok op i" "op \<notin> fst ` set st"
  shows "fold state_step (map snd i) st = st @ [(op, i)]"
proof -
  obtain b rest where i: "i = (Begin, b) # rest" using assms(1) by (auto simp: item_ok_def)
  have "state_step b st = st @ [(op, [(Begin, b)])]"
    using assms i by (simp add: item_ok_def state_step_def update_fresh)
  moreover have "fold state_step (map snd rest) (st @ [(op, [(Begin, b)])]) = st @ [(op, [(Begin, b)] @ rest)]"
    by (rule fold_state_records) (use assms i in \<open>auto simp: item_ok_def\<close>)
  ultimately show ?thesis using i by simp
qed

lemma state_of_flatten:
  assumes "distinct (map fst st)" "\<forall>(op, i) \<in> set st. item_ok op i"
  shows "state_of (flatten st) = st"
  using assms
proof (induction st rule: rev_induct)
  case Nil
  then show ?case by (simp add: flatten_def state_of_def)
next
  case (snoc x st)
  obtain op i where x: "x = (op, i)" by (cases x)
  have "state_of (flatten (st @ [x])) = fold state_step (map snd i) (state_of (flatten st))"
    by (simp add: x flatten_def state_of_def)
  also have "\<dots> = fold state_step (map snd i) st" using snoc by simp
  also have "\<dots> = st @ [x]" using snoc.prems x by (simp add: fold_state_item)
  finally show ?case .
qed

lemma state_of_items_ok: "\<forall>(op, i) \<in> set (state_of rs). item_ok op i"
  by (auto simp: in_state_of item_of_ok)

subsection \<open>Operations begin once\<close>

definition begin_ops :: "dict list \<Rightarrow> string list" where
  "begin_ops rs = concat (map (\<lambda>r. if kind_of r = Some Begin then opt_list (op_of r) else []) rs)"

definition begins_unique :: "dict list \<Rightarrow> bool" where
  "begins_unique rs \<longleftrightarrow> distinct (begin_ops rs)"

lemma begin_ops_snoc:
  "begin_ops (rs @ [r]) = begin_ops rs @ (if kind_of r = Some Begin then opt_list (op_of r) else [])"
  by (simp add: begin_ops_def)

lemma item_of_None: "item_of rs op = None \<longleftrightarrow> op \<notin> set (begin_ops rs)"
proof (induction rs rule: rev_induct)
  case Nil
  then show ?case by (simp add: item_of_fold begin_ops_def)
next
  case (snoc r rs)
  then show ?case
    by (auto simp: item_of_snoc item_step_def begin_ops_snoc opt_list_def split: option.splits record_kind.splits if_splits)
qed

lemma begins_unique_take: "begins_unique rs \<Longrightarrow> begins_unique (take n rs)"
proof -
  assume u: "begins_unique rs"
  have "begin_ops rs = begin_ops (take n rs) @ begin_ops (drop n rs)"
    unfolding begin_ops_def by (metis append_take_drop_id concat_append map_append)
  with u show ?thesis by (simp add: begins_unique_def)
qed

lemma begins_unique_snoc:
  assumes "begins_unique rs" "\<And>op. kind_of r = Some Begin \<Longrightarrow> op_of r = Some op \<Longrightarrow> item_of rs op = None"
  shows "begins_unique (rs @ [r])"
  using assms by (auto simp: begins_unique_def begin_ops_snoc opt_list_def item_of_None split: option.splits)

lemma begins_unique_snocD: "begins_unique (rs @ [r]) \<Longrightarrow> begins_unique rs"
  by (simp add: begins_unique_def begin_ops_snoc)

lemma begins_unique_fresh:
  assumes "begins_unique (rs @ [r])" "kind_of r = Some Begin" "op_of r = Some op"
  shows "item_of rs op = None"
  using assms by (simp add: begins_unique_def begin_ops_snoc opt_list_def item_of_None)

subsection \<open>The admission scan\<close>

abbreviation open_external :: "jstate \<Rightarrow> jstate" where
  "open_external st \<equiv> filter (\<lambda>(op, i). is_unresolved_external i) st"

lemma filter_update_kept:
  assumes "map_of st op = Some i" "P i" "P j" "distinct (map fst st)"
  shows "filter (\<lambda>(op, i). P i) (AList.update op j st) = AList.update op j (filter (\<lambda>(op, i). P i) st)"
  using assms by (induction st) (auto split: if_splits)

lemma filter_update_dropped:
  assumes "map_of st op = Some i" "\<not> P j" "distinct (map fst st)"
  shows "filter (\<lambda>(op, i). P i) (AList.update op j st) = AList.delete op (filter (\<lambda>(op, i). P i) st)"
  using assms
proof (induction st)
  case (Cons x st)
  obtain q k where x: "x = (q, k)" by (cases x)
  show ?case
  proof (cases "q = op")
    case True
    then have "op \<notin> fst ` set (filter (\<lambda>(op, i). P i) st)" using Cons.prems(3) x by auto
    with True x Cons.prems(2) show ?thesis by simp
  next
    case False
    with Cons x show ?thesis by simp
  qed
qed simp

lemma map_of_filter_state:
  "distinct (map fst st) \<Longrightarrow>
   map_of (filter (\<lambda>(op, i). P i) st) op = (case map_of st op of None \<Rightarrow> None | Some i \<Rightarrow> if P i then Some i else None)"
  by (induction st) (force split: option.splits)+

lemma read_state_append:
  "read_state limit w u (xs @ ys) st = bind_res (read_state limit w u xs st) (read_state limit w u ys)"
proof (induction xs arbitrary: st)
  case (Cons x xs)
  then show ?case by (cases "read_step limit w u x st") simp_all
qed simp

lemma has_update: "has k (AList.update q r i) \<longleftrightarrow> k = q \<or> has k i"
  by (simp add: has_def update_conv')

lemma unresolved_external_update:
  "k \<noteq> Begin \<Longrightarrow> is_unresolved_external (AList.update k r i) \<longleftrightarrow>
     is_unresolved_external i \<and> k \<notin> {Result, Reconciliation, Acknowledged}"
  by (auto simp: is_unresolved_external_def has_update update_conv' split: option.splits)

lemma unresolved_external_begin: "is_unresolved_external [(Begin, r)] \<longleftrightarrow> external_begin r"
  by (simp add: is_unresolved_external_def has_def)

lemma state_step_kind:
  assumes "op_of r = Some op" "kind_of r = Some k" "k \<noteq> Begin"
  shows "state_step r st = (case map_of st op of None \<Rightarrow> st | Some i \<Rightarrow> AList.update op (AList.update k r i) st)"
  using assms by (cases k) (auto simp: state_step_def)

lemma read_step_kind:
  assumes "op_of r = Some op" "kind_of r = Some k" "k \<noteq> Begin"
  shows "read_step limit None True r st = over_quota limit True (case map_of st op of None \<Rightarrow> st
      | Some i \<Rightarrow> if k \<in> {Result, Reconciliation, Acknowledged} then AList.delete op st
                 else AList.update op (AList.update k r i) st)"
  using assms by (cases k; cases "map_of st op") (auto simp: read_step_def)

lemma scan_step:
  assumes "distinct (map fst st)" "\<And>op. kind_of r = Some Begin \<Longrightarrow> op_of r = Some op \<Longrightarrow> op \<notin> fst ` set st"
    "int (length (open_external (state_step r st))) \<le> limit"
  shows "read_step limit None True r (open_external st) = Inr (open_external (state_step r st))"
proof (cases "op_of r")
  case None
  then show ?thesis by (simp add: read_step_def state_step_def)
next
  case (Some op)
  note lookup = map_of_filter_state [OF assms(1), of is_unresolved_external op]
  show ?thesis
  proof (cases "kind_of r")
    case None
    then show ?thesis using Some assms(3) by (simp add: read_step_def state_step_def over_quota_def)
  next
    case k: (Some k)
    show ?thesis
    proof (cases "k = Begin")
      case True
      have fresh: "op \<notin> fst ` set st" using assms(2) k True Some by simp
      then have "op \<notin> fst ` set (open_external st)" by auto
      moreover have "open_external (st @ [(op, [(Begin, r)])]) =
          open_external st @ (if external_begin r then [(op, [(Begin, r)])] else [])"
        by (simp add: unresolved_external_begin)
      ultimately show ?thesis
        using Some k True fresh assms(3)
        by (cases "external_begin r") (simp_all add: read_step_def state_step_def update_fresh over_quota_def)
    next
      case False
      have st: "state_step r st = (case map_of st op of None \<Rightarrow> st | Some i \<Rightarrow> AList.update op (AList.update k r i) st)"
        by (rule state_step_kind [OF Some k False])
      have rd: "read_step limit None True r s = over_quota limit True (case map_of s op of None \<Rightarrow> s
          | Some i \<Rightarrow> if k \<in> {Result, Reconciliation, Acknowledged} then AList.delete op s
                     else AList.update op (AList.update k r i) s)" for s
        by (rule read_step_kind [OF Some k False])
      show ?thesis
      proof (cases "map_of st op")
        case None
        then show ?thesis using assms(3) by (simp add: st rd lookup over_quota_def)
      next
        case i: (Some i)
        let ?j = "AList.update k r i"
        have "open_external (AList.update op ?j st) =
          (if is_unresolved_external i then
             (if k \<in> {Result, Reconciliation, Acknowledged} then AList.delete op (open_external st)
              else AList.update op ?j (open_external st))
           else open_external st)"
        proof (cases "is_unresolved_external ?j")
          case True
          then have "is_unresolved_external i" "k \<notin> {Result, Reconciliation, Acknowledged}"
            using unresolved_external_update [OF False, of r i] by simp_all
          then show ?thesis using filter_update_kept [where P = is_unresolved_external, OF i _ True assms(1)] by simp
        next
          case drop: False
          have "is_unresolved_external i \<Longrightarrow> k \<in> {Result, Reconciliation, Acknowledged}"
            using unresolved_external_update [OF False, of r i] drop by simp
          moreover have "\<not> is_unresolved_external i \<Longrightarrow> op \<notin> fst ` set (open_external st)"
            using lookup i by (simp add: map_of_eq_None_iff)
          ultimately show ?thesis using filter_update_dropped [where P = is_unresolved_external, OF i drop assms(1)] by auto
        qed
        then show ?thesis using assms(3) i by (auto simp: st rd lookup over_quota_def)
      qed
    qed
  qed
qed

text \<open>The quota was kept after every record.\<close>

definition quota_kept :: "int \<Rightarrow> dict list \<Rightarrow> bool" where
  "quota_kept limit rs \<longleftrightarrow> (\<forall>n. count_items is_unresolved_external (state_of (take n rs)) \<le> limit)"

lemma quota_kept_snoc:
  "quota_kept limit (rs @ [r]) \<longleftrightarrow>
     quota_kept limit rs \<and> count_items is_unresolved_external (state_of (rs @ [r])) \<le> limit"
proof -
  have "take n (rs @ [r]) = (if n \<le> length rs then take n rs else rs @ [r])" for n by simp
  then show ?thesis unfolding quota_kept_def
    by (metis append_take_drop_id linorder_le_cases not_less_eq_eq order_refl take_all)
qed

lemma admission_scan:
  assumes "begins_unique rs" "quota_kept limit rs"
  shows "read_state limit None True rs [] = Inr (open_external (state_of rs))"
  using assms
proof (induction rs rule: rev_induct)
  case Nil
  then show ?case by (simp add: state_of_def)
next
  case (snoc r rs)
  have "op \<notin> fst ` set (state_of rs)" if "kind_of r = Some Begin" "op_of r = Some op" for op
    using begins_unique_fresh [OF snoc.prems(1) that] by (simp add: item_of_def map_of_eq_None_iff)
  moreover have "int (length (open_external (state_step r (state_of rs)))) \<le> limit"
    using snoc.prems(2) by (simp add: quota_kept_snoc count_items_def state_of_snoc)
  ultimately have "read_step limit None True r (open_external (state_of rs)) =
      Inr (open_external (state_step r (state_of rs)))"
    by (intro scan_step state_keys_distinct)
  with snoc show ?case
    by (simp add: read_state_append quota_kept_snoc begins_unique_snocD state_of_snoc)
qed

lemma state_of_open_external: "state_of (flatten (open_external (state_of rs))) = open_external (state_of rs)"
  using state_keys_distinct [of rs] state_of_items_ok [of rs]
  by (intro state_of_flatten) (auto simp: distinct_map_filter)

lemma count_open_external:
  "count_items is_unresolved_external (open_external st) = count_items is_unresolved_external st"
  by (simp add: count_items_def)

subsection \<open>What compaction leaves\<close>

definition kept_kinds :: "item \<Rightarrow> record_kind list" where
  "kept_kinds i = [Begin, Checkpoint, Uncertain, if has Acknowledged i then Acknowledged else Reconciliation]"

definition compact_item :: "item \<Rightarrow> item" where
  "compact_item i = concat (map (\<lambda>k. case map_of i k of None \<Rightarrow> [] | Some r \<Rightarrow> [(k, r)]) (kept_kinds i))"

lemma map_of_kinds:
  "distinct ks \<Longrightarrow>
   map_of (concat (map (\<lambda>k. case map_of i k of None \<Rightarrow> [] | Some r \<Rightarrow> [(k, r)]) ks)) q =
     (if q \<in> set ks then map_of i q else None)"
  by (induction ks) (auto split: option.splits)

lemma distinct_kinds:
  "distinct ks \<Longrightarrow> distinct (map fst (concat (map (\<lambda>k. case map_of i k of None \<Rightarrow> [] | Some r \<Rightarrow> [(k, r)]) ks)))"
  by (induction ks) (auto split: option.splits)

lemma map_of_compact_item:
  "map_of (compact_item i) k = (if k \<in> set (kept_kinds i) then map_of i k else None)"
  unfolding compact_item_def by (rule map_of_kinds) (simp add: kept_kinds_def)

lemma item_records_compact: "item_records i = map snd (compact_item i)"
  by (auto simp: item_records_def compact_item_def kept_kinds_def opt_list_def terminal_of_def has_def split: option.splits)

lemma compact_item_ok:
  assumes "item_ok op i"
  shows "item_ok op (compact_item i)"
proof -
  obtain b rest where i: "i = (Begin, b) # rest" using assms by (auto simp: item_ok_def)
  have "\<exists>b rest. compact_item i = (Begin, b) # rest" by (simp add: compact_item_def kept_kinds_def i)
  moreover have "distinct (map fst (compact_item i))"
    unfolding compact_item_def by (rule distinct_kinds) (simp add: kept_kinds_def)
  moreover have "(k, r) \<in> set i" if "(k, r) \<in> set (compact_item i)" for k r
    using that by (auto simp: compact_item_def split: option.splits intro: map_of_SomeD [OF sym])
  then have "set (compact_item i) \<subseteq> set i" by auto
  then have "\<forall>(k, r) \<in> set (compact_item i). op_of r = Some op \<and> kind_of r = Some k"
    using assms unfolding item_ok_def by blast
  ultimately show ?thesis unfolding item_ok_def by blast
qed

definition compact_state :: "string list \<Rightarrow> jstate \<Rightarrow> jstate" where
  "compact_state allowed st = map (\<lambda>(op, i). (op, compact_item i)) (filter (retains allowed) st)"

lemma retained_flatten:
  "retained_records env jn rs = flatten (compact_state (allowed_terminal env jn (state_of rs)) (state_of rs))"
  by (simp add: retained_records_def flatten_def compact_state_def item_records_compact Let_def comp_def split_def)

lemma compact_state_ok:
  assumes "distinct (map fst st)" "\<forall>(op, i) \<in> set st. item_ok op i"
  shows "distinct (map fst (compact_state allowed st))" "\<forall>(op, i) \<in> set (compact_state allowed st). item_ok op i"
proof -
  have "map fst (compact_state allowed st) = map fst (filter (retains allowed) st)"
    by (simp add: compact_state_def split_def comp_def)
  then show "distinct (map fst (compact_state allowed st))" using assms(1) by (simp add: distinct_map_filter)
  show "\<forall>(op, i) \<in> set (compact_state allowed st). item_ok op i"
    using assms(2) by (auto simp: compact_state_def compact_item_ok)
qed

text \<open>The state after compaction: the retained operations in their order, each with its begin
  record, checkpoint, uncertainty mark and one outcome.\<close>

lemma state_of_retained:
  "state_of (retained_records env jn rs) = compact_state (allowed_terminal env jn (state_of rs)) (state_of rs)"
  unfolding retained_flatten
  by (rule state_of_flatten) (rule compact_state_ok; rule state_keys_distinct state_of_items_ok)+

lemma begin_ops_flatten:
  "\<forall>(op, i) \<in> set st. item_ok op i \<Longrightarrow> begin_ops (flatten st) = map fst st"
proof (induction st)
  case (Cons x st)
  obtain op i where x: "x = (op, i)" by (cases x)
  then obtain b rest where i: "i = (Begin, b) # rest" and ok: "item_ok op i" using Cons.prems by (auto simp: item_ok_def)
  have "kind_of r \<noteq> Some Begin" if "(k, r) \<in> set rest" for k r
    using ok i that by (force simp: item_ok_def)
  then have "begin_ops (map snd rest) = []" by (auto simp: begin_ops_def)
  moreover have "begin_ops [b] = [op]" using ok i by (simp add: begin_ops_def item_ok_def opt_list_def)
  moreover have "begin_ops (flatten (x # st)) = begin_ops [b] @ begin_ops (map snd rest) @ begin_ops (flatten st)"
    by (simp add: begin_ops_def flatten_def x i)
  ultimately show ?case using Cons x by simp
qed (simp add: begin_ops_def flatten_def)

lemma begins_unique_retained: "begins_unique (retained_records env jn rs)"
  unfolding retained_flatten begins_unique_def
  using compact_state_ok [OF state_keys_distinct [of rs] state_of_items_ok [of rs]] by (simp add: begin_ops_flatten)

lemma has_compact_item:
  "has Begin (compact_item i) \<longleftrightarrow> has Begin i" "\<not> has Result (compact_item i)"
  "has Acknowledged (compact_item i) \<longleftrightarrow> has Acknowledged i"
  "has Reconciliation (compact_item i) \<longleftrightarrow> has Reconciliation i \<and> \<not> has Acknowledged i"
  "has Checkpoint (compact_item i) \<longleftrightarrow> has Checkpoint i" "has Uncertain (compact_item i) \<longleftrightarrow> has Uncertain i"
  by (auto simp: has_def map_of_compact_item kept_kinds_def)

text \<open>Operations without an outcome stay as they are.\<close>

lemma unresolved_retained: "unresolved_item i \<Longrightarrow> retains allowed (op, i)"
  by (auto simp: unresolved_item_def retains_def terminal_of_def has_def split: option.splits)

lemma unresolved_compact:
  "unresolved_item i \<Longrightarrow> map_of (compact_item i) k = map_of i k"
  by (cases k) (auto simp: unresolved_item_def map_of_compact_item kept_kinds_def has_def)

subsection \<open>The quota in every order\<close>

definition external_item :: "item \<Rightarrow> bool" where
  "external_item i \<longleftrightarrow> (case map_of i Begin of None \<Rightarrow> False | Some b \<Rightarrow> external_begin b)"

text \<open>When an external operation began, the ones before it that are still open were fewer than the
  limit.\<close>

fun order_from :: "int \<Rightarrow> int \<Rightarrow> jstate \<Rightarrow> bool" where
  "order_from limit n [] \<longleftrightarrow> True"
| "order_from limit n ((op, i) # st) \<longleftrightarrow>
     (external_item i \<longrightarrow> n < limit) \<and> order_from limit (n + (if is_unresolved_external i then 1 else 0)) st"

lemma order_from_mono: "order_from limit n st \<Longrightarrow> m \<le> n \<Longrightarrow> order_from limit m st"
  by (induction limit n st arbitrary: m rule: order_from.induct) force+

lemma order_from_snoc:
  "order_from limit n (st @ [(op, i)]) \<longleftrightarrow>
     order_from limit n st \<and> (external_item i \<longrightarrow> n + count_items is_unresolved_external st < limit)"
  by (induction limit n st rule: order_from.induct) (auto simp: count_items_def algebra_simps)

lemma order_from_update:
  assumes "order_from limit n st" "map_of st op = Some i" "is_unresolved_external j \<longrightarrow> is_unresolved_external i"
    "external_item j = external_item i"
  shows "order_from limit n (AList.update op j st)"
  using assms
  by (induction limit n st rule: order_from.induct) (auto elim: order_from_mono split: if_splits)

lemma order_from_compact:
  assumes "order_from limit n st" "\<And>op i. (op, i) \<in> set st \<Longrightarrow> P (op, i) \<Longrightarrow>
    (is_unresolved_external (f i) \<longrightarrow> is_unresolved_external i) \<and> external_item (f i) = external_item i"
  shows "order_from limit n (map (\<lambda>(op, i). (op, f i)) (filter P st))"
  using assms
proof (induction limit n st rule: order_from.induct)
  case (2 limit n op i st)
  let ?n = "n + (if is_unresolved_external i then 1 else 0)"
  have rest: "order_from limit ?n (map (\<lambda>(op, i). (op, f i)) (filter P st))"
    by (rule 2(1)) (use 2(2,3) in auto)
  show ?case
  proof (cases "P (op, i)")
    case True
    then have "(is_unresolved_external (f i) \<longrightarrow> is_unresolved_external i) \<and> external_item (f i) = external_item i"
      using 2(3) [of op i] by simp
    with True 2(2) order_from_mono [OF rest] show ?thesis by simp
  next
    case False
    with order_from_mono [OF rest, of n] show ?thesis by simp
  qed
qed simp

lemma compact_item_external:
  "external_item (compact_item i) = external_item i"
  "is_unresolved_external (compact_item i) \<Longrightarrow> \<not> has Result i \<Longrightarrow> is_unresolved_external i"
  by (auto simp: external_item_def is_unresolved_external_def map_of_compact_item has_compact_item kept_kinds_def
      split: option.splits)

lemma order_compact_state: "order_from limit n st \<Longrightarrow> order_from limit n (compact_state allowed st)"
  unfolding compact_state_def
  by (rule order_from_compact) (auto simp: compact_item_external retains_def split: option.splits)

lemma quota_kept_append:
  "quota_kept limit rs \<Longrightarrow> (\<And>n. count_items is_unresolved_external (state_of (rs @ take n xs)) \<le> limit) \<Longrightarrow>
   quota_kept limit (rs @ xs)"
  unfolding quota_kept_def by (metis append.right_neutral diff_is_0_eq' le_cases take_0 take_all take_append)

lemma count_items_append: "count_items P (st @ [(op, i)]) = count_items P st + (if P i then 1 else 0)"
  by (simp add: count_items_def)

lemma unresolved_is_external: "is_unresolved_external i \<Longrightarrow> external_item i"
  by (auto simp: is_unresolved_external_def external_item_def split: option.splits)

lemma item_ok_take: "item_ok op i \<Longrightarrow> 0 < n \<Longrightarrow> item_ok op (take n i) \<and> external_item (take n i) = external_item i"
proof (cases n)
  case (Suc m)
  assume ok: "item_ok op i"
  then obtain b rest where i: "i = (Begin, b) # rest" by (auto simp: item_ok_def)
  have "distinct (map fst (take n i))" "set (take n i) \<subseteq> set i"
    using ok by (simp_all add: item_ok_def take_map [symmetric] set_take_subset)
  with ok i Suc show ?thesis by (force simp: item_ok_def external_item_def)
qed simp

lemma quota_flatten:
  assumes "distinct (map fst st)" "\<forall>(op, i) \<in> set st. item_ok op i" "order_from limit 0 st" "0 \<le> limit"
  shows "quota_kept limit (flatten st)"
  using assms
proof (induction st rule: rev_induct)
  case Nil
  then show ?case by (simp add: quota_kept_def flatten_def state_of_def count_items_def)
next
  case (snoc x st)
  obtain op i where x: "x = (op, i)" by (cases x)
  have st: "state_of (flatten st) = st" "quota_kept limit (flatten st)" and ok: "item_ok op i"
    using snoc x by (simp_all add: state_of_flatten order_from_snoc)
  have room: "external_item i \<longrightarrow> count_items is_unresolved_external st < limit"
    using snoc.prems(3) x by (simp add: order_from_snoc)
  have below: "count_items is_unresolved_external st \<le> limit"
    using st by (metis quota_kept_def order_refl take_all)
  have "count_items is_unresolved_external (state_of (flatten st @ take n (map snd i))) \<le> limit" for n
  proof (cases "n = 0")
    case True
    with below st show ?thesis by simp
  next
    case False
    then have j: "item_ok op (take n i)" "external_item (take n i) = external_item i"
      using item_ok_take [OF ok, of n] by simp_all
    have "op \<notin> fst ` set st" using snoc.prems(1) x by simp
    then have "state_of (flatten st @ map snd (take n i)) = st @ [(op, take n i)]"
      using fold_state_item [OF j(1)] st(1) by (simp add: state_of_def)
    then show ?thesis
      using room below j(2) unresolved_is_external [of "take n i"]
      by (auto simp: take_map count_items_append)
  qed
  from quota_kept_append [OF st(2) this] show ?case by (simp add: x flatten_def)
qed

subsection \<open>Steps on the records\<close>

inductive journal_step :: "nat \<Rightarrow> nat \<Rightarrow> dict list \<Rightarrow> dict list \<Rightarrow> bool" for L W :: nat where
  step_append: "writes env jn rs op k r \<Longrightarrow> jn_max_unresolved_external jn = int L \<Longrightarrow>
    jn_max_unresolved_workspace jn = int W \<Longrightarrow> journal_step L W rs (rs @ [r])"
| step_compact: "validate_workspace_records env rs = Inr () \<Longrightarrow> journal_step L W rs (retained_records env jn rs)"

definition journal_inv :: "nat \<Rightarrow> dict list \<Rightarrow> bool" where
  "journal_inv L rs \<longleftrightarrow> begins_unique rs \<and> quota_kept (int L) rs \<and> order_from (int L) 0 (state_of rs)"

lemma writes_Begin:
  assumes "writes env jn rs op Begin r"
  shows "item_of rs op = None"
    "external_begin r \<Longrightarrow> count_items is_unresolved_external (state_of rs) < jn_max_unresolved_external jn"
  using assms by (auto elim!: writes.cases simp: begin_record_def external_begin_def get_dict_def native_protocol_def
      split: option.splits if_splits)

lemma count_items_update:
  assumes "map_of st op = Some i" "P j \<longrightarrow> P i"
  shows "count_items P (AList.update op j st) \<le> count_items P st"
  unfolding count_items_def using assms by (induction st) auto

lemma state_after_write:
  assumes "writes env jn rs op k r"
  shows "k = Begin \<Longrightarrow> state_of (rs @ [r]) = state_of rs @ [(op, [(Begin, r)])]"
    "k \<noteq> Begin \<Longrightarrow> state_of (rs @ [r]) =
      (case item_of rs op of None \<Rightarrow> state_of rs | Some i \<Rightarrow> AList.update op (AList.update k r i) (state_of rs))"
proof -
  have s: "op_of r = Some op" "kind_of r = Some k" using writes_shaped [OF assms] by (simp_all add: shaped_def)
  show "state_of (rs @ [r]) = state_of rs @ [(op, [(Begin, r)])]" if "k = Begin"
  proof -
    have "op \<notin> fst ` set (state_of rs)"
      using writes_Begin(1) assms that by (auto simp: item_of_def map_of_eq_None_iff)
    with s that show ?thesis by (simp add: state_of_snoc state_step_def update_fresh)
  qed
  show "state_of (rs @ [r]) =
      (case item_of rs op of None \<Rightarrow> state_of rs | Some i \<Rightarrow> AList.update op (AList.update k r i) (state_of rs))"
    if "k \<noteq> Begin"
    using state_step_kind [OF s that] by (simp add: state_of_snoc item_of_def)
qed

lemma external_item_update: "k \<noteq> Begin \<Longrightarrow> external_item (AList.update k r i) = external_item i"
  by (simp add: external_item_def update_conv')

lemma journal_inv_append:
  assumes "writes env jn rs op k r" "jn_max_unresolved_external jn = int L" "journal_inv L rs"
  shows "journal_inv L (rs @ [r])"
    "count_items is_unresolved_external (state_of (rs @ [r])) \<le> int L"
proof -
  let ?n = "count_items is_unresolved_external"
  have inv: "begins_unique rs" "quota_kept (int L) rs" "order_from (int L) 0 (state_of rs)"
    using assms(3) by (simp_all add: journal_inv_def)
  have now: "?n (state_of rs) \<le> int L" using inv(2) by (metis quota_kept_def order_refl take_all)
  have s: "op_of r = Some op" "kind_of r = Some k" using writes_shaped [OF assms(1)] by (simp_all add: shaped_def)
  have "begins_unique (rs @ [r])"
    using inv(1) by (rule begins_unique_snoc) (use s writes_Begin(1) assms(1) in auto)
  moreover have "?n (state_of (rs @ [r])) \<le> int L \<and> order_from (int L) 0 (state_of (rs @ [r]))"
  proof (cases "k = Begin")
    case True
    note st = state_after_write(1) [OF assms(1) True]
    have "external_begin r \<longrightarrow> ?n (state_of rs) < int L" using writes_Begin(2) [OF assms(1) [unfolded True]] assms(2) by simp
    with st inv(3) now show ?thesis
      by (auto simp: count_items_append order_from_snoc unresolved_external_begin external_item_def)
  next
    case False
    show ?thesis
    proof (cases "item_of rs op")
      case None
      then show ?thesis using state_after_write(2) [OF assms(1) False] now inv(3) by simp
    next
      case (Some i)
      then have st: "state_of (rs @ [r]) = AList.update op (AList.update k r i) (state_of rs)"
        using state_after_write(2) [OF assms(1) False] by simp
      have i: "map_of (state_of rs) op = Some i" using Some by (simp add: item_of_def)
      have less: "is_unresolved_external (AList.update k r i) \<longrightarrow> is_unresolved_external i"
        using unresolved_external_update [OF False] by simp
      have "?n (AList.update op (AList.update k r i) (state_of rs)) \<le> ?n (state_of rs)"
        by (rule count_items_update [OF i less])
      moreover have "order_from (int L) 0 (AList.update op (AList.update k r i) (state_of rs))"
        by (rule order_from_update [OF inv(3) i less external_item_update [OF False]])
      ultimately show ?thesis unfolding st using now by simp
    qed
  qed
  ultimately show "journal_inv L (rs @ [r])" "?n (state_of (rs @ [r])) \<le> int L"
    using inv by (simp_all add: journal_inv_def quota_kept_snoc)
qed

lemma journal_inv_retained:
  assumes "journal_inv L rs"
  shows "journal_inv L (retained_records env jn rs)"
proof -
  let ?st = "compact_state (allowed_terminal env jn (state_of rs)) (state_of rs)"
  have order: "order_from (int L) 0 ?st" using assms by (simp add: journal_inv_def order_compact_state)
  have "quota_kept (int L) (flatten ?st)"
    by (rule quota_flatten [OF compact_state_ok [OF state_keys_distinct state_of_items_ok] order]) simp
  then show ?thesis
    using order begins_unique_retained by (simp add: journal_inv_def state_of_retained retained_flatten [symmetric])
qed

lemma journal_inv_step: "journal_step L W rs rs' \<Longrightarrow> journal_inv L rs \<Longrightarrow> journal_inv L rs'"
  by (induction rule: journal_step.induct) (auto intro: journal_inv_append(1) journal_inv_retained)

lemma journal_inv_start: "journal_inv L []"
  by (simp add: journal_inv_def begins_unique_def begin_ops_def quota_kept_def state_of_def count_items_def)

lemma journal_inv_count: "journal_inv L rs \<Longrightarrow> count_items is_unresolved_external (state_of rs) \<le> int L"
  unfolding journal_inv_def quota_kept_def by (metis order_refl take_all)

text \<open>The budget of open external operations, as an instance of the shared interface.\<close>

interpretation open_externals: bounded_load
  "\<lambda>rs. rs = []" "journal_step L W" "journal_inv L" "\<lambda>rs. count_items is_unresolved_external (state_of rs)" "int L"
  for L W :: nat
  by unfold_locales (auto simp: journal_inv_start journal_inv_step journal_inv_count dest: journal_inv_count)

subsection \<open>The budget of open workspace edits\<close>

definition holds_evidence :: "item \<Rightarrow> bool" where
  "holds_evidence i \<longleftrightarrow> unresolved_item i \<and> has_key ''workspace_edit'' (previous_checkpoint i)"

lemma holds_evidence_unresolved: "holds_evidence i \<Longrightarrow> is_unresolved_workspace i"
  by (auto simp: holds_evidence_def unresolved_item_def is_unresolved_workspace_def previous_checkpoint_def has_def has_key_def
      split: option.splits)

lemma unresolved_item_update:
  "k \<noteq> Begin \<Longrightarrow> unresolved_item (AList.update k r i) \<longleftrightarrow> unresolved_item i \<and> k \<notin> {Result, Reconciliation, Acknowledged}"
  by (auto simp: unresolved_item_def has_update)

lemma previous_checkpoint_update:
  "previous_checkpoint (AList.update k r i) = (if k = Checkpoint then r else previous_checkpoint i)"
  by (simp add: previous_checkpoint_def update_conv')

lemma count_split:
  assumes "distinct (map fst st)"
  shows "count_items P (AList.update op j st) \<le>
    int (length (filter (\<lambda>(q, i). q \<noteq> op \<and> P i) st)) + (if P j then 1 else 0)"
  using assms unfolding count_items_def
proof (induction st)
  case (Cons x st)
  obtain q i where x: "x = (q, i)" by (cases x)
  show ?case
  proof (cases "q = op")
    case True
    have "filter (\<lambda>(q, i). q \<noteq> op \<and> P i) st = filter (\<lambda>(q, i). P i) st"
      by (rule filter_cong) (use Cons.prems x True in force)+
    with True x show ?thesis by simp
  next
    case False
    with Cons x show ?thesis by (auto split: if_splits)
  qed
qed simp

lemma length_filter_le: "(\<And>x. x \<in> set xs \<Longrightarrow> P x \<Longrightarrow> Q x) \<Longrightarrow> length (filter P xs) \<le> length (filter Q xs)"
  by (induction xs) (auto intro: le_SucI)

lemma has_key_merge: "has_key k (merge base new) \<longleftrightarrow> has_key k base \<or> has_key k new"
proof -
  have "map_of (rev new) k = None \<longleftrightarrow> \<not> has_key k new" by (simp add: has_key_def map_of_eq_None_iff)
  then show ?thesis unfolding has_key_lookup [of k "merge base new"] has_key_lookup [of k base] lookup_merge
    by (cases "map_of (rev new) k") auto
qed

text \<open>What a new checkpoint does to the evidence of its operation.\<close>

lemma writes_checkpoint_evidence:
  assumes "writes env jn rs op Checkpoint r" "item_of rs op = Some i"
  shows "has_key ''workspace_edit'' r \<Longrightarrow> has_key ''workspace_edit'' (previous_checkpoint i) \<or>
    other_workspace_items op (state_of rs) < jn_max_unresolved_workspace jn"
  using assms
proof (cases rule: writes.cases)
  case (w_dispatch h j m)
  then show "has_key ''workspace_edit'' r \<Longrightarrow> ?thesis" by (simp add: has_key_def checkpoint_base_def)
next
  case (w_checkpoint h j k new label v)
  then show "has_key ''workspace_edit'' r \<Longrightarrow> ?thesis"
    using assms(2) by (auto simp: has_key_merge) (auto simp: has_key_def checkpoint_base_def)
qed

lemma evidence_append:
  assumes "writes env jn rs op k r" "jn_max_unresolved_workspace jn = int W"
  shows "count_items holds_evidence (state_of (rs @ [r])) \<le> count_items holds_evidence (state_of rs) \<or>
    count_items holds_evidence (state_of (rs @ [r])) \<le> int W"
proof (cases "k = Begin")
  case True
  then show ?thesis
    using state_after_write(1) [OF assms(1)]
    by (simp add: count_items_append holds_evidence_def previous_checkpoint_def has_key_def)
next
  case False
  show ?thesis
  proof (cases "item_of rs op")
    case None
    then show ?thesis using state_after_write(2) [OF assms(1) False] by simp
  next
    case (Some i)
    let ?j = "AList.update k r i"
    have st: "state_of (rs @ [r]) = AList.update op ?j (state_of rs)" and i: "map_of (state_of rs) op = Some i"
      using state_after_write(2) [OF assms(1) False] Some by (simp_all add: item_of_def)
    show ?thesis
    proof (cases "holds_evidence ?j \<and> \<not> holds_evidence i")
      case False
      then show ?thesis unfolding st using count_items_update [OF i, of holds_evidence ?j] by simp
    next
      case True
      then have k: "k = Checkpoint" "has_key ''workspace_edit'' r" "\<not> has_key ''workspace_edit'' (previous_checkpoint i)"
        using \<open>k \<noteq> Begin\<close>
        by (auto simp: holds_evidence_def unresolved_item_update previous_checkpoint_update split: if_splits)
      then have "other_workspace_items op (state_of rs) < int W"
        using writes_checkpoint_evidence [OF assms(1) [unfolded k(1)] Some k(2)] assms(2) by simp
      moreover have "int (length (filter (\<lambda>(q, i). q \<noteq> op \<and> holds_evidence i) (state_of rs)))
          \<le> other_workspace_items op (state_of rs)"
        unfolding other_workspace_items_def
        by (rule int_ops(1) [THEN subst], intro of_nat_mono length_filter_le) (auto dest: holds_evidence_unresolved)
      moreover have "count_items holds_evidence (AList.update op ?j (state_of rs))
          \<le> int (length (filter (\<lambda>(q, i). q \<noteq> op \<and> holds_evidence i) (state_of rs))) + 1"
        using count_split [OF state_keys_distinct [of rs], where P = holds_evidence and op = op and j = ?j] True
        by (simp only: if_True)
      ultimately show ?thesis unfolding st by linarith
    qed
  qed
qed

lemma evidence_compact:
  "count_items holds_evidence (compact_state allowed st) \<le> count_items holds_evidence st"
proof -
  have "holds_evidence (compact_item i) \<Longrightarrow> \<not> has Result i \<Longrightarrow> holds_evidence i" for i
    by (auto simp: holds_evidence_def unresolved_item_def has_compact_item previous_checkpoint_def map_of_compact_item
        kept_kinds_def)
  then show ?thesis
    unfolding count_items_def compact_state_def
    by (induction st) (auto simp: retains_def split: option.splits intro: le_SucI)
qed

lemma evidence_step:
  assumes "journal_step L W rs rs'"
  shows "count_items holds_evidence (state_of rs') \<le> count_items holds_evidence (state_of rs) \<or>
    count_items holds_evidence (state_of rs') \<le> int W"
  using assms
proof cases
  case (step_append env jn op k r)
  then show ?thesis using evidence_append by blast
next
  case (step_compact env jn)
  then show ?thesis using evidence_compact by (simp add: state_of_retained)
qed

interpretation open_edits: bounded_load
  "\<lambda>rs. rs = []" "journal_step L W" "\<lambda>rs. True" "\<lambda>rs. count_items holds_evidence (state_of rs)" "int W"
  for L W :: nat
  by unfold_locales (use evidence_step in \<open>auto simp: state_of_def count_items_def\<close>)

end
