(* ===== verification/Journal_Calls.thy ===== *)
theory Journal_Calls
  imports Journal_Safety
begin

text \<open>
  The methods of the journal as steps of the record model: every call that returns leaves the
  file as it was, appends one record its guards allow, or appends and compacts. Crashes between
  the bytes of an append are steps too.
\<close>

definition sized :: "nat \<Rightarrow> nat \<Rightarrow> journal \<Rightarrow> bool" where
  "sized L W jn \<longleftrightarrow> jn_max_unresolved_external jn = int L \<and> jn_max_unresolved_workspace jn = int W"

abbreviation journal_steps :: "nat \<Rightarrow> nat \<Rightarrow> jfile \<Rightarrow> jfile \<Rightarrow> bool" where
  "journal_steps L W f f' \<equiv> (journal_step L W)\<^sup>*\<^sup>* (load f) (load f')"

subsection \<open>Appending and compacting\<close>

lemma failure_simps [simp]:
  "tool_error c \<noteq> Inr x" "unavailable \<noteq> Inr x" "invalid_external \<noteq> Inr x" "invalid_workspace \<noteq> Inr x" "invalid_journal \<noteq> Inr x"
  by (simp_all add: tool_error_def unavailable_def invalid_external_def invalid_workspace_def invalid_journal_def)

text \<open>Guards read backwards: a call that returned passed them.\<close>

lemma guard_simps:
  "(if c then Inl e else x) = Inr y \<longleftrightarrow> \<not> c \<and> x = Inr y"
  "(if c then Inr s else x) = Inr y \<longleftrightarrow> c \<and> s = y \<or> \<not> c \<and> x = Inr y"
  "(case opt of None \<Rightarrow> Inl e | Some v \<Rightarrow> g v) = Inr y \<longleftrightarrow> (\<exists>v. opt = Some v \<and> g v = Inr y)"
  "(case opt of None \<Rightarrow> Inr s | Some v \<Rightarrow> g v) = Inr y \<longleftrightarrow> opt = None \<and> s = y \<or> (\<exists>v. opt = Some v \<and> g v = Inr y)"
  "(case opt of None \<Rightarrow> x | Some v \<Rightarrow> g v) = Inr y \<longleftrightarrow> opt = None \<and> x = Inr y \<or> (\<exists>v. opt = Some v \<and> g v = Inr y)"
  by (auto split: option.splits)

lemmas failures = tool_error_def unavailable_def invalid_external_def invalid_workspace_def invalid_journal_def

lemma record_of_json_schema: "r \<in> set (record_of_json v) \<Longrightarrow> current_schema r"
  by (cases v) (auto simp: record_of_json_def split: if_splits)

lemma load_schema: "r \<in> set (load f) \<Longrightarrow> current_schema r"
proof -
  assume "r \<in> set (load f)"
  then obtain l where "r \<in> set (records_of_line l)" by (cases f) (auto simp: load_def)
  then show ?thesis by (cases l) (auto simp: records_of_line_def intro: record_of_json_schema)
qed

lemma load_lines: "\<forall>r \<in> set rs. current_schema r \<Longrightarrow> load (Some (map (\<lambda>r. Line (JObj r)) rs)) = rs"
  by (induction rs) (simp_all add: load_def records_of_line_def record_of_json_def)

lemma item_step_records:
  assumes "item_step op x oi = Some i" "(k, r) \<in> set i"
  shows "r = x \<or> (\<exists>j. oi = Some j \<and> (k, r) \<in> set j)"
proof (cases "op_of x = Some op")
  case False
  then show ?thesis using assms by (simp add: item_step_other)
next
  case op: True
  show ?thesis
  proof (cases "kind_of x")
    case None
    then show ?thesis using assms op by (simp add: item_step_def)
  next
    case (Some q)
    show ?thesis
    proof (cases "q = Begin")
      case True
      then show ?thesis using assms op Some by (auto simp: item_step_begin)
    next
      case False
      then obtain j where "oi = Some j" "i = AList.update q x j"
        using assms(1) item_step_kind [OF op Some False] by auto
      then show ?thesis using assms(2) set_update_subset [of q x j] by auto
    qed
  qed
qed

lemma state_record_in: "item_of rs op = Some i \<Longrightarrow> (k, r) \<in> set i \<Longrightarrow> r \<in> set rs"
proof (induction rs arbitrary: i rule: rev_induct)
  case Nil
  then show ?case by (simp add: item_of_fold)
next
  case (snoc x rs)
  then have "r = x \<or> (\<exists>j. item_of rs op = Some j \<and> (k, r) \<in> set j)"
    by (intro item_step_records) (simp_all add: item_of_snoc)
  with snoc.IH show ?case by auto
qed

lemma retained_in: "r \<in> set (retained_records env jn rs) \<Longrightarrow> r \<in> set rs"
proof -
  assume "r \<in> set (retained_records env jn rs)"
  then obtain op i where i: "(op, i) \<in> set (state_of rs)" "r \<in> set (item_records i)"
    by (auto simp: retained_records_def Let_def)
  then have "r \<in> snd ` set (compact_item i)" by (simp add: item_records_compact)
  then obtain k where "(k, r) \<in> set (compact_item i)" by auto
  then have "(k, r) \<in> set i"
    by (auto simp: compact_item_def split: option.splits intro: map_of_SomeD [OF sym])
  with i(1) show ?thesis by (auto simp: in_state_of intro: state_record_in)
qed

lemma compact_step:
  assumes "compact env jn f = Inr (jn', f')" "jn_enabled jn"
  shows "f' = f \<or> journal_step L W (load f) (load f')"
proof (cases f)
  case None
  then show ?thesis using assms by (auto simp: compact_def unavailable_def split: if_splits)
next
  case (Some ls)
  then obtain rs where rs: "load_strict f = Inr rs" "validate_workspace_records env rs = Inr ()"
    "f' = Some (map (\<lambda>r. Line (JObj r)) (retained_records env jn rs))"
    using assms by (auto simp: compact_def unavailable_def bind_res_Inr Let_def split: if_splits)
  have "load f = rs" by (rule load_strict_load [OF rs(1)])
  moreover have "load f' = retained_records env jn rs"
    unfolding rs(3) using retained_in load_schema \<open>load f = rs\<close> by (intro load_lines) blast
  ultimately show ?thesis using step_compact [OF rs(2)] by simp
qed

lemma maybe_compact_steps:
  assumes "maybe_compact env (jn, f) = (jn', f')" "jn_enabled jn"
  shows "journal_steps L W f f'"
  using assms compact_step [of env jn f, OF _ assms(2)]
  by (auto simp: maybe_compact_def split: if_splits sum.splits prod.splits)

lemma append_step:
  assumes "writes env jn (load f) op k r" "sized L W jn" "jn_enabled jn" "append_record r jn f = Inr (jn', f')"
  shows "journal_step L W (load f) (load f')" "jn_enabled jn'"
proof -
  have "load f' = load f @ [r]"
    using append_record_load [OF assms(4,3)] writes_shaped [OF assms(1)] by (simp add: shaped_def)
  then show "journal_step L W (load f) (load f')"
    using step_append [OF assms(1)] assms(2) by (simp add: sized_def)
  show "jn_enabled jn'" using assms(3,4) by (auto simp: append_record_def split: if_splits)
qed

lemma commit_steps:
  assumes "writes env jn (load f) op k r" "sized L W jn" "jn_enabled jn" "commit env r jn f = Inr (jn', f')"
  shows "journal_steps L W f f'"
proof -
  obtain jn1 f1 where one: "append_record r jn f = Inr (jn1, f1)" "maybe_compact env (jn1, f1) = (jn', f')"
    using assms(4) by (auto simp: commit_def bind_res_Inr)
  from append_step [OF assms(1-3) one(1)] maybe_compact_steps [OF one(2)] show ?thesis
    by (meson converse_rtranclp_into_rtranclp)
qed

subsection \<open>The methods\<close>

lemma begin_commit:
  assumes "append_record (begin_record env (new_handle env jn t target) native external) jn f = Inr (jn', f')"
    "sized L W jn" "jn_enabled jn" "item_of (load f) (ev_uuid env) = None"
    "external = None \<or> count_items is_unresolved_external (state_of (load f)) < int L"
    "\<And>e. external = Some e \<Longrightarrow> \<exists>raw. normalize_external_metadata raw = Inr e"
  shows "journal_steps L W f f'"
proof -
  have "writes env jn (load f) (hd_operation_id (new_handle env jn t target)) Begin
      (begin_record env (new_handle env jn t target) native external)"
    using assms by (intro w_begin) (auto simp: new_handle_def sized_def)
  from append_step(1) [OF this assms(2,3,1)] show ?thesis by blast
qed

lemma begin_external_append:
  assumes "begin_external env r jn f = Inr (jn', f')" "sized L W jn" "journal_inv L (load f)"
  shows "append_record r jn f = Inr (jn', f')" "count_items is_unresolved_external (state_of (load f)) < int L"
proof -
  have "read_state (int L) None True (load f) [] = Inr (open_external (state_of (load f)))"
    using assms(3) by (intro admission_scan) (simp_all add: journal_inv_def)
  then show "append_record r jn f = Inr (jn', f')" "count_items is_unresolved_external (state_of (load f)) < int L"
    using assms(1,2)
    by (auto simp: begin_external_def transaction_def sized_def bind_res_Inr state_of_open_external
        count_open_external split: if_splits)
qed

lemma begin_operation_steps:
  assumes "begin_operation env t target external native jn f = Inr (h, jn', f')" "sized L W jn"
    "journal_inv L (load f)" "item_of (load f) (ev_uuid env) = None"
  shows "journal_steps L W f f'"
proof (cases "jn_enabled jn")
  case False
  then have "f' = f"
    using assms(1) by (auto simp: begin_operation_def bind_res_Inr Let_def split: if_splits)
  then show ?thesis by simp
next
  case True
  show ?thesis
  proof (cases external)
    case None
    then have "append_record (begin_record env (new_handle env jn t target) native None) jn f = Inr (jn', f')"
      using assms(1) True by (auto simp: begin_operation_def bind_res_Inr Let_def split: if_splits)
    with begin_commit [OF _ assms(2) True assms(4)] show ?thesis by blast
  next
    case (Some e)
    then obtain n where n: "begin_external env (begin_record env (new_handle env jn t target) native (Some n)) jn f = Inr (jn', f')"
      "normalize_external_metadata e = Inr n"
      using assms(1) True by (auto simp: begin_operation_def bind_res_Inr Let_def split: if_splits)
    from begin_external_append [OF n(1) assms(2,3)] begin_commit [OF _ assms(2) True assms(4)] n(2) show ?thesis by blast
  qed
qed

lemma dispatch_commit:
  assumes "current_item env jn (hd_operation_id h) f = Inr (Some i)" "\<not> settled i" "map_of i Checkpoint = None"
    "merged_external_metadata i = Some m"
    "commit env (checkpoint_base env h @ [(''external'', JObj (dict_set ''dispatch_stage'' (JStr ''may_dispatch'') m))]) jn f = Inr (jn', f')"
    "sized L W jn"
  shows "journal_steps L W f f'"
  using commit_steps [OF w_dispatch [OF current_item_Inr(3) [OF assms(1), symmetric] assms(2-4)] assms(6)
      current_item_Inr(1) [OF assms(1)] assms(5)] .

lemma dispatch_steps:
  assumes "checkpoint_external_dispatch env h jn f = Inr (jn', f')" "sized L W jn"
  shows "journal_steps L W f f'"
  using assms(1) dispatch_commit [OF _ _ _ _ _ assms(2)]
  unfolding checkpoint_external_dispatch_def failures
  by (auto simp: guard_simps bind_res_Inr)

lemma item_commit:
  assumes "current_item env jn op f = Inr oi" "writes env jn (load f) op k r" "commit env r jn f = Inr (jn', f')" "sized L W jn"
  shows "journal_steps L W f f'"
  using commit_steps [OF assms(2,4) current_item_Inr(1) [OF assms(1)] assms(3)] .

lemma not_dispatched_steps:
  assumes "finish_not_dispatched env h reason jn f = Inr (jn', f')" "sized L W jn"
  shows "journal_steps L W f f'"
proof (cases "f' = f")
  case False
  then obtain x i m where c: "current_item env jn (hd_operation_id x) f = Inr (Some i)" "\<not> has Result i" "\<not> has Uncertain i"
    "merged_external_metadata i = Some m" "stage_of m \<noteq> Some ''may_dispatch''"
    "commit env (result_base env x ''returned_error'' @
       [(''external_outcome'', JStr ''not_dispatched''),
        (''external'', JObj (dict_set ''reason_code'' (JStr reason)
           (dict_set ''external_outcome'' (JStr ''not_dispatched'') (dict_set ''dispatch_stage'' (JStr ''prepared'') m))))]) jn f
      = Inr (jn', f')"
    using assms(1) unfolding finish_not_dispatched_def failures by (auto simp: guard_simps bind_res_Inr)
  show ?thesis
    by (rule item_commit [OF c(1) w_not_dispatched [OF current_item_Inr(3) [OF c(1), symmetric] c(2-5)] c(6) assms(2)])
qed simp

lemma uncertain_steps:
  assumes "mark_uncertain env h reason receipt jn f = Inr (jn', f')" "sized L W jn"
  shows "journal_steps L W f f'"
proof (cases "f' = f")
  case False
  then obtain x :: handle and i where c:
    "current_item env jn (hd_operation_id x) f = Inr (Some i)" "\<not> has Result i" "\<not> has Uncertain i"
    "commit env (uncertain_base env (hd_operation_id x) (JStr (hd_runtime_id x)) (JStr (jn_runtime_id jn)) reason
       @ external_entry (merged_external_metadata i) (\<lambda>m. set_opt ''receipt_id'' receipt
           (dict_set ''reason_code'' (JStr reason) (dict_set ''external_outcome'' (JStr ''uncertain'') m)))) jn f = Inr (jn', f')"
    using assms(1) unfolding mark_uncertain_def failures by (auto simp: guard_simps bind_res_Inr)
  show ?thesis
    by (rule item_commit [OF c(1) w_uncertain [OF current_item_Inr(3) [OF c(1), symmetric] c(2,3)] c(4) assms(2)])
qed simp

lemma settled_result: "\<not> settled i \<Longrightarrow> \<not> has Result i"
  by (simp add: settled_def)

lemma native_steps:
  assumes "checkpoint_native_uia env h target stage jn f = Inr (jn', f')" "sized L W jn"
  shows "journal_steps L W f f'"
proof (cases "f' = f")
  case False
  then obtain x i where c: "current_item env jn (hd_operation_id x) f = Inr (Some i)" "\<not> settled i"
    "commit env (merge (previous_checkpoint i) (checkpoint_base env x @
       [(''target'', JStr (native_target_label target)), (''native'', JObj (native_record target stage))])) jn f = Inr (jn', f')"
    using assms(1) unfolding checkpoint_native_uia_def failures Let_def
    by (auto simp: guard_simps bind_res_Inr bind_eq_Some_conv)
  have "writes env jn (load f) (hd_operation_id x) Checkpoint (merge (previous_checkpoint i) (checkpoint_base env x @
       [(''target'', JStr (native_target_label target)), (''native'', JObj (native_record target stage))]))"
    by (rule w_checkpoint [OF current_item_Inr(3) [OF c(1), symmetric] settled_result [OF c(2)],
          where k = "''native''" and label = "[(''target'', JStr (native_target_label target))]"]) (use c(2) in auto)
  from item_commit [OF c(1) this c(3) assms(2)] show ?thesis .
qed simp

lemma postcondition_write:
  assumes "checkpoint_postcondition env (Some h) post jn f = Inr (jn', f')" "f' \<noteq> f"
  obtains i b where "item_of (load f) (hd_operation_id h) = Some i" "jn_enabled jn"
    "writes env jn (load f) (hd_operation_id h) Checkpoint
       (merge (previous_checkpoint i) (checkpoint_base env h @ [(''postcondition'', JObj b)]))"
    "commit env (merge (previous_checkpoint i) (checkpoint_base env h @ [(''postcondition'', JObj b)])) jn f = Inr (jn', f')"
proof -
  obtain i b where c: "current_item env jn (hd_operation_id h) f = Inr (Some i)" "\<not> has Result i"
    "commit env (merge (previous_checkpoint i) (checkpoint_base env h @ [(''postcondition'', JObj b)])) jn f = Inr (jn', f')"
    using assms unfolding checkpoint_postcondition_def failures by (auto simp: guard_simps bind_res_Inr)
  have "writes env jn (load f) (hd_operation_id h) Checkpoint
      (merge (previous_checkpoint i) (checkpoint_base env h @ [(''postcondition'', JObj b)]))"
    by (rule w_checkpoint [OF current_item_Inr(3) [OF c(1), symmetric] c(2),
          where k = "''postcondition''" and label = "[]"]) auto
  then show thesis by (rule that [OF current_item_Inr(3) [OF c(1), symmetric] current_item_Inr(1) [OF c(1)] _ c(3)])
qed

lemma postcondition_steps:
  assumes "checkpoint_postcondition env h post jn f = Inr (jn', f')" "sized L W jn"
  shows "journal_steps L W f f'"
proof (cases "f' = f")
  case False
  then obtain x where x: "h = Some x" using assms(1) by (cases h) (simp_all add: checkpoint_postcondition_def)
  show ?thesis
    by (rule postcondition_write [OF assms(1) [unfolded x] False]) (rule commit_steps [OF _ assms(2)])
qed simp

lemma evidence_key: "workspace_edit_metadata resolve (lookup k d) \<noteq> None \<Longrightarrow> has_key k d"
  by (cases "lookup k d") (auto simp: workspace_edit_metadata_def has_key_lookup)

lemma workspace_steps:
  assumes "checkpoint_workspace_edit env h evidence stage jn f = Inr (jn', f')" "sized L W jn"
  shows "journal_steps L W f f'"
proof (cases "f' = f")
  case False
  then obtain x i w where c: "current_item env jn (hd_operation_id x) f = Inr (Some i)" "\<not> settled i"
    "commit env (merge (previous_checkpoint i) (checkpoint_base env x @
       [(''workspace_edit'', JObj (workspace_edit_as_dict w))])) jn f = Inr (jn', f')"
    "workspace_edit_metadata (ev_resolve env) (lookup ''workspace_edit'' (previous_checkpoint i)) \<noteq> None \<or>
     other_workspace_items (hd_operation_id x) (state_of (load f)) < jn_max_unresolved_workspace jn"
    using assms(1) unfolding checkpoint_workspace_edit_def failures Let_def
    by (auto simp: guard_simps bind_res_Inr bind_eq_Some_conv)
  have "writes env jn (load f) (hd_operation_id x) Checkpoint
      (merge (previous_checkpoint i) (checkpoint_base env x @ [(''workspace_edit'', JObj (workspace_edit_as_dict w))]))"
    by (rule w_checkpoint [OF current_item_Inr(3) [OF c(1), symmetric] settled_result [OF c(2)],
          where k = "''workspace_edit''" and label = "[]"]) (use c(2,4) evidence_key in auto)
  from item_commit [OF c(1) this c(3) assms(2)] show ?thesis .
qed simp

lemma finish_steps:
  assumes "finish env h known post outcome receipt jn f = Inr (jn', f')" "sized L W jn"
  shows "journal_steps L W f f'"
proof (cases "f' = f")
  case False
  then obtain x oi where c: "h = Some x" "current_item env jn (hd_operation_id x) f = Inr oi" "\<And>i. oi = Some i \<Longrightarrow> \<not> has Uncertain i"
    and w: "(\<exists>i reason. oi = Some i \<and> append_record (finish_uncertain env x reason) jn f = Inr (jn', f')) \<or>
      commit env (finish_result env x known post outcome receipt oi) jn f = Inr (jn', f')"
    using assms(1) unfolding finish_def failures Let_def
    by (auto simp: guard_simps bind_res_Inr workspace_edit_metadata_def native_uia_metadata_def split: option.splits if_splits)
  note item = current_item_Inr [OF c(2)]
  from w show ?thesis
  proof (elim disjE exE conjE)
    fix i reason
    assume i: "oi = Some i" and a: "append_record (finish_uncertain env x reason) jn f = Inr (jn', f')"
    have "writes env jn (load f) (hd_operation_id x) Uncertain (finish_uncertain env x reason)"
      by (rule w_finish_uncertain [where i = i]) (use item(3) i c(3) in simp_all)
    from append_step(1) [OF this assms(2) item(1) a] show ?thesis by blast
  next
    assume a: "commit env (finish_result env x known post outcome receipt oi) jn f = Inr (jn', f')"
    have "writes env jn (load f) (hd_operation_id x) Result (finish_result env x known post outcome receipt oi)"
      unfolding item(3) using item(3) c(3) by (intro w_finish) auto
    from item_commit [OF c(2) this a assms(2)] show ?thesis .
  qed
qed simp

lemma finish_returned_steps:
  assumes "finish_returned env h result jn f = (out, jn', f')" "sized L W jn"
  shows "journal_steps L W f f'"
proof -
  have mark: "journal_steps L W f (snd (snd (keep_state (jn, f) (mark_uncertain env h reason None jn f))))" for reason
    using uncertain_steps [OF _ assms(2)] by (auto simp: keep_state_def split: sum.splits)
  have fin: "journal_steps L W f (snd (snd (keep_state (jn, f) (finish env h known post None None jn f))))" for known post
    using finish_steps [OF _ assms(2)] by (auto simp: keep_state_def split: sum.splits)
  have "snd (snd (finish_returned env h result jn f)) = f'" using assms(1) by simp
  then show ?thesis
    using mark [of "''native_test_execution_outcome_unknown''"] fin [of "known_result_of result" "bounded_result_postcondition result"]
      fin [of "''raised''" None]
    by (auto simp: finish_returned_def keep_state_def tool_error_def split: if_splits sum.splits option.splits json.splits)
qed

lemma acknowledge_steps:
  assumes "acknowledge env op state evidence jn f = Inr (view, jn', f')" "sized L W jn"
  shows "journal_steps L W f f'"
proof (cases "f' = f")
  case False
  then obtain i e where c: "current_item env jn op f = Inr (Some i)" "\<not> has Result i" "\<not> has Reconciliation i"
    "\<not> has Acknowledged i"
    "commit env (terminal_base env jn Acknowledged op state @ [(''evidence'', evidence_json e)] @ outcome_external i state) jn f
      = Inr (jn', f')"
    using assms(1) unfolding acknowledge_def failures Let_def by (auto simp: guard_simps bind_res_Inr has_def)
  show ?thesis
    by (rule item_commit [OF c(1) w_acknowledge [OF current_item_Inr(3) [OF c(1), symmetric] c(2-4)] c(5) assms(2)])
qed simp

lemma reconcile_steps:
  assumes "record_reconciliation env op state post e jn f = Inr (view, jn', f')" "sized L W jn"
  shows "journal_steps L W f f'"
proof (cases "f' = f")
  case False
  then obtain i where c: "current_item env jn op f = Inr (Some i)" "\<not> has Result i" "\<not> has Reconciliation i"
    "\<not> has Acknowledged i"
    "commit env (terminal_base env jn Reconciliation op state
       @ [(''postcondition'', postcondition_json post), (''evidence'', evidence_json e)] @ outcome_external i state) jn f
      = Inr (jn', f')"
    using assms(1) unfolding record_reconciliation_def failures Let_def by (auto simp: guard_simps bind_res_Inr has_def)
  show ?thesis
    by (rule item_commit [OF c(1) w_reconcile [OF current_item_Inr(3) [OF c(1), symmetric] c(2-4)] c(5) assms(2)])
qed simp

subsection \<open>Recovery of earlier runtimes\<close>

lemma recovery_record_cases:
  assumes "map_of i Begin = Some b"
  shows "recovery_record env jn (op, i) =
    (if \<not> open_item i \<or> lookup ''runtime_id'' b = Some (JStr (jn_runtime_id jn)) then []
     else if workspace_before_dispatch env i b then [recovered_result env jn op b ''runtime_ended_before_workspace_edit_dispatch'']
     else if native_before_dispatch env i b then [recovered_result env jn op b ''runtime_ended_before_native_uia_dispatch'']
     else [recovered_uncertain env jn op i b])"
  using assms by (simp add: recovery_record_def)

lemma recovery_writes:
  assumes "item_of rs op = Some i" "r \<in> set (recovery_record env jn (op, i))"
  shows "\<exists>k. writes env jn rs op k r"
proof -
  obtain b where b: "map_of i Begin = Some b"
    using item_ok_begin [OF item_of_ok [OF assms(1)]] by (auto simp: has_def)
  have "open_item i \<and> (((workspace_before_dispatch env i b \<or> native_before_dispatch env i b) \<and>
      (\<exists>reason. r = recovered_result env jn op b reason)) \<or> r = recovered_uncertain env jn op i b)"
    using assms(2) unfolding recovery_record_cases [OF b] by (auto split: if_splits)
  then show ?thesis
    using w_recover_result [OF assms(1) _ b] w_recover_uncertain [OF assms(1) _ b] by blast
qed

lemma append_all_append:
  "append_all (xs @ ys) jn f = bind_res (append_all xs jn f) (\<lambda>(jn, f). append_all ys jn f)"
proof (induction xs arbitrary: jn f)
  case (Cons x xs)
  then show ?case by (cases "append_record x jn f") auto
qed simp

lemma append_all_load:
  assumes "append_all rs jn f = Inr (jn', f')" "jn_enabled jn" "\<forall>r \<in> set rs. current_schema r"
  shows "load f' = load f @ rs" "jn_enabled jn'"
  using assms
proof (induction rs arbitrary: jn f)
  case (Cons r rs)
  {
    case 1
    then obtain jn1 f1 where one: "append_record r jn f = Inr (jn1, f1)" "append_all rs jn1 f1 = Inr (jn', f')"
      by (auto simp: bind_res_Inr)
    have "jn_enabled jn1" using one(1) 1 by (auto simp: append_record_def split: if_splits)
    with Cons.IH(1) [OF one(2)] append_record_load [OF one(1)] 1 show ?case by simp
  next
    case 2
    then obtain jn1 f1 where one: "append_record r jn f = Inr (jn1, f1)" "append_all rs jn1 f1 = Inr (jn', f')"
      by (auto simp: bind_res_Inr)
    have "jn_enabled jn1" using one(1) 2 by (auto simp: append_record_def split: if_splits)
    with Cons.IH(2) [OF one(2)] 2 show ?case by simp
  }
qed simp_all

lemma item_of_other:
  "\<forall>r \<in> set ys. op_of r \<noteq> Some op \<Longrightarrow> item_of (xs @ ys) op = item_of xs op"
proof (induction ys rule: rev_induct)
  case (snoc y ys)
  have "item_of (xs @ ys @ [y]) op = item_step op y (item_of (xs @ ys) op)"
    using item_of_snoc [of "xs @ ys" y op] by simp
  with snoc show ?case by (simp add: item_step_other)
qed simp

definition recovered :: "env \<Rightarrow> journal \<Rightarrow> string \<Rightarrow> item \<Rightarrow> item" where
  "recovered env jn op i =
     (case recovery_record env jn (op, i) of [] \<Rightarrow> i | r # _ \<Rightarrow> AList.update (the (kind_of r)) r i)"

lemma recovery_record_shape:
  assumes "item_of rs op = Some i" "r \<in> set (recovery_record env jn (op, i))"
  shows "current_schema r" "op_of r = Some op" "kind_of r = Some Result \<or> kind_of r = Some Uncertain"
proof -
  obtain k where w: "writes env jn rs op k r" using recovery_writes [OF assms] by blast
  show "current_schema r" "op_of r = Some op" using writes_shaped [OF w] by (simp_all add: shaped_def)
  obtain b where b: "map_of i Begin = Some b"
    using item_ok_begin [OF item_of_ok [OF assms(1)]] by (auto simp: has_def)
  show "kind_of r = Some Result \<or> kind_of r = Some Uncertain"
    using assms(2) unfolding recovery_record_cases [OF b]
    by (auto simp: recovered_result_def recovered_uncertain_def uncertain_base_def kind_of_def get_str_def record_kinds_def
        split: if_splits)
qed

lemma recovery_single: "recovery_record env jn (op, i) = [] \<or> (\<exists>r. recovery_record env jn (op, i) = [r])"
  by (simp add: recovery_record_def split: option.splits)

lemma item_of_recovered:
  assumes "item_of rs op = Some i"
  shows "item_of (rs @ concat (map (recovery_record env jn) (state_of rs))) op = Some (recovered env jn op i)"
proof -
  obtain xs ys where st: "state_of rs = xs @ (op, i) # ys"
    using assms by (metis in_state_of split_list)
  have other: "op_of r \<noteq> Some op" if "(q, j) \<in> set (xs @ ys)" "r \<in> set (recovery_record env jn (q, j))" for q j r
  proof -
    have "(q, j) \<in> set (state_of rs)" using that(1) unfolding st by auto
    then have "op_of r = Some q" unfolding in_state_of by (rule recovery_record_shape(2)) (rule that(2))
    moreover have "q \<in> fst ` set (xs @ ys)" using that(1) by (metis fst_conv imageI)
    then have "q \<noteq> op" using state_keys_distinct [of rs] unfolding st by auto
    ultimately show ?thesis by simp
  qed
  let ?a = "concat (map (recovery_record env jn) xs)" and ?b = "concat (map (recovery_record env jn) ys)"
  have a: "item_of (rs @ ?a) op = Some i"
    using assms by (subst item_of_other) (use other in auto)
  have "item_of (rs @ ?a @ recovery_record env jn (op, i)) op = Some (recovered env jn op i)"
  proof (cases "recovery_record env jn (op, i)")
    case Nil
    with a show ?thesis by (simp add: recovered_def)
  next
    case (Cons r rest)
    then have one: "recovery_record env jn (op, i) = [r]" using recovery_single [of env jn op i] by auto
    have "op_of r = Some op" "kind_of r = Some Result \<or> kind_of r = Some Uncertain"
      using recovery_record_shape [OF assms, of r env jn] one by simp_all
    then have "item_step op r (Some i) = Some (recovered env jn op i)"
      using one by (auto simp: recovered_def item_step_kind)
    then show ?thesis using item_of_snoc [of "rs @ ?a" r op] a one by simp
  qed
  moreover have "item_of ((rs @ ?a @ recovery_record env jn (op, i)) @ ?b) op = item_of (rs @ ?a @ recovery_record env jn (op, i)) op"
    by (rule item_of_other) (use other in auto)
  ultimately show ?thesis by (simp add: st)
qed

lemma recover_previous_load:
  assumes "recover_previous env (load f) jn f = Inr (jn', f')" "jn_enabled jn"
  shows "load f' = load f @ concat (map (recovery_record env jn) (state_of (load f)))"
proof -
  have "current_schema r" if r: "r \<in> set (concat (map (recovery_record env jn) (state_of (load f))))" for r
  proof -
    obtain op i where i: "(op, i) \<in> set (state_of (load f))" "r \<in> set (recovery_record env jn (op, i))"
      using r by auto
    show ?thesis by (rule recovery_record_shape(1) [OF _ i(2)]) (use i(1) in \<open>simp add: in_state_of\<close>)
  qed
  then show ?thesis using append_all_load(1) [OF assms(1) [unfolded recover_previous_def] assms(2)] by blast
qed

lemma recovery_record_settled: "\<not> open_item i \<Longrightarrow> recovery_record env jn (op, i) = []"
  by (simp add: recovery_record_def split: option.splits)


lemma append_all_enabled: "append_all rs jn f = Inr (jn', f') \<Longrightarrow> jn_enabled jn \<Longrightarrow> jn_enabled jn'"
proof (induction rs arbitrary: jn f)
  case (Cons r rs)
  then obtain jn1 f1 where one: "append_record r jn f = Inr (jn1, f1)" "append_all rs jn1 f1 = Inr (jn', f')"
    by (auto simp: bind_res_Inr)
  have "jn_enabled jn1" using one(1) Cons.prems(2) by (auto simp: append_record_def split: if_splits)
  with Cons.IH [OF one(2)] show ?case .
qed simp

lemma recovery_other_ops:
  assumes "distinct (map fst st)" "st = xs @ (op, i) # ys" "\<And>q j. (q, j) \<in> set st \<Longrightarrow> item_of rs q = Some j"
    "r \<in> set (concat (map (recovery_record env jn) xs))"
  shows "op_of r \<noteq> Some op"
proof -
  obtain q j where q: "(q, j) \<in> set xs" "r \<in> set (recovery_record env jn (q, j))" using assms(4) by auto
  then have "op_of r = Some q" using assms(2,3) recovery_record_shape(2) by (metis UnI1 set_append)
  moreover have "q \<in> fst ` set xs" using q(1) by (metis fst_conv imageI)
  ultimately show ?thesis using assms(1,2) by auto
qed

lemma recover_prefix_steps:
  assumes "state_of rs = xs @ ys" "sized L W jn"
  shows "(journal_step L W)\<^sup>*\<^sup>* rs (rs @ concat (map (recovery_record env jn) xs))"
  using assms(1)
proof (induction xs arbitrary: ys rule: rev_induct)
  case (snoc x xs)
  obtain op i where x: "x = (op, i)" by (cases x)
  let ?rs = "rs @ concat (map (recovery_record env jn) xs)"
  have steps: "(journal_step L W)\<^sup>*\<^sup>* rs ?rs" using snoc.IH [of "x # ys"] snoc.prems by simp
  have st: "state_of rs = xs @ (op, i) # ys" using snoc.prems x by simp
  have i: "item_of rs op = Some i" using st by (simp add: in_state_of [symmetric])
  have "op_of r \<noteq> Some op" if "r \<in> set (concat (map (recovery_record env jn) xs))" for r
    by (rule recovery_other_ops [OF state_keys_distinct st _ that]) (simp add: in_state_of)
  then have now: "item_of ?rs op = Some i" using i by (subst item_of_other) blast+
  show ?case
  proof (cases "recovery_record env jn (op, i)")
    case Nil
    with steps x show ?thesis by simp
  next
    case (Cons r rest)
    then have one: "recovery_record env jn (op, i) = [r]" using recovery_single [of env jn op i] by auto
    obtain k where w: "writes env jn ?rs op k r" using recovery_writes [OF now, of r env jn] one by auto
    have "journal_step L W ?rs (?rs @ [r])"
      by (rule step_append [OF w]) (use assms(2) in \<open>simp_all add: sized_def\<close>)
    with steps one x show ?thesis by simp
  qed
qed simp

lemma recover_previous_steps:
  assumes "recover_previous env (load f) jn f = Inr (jn', f')" "jn_enabled jn" "sized L W jn"
  shows "journal_steps L W f f'"
  using recover_prefix_steps [of "load f" "state_of (load f)" "[]" L W jn env] assms(3)
    recover_previous_load [OF assms(1,2)] by simp

lemma configure_steps:
  assumes "configure env has_path runtime jn f = Inr (jn', f')" "sized L W jn"
  shows "journal_steps L W f f'"
proof -
  define jn0 where "jn0 = jn\<lparr>jn_runtime_id := runtime, jn_enabled := (has_path \<and> runtime \<noteq> []), jn_record_count := 0,
    jn_next_compact_at := COMPACT_AFTER_RECORDS\<rparr>"
  have sized: "sized L W (jn0\<lparr>jn_record_count := n\<rparr>)" for n using assms(2) by (simp add: sized_def jn0_def)
  show ?thesis
  proof (cases "jn_enabled jn0")
    case False
    then have "f' = f" using assms(1) by (simp add: configure_def Let_def jn0_def [symmetric])
    then show ?thesis by simp
  next
    case True
    obtain rs jn1 f1 where r: "recover_previous env rs (jn0\<lparr>jn_record_count := length rs\<rparr>) f = Inr (jn1, f1)"
      "maybe_compact env (jn1, f1) = (jn', f')" "rs = load f"
      using assms(1) True
      by (auto simp: configure_def Let_def jn0_def [symmetric] bind_res_Inr transaction_def load_strict_load split: if_splits)
    have en: "jn_enabled (jn0\<lparr>jn_record_count := length rs\<rparr>)" using True by simp
    have "jn_enabled jn1"
      using append_all_enabled [OF r(1) [unfolded recover_previous_def] en] .
    with recover_previous_steps [OF r(1) [unfolded r(3)], OF en [unfolded r(3)] sized] maybe_compact_steps [OF r(2)]
    show ?thesis by (meson rtranclp_trans)
  qed
qed

end
