(* ===== verification/Journal_Dispatch.thy ===== *)
theory Journal_Dispatch
  imports Journal_Safety
begin

text \<open>
  The mark of a possible dispatch: once the checkpoint that precedes the effect of an external
  operation is in the journal, every later record of the operation carries it on, so no merge of
  the records forgets it.
\<close>

subsection \<open>The mark of a possible dispatch\<close>

definition stage_entries :: "dict \<Rightarrow> json set" where
  "stage_entries d = {v. (''dispatch_stage'', v) \<in> set d}"

definition all_may :: "dict \<Rightarrow> bool" where
  "all_may d \<longleftrightarrow> stage_entries d \<subseteq> {JStr ''may_dispatch''}"

definition may_stage :: "dict \<Rightarrow> bool" where
  "may_stage d \<longleftrightarrow> stage_entries d = {JStr ''may_dispatch''}"

definition no_may :: "dict \<Rightarrow> bool" where
  "no_may d \<longleftrightarrow> JStr ''may_dispatch'' \<notin> stage_entries d"

lemma stage_entries_Cons:
  "stage_entries ((k, v) # d) = (if k = ''dispatch_stage'' then insert v (stage_entries d) else stage_entries d)"
  by (auto simp: stage_entries_def)

lemma stage_entries_dict_set:
  "k \<noteq> ''dispatch_stage'' \<Longrightarrow> stage_entries (dict_set k v d) = stage_entries d"
  "stage_entries (dict_set ''dispatch_stage'' v d) = {v}"
  by (auto simp: stage_entries_def dict_set_def image_iff split: if_splits) force+

lemma may_stage_of: "may_stage d \<Longrightarrow> stage_of d = Some ''may_dispatch''"
proof -
  assume m: "may_stage d"
  then have "(''dispatch_stage'', JStr ''may_dispatch'') \<in> set d" unfolding may_stage_def stage_entries_def by blast
  then have "has_key ''dispatch_stage'' d" unfolding has_key_def by (metis fst_conv imageI)
  then obtain v where v: "lookup ''dispatch_stage'' d = Some v" unfolding has_key_lookup by auto
  then have "v \<in> stage_entries d" by (auto simp: stage_entries_def lookup_def dest: map_of_SomeD)
  with m v show ?thesis by (simp add: may_stage_def stage_of_def get_str_def)
qed

lemma no_may_stage_of: "stage_of d \<noteq> Some ''may_dispatch'' \<Longrightarrow> all_may d \<Longrightarrow> no_may d"
proof -
  assume "stage_of d \<noteq> Some ''may_dispatch''" "all_may d"
  then have "\<not> may_stage d" using may_stage_of by blast
  with \<open>all_may d\<close> show ?thesis by (auto simp: all_may_def may_stage_def no_may_def)
qed

text \<open>The entries the overlay of one record can leave.\<close>

lemma overlay_external_entries:
  assumes "\<forall>v \<in> stage_entries e. v = x" "x \<noteq> JNull"
  shows "stage_entries (overlay_external e m) = (if stage_entries e = {} then stage_entries m else {x})"
  using assms(1)
proof (induction e arbitrary: m)
  case Nil
  then show ?case by (simp add: overlay_external_def stage_entries_def)
next
  case (Cons p e)
  obtain k v where p: "p = (k, v)" by (cases p)
  have e: "\<forall>v \<in> stage_entries e. v = x" using Cons.prems by (auto simp: stage_entries_def)
  have key: "''dispatch_stage'' \<in> set EXTERNAL_KEYS" by (simp add: EXTERNAL_KEYS_def)
  show ?case
  proof (cases "k = ''dispatch_stage''")
    case True
    then have "v = x" using Cons.prems p by (simp add: stage_entries_def)
    then have "overlay_external (p # e) m = overlay_external e (dict_set ''dispatch_stage'' x m)"
      using True p key assms(2) by (simp add: overlay_external_def)
    moreover have "stage_entries (p # e) \<noteq> {}" using True p by (auto simp: stage_entries_def)
    ultimately show ?thesis using Cons.IH [OF e] by (simp add: stage_entries_dict_set)
  next
    case False
    then have "stage_entries (p # e) = stage_entries e" using p by (auto simp: stage_entries_def)
    moreover have "overlay_external (p # e) m = overlay_external e (if k \<in> set EXTERNAL_KEYS \<and> v \<noteq> JNull then dict_set k v m else m)"
      using p by (simp add: overlay_external_def)
    ultimately show ?thesis using Cons.IH [OF e] False by (simp add: stage_entries_dict_set)
  qed
qed

lemma overlay_external_no_may:
  "no_may e \<Longrightarrow> no_may m \<Longrightarrow> no_may (overlay_external e m)"
proof (induction e arbitrary: m)
  case Nil
  then show ?case by (simp add: overlay_external_def)
next
  case (Cons p e)
  obtain k v where p: "p = (k, v)" by (cases p)
  have e: "no_may e" using Cons.prems(1) p by (simp add: no_may_def stage_entries_Cons split: if_splits)
  have "no_may (if k \<in> set EXTERNAL_KEYS \<and> v \<noteq> JNull then dict_set k v m else m)"
    using Cons.prems p by (cases "k = ''dispatch_stage''") (simp_all add: no_may_def stage_entries_dict_set stage_entries_Cons)
  with Cons.IH [OF e] show ?case by (simp add: p overlay_external_def)
qed

definition record_external :: "dict \<Rightarrow> dict" where
  "record_external r = (case get_dict ''external'' r of None \<Rightarrow> [] | Some e \<Rightarrow> e)"

lemma overlay_record_entries:
  "stage_entries (overlay_record k r m) = stage_entries (overlay_external (record_external r) m)"
  by (auto simp: overlay_record_def Let_def stage_entries_dict_set record_external_def overlay_external_def split: option.splits)

definition overlay_kinds :: "record_kind list" where
  "overlay_kinds = [Checkpoint, Result, Uncertain, Reconciliation, Acknowledged]"

definition overlays :: "record_kind list \<Rightarrow> item \<Rightarrow> dict \<Rightarrow> dict" where
  "overlays ks i m = fold (\<lambda>k m. case map_of i k of None \<Rightarrow> m | Some r \<Rightarrow> overlay_record k r m) ks m"

lemma merged_overlays:
  "merged_external_metadata i = (case Option.bind (map_of i Begin) (get_dict ''external'') of
     None \<Rightarrow> None | Some base \<Rightarrow> Some (overlays overlay_kinds i base))"
  by (auto simp: merged_external_metadata_def overlays_def overlay_kinds_def split: option.splits)

lemma overlays_may:
  assumes "\<forall>k \<in> set ks. \<forall>r. map_of i k = Some r \<longrightarrow> all_may (record_external r)"
    "may_stage m \<or> (\<exists>k \<in> set ks. \<exists>r. map_of i k = Some r \<and> stage_entries (record_external r) \<noteq> {})"
  shows "may_stage (overlays ks i m)"
  using assms
proof (induction ks arbitrary: m)
  case Nil
  then show ?case by (simp add: overlays_def)
next
  case (Cons k ks)
  show ?case
  proof (cases "map_of i k")
    case None
    then have "overlays (k # ks) i m = overlays ks i m" by (simp add: overlays_def)
    with Cons None show ?thesis by auto
  next
    case (Some r)
    let ?m = "overlay_record k r m"
    have all: "all_may (record_external r)" using Cons.prems(1) Some by simp
    then have entries: "stage_entries ?m = (if stage_entries (record_external r) = {} then stage_entries m else {JStr ''may_dispatch''})"
      unfolding overlay_record_entries all_may_def by (intro overlay_external_entries) auto
    have "overlays (k # ks) i m = overlays ks i ?m" using Some by (simp add: overlays_def)
    moreover have "may_stage (overlays ks i ?m)"
      by (rule Cons.IH) (use Cons.prems Some entries in \<open>auto simp: may_stage_def split: if_splits\<close>)
    ultimately show ?thesis by simp
  qed
qed

lemma overlays_no_may:
  assumes "\<forall>k \<in> set ks. \<forall>r. map_of i k = Some r \<longrightarrow> no_may (record_external r)" "no_may m"
  shows "no_may (overlays ks i m)"
  using assms
proof (induction ks arbitrary: m)
  case Nil
  then show ?case by (simp add: overlays_def)
next
  case (Cons k ks)
  show ?case
  proof (cases "map_of i k")
    case None
    then have "overlays (k # ks) i m = overlays ks i m" by (simp add: overlays_def)
    with Cons show ?thesis by simp
  next
    case (Some r)
    have "no_may (overlay_record k r m)"
      using overlay_external_no_may [of "record_external r" m] Cons.prems Some by (simp add: no_may_def overlay_record_entries)
    then have "no_may (overlays ks i (overlay_record k r m))" using Cons by simp
    with Some show ?thesis by (simp add: overlays_def)
  qed
qed

subsection \<open>The mark survives every step\<close>

definition dispatched :: "item \<Rightarrow> bool" where
  "dispatched i \<longleftrightarrow> (case merged_external_metadata i of None \<Rightarrow> False | Some m \<Rightarrow> may_stage m)"

definition begin_of :: "item \<Rightarrow> dict" where
  "begin_of i = (case map_of i Begin of None \<Rightarrow> [] | Some b \<Rightarrow> b)"

definition marked :: "item \<Rightarrow> bool" where
  "marked i \<longleftrightarrow> may_stage (record_external (begin_of i)) \<or> may_stage (record_external (previous_checkpoint i))"

text \<open>An item is marked, and then all its later records agree, or nothing in it says that the
  operation may have been dispatched.\<close>

definition stage_inv :: "item \<Rightarrow> bool" where
  "stage_inv i \<longleftrightarrow>
     marked i \<and> (\<forall>k r. k \<noteq> Begin \<longrightarrow> map_of i k = Some r \<longrightarrow> all_may (record_external r)) \<or>
     (\<forall>k r. map_of i k = Some r \<longrightarrow> no_may (record_external r))"

lemma record_external_simps [simp]: "record_external [] = []" "stage_entries [] = {}" "all_may []" "no_may []" "\<not> may_stage []"
  by (simp_all add: record_external_def get_dict_def stage_entries_def all_may_def no_may_def may_stage_def)

lemma merged_None: "merged_external_metadata i = None \<longleftrightarrow> get_dict ''external'' (begin_of i) = None"
  by (auto simp: merged_external_metadata_def begin_of_def get_dict_def split: option.splits)

lemma merged_Some:
  "merged_external_metadata i = Some m \<Longrightarrow> m = overlays overlay_kinds i (record_external (begin_of i))"
  by (auto simp: merged_overlays record_external_def begin_of_def split: option.splits bind_splits)

lemma overlay_kinds_all: "k \<in> set overlay_kinds \<longleftrightarrow> k \<noteq> Begin"
  by (cases k) (simp_all add: overlay_kinds_def)

lemma all_may_entries: "may_stage d \<Longrightarrow> stage_entries d \<noteq> {}"
  by (simp add: may_stage_def)

lemma may_not_no_may: "may_stage d \<Longrightarrow> \<not> no_may d"
  by (simp add: may_stage_def no_may_def)

lemma merged_marked:
  assumes "marked i" "\<forall>k r. k \<noteq> Begin \<longrightarrow> map_of i k = Some r \<longrightarrow> all_may (record_external r)"
    "merged_external_metadata i = Some m"
  shows "may_stage m"
  unfolding merged_Some [OF assms(3)]
proof (rule overlays_may)
  show "\<forall>k \<in> set overlay_kinds. \<forall>r. map_of i k = Some r \<longrightarrow> all_may (record_external r)"
    using assms(2) by (simp add: overlay_kinds_all)
  show "may_stage (record_external (begin_of i)) \<or>
      (\<exists>k \<in> set overlay_kinds. \<exists>r. map_of i k = Some r \<and> stage_entries (record_external r) \<noteq> {})"
  proof (cases "may_stage (record_external (begin_of i))")
    case False
    then have c: "may_stage (record_external (previous_checkpoint i))" using assms(1) by (simp add: marked_def)
    then obtain r where "map_of i Checkpoint = Some r" "previous_checkpoint i = r"
      by (cases "map_of i Checkpoint") (auto simp: previous_checkpoint_def)
    with c show ?thesis by (auto simp: overlay_kinds_def may_stage_def)
  qed simp
qed

lemma merged_unmarked:
  assumes "\<forall>k r. map_of i k = Some r \<longrightarrow> no_may (record_external r)" "merged_external_metadata i = Some m"
  shows "no_may m"
  unfolding merged_Some [OF assms(2)]
  by (rule overlays_no_may) (use assms(1) in \<open>auto simp: begin_of_def split: option.splits\<close>)

lemma dispatched_marked: "stage_inv i \<Longrightarrow> dispatched i \<Longrightarrow> marked i"
  using merged_unmarked may_not_no_may by (auto simp: stage_inv_def dispatched_def split: option.splits)

lemma marked_dispatched: "stage_inv i \<Longrightarrow> marked i \<Longrightarrow> merged_external_metadata i \<noteq> None \<Longrightarrow> dispatched i"
proof -
  assume i: "stage_inv i" "marked i" "merged_external_metadata i \<noteq> None"
  then obtain m where m: "merged_external_metadata i = Some m" by auto
  have "\<not> (\<forall>k r. map_of i k = Some r \<longrightarrow> no_may (record_external r))"
    using i(2) may_not_no_may
    by (auto simp: marked_def begin_of_def previous_checkpoint_def split: option.splits)
  then have "may_stage m" using i(1) m merged_marked by (auto simp: stage_inv_def)
  with m show ?thesis by (simp add: dispatched_def)
qed

text \<open>What the external part of a new record can be.\<close>

definition carries :: "item \<Rightarrow> record_kind \<Rightarrow> dict \<Rightarrow> bool" where
  "carries i k r \<longleftrightarrow>
     record_external r = [] \<and> k \<noteq> Checkpoint \<or>
     (\<exists>m. merged_external_metadata i = Some m \<and> stage_entries (record_external r) = stage_entries m \<and> k \<noteq> Checkpoint) \<or>
     k = Checkpoint \<and> record_external r = record_external (previous_checkpoint i) \<or>
     (\<exists>m. k = Result \<and> merged_external_metadata i = Some m \<and> \<not> may_stage m \<and> no_may (record_external r))"

definition dispatch_mark :: "item \<Rightarrow> record_kind \<Rightarrow> dict \<Rightarrow> bool" where
  "dispatch_mark i k r \<longleftrightarrow>
     k = Checkpoint \<and> \<not> settled i \<and> map_of i Checkpoint = None \<and> may_stage (record_external r)"

lemma record_external_entry:
  "lookup ''external'' d = None \<Longrightarrow> record_external (d @ external_entry x f) = (case x of None \<Rightarrow> [] | Some m \<Rightarrow> f m)"
  by (simp add: record_external_def get_dict_def lookup_append external_entry_def split: option.splits)

lemma stage_entries_set_opt: "k \<noteq> ''dispatch_stage'' \<Longrightarrow> stage_entries (set_opt k v d) = stage_entries d"
  by (simp add: set_opt_def stage_entries_dict_set split: option.splits)

lemma stage_entries_default: "k \<noteq> ''dispatch_stage'' \<Longrightarrow> stage_entries (dict_default k v d) = stage_entries d"
  by (simp add: dict_default_def stage_entries_dict_set)

lemma carries_entry:
  assumes "lookup ''external'' d = None" "k \<noteq> Checkpoint" "\<And>m. stage_entries (f m) = stage_entries m"
  shows "carries i k (d @ external_entry (merged_external_metadata i) f)"
  unfolding carries_def record_external_entry [OF assms(1)] using assms(2,3)
  by (cases "merged_external_metadata i") auto

lemmas base_defs = checkpoint_base_def result_base_def uncertain_base_def finish_uncertain_def terminal_base_def recovered_result_def

lemma lookup_external_base [simp]:
  "lookup ''external'' (checkpoint_base env h) = None" "lookup ''external'' (result_base env h x) = None"
  "lookup ''external'' (uncertain_base env op a b x) = None" "lookup ''external'' (finish_uncertain env h x) = None"
  "lookup ''external'' (terminal_base env jn k op st) = None" "lookup ''external'' (recovered_result env jn op bg x) = None"
  by (simp_all add: base_defs)

lemma writes_carries:
  assumes "writes env jn rs op k r" "k \<noteq> Begin" "item_of rs op = Some i"
  shows "carries i k r \<or> dispatch_mark i k r"
  using assms(1)
proof (cases rule: writes.cases)
  case (w_dispatch h j m)
  then have "stage_entries (record_external r) = {JStr ''may_dispatch''}"
    by (simp add: record_external_def get_dict_def lookup_append stage_entries_dict_set)
  with w_dispatch assms(3) show ?thesis by (simp add: dispatch_mark_def may_stage_def)
next
  case (w_not_dispatched h j m reason)
  then have "stage_entries (record_external r) = {JStr ''prepared''}"
    by (simp add: record_external_def get_dict_def lookup_append stage_entries_dict_set)
  moreover have "merged_external_metadata i = Some m" "\<not> may_stage m"
    using w_not_dispatched assms(3) may_stage_of by auto
  ultimately show ?thesis using w_not_dispatched by (simp add: carries_def no_may_def)
next
  case (w_uncertain h j reason receipt)
  with assms(3) show ?thesis
    by (auto intro!: carries_entry simp: stage_entries_dict_set stage_entries_set_opt)
next
  case (w_checkpoint h j q new label v)
  then have "lookup ''external'' new = None" by (auto simp: lookup_append)
  then have "lookup ''external'' r = lookup ''external'' (previous_checkpoint i)"
    using w_checkpoint assms(3) by (auto simp: lookup_merge lookup_append base_defs)
  then show ?thesis using w_checkpoint by (simp add: carries_def record_external_def get_dict_def)
next
  case (w_finish h known pc outcome receipt)
  have "lookup ''external'' (result_base env h (take 100 known) @ (case pc of None \<Rightarrow> [] | Some p \<Rightarrow> [(''postcondition'', JObj p)])) = None"
    by (simp add: lookup_append split: option.splits)
  then show ?thesis
    using w_finish assms(3)
    by (cases "merged_external_metadata i")
      (auto simp: carries_def finish_result_def record_external_def get_dict_def lookup_append Let_def stage_entries_dict_set
        stage_entries_set_opt split: option.splits)
next
  case (w_acknowledge j state e)
  have "r = (terminal_base env jn Acknowledged op state @ [(''evidence'', evidence_json e)]) @
      external_entry (merged_external_metadata i) (dict_set ''external_outcome'' (JStr (recovery_state_value state)))"
    using w_acknowledge assms(3) by (simp add: outcome_external_def)
  then have "carries i k r"
    by (simp only:) (rule carries_entry, use w_acknowledge in \<open>simp_all add: stage_entries_dict_set lookup_append\<close>)
  then show ?thesis ..
next
  case (w_reconcile j state post e)
  have "r = (terminal_base env jn Reconciliation op state @ [(''postcondition'', postcondition_json post), (''evidence'', evidence_json e)]) @
      external_entry (merged_external_metadata i) (dict_set ''external_outcome'' (JStr (recovery_state_value state)))"
    using w_reconcile assms(3) by (simp add: outcome_external_def)
  then have "carries i k r"
    by (simp only:) (rule carries_entry, use w_reconcile in \<open>simp_all add: stage_entries_dict_set lookup_append\<close>)
  then show ?thesis ..
next
  case (w_recover_uncertain j b)
  then show ?thesis
    using assms(3) unfolding recovered_uncertain_def
    by (auto intro!: carries_entry simp: stage_entries_dict_set stage_entries_default)
qed (use assms(2) in \<open>simp_all add: carries_def record_external_def get_dict_def\<close>)

lemma marked_update:
  "k \<noteq> Begin \<Longrightarrow> k \<noteq> Checkpoint \<Longrightarrow> marked (AList.update k r i) = marked i"
  by (simp add: marked_def begin_of_def previous_checkpoint_def update_conv')

lemma begin_of_update: "k \<noteq> Begin \<Longrightarrow> begin_of (AList.update k r i) = begin_of i"
  by (simp add: begin_of_def update_conv')

lemma stage_inv_update:
  assumes "stage_inv i" "carries i k r \<or> dispatch_mark i k r" "k \<noteq> Begin"
  shows "stage_inv (AList.update k r i)" "marked i \<Longrightarrow> marked (AList.update k r i)"
proof -
  let ?j = "AList.update k r i"
  have maps: "map_of ?j q = (if q = k then Some r else map_of i q)" for q by (simp add: update_conv')
  have keep: "marked ?j" if "marked i" "carries i k r"
    using that assms(3) by (cases "k = Checkpoint")
      (auto simp: carries_def marked_update marked_def begin_of_update previous_checkpoint_update)
  consider (mark) "dispatch_mark i k r"
    | (may) "carries i k r" "marked i" "\<forall>q x. q \<noteq> Begin \<longrightarrow> map_of i q = Some x \<longrightarrow> all_may (record_external x)"
    | (none) "carries i k r" "\<forall>q x. map_of i q = Some x \<longrightarrow> no_may (record_external x)"
    using assms(1,2) unfolding stage_inv_def by blast
  then show "stage_inv ?j"
  proof cases
    case mark
    then have "map_of i q = None" if "q \<noteq> Begin" for q
      using that by (cases q) (auto simp: dispatch_mark_def settled_def has_def)
    moreover have "marked ?j" using mark by (simp add: dispatch_mark_def marked_def previous_checkpoint_update)
    ultimately show ?thesis
      using mark unfolding stage_inv_def maps
      by (auto simp: dispatch_mark_def may_stage_def all_may_def)
  next
    case may
    have "all_may (record_external (previous_checkpoint i))"
      using may(3) by (cases "map_of i Checkpoint") (auto simp: previous_checkpoint_def)
    then have "all_may (record_external r)"
      using may(1) merged_marked [OF may(2,3)] by (auto simp: carries_def all_may_def may_stage_def)
    with may keep show ?thesis unfolding stage_inv_def maps by auto
  next
    case none
    have "no_may (record_external r)"
      using none merged_unmarked [OF none(2)]
      by (auto simp: carries_def no_may_def previous_checkpoint_def split: option.splits)
    with none show ?thesis unfolding stage_inv_def maps by auto
  qed
  show "marked ?j" if "marked i"
    using assms(2)
  proof
    assume "dispatch_mark i k r"
    then show ?thesis by (simp add: dispatch_mark_def marked_def previous_checkpoint_update)
  qed (rule keep [OF that])
qed

lemma normalized_stage:
  assumes "normalize_external_metadata raw = Inr e"
  shows "\<exists>s. stage_entries e = {JStr s}"
proof -
  have entry: "stage_entries (entry_of k raw) = {}" if "k \<noteq> ''dispatch_stage''" for k
    using that by (auto simp: entry_of_def stage_entries_def split: option.splits)
  have app: "stage_entries (a @ b) = stage_entries a \<union> stage_entries b" for a b
    by (auto simp: stage_entries_def)
  obtain s where "(case lookup ''dispatch_stage'' raw of None \<Rightarrow> JStr ''prepared'' | Some v \<Rightarrow> v) = JStr s"
    using assms unfolding normalize_external_metadata_def Let_def invalid_external_def
    by (auto split: if_splits json.splits option.splits)
  with assms show ?thesis
    unfolding normalize_external_metadata_def Let_def invalid_external_def
    by (auto simp: app entry stage_entries_Cons split: if_splits option.splits)
qed

lemma stage_inv_begin:
  assumes "writes env jn rs op Begin r"
  shows "stage_inv [(Begin, r)]"
proof -
  obtain h native external where r: "r = begin_record env h native external"
    "\<And>e. external = Some e \<Longrightarrow> \<exists>raw. normalize_external_metadata raw = Inr e"
    using assms by (cases rule: writes.cases) blast
  have ext: "record_external r = (case external of None \<Rightarrow> [] | Some e \<Rightarrow> e)"
    by (simp add: r(1) begin_record_def record_external_def get_dict_def lookup_append native_protocol_def split: option.splits)
  have "may_stage (record_external r) \<or> no_may (record_external r)"
  proof (cases external)
    case (Some e)
    then obtain s where "stage_entries e = {JStr s}" using r(2) normalized_stage by blast
    with Some ext show ?thesis by (auto simp: may_stage_def no_may_def)
  qed (simp add: ext)
  then show ?thesis by (auto simp: stage_inv_def marked_def begin_of_def)
qed

lemma stage_inv_compact:
  assumes "stage_inv i"
  shows "stage_inv (compact_item i)" "marked (compact_item i) = marked i" "begin_of (compact_item i) = begin_of i"
proof -
  show m: "marked (compact_item i) = marked i" and "begin_of (compact_item i) = begin_of i"
    by (simp_all add: marked_def begin_of_def previous_checkpoint_def map_of_compact_item kept_kinds_def)
  show "stage_inv (compact_item i)"
    using assms unfolding stage_inv_def m map_of_compact_item by (auto split: if_splits)
qed

definition all_staged :: "dict list \<Rightarrow> bool" where
  "all_staged rs \<longleftrightarrow> (\<forall>op i. item_of rs op = Some i \<longrightarrow> stage_inv i)"

lemma item_of_retained:
  "item_of (retained_records env jn rs) op =
     (case item_of rs op of
        None \<Rightarrow> None
      | Some i \<Rightarrow> if retains (allowed_terminal env jn (state_of rs)) (op, i) then Some (compact_item i) else None)"
proof -
  have "map_of (compact_state allowed st) op = (case map_of st op of None \<Rightarrow> None
      | Some i \<Rightarrow> if retains allowed (op, i) then Some (compact_item i) else None)" if "distinct (map fst st)" for allowed st
    using that unfolding compact_state_def
  proof (induction st)
    case (Cons x st)
    obtain q j where x: "x = (q, j)" by (cases x)
    have "map_of st op = None" if "q = op" using Cons.prems x that by (simp add: map_of_eq_None_iff)
    with Cons x show ?case by (auto split: option.splits)
  qed simp
  then show ?thesis unfolding item_of_def state_of_retained by (simp add: state_keys_distinct)
qed

text \<open>One step keeps the invariant, and an operation that was marked is still marked, unless
  compaction dropped it after its outcome.\<close>

lemma staged_append:
  assumes "writes env jn rs p k r" "all_staged rs"
  shows "all_staged (rs @ [r])"
    "item_of rs op = Some i \<Longrightarrow> marked i \<Longrightarrow>
      \<exists>j. item_of (rs @ [r]) op = Some j \<and> marked j \<and> begin_of j = begin_of i"
proof -
  show "all_staged (rs @ [r])" unfolding all_staged_def
  proof (intro allI impI)
    fix q j
    assume j: "item_of (rs @ [r]) q = Some j"
    show "stage_inv j"
    proof (cases "q = p \<and> k \<noteq> Begin")
      case True
      then obtain i where i: "item_of rs p = Some i" "j = AList.update k r i"
        using j item_after_write [OF assms(1), of q] by (cases "item_of rs p") auto
      then have "stage_inv i" using assms(2) by (simp add: all_staged_def)
      from stage_inv_update(1) [OF this writes_carries [OF assms(1) _ i(1)]] True i(2) show ?thesis by simp
    next
      case False
      then consider "q \<noteq> p" | "q = p" "k = Begin" by auto
      then show ?thesis
      proof cases
        case 1
        then show ?thesis using j assms(2) item_after_write [OF assms(1), of q] by (simp add: all_staged_def)
      next
        case 2
        then show ?thesis using j stage_inv_begin item_after_write [OF assms(1), of q] assms(1) by auto
      qed
    qed
  qed
  assume i: "item_of rs op = Some i" "marked i"
  show "\<exists>j. item_of (rs @ [r]) op = Some j \<and> marked j \<and> begin_of j = begin_of i"
  proof (cases "op = p")
    case False
    then show ?thesis using i item_after_write [OF assms(1), of op] by simp
  next
    case True
    then have k: "k \<noteq> Begin" using i writes_Begin(1) [of env jn rs p r] assms(1) by auto
    have "stage_inv i" using assms(2) i by (simp add: all_staged_def)
    from stage_inv_update(2) [OF this writes_carries [OF assms(1) k] k i(2)] i True k
    show ?thesis using item_after_write [OF assms(1), of op] begin_of_update [OF k] by simp
  qed
qed

lemma staged_step:
  assumes "journal_step L W rs rs'" "all_staged rs"
  shows "all_staged rs'"
    "item_of rs op = Some i \<Longrightarrow> marked i \<Longrightarrow>
      (\<exists>j. item_of rs' op = Some j \<and> marked j \<and> begin_of j = begin_of i) \<or> item_of rs' op = None \<and> \<not> unresolved_item i"
proof -
  have compact: "stage_inv (compact_item i)" "marked (compact_item i) = marked i" "begin_of (compact_item i) = begin_of i"
    if "item_of rs op = Some i" for op i
    using stage_inv_compact assms(2) that by (auto simp: all_staged_def)
  show "all_staged rs'"
    using assms(1)
  proof cases
    case (step_append env jn p k r)
    then show ?thesis using staged_append(1) assms(2) by simp
  next
    case (step_compact env jn)
    then show ?thesis
      unfolding all_staged_def step_compact item_of_retained using compact(1)
      by (auto split: option.splits if_splits)
  qed
  assume i: "item_of rs op = Some i" "marked i"
  show "(\<exists>j. item_of rs' op = Some j \<and> marked j \<and> begin_of j = begin_of i) \<or> item_of rs' op = None \<and> \<not> unresolved_item i"
    using assms(1)
  proof cases
    case (step_append env jn p k r)
    then show ?thesis using staged_append(2) [OF _ assms(2) i] by simp
  next
    case (step_compact env jn)
    then show ?thesis
      using i compact(2,3) [OF i(1)] unresolved_retained [of i] by (auto simp: item_of_retained)
  qed
qed

end
