(* ===== verification/Journal_Properties.thy ===== *)
theory Journal_Properties
  imports Journal_Calls Journal_Dispatch
begin

text \<open>
  The journal as a shared file: any runtimes call its methods in any order, and each may crash
  inside an append. The properties hold in every file that can arise.
\<close>

inductive journal_call :: "nat \<Rightarrow> nat \<Rightarrow> jfile \<Rightarrow> jfile \<Rightarrow> bool" for L W :: nat where
  call_configure: "configure env has_path runtime jn f = Inr (jn', f') \<Longrightarrow> sized L W jn \<Longrightarrow> journal_call L W f f'"
| call_begin: "begin_operation env t target external native jn f = Inr (h, jn', f') \<Longrightarrow> sized L W jn \<Longrightarrow>
    item_of (load f) (ev_uuid env) = None \<Longrightarrow> journal_call L W f f'"
| call_dispatch: "checkpoint_external_dispatch env ho jn f = Inr (jn', f') \<Longrightarrow> sized L W jn \<Longrightarrow> journal_call L W f f'"
| call_not_dispatched: "finish_not_dispatched env ho reason jn f = Inr (jn', f') \<Longrightarrow> sized L W jn \<Longrightarrow> journal_call L W f f'"
| call_uncertain: "mark_uncertain env ho reason receipt jn f = Inr (jn', f') \<Longrightarrow> sized L W jn \<Longrightarrow> journal_call L W f f'"
| call_native: "checkpoint_native_uia env ho uia stage jn f = Inr (jn', f') \<Longrightarrow> sized L W jn \<Longrightarrow> journal_call L W f f'"
| call_postcondition: "checkpoint_postcondition env ho pc jn f = Inr (jn', f') \<Longrightarrow> sized L W jn \<Longrightarrow> journal_call L W f f'"
| call_workspace: "checkpoint_workspace_edit env ho files stage jn f = Inr (jn', f') \<Longrightarrow> sized L W jn \<Longrightarrow> journal_call L W f f'"
| call_finish: "finish env ho known pco outcome receipt jn f = Inr (jn', f') \<Longrightarrow> sized L W jn \<Longrightarrow> journal_call L W f f'"
| call_finish_returned: "finish_returned env ho result jn f = (out, jn', f') \<Longrightarrow> sized L W jn \<Longrightarrow> journal_call L W f f'"
| call_acknowledge: "acknowledge env op state evidence jn f = Inr (view, jn', f') \<Longrightarrow> sized L W jn \<Longrightarrow> journal_call L W f f'"
| call_reconcile: "record_reconciliation env op state post e jn f = Inr (view, jn', f') \<Longrightarrow> sized L W jn \<Longrightarrow> journal_call L W f f'"
| call_compact: "compact env jn f = Inr (jn', f') \<Longrightarrow> journal_call L W f f'"
| call_recover_some: "state_of (load f) = xs @ ys \<Longrightarrow> sized L W jn \<Longrightarrow> jn_enabled jn \<Longrightarrow>
    append_all (concat (map (recovery_record env jn) xs)) jn f = Inr (jn', f') \<Longrightarrow> journal_call L W f f'"
| call_torn: "journal_call L W f (Some (end_line (lines_of f) @ [Bad]))"
| call_cut: "writes env jn (load f) op k r \<Longrightarrow> sized L W jn \<Longrightarrow>
    journal_call L W f (Some (end_line (lines_of f) @ [Cut (JObj r)]))"

text \<open>\<open>call_recover_some\<close> is a start that fails halfway through its recovery; \<open>call_torn\<close> and \<open>call_cut\<close>
  are appends a crash cut off, within the record or just before its newline.\<close>

lemma load_torn: "load (Some (end_line (lines_of f) @ [Bad])) = load f"
  by (cases f) (simp_all add: load_def lines_of_def concat_records_end_line records_of_line_def)

lemma load_cut: "current_schema r \<Longrightarrow> load (Some (end_line (lines_of f) @ [Cut (JObj r)])) = load f @ [r]"
  by (cases f) (simp_all add: load_def lines_of_def concat_records_end_line records_of_line_def record_of_json_def)

lemma compact_disabled: "compact env jn f = Inr (jn', f') \<Longrightarrow> \<not> jn_enabled jn \<Longrightarrow> f' = f"
  by (simp add: compact_def)

text \<open>Every method call is a run of the record model.\<close>

lemma journal_call_steps:
  assumes "journal_call L W f f'" "journal_inv L (load f)"
  shows "journal_steps L W f f'"
  using assms
proof (induction rule: journal_call.induct)
  case (call_compact env jn f jn' f')
  then show ?case using compact_step compact_disabled by (metis rtranclp.rtrancl_refl r_into_rtranclp)
next
  case (call_recover_some f xs ys jn env jn' f')
  have "current_schema r" if r: "r \<in> set (concat (map (recovery_record env jn) xs))" for r
  proof -
    obtain op i where i: "(op, i) \<in> set (state_of (load f))" "r \<in> set (recovery_record env jn (op, i))"
      using r call_recover_some(1) by auto
    show ?thesis by (rule recovery_record_shape(1) [OF _ i(2)]) (use i(1) in \<open>simp add: in_state_of\<close>)
  qed
  then have "load f' = load f @ concat (map (recovery_record env jn) xs)"
    using append_all_load(1) [OF call_recover_some(4,3)] by blast
  with recover_prefix_steps [OF call_recover_some(1,2)] show ?case by simp
next
  case (call_torn f)
  then show ?case by (simp add: load_torn)
next
  case (call_cut env jn f op k r)
  then have "journal_step L W (load f) (load f @ [r])" by (intro step_append [of env jn]) (simp_all add: sized_def)
  then show ?case using writes_shaped [OF call_cut(1)] by (simp add: load_cut shaped_def)
qed (blast intro: configure_steps begin_operation_steps dispatch_steps not_dispatched_steps uncertain_steps native_steps
    postcondition_steps workspace_steps finish_steps finish_returned_steps acknowledge_steps reconcile_steps)+

lemma steps_inv: "(journal_step L W)\<^sup>*\<^sup>* rs rs' \<Longrightarrow> journal_inv L rs \<Longrightarrow> journal_inv L rs'"
  by (induction rule: rtranclp_induct) (auto intro: journal_inv_step)

lemma steps_reach:
  "(journal_step L W)\<^sup>*\<^sup>* rs rs' \<Longrightarrow> reach (\<lambda>rs. rs = []) (journal_step L W) rs \<Longrightarrow> reach (\<lambda>rs. rs = []) (journal_step L W) rs'"
  by (induction rule: rtranclp_induct) (auto intro: reach_step)

abbreviation journal_reach :: "nat \<Rightarrow> nat \<Rightarrow> jfile \<Rightarrow> bool" where
  "journal_reach L W \<equiv> reach (\<lambda>f. f = None) (journal_call L W)"

lemma reach_inv_file: "journal_reach L W f \<Longrightarrow> journal_inv L (load f)"
proof (erule reach_invariant)
  show "journal_inv L (load f)" if "f = None" for f using that by (simp add: load_def journal_inv_start)
  show "journal_inv L (load f')" if "journal_inv L (load f)" "journal_call L W f f'" for f f'
    using steps_inv [OF journal_call_steps [OF that(2,1)] that(1)] .
qed

lemma reach_records: "journal_reach L W f \<Longrightarrow> reach (\<lambda>rs. rs = []) (journal_step L W) (load f)"
proof (induction rule: reach.induct)
  case (reach_start f)
  then show ?case by (auto simp: load_def intro: reach.reach_start)
next
  case (reach_step f f')
  then show ?case using steps_reach journal_call_steps reach_inv_file by blast
qed

text \<open>C28. The journal keeps its budgets: in every file that any runtimes can produce, at most \<open>L\<close> external
  operations and at most \<open>W\<close> workspace edits with evidence wait for an outcome, however their calls
  and crashes interleave; and the streaming scan that admits external operations never misjudges:
  it does not fail and its count is the number of open external operations.\<close>

theorem journal_budgets:
  assumes "journal_reach L W f"
  shows "count_items is_unresolved_external (state_of (load f)) \<le> int L \<and>
    count_items holds_evidence (state_of (load f)) \<le> int W \<and>
    (jn_enabled jn \<and> jn_max_unresolved_external jn = int L \<and> f \<noteq> None \<longrightarrow>
      unresolved_external_count jn f = Inr (count_items is_unresolved_external (state_of (load f))))"
proof -
  note r = reach_records [OF assms]
  have "read_state (int L) None True (load f) [] = Inr (open_external (state_of (load f)))"
    using reach_inv_file [OF assms] by (intro admission_scan) (simp_all add: journal_inv_def)
  then show ?thesis
    using open_externals.reach_load [OF r] open_edits.reach_load [OF r]
    by (simp add: unresolved_external_count_def count_open_external)
qed

definition journal_ex_env :: env where
  "journal_ex_env =
     \<lparr>ev_available = True, ev_now = ''t0'', ev_time = 0, ev_parse = (\<lambda>_. None), ev_resolve = Some,
      ev_float_ok = (\<lambda>_. True), ev_pid = 7, ev_uuid = ''op1''\<rparr>"

definition journal_ex_journal :: "string \<Rightarrow> journal" where
  "journal_ex_journal runtime =
     \<lparr>jn_enabled = True, jn_runtime_id = runtime, jn_record_count = 0, jn_next_compact_at = 10, jn_max_unresolved_external = 1,
      jn_max_unresolved_workspace = 1, jn_max_external_terminal_history = 10, jn_max_external_terminal_days = 30\<rparr>"

definition journal_ex_metadata :: dict where
  "journal_ex_metadata =
     [(''extension_id'', JStr ''g''), (''remote_name'', JStr ''p''), (''public_name'', JStr ''external.g.p''),
      (''provider'', JStr ''x''), (''catalog_generation'', JInt 1),
      (''schema_fingerprint'', JStr (replicate 64 (CHR ''a''))), (''mutation_class'', JStr ''remote_mutation'')]"

definition file_after :: "('a \<times> journal \<times> jfile) res \<Rightarrow> jfile" where
  "file_after r = (case r of Inl _ \<Rightarrow> None | Inr (x, jn, f) \<Rightarrow> f)"

definition journal_ex_file :: jfile where
  "journal_ex_file =
     file_after (begin_operation journal_ex_env ''git_push'' None (Some journal_ex_metadata) False (journal_ex_journal ''r1'') None)"

lemma journal_ex_begin:
  "\<exists>h jn. begin_operation journal_ex_env ''git_push'' None (Some journal_ex_metadata) False (journal_ex_journal ''r1'') None = Inr (h, jn, journal_ex_file)"
proof -
  let ?b = "begin_operation journal_ex_env ''git_push'' None (Some journal_ex_metadata) False (journal_ex_journal ''r1'') None"
  have "\<not> is_error ?b" by code_simp
  then show ?thesis by (cases ?b) (auto simp: journal_ex_file_def file_after_def split: prod.splits)
qed

lemma journal_ex_sized: "sized 1 1 (journal_ex_journal r)"
  by (simp add: sized_def journal_ex_journal_def)

lemma begun_reach: "journal_reach 1 1 journal_ex_file"
proof -
  obtain h jn where b: "begin_operation journal_ex_env ''git_push'' None (Some journal_ex_metadata) False (journal_ex_journal ''r1'') None
      = Inr (h, jn, journal_ex_file)"
    using journal_ex_begin by blast
  have "journal_call 1 1 None journal_ex_file"
    by (rule call_begin [OF b journal_ex_sized]) (simp add: load_def item_of_def state_of_def)
  with reach_start [of "\<lambda>f. f = None" None "journal_call 1 1"] show ?thesis by (rule reach_step) simp
qed

theorem journal_budgets_witness:
  "journal_reach 1 1 journal_ex_file \<and> count_items is_unresolved_external (state_of (load journal_ex_file)) = 1 \<and>
   unresolved_external_count (journal_ex_journal ''r2'') journal_ex_file = Inr 1"
proof -
  have one: "count_items is_unresolved_external (state_of (load journal_ex_file)) = 1" by code_simp
  have "journal_ex_file \<noteq> None" by code_simp
  then show ?thesis
    using journal_budgets [OF begun_reach, of "journal_ex_journal ''r2''"] one begun_reach by (simp add: journal_ex_journal_def)
qed

subsection \<open>No dispatch is forgotten\<close>

lemma steps_staged:
  assumes "(journal_step L W)\<^sup>*\<^sup>* rs rs'" "all_staged rs"
  shows "all_staged rs'"
  using assms by (induction rule: rtranclp_induct) (auto intro: staged_step(1))

lemma reach_staged: "journal_reach L W f \<Longrightarrow> all_staged (load f)"
proof (induction rule: reach.induct)
  case (reach_start f)
  then show ?case by (simp add: load_def all_staged_def item_of_def state_of_def)
next
  case (reach_step f f')
  then show ?case using steps_staged journal_call_steps reach_inv_file by blast
qed

text \<open>What the merged metadata of an operation say about its dispatch, as every method reads it.\<close>

definition external_stage :: "item \<Rightarrow> string option" where
  "external_stage i = (case merged_external_metadata i of None \<Rightarrow> None | Some m \<Rightarrow> stage_of m)"

lemma no_may_stage: "no_may d \<Longrightarrow> stage_of d \<noteq> Some ''may_dispatch''"
  by (auto simp: no_may_def stage_entries_def stage_of_def get_str_def lookup_def dest: map_of_SomeD
      split: option.splits json.splits)

lemma external_stage_marked:
  assumes "stage_inv i"
  shows "external_stage i = Some ''may_dispatch'' \<longleftrightarrow> marked i \<and> get_dict ''external'' (begin_of i) \<noteq> None"
proof
  assume stage: "external_stage i = Some ''may_dispatch''"
  then obtain m where m: "merged_external_metadata i = Some m" "stage_of m = Some ''may_dispatch''"
    by (auto simp: external_stage_def split: option.splits)
  then have "\<not> (\<forall>k r. map_of i k = Some r \<longrightarrow> no_may (record_external r))"
    using merged_unmarked no_may_stage by blast
  then show "marked i \<and> get_dict ''external'' (begin_of i) \<noteq> None"
    using assms m merged_None [of i] by (auto simp: stage_inv_def)
next
  assume "marked i \<and> get_dict ''external'' (begin_of i) \<noteq> None"
  then have "dispatched i" using marked_dispatched [OF assms] merged_None [of i] by simp
  then show "external_stage i = Some ''may_dispatch''"
    by (auto simp: dispatched_def external_stage_def may_stage_of split: option.splits)
qed

lemma not_dispatched_refused:
  assumes "item_of (load f) (hd_operation_id h) = Some i" "external_stage i = Some ''may_dispatch''"
  shows "is_error (finish_not_dispatched env (Some h) reason jn f)"
proof (cases "jn_enabled jn \<and> ev_available env")
  case True
  then show ?thesis
    using assms current_item_eq [of jn env "hd_operation_id h" f]
    by (auto simp: finish_not_dispatched_def external_stage_def tool_error_def invalid_external_def split: option.splits)
next
  case False
  then show ?thesis
    by (auto simp: finish_not_dispatched_def current_item_def transaction_def unavailable_def tool_error_def
        invalid_external_def)
qed


definition journal_ex_handle :: handle where
  "journal_ex_handle =
     \<lparr>hd_operation_id = ''op1'', hd_runtime_id = ''r1'', hd_operation_type = ''git_push'', hd_target = None,
      hd_started_at = ''t0''\<rparr>"

definition dispatched_file :: jfile where
  "dispatched_file =
     (case checkpoint_external_dispatch journal_ex_env (Some journal_ex_handle) (journal_ex_journal ''r1'') journal_ex_file of
        Inl _ \<Rightarrow> None | Inr (jn, f) \<Rightarrow> f)"

lemma dispatched_reach: "journal_reach 1 1 dispatched_file"
proof -
  let ?c = "checkpoint_external_dispatch journal_ex_env (Some journal_ex_handle) (journal_ex_journal ''r1'') journal_ex_file"
  have "\<not> is_error ?c" by code_simp
  then obtain jn where "?c = Inr (jn, dispatched_file)"
    by (cases ?c) (auto simp: dispatched_file_def)
  from call_dispatch [OF this journal_ex_sized] begun_reach show ?thesis by (rule reach_step [rotated])
qed


text \<open>A file with one operation that a runtime began and did not finish.\<close>

definition begun_file :: jfile where
  "begun_file = Some [Line (JObj (begin_record journal_ex_env journal_ex_handle False None))]"


end
