(* ===== verification/Journal_Invalid.thy ===== *)
theory Journal_Invalid
  imports Journal_Properties
begin

text \<open>
  Journals that no start accepts. The strict reader of \<open>configure\<close>, \<open>compact\<close> and
  \<open>protected_workspace_backups\<close> refuses a record in the wrong place; two methods of the journal can
  put one there.
\<close>

subsection \<open>What the strict reader has seen\<close>

definition outcome_record :: "dict \<Rightarrow> bool" where
  "outcome_record r \<longleftrightarrow> kind_of r \<in> {Some Result, Some Reconciliation, Some Acknowledged}"

definition misplaced :: "dict list \<Rightarrow> dict \<Rightarrow> bool" where
  "misplaced rs r \<longleftrightarrow>
     (\<exists>op k. op_of r = Some op \<and> kind_of r = Some k \<and>
       (k = Checkpoint \<and> (\<exists>x\<in>set rs. outcome_record x \<and> op_of x = Some op) \<or>
        k \<noteq> Begin \<and> \<not> (\<exists>x\<in>set rs. kind_of x = Some Begin \<and> op_of x = Some op)))"

definition poisoned :: "dict list \<Rightarrow> bool" where
  "poisoned rs \<longleftrightarrow> (\<forall>env. is_error (validate_workspace_records env rs))"

lemma validate_record_scan:
  assumes "validate_record env r sc = Inr sc'"
  obtains op where "op_of r = Some op"
    "set (sc_known sc') = set (sc_known sc) \<union> (if kind_of r = Some Begin then {op} else {})"
    "set (sc_terminal sc') = set (sc_terminal sc) \<union> (if outcome_record r then {op} else {})"
  using assms
  by (auto simp: validate_record_def invalid_journal_def Let_def outcome_record_def split: option.splits if_splits)

lemma validate_from_append:
  "validate_from env (xs @ ys) sc = bind_res (validate_from env xs sc) (validate_from env ys)"
proof (induction xs arbitrary: sc)
  case (Cons x xs)
  then show ?case by (cases "validate_record env x sc") simp_all
qed simp

lemma validate_from_scan:
  assumes "validate_from env rs sc = Inr sc'"
  shows "set (sc_known sc') = set (sc_known sc) \<union> {op. \<exists>x\<in>set rs. kind_of x = Some Begin \<and> op_of x = Some op} \<and>
    set (sc_terminal sc') = set (sc_terminal sc) \<union> {op. \<exists>x\<in>set rs. outcome_record x \<and> op_of x = Some op}"
  using assms
proof (induction rs arbitrary: sc)
  case (Cons r rs)
  then obtain mid where mid: "validate_record env r sc = Inr mid" "validate_from env rs mid = Inr sc'"
    by (auto simp: bind_res_Inr)
  from mid(1) show ?case
  proof (rule validate_record_scan)
    fix op
    assume "op_of r = Some op"
      "set (sc_known mid) = set (sc_known sc) \<union> (if kind_of r = Some Begin then {op} else {})"
      "set (sc_terminal mid) = set (sc_terminal sc) \<union> (if outcome_record r then {op} else {})"
    with Cons.IH [OF mid(2)] show ?thesis by auto
  qed
qed simp

lemma misplaced_poisons:
  assumes "misplaced rs r"
  shows "poisoned (rs @ [r])"
  unfolding poisoned_def
proof
  fix env
  let ?start = "\<lparr>sc_known = [], sc_evidence = [], sc_terminal = []\<rparr>"
  show "is_error (validate_workspace_records env (rs @ [r]))"
  proof (cases "validate_from env rs ?start")
    case (Inr sc)
    have "is_error (validate_record env r sc)"
      using assms validate_from_scan [OF Inr]
      by (auto simp: misplaced_def validate_record_def invalid_journal_def Let_def)
    then show ?thesis
      by (cases "validate_record env r sc") (simp_all add: validate_workspace_records_def validate_from_append Inr)
  qed (simp add: validate_workspace_records_def validate_from_append)
qed

lemma poisoned_append: "poisoned rs \<Longrightarrow> poisoned (rs @ ys)"
  unfolding poisoned_def
proof
  fix env
  assume "\<forall>env. is_error (validate_workspace_records env rs)"
  then have "is_error (validate_workspace_records env rs)" ..
  then show "is_error (validate_workspace_records env (rs @ ys))"
    by (cases "validate_from env rs \<lparr>sc_known = [], sc_evidence = [], sc_terminal = []\<rparr>")
       (simp_all add: validate_workspace_records_def validate_from_append)
qed

text \<open>Nothing repairs such a journal: it is only appended to, since a compaction refuses it too.\<close>

lemma poisoned_step: "journal_step L W rs rs' \<Longrightarrow> poisoned rs \<Longrightarrow> poisoned rs'"
proof (induction rule: journal_step.induct)
  case (step_append env jn rs op k r)
  then show ?case by (simp add: poisoned_append)
next
  case (step_compact env rs jn)
  from step_compact(2) have "is_error (validate_workspace_records env rs)" by (simp add: poisoned_def)
  with step_compact(1) show ?case by simp
qed

lemma poisoned_steps: "(journal_step L W)\<^sup>*\<^sup>* rs rs' \<Longrightarrow> poisoned rs \<Longrightarrow> poisoned rs'"
  by (induction rule: rtranclp_induct) (auto intro: poisoned_step)

lemma poisoned_calls:
  assumes "(journal_call L W)\<^sup>*\<^sup>* f f'" "journal_reach L W f" "poisoned (load f)"
  shows "poisoned (load f') \<and> journal_reach L W f'"
  using assms
proof (induction rule: rtranclp_induct)
  case (step g g')
  then have g: "poisoned (load g)" "journal_reach L W g" by simp_all
  from journal_call_steps [OF step(2) reach_inv_file [OF g(2)]] g step(2) show ?case
    by (auto intro: poisoned_steps reach_step)
qed simp

lemma poisoned_refused:
  assumes "poisoned (load f)"
  shows "runtime \<noteq> [] \<Longrightarrow> is_error (configure env True runtime jn f)" "jn_enabled jn \<Longrightarrow> is_error (compact env jn f)"
proof -
  have some: "f \<noteq> None"
    using assms by (cases f) (simp_all add: poisoned_def load_def validate_workspace_records_def)
  have strict: "is_error (bind_res (load_strict f) (\<lambda>rs. bind_res (validate_workspace_records env rs) (g rs)))" for g :: "dict list \<Rightarrow> unit \<Rightarrow> 'x res"
  proof (cases "load_strict f")
    case (Inr rs)
    with assms load_strict_load [OF Inr] have "is_error (validate_workspace_records env rs)" by (simp add: poisoned_def)
    with Inr show ?thesis by (cases "validate_workspace_records env rs") simp_all
  qed simp
  have bind: "is_error x \<Longrightarrow> is_error (bind_res x g)" for x :: "'c res" and g :: "'c \<Rightarrow> 'd res" by (cases x) simp_all
  show "is_error (configure env True runtime jn f)" if "runtime \<noteq> []"
    using that some strict [of "\<lambda>rs _. Inr rs"]
    by (auto simp: configure_def Let_def transaction_def unavailable_def intro!: bind)
  show "is_error (compact env jn f)" if "jn_enabled jn"
    using that some strict by (auto simp: compact_def unavailable_def)
qed

subsection \<open>The writes that do it\<close>

lemma commit_poisoned:
  assumes "writes env jn (load f) op k r" "jn_enabled jn" "commit env r jn f = Inr (jn', f')" "misplaced (load f) r"
  shows "poisoned (load f')"
proof -
  obtain jn1 f1 where one: "append_record r jn f = Inr (jn1, f1)" "maybe_compact env (jn1, f1) = (jn', f')"
    using assms(3) by (auto simp: commit_def bind_res_Inr)
  have enabled: "jn_enabled jn1" using one(1) assms(2) by (auto simp: append_record_def split: if_splits)
  have "load f1 = load f @ [r]"
    using append_record_load [OF one(1) assms(2)] writes_shaped [OF assms(1)] by (simp add: shaped_def)
  with misplaced_poisons [OF assms(4)] have p: "poisoned (load f1)" by simp
  then have "f' = f1" using one(2) poisoned_refused(2) [OF p enabled, of env]
    by (auto simp: maybe_compact_def split: if_splits sum.splits)
  with p show ?thesis by simp
qed

lemma outcome_in_records:
  assumes "item_of rs op = Some i" "has k i"
  shows "\<exists>x\<in>set rs. kind_of x = Some k \<and> op_of x = Some op"
proof -
  obtain r where r: "(k, r) \<in> set i" using assms(2) by (auto simp: has_def dest: map_of_SomeD)
  moreover have "kind_of r = Some k" "op_of r = Some op" using item_of_ok [OF assms(1)] r by (auto simp: item_ok_def)
  ultimately show ?thesis using state_record_in [OF assms(1)] by blast
qed

lemma no_item_no_begin: "item_of rs op = None \<Longrightarrow> x \<in> set rs \<Longrightarrow> kind_of x = Some Begin \<Longrightarrow> op_of x \<noteq> Some op"
proof (induction rs rule: rev_induct)
  case (snoc y rs)
  then show ?case
    by (cases "item_of rs op") (auto simp: item_of_snoc item_step_def split: option.splits if_splits record_kind.splits)
qed simp

lemma late_checkpoint_poisons:
  assumes "checkpoint_postcondition env (Some h) post jn f = Inr (jn', f')" "f' \<noteq> f"
    "item_of (load f) (hd_operation_id h) = Some i" "has Acknowledged i \<or> has Reconciliation i"
  shows "poisoned (load f')"
  using assms(1,2)
proof (rule postcondition_write)
  fix j b
  let ?r = "merge (previous_checkpoint j) (checkpoint_base env h @ [(''postcondition'', JObj b)])"
  assume w: "jn_enabled jn" "writes env jn (load f) (hd_operation_id h) Checkpoint ?r" "commit env ?r jn f = Inr (jn', f')"
  have "\<exists>x\<in>set (load f). outcome_record x \<and> op_of x = Some (hd_operation_id h)"
    using outcome_in_records [OF assms(3)] assms(4) by (auto simp: outcome_record_def)
  then have "misplaced (load f) ?r" using writes_shaped [OF w(2)] by (auto simp: misplaced_def shaped_def)
  from commit_poisoned [OF w(2,1,3) this] show ?thesis .
qed

lemma orphan_result_poisons:
  assumes "finish env (Some h) known post outcome receipt jn f = Inr (jn', f')" "jn_enabled jn"
    "item_of (load f) (hd_operation_id h) = None"
  shows "poisoned (load f')"
proof -
  let ?r = "finish_result env h known post outcome receipt None"
  have c: "commit env ?r jn f = Inr (jn', f')"
    using assms unfolding finish_def Let_def invalid_external_def
    by (auto simp: bind_res_Inr workspace_edit_metadata_def native_uia_metadata_def dest: current_item_Inr(3) split: if_splits)
  have w: "writes env jn (load f) (hd_operation_id h) Result ?r"
    using w_finish [of "load f" h env jn known post outcome receipt] assms(3) by simp
  then have "misplaced (load f) ?r"
    using writes_shaped [OF w] no_item_no_begin [OF assms(3)] by (auto simp: misplaced_def shaped_def)
  from commit_poisoned [OF w assms(2) c this] show ?thesis .
qed


subsection \<open>An example\<close>

text \<open>An operator acknowledges an operation that is still running, which then records its postcondition.\<close>

definition acknowledged_file :: jfile where
  "acknowledged_file =
     Some [Line (JObj (begin_record journal_ex_env journal_ex_handle False None)),
           Line (JObj (terminal_base journal_ex_env (journal_ex_journal ''r1'') Acknowledged ''op1'' ACKNOWLEDGED @
             [(''evidence'', evidence_json \<lparr>evi_source = ''o'', evi_data = [(''k'', JInt 1)]\<rparr>)]))]"

definition file_postcondition :: dict where
  "file_postcondition =
     [(''kind'', JStr ''file_sha256''),
      (''expected'', JObj [(''path'', JStr ''f''), (''sha256'', JStr (replicate 64 (CHR ''a'')))])]"

abbreviation late_checkpoint :: "(journal \<times> jfile) res" where
  "late_checkpoint \<equiv> checkpoint_postcondition journal_ex_env (Some journal_ex_handle) file_postcondition
     (journal_ex_journal ''r1'') acknowledged_file"

lemma acknowledged_reach: "journal_reach 1 1 acknowledged_file"
proof -
  let ?b = "begin_operation journal_ex_env ''git_push'' None None False (journal_ex_journal ''r1'') None"
  let ?a = "acknowledge journal_ex_env ''op1'' ACKNOWLEDGED (Some \<lparr>evi_source = ''o'', evi_data = [(''k'', JInt 1)]\<rparr>)
    (journal_ex_journal ''r1'') begun_file"
  have "\<not> is_error ?b" "file_after ?b = begun_file" by code_simp+
  then obtain h jn where b: "?b = Inr (h, jn, begun_file)" by (cases ?b) (auto simp: file_after_def)
  have "journal_call 1 1 None begun_file"
    by (rule call_begin [OF b journal_ex_sized]) (simp add: load_def item_of_def state_of_def)
  with reach_start [of "\<lambda>f. f = None" None "journal_call 1 1"] have begun: "journal_reach 1 1 begun_file"
    by (rule reach_step) simp
  have "\<not> is_error ?a" "file_after ?a = acknowledged_file" by code_simp+
  then obtain v jn' where "?a = Inr (v, jn', acknowledged_file)" by (cases ?a) (auto simp: file_after_def)
  from call_acknowledge [OF this journal_ex_sized] show ?thesis by (rule reach_step [OF begun])
qed


end
