(* ===== verification/Resource_Locks.thy ===== *)
theory Resource_Locks
  imports Prelude
begin

text \<open>
  The process-local locks of \<open>core/resource_locks.py\<close>. \<open>ResourceLocks.sync\<close> registers its keys in a
  table of reentrant locks with user counts, takes the locks in the order of the keys, runs the
  body, gives the locks back and drops the table entries nobody uses any more. Threads interleave
  between all these steps; a \<open>with self._guard\<close> block is one step. The canonical form of a path and
  the order of steps are arbitrary.
\<close>

subsection \<open>The table of locks\<close>

record registry =
  rg_entries :: "string \<rightharpoonup> nat \<times> int"
  rg_next :: nat

text \<open>\<open>self._entries.get(key, (threading.RLock(), 0))\<close> makes a lock object also when it is not needed;
  \<open>rg_next\<close> numbers the lock objects.\<close>

definition register_key :: "string \<Rightarrow> registry \<Rightarrow> nat \<times> registry" where
  "register_key key g =
     (let (lock, users) = (case rg_entries g key of None \<Rightarrow> (rg_next g, 0) | Some e \<Rightarrow> e)
      in (lock, g\<lparr>rg_entries := (rg_entries g)(key \<mapsto> (lock, users + 1)), rg_next := Suc (rg_next g)\<rparr>))"

fun register_keys :: "string list \<Rightarrow> registry \<Rightarrow> (string \<times> nat) list \<times> registry" where
  "register_keys [] g = ([], g)"
| "register_keys (key # keys) g =
     (let (lock, g) = register_key key g; (entries, g) = register_keys keys g in ((key, lock) # entries, g))"

definition unregister_key :: "string \<times> nat \<Rightarrow> registry \<Rightarrow> registry res" where
  "unregister_key entry g =
     (case entry of (key, lock) \<Rightarrow>
        (case rg_entries g key of
           None \<Rightarrow> Inl KeyError
         | Some (_, users) \<Rightarrow>
             Inr (if users - 1 \<noteq> 0 then g\<lparr>rg_entries := (rg_entries g)(key \<mapsto> (lock, users - 1))\<rparr>
                  else g\<lparr>rg_entries := (rg_entries g)(key := None)\<rparr>)))"

fun unregister_keys :: "(string \<times> nat) list \<Rightarrow> registry \<Rightarrow> registry res" where
  "unregister_keys [] g = Inr g"
| "unregister_keys (e # es) g = bind_res (unregister_key e g) (unregister_keys es)"

subsection \<open>Reentrant locks\<close>

type_synonym rlocks = "nat \<Rightarrow> (nat \<times> nat) option"

text \<open>A lock has an owner and a count, or is free; \<open>None\<close> of \<open>rlock_acquire\<close> means that the caller blocks.\<close>

definition rlock_acquire :: "nat \<Rightarrow> nat \<Rightarrow> rlocks \<Rightarrow> rlocks option" where
  "rlock_acquire thread lock ls =
     (case ls lock of
        None \<Rightarrow> Some (ls(lock \<mapsto> (thread, 1)))
      | Some (owner, n) \<Rightarrow> if owner = thread then Some (ls(lock \<mapsto> (owner, Suc n))) else None)"

definition rlock_release :: "nat \<Rightarrow> nat \<Rightarrow> rlocks \<Rightarrow> rlocks res" where
  "rlock_release thread lock ls =
     (case ls lock of
        None \<Rightarrow> Inl RuntimeError
      | Some (owner, n) \<Rightarrow>
          if owner \<noteq> thread then Inl RuntimeError
          else Inr (if n = 1 then ls(lock := None) else ls(lock \<mapsto> (owner, n - 1))))"

subsection \<open>Calls of sync\<close>

datatype lock_phase = Acquiring | Inside | Releasing | Gone

record lock_call =
  lc_thread :: nat
  lc_entries :: "(string \<times> nat) list"
  lc_acquired :: nat
  lc_phase :: lock_phase

record lock_state =
  ls_registry :: registry
  ls_rlocks :: rlocks
  ls_calls :: "lock_call list"

definition locks_start :: "lock_state \<Rightarrow> bool" where
  "locks_start s \<longleftrightarrow> s = \<lparr>ls_registry = \<lparr>rg_entries = Map.empty, rg_next = 0\<rparr>, ls_rlocks = (\<lambda>_. None), ls_calls = []\<rparr>"

definition sync_keys :: "(string \<Rightarrow> string) \<Rightarrow> string list \<Rightarrow> string list" where
  "sync_keys canonical paths = sort (remdups (map canonical paths))"

definition sync_enter :: "(string \<Rightarrow> string) \<Rightarrow> nat \<Rightarrow> string list \<Rightarrow> lock_state \<Rightarrow> lock_state" where
  "sync_enter canonical thread paths s =
     (let (entries, g) = register_keys (sync_keys canonical paths) (ls_registry s)
      in s\<lparr>ls_registry := g,
           ls_calls := ls_calls s @ [\<lparr>lc_thread = thread, lc_entries = entries, lc_acquired = 0, lc_phase = Acquiring\<rparr>]\<rparr>)"

definition set_call :: "nat \<Rightarrow> lock_call \<Rightarrow> lock_state \<Rightarrow> lock_state" where
  "set_call i c s = s\<lparr>ls_calls := (ls_calls s)[i := c]\<rparr>"

definition lock_at :: "lock_call \<Rightarrow> nat \<Rightarrow> nat" where
  "lock_at c n = snd (lc_entries c ! n)"

definition acquire_next :: "nat \<Rightarrow> lock_state \<Rightarrow> lock_state option" where
  "acquire_next i s =
     (let c = ls_calls s ! i in
      case rlock_acquire (lc_thread c) (lock_at c (lc_acquired c)) (ls_rlocks s) of
        None \<Rightarrow> None
      | Some ls \<Rightarrow> Some (set_call i (c\<lparr>lc_acquired := Suc (lc_acquired c)\<rparr>) (s\<lparr>ls_rlocks := ls\<rparr>)))"

definition release_last :: "nat \<Rightarrow> lock_state \<Rightarrow> lock_state res" where
  "release_last i s =
     (let c = ls_calls s ! i in
      bind_res (rlock_release (lc_thread c) (lock_at c (lc_acquired c - 1)) (ls_rlocks s)) (\<lambda>ls.
        Inr (set_call i (c\<lparr>lc_acquired := lc_acquired c - 1\<rparr>) (s\<lparr>ls_rlocks := ls\<rparr>))))"

definition sync_exit :: "nat \<Rightarrow> lock_state \<Rightarrow> lock_state res" where
  "sync_exit i s =
     (let c = ls_calls s ! i in
      bind_res (unregister_keys (lc_entries c) (ls_registry s)) (\<lambda>g.
        Inr (set_call i (c\<lparr>lc_entries := [], lc_phase := Gone\<rparr>) (s\<lparr>ls_registry := g\<rparr>))))"

text \<open>One step of a call that was entered: it takes its next lock, enters and leaves the body, gives its
  last lock back, or drops its entries.\<close>

inductive call_step :: "nat \<Rightarrow> lock_state \<Rightarrow> lock_state \<Rightarrow> bool" for i :: nat and s :: lock_state where
  cs_acquire: "i < length (ls_calls s) \<Longrightarrow> lc_phase (ls_calls s ! i) = Acquiring \<Longrightarrow>
    lc_acquired (ls_calls s ! i) < length (lc_entries (ls_calls s ! i)) \<Longrightarrow> acquire_next i s = Some s' \<Longrightarrow> call_step i s s'"
| cs_enter: "i < length (ls_calls s) \<Longrightarrow> lc_phase (ls_calls s ! i) = Acquiring \<Longrightarrow>
    lc_acquired (ls_calls s ! i) = length (lc_entries (ls_calls s ! i)) \<Longrightarrow>
    call_step i s (set_call i ((ls_calls s ! i)\<lparr>lc_phase := Inside\<rparr>) s)"
| cs_leave: "i < length (ls_calls s) \<Longrightarrow> lc_phase (ls_calls s ! i) = Inside \<Longrightarrow>
    call_step i s (set_call i ((ls_calls s ! i)\<lparr>lc_phase := Releasing\<rparr>) s)"
| cs_release: "i < length (ls_calls s) \<Longrightarrow> lc_phase (ls_calls s ! i) = Releasing \<Longrightarrow> 0 < lc_acquired (ls_calls s ! i) \<Longrightarrow>
    release_last i s = Inr s' \<Longrightarrow> call_step i s s'"
| cs_exit: "i < length (ls_calls s) \<Longrightarrow> lc_phase (ls_calls s ! i) = Releasing \<Longrightarrow> lc_acquired (ls_calls s ! i) = 0 \<Longrightarrow>
    sync_exit i s = Inr s' \<Longrightarrow> call_step i s s'"

inductive lock_step :: "(string \<Rightarrow> string) \<Rightarrow> lock_state \<Rightarrow> lock_state \<Rightarrow> bool" for canonical :: "string \<Rightarrow> string" where
  step_enter: "lock_step canonical s (sync_enter canonical thread paths s)"
| step_call: "call_step i s s' \<Longrightarrow> lock_step canonical s s'"
| step_interrupt: "i < length (ls_calls s) \<Longrightarrow> lc_phase (ls_calls s ! i) = Acquiring \<Longrightarrow>
    lock_step canonical s (set_call i ((ls_calls s ! i)\<lparr>lc_phase := Releasing\<rparr>) s)"

text \<open>\<open>step_interrupt\<close> is an exception inside \<open>acquire\<close>, such as a keyboard interrupt.\<close>

subsection \<open>Counting calls\<close>

definition calls_with :: "(lock_call \<Rightarrow> bool) \<Rightarrow> lock_state \<Rightarrow> nat set" where
  "calls_with P s = {j. j < length (ls_calls s) \<and> P (ls_calls s ! j)}"

definition uses_key :: "string \<Rightarrow> lock_call \<Rightarrow> bool" where
  "uses_key k c \<longleftrightarrow> k \<in> fst ` set (lc_entries c)"

definition holds_lock :: "nat \<Rightarrow> lock_call \<Rightarrow> bool" where
  "holds_lock l c \<longleftrightarrow> l \<in> snd ` set (take (lc_acquired c) (lc_entries c))"

lemma finite_calls [simp]: "finite (calls_with P s)"
  by (simp add: calls_with_def)

lemma calls_with_set_call:
  "i < length (ls_calls s) \<Longrightarrow>
   calls_with P (set_call i c s) = (if P c then insert i (calls_with P s) else calls_with P s - {i})"
  by (auto simp: calls_with_def set_call_def nth_list_update)

lemma calls_with_other [simp]: "calls_with P (s\<lparr>ls_rlocks := x\<rparr>) = calls_with P s" "calls_with P (s\<lparr>ls_registry := g\<rparr>) = calls_with P s"
  by (simp_all add: calls_with_def)

lemma calls_with_snoc:
  "calls_with P (s\<lparr>ls_registry := g, ls_calls := ls_calls s @ [c]\<rparr>) =
     (if P c then insert (length (ls_calls s)) (calls_with P s) else calls_with P s)"
  by (auto simp: calls_with_def nth_append less_Suc_eq)

lemma calls_with_bound: "length (ls_calls s) \<notin> calls_with P s"
  by (simp add: calls_with_def)

subsection \<open>The invariant\<close>

definition call_ok :: "registry \<Rightarrow> lock_call \<Rightarrow> bool" where
  "call_ok g c \<longleftrightarrow>
     sorted_wrt (<) (map fst (lc_entries c)) \<and> lc_acquired c \<le> length (lc_entries c) \<and>
     (lc_phase c = Inside \<longrightarrow> lc_acquired c = length (lc_entries c)) \<and> (lc_phase c = Gone \<longrightarrow> lc_entries c = []) \<and>
     (\<forall>(k, l) \<in> set (lc_entries c). \<exists>u. rg_entries g k = Some (l, u))"

definition registry_ok :: "registry \<Rightarrow> bool" where
  "registry_ok g \<longleftrightarrow>
     (\<forall>k l u. rg_entries g k = Some (l, u) \<longrightarrow> l < rg_next g) \<and>
     (\<forall>k k' l u u'. rg_entries g k = Some (l, u) \<longrightarrow> rg_entries g k' = Some (l, u') \<longrightarrow> k = k')"

definition entry_ok :: "(nat \<times> int) option \<Rightarrow> nat set \<Rightarrow> bool" where
  "entry_ok e users \<longleftrightarrow> (case e of None \<Rightarrow> users = {} | Some (l, u) \<Rightarrow> u = int (card users) \<and> 0 < u)"

definition counts_ok :: "lock_state \<Rightarrow> bool" where
  "counts_ok s \<longleftrightarrow> (\<forall>k. entry_ok (rg_entries (ls_registry s) k) (calls_with (uses_key k) s))"

definition owner_ok :: "(nat \<times> nat) option \<Rightarrow> nat set \<Rightarrow> (nat \<Rightarrow> nat) \<Rightarrow> bool" where
  "owner_ok owner holders thread \<longleftrightarrow>
     (case owner of
        None \<Rightarrow> holders = {}
      | Some (t, n) \<Rightarrow> n = card holders \<and> 0 < n \<and> (\<forall>i \<in> holders. thread i = t))"

definition thread_of :: "lock_state \<Rightarrow> nat \<Rightarrow> nat" where
  "thread_of s i = lc_thread (ls_calls s ! i)"

definition owners_ok :: "lock_state \<Rightarrow> bool" where
  "owners_ok s \<longleftrightarrow> (\<forall>l. owner_ok (ls_rlocks s l) (calls_with (holds_lock l) s) (thread_of s))"

definition locks_inv :: "lock_state \<Rightarrow> bool" where
  "locks_inv s \<longleftrightarrow>
     registry_ok (ls_registry s) \<and> (\<forall>c \<in> set (ls_calls s). call_ok (ls_registry s) c) \<and> counts_ok s \<and> owners_ok s"

subsection \<open>Registering and dropping keys\<close>

definition users_at :: "registry \<Rightarrow> string \<Rightarrow> int" where
  "users_at g k = (case rg_entries g k of None \<Rightarrow> 0 | Some (l, u) \<Rightarrow> u)"

lemma register_key_ok:
  assumes "registry_ok g" "register_key key g = (lock, g')"
  shows "registry_ok g'" "rg_entries g' = (rg_entries g)(key \<mapsto> (lock, users_at g key + 1))"
    "rg_entries g key = Some (l, u) \<Longrightarrow> l = lock"
proof -
  show e: "rg_entries g' = (rg_entries g)(key \<mapsto> (lock, users_at g key + 1))"
    and "rg_entries g key = Some (l, u) \<Longrightarrow> l = lock"
    using assms(2) by (auto simp: register_key_def users_at_def split: option.splits prod.splits)
  have "rg_next g' = Suc (rg_next g)"
    "rg_entries g key = None \<and> lock = rg_next g \<or> (\<exists>u. rg_entries g key = Some (lock, u))"
    using assms(2) by (auto simp: register_key_def split: option.splits prod.splits)
  with assms(1) e show "registry_ok g'" by (fastforce simp: registry_ok_def less_Suc_eq split: if_splits)
qed

definition registered :: "string set \<Rightarrow> (string \<times> nat) list \<Rightarrow> registry \<Rightarrow> registry \<Rightarrow> string \<Rightarrow> bool" where
  "registered K es g g' k \<longleftrightarrow>
     (if k \<in> K
      then \<exists>l. (k, l) \<in> set es \<and> rg_entries g' k = Some (l, users_at g k + 1) \<and> (\<forall>l' u. rg_entries g k = Some (l', u) \<longrightarrow> l' = l)
      else rg_entries g' k = rg_entries g k)"

lemma register_keys_ok:
  assumes "register_keys keys g = (es, g')" "registry_ok g" "distinct keys"
  shows "registry_ok g' \<and> map fst es = keys \<and> (\<forall>k. registered (set keys) es g g' k)"
  using assms
proof (induction keys arbitrary: g es)
  case (Cons key keys)
  obtain lock g1 where one: "register_key key g = (lock, g1)" by (cases "register_key key g")
  obtain es1 where rest: "register_keys keys g1 = (es1, g')" "es = (key, lock) # es1"
    using Cons.prems(1) one by (cases "register_keys keys g1") auto
  note ok = register_key_ok [OF Cons.prems(2) one]
  have same: "users_at g1 k = users_at g k" "rg_entries g1 k = rg_entries g k" if "k \<noteq> key" for k
    using ok(2) that by (simp_all add: users_at_def)
  have IH: "registry_ok g' \<and> map fst es1 = keys \<and> (\<forall>k. registered (set keys) es1 g1 g' k)"
    by (rule Cons.IH [OF rest(1) ok(1)]) (use Cons.prems(3) in simp)
  have "registered (set (key # keys)) es g g' k" for k
  proof (cases "k = key")
    case True
    have "rg_entries g' key = Some (lock, users_at g key + 1)"
      using IH Cons.prems(3) ok(2) by (simp add: registered_def)
    with True ok(3) rest(2) show ?thesis by (auto simp: registered_def)
  next
    case False
    from IH have "registered (set keys) es1 g1 g' k" by blast
    then have "registered (set keys) es1 g g' k" unfolding registered_def same [OF False] .
    with False rest(2) show ?thesis by (cases "k \<in> set keys") (auto simp: registered_def)
  qed
  with IH rest(2) show ?case by (simp only: list.map fst_conv) blast
qed (auto simp: registered_def)

lemma unregister_keys_ok:
  assumes "distinct (map fst es)" "\<And>k l. (k, l) \<in> set es \<Longrightarrow> \<exists>u. rg_entries g k = Some (l, u)"
  shows "\<exists>g'. unregister_keys es g = Inr g' \<and> rg_next g' = rg_next g \<and>
    (\<forall>k. rg_entries g' k =
       (if k \<in> fst ` set es
        then (case rg_entries g k of None \<Rightarrow> None | Some (l, u) \<Rightarrow> if u = 1 then None else Some (l, u - 1))
        else rg_entries g k))"
  using assms
proof (induction es arbitrary: g)
  case (Cons e es)
  obtain k l where e: "e = (k, l)" by (cases e)
  obtain u where u: "rg_entries g k = Some (l, u)" using Cons.prems(2) [of k l] e by auto
  define g1 where "g1 = g\<lparr>rg_entries := (rg_entries g)(k := (if u = 1 then None else Some (l, u - 1)))\<rparr>"
  have g1: "unregister_key e g = Inr g1" "rg_next g1 = rg_next g"
    "rg_entries g1 = (rg_entries g)(k := (if u = 1 then None else Some (l, u - 1)))"
    using u e by (simp_all add: unregister_key_def g1_def)
  have other: "rg_entries g1 q = rg_entries g q" if "q \<noteq> k" for q using g1(3) that by simp
  have k: "k \<notin> fst ` set es" using Cons.prems(1) e by simp
  have "\<exists>u. rg_entries g1 q = Some (m, u)" if "(q, m) \<in> set es" for q m
  proof -
    have "q \<noteq> k" using k that by force
    with other Cons.prems(2) [of q m] that show ?thesis by simp
  qed
  then obtain g' where "unregister_keys es g1 = Inr g'" "rg_next g' = rg_next g1"
    "\<forall>q. rg_entries g' q = (if q \<in> fst ` set es
        then (case rg_entries g1 q of None \<Rightarrow> None | Some (l, u) \<Rightarrow> if u = 1 then None else Some (l, u - 1)) else rg_entries g1 q)"
    using Cons.IH [of g1] Cons.prems(1) by auto
  with g1 other k u e show ?case by (auto split: if_splits)
qed simp

subsection \<open>Every step keeps the invariant\<close>

lemma calls_with_same:
  "i < length (ls_calls s) \<Longrightarrow> P c = P (ls_calls s ! i) \<Longrightarrow> calls_with P (set_call i c s) = calls_with P s"
  by (auto simp: calls_with_def set_call_def nth_list_update)

lemma sync_keys_sorted: "sorted_wrt (<) (sync_keys canonical paths)" "distinct (sync_keys canonical paths)"
  by (simp_all add: sync_keys_def strict_sorted_iff)

lemma users_at_card: "counts_ok s \<Longrightarrow> users_at (ls_registry s) k = int (card (calls_with (uses_key k) s))"
  by (auto simp: counts_ok_def entry_ok_def users_at_def split: option.splits dest!: spec [of _ k])

lemma registered_unique:
  assumes "registered (set (map fst es)) es g g' k" "(k, l) \<in> set es" "distinct (map fst es)"
  shows "rg_entries g' k = Some (l, users_at g k + 1)"
proof -
  have "k \<in> set (map fst es)" using assms(2) by force
  then obtain l' where l': "(k, l') \<in> set es" "rg_entries g' k = Some (l', users_at g k + 1)"
    using assms(1) by (auto simp: registered_def)
  with assms(2,3) have "l' = l" by (metis eq_key_imp_eq_value)
  with l' show ?thesis by simp
qed

lemma registered_kept:
  "registered K es g g' k \<Longrightarrow> rg_entries g k = Some (l, u) \<Longrightarrow> \<exists>u'. rg_entries g' k = Some (l, u')"
  by (auto simp: registered_def split: if_splits)

lemma inv_enter:
  assumes "locks_inv s"
  shows "locks_inv (sync_enter canonical thread paths s)"
proof -
  let ?ks = "sync_keys canonical paths" and ?g = "ls_registry s"
  obtain es g' where r: "register_keys ?ks ?g = (es, g')" by (cases "register_keys ?ks ?g")
  define c where "c = \<lparr>lc_thread = thread, lc_entries = es, lc_acquired = 0, lc_phase = Acquiring\<rparr>"
  define s' where "s' = s\<lparr>ls_registry := g', ls_calls := ls_calls s @ [c]\<rparr>"
  have s': "sync_enter canonical thread paths s = s'" by (simp add: sync_enter_def r s'_def c_def)
  have inv: "registry_ok ?g" "\<forall>c \<in> set (ls_calls s). call_ok ?g c" "counts_ok s" "owners_ok s"
    using assms by (simp_all add: locks_inv_def)
  have ok: "registry_ok g'" "map fst es = ?ks" "\<And>k. registered (set ?ks) es ?g g' k"
    using register_keys_ok [OF r inv(1) sync_keys_sorted(2)] by blast+
  have "call_ok g' d" if "d \<in> set (ls_calls s)" for d
    using inv(2) that registered_kept [OF ok(3)] unfolding call_ok_def by fastforce
  moreover have "call_ok g' c"
    using sync_keys_sorted registered_unique [of es ?g g'] ok(2,3) by (auto simp: call_ok_def c_def)
  moreover have "counts_ok s'" unfolding counts_ok_def
  proof
    fix k
    have users: "calls_with (uses_key k) s' = (if k \<in> set ?ks then insert (length (ls_calls s)) (calls_with (uses_key k) s)
        else calls_with (uses_key k) s)"
      using ok(2) by (simp add: s'_def calls_with_snoc uses_key_def c_def set_map [symmetric])
    have n: "users_at ?g k = int (card (calls_with (uses_key k) s))" by (rule users_at_card [OF inv(3)])
    have g: "ls_registry s' = g'" by (simp add: s'_def)
    show "entry_ok (rg_entries (ls_registry s') k) (calls_with (uses_key k) s')"
    proof (cases "k \<in> set ?ks")
      case True
      then obtain l where "rg_entries g' k = Some (l, users_at ?g k + 1)" using ok(3) [of k] by (auto simp: registered_def)
      with True users n calls_with_bound [of s] show ?thesis by (simp add: g entry_ok_def)
    next
      case False
      then have "rg_entries g' k = rg_entries ?g k" using ok(3) [of k] by (simp add: registered_def)
      with False users inv(3) show ?thesis by (simp add: g counts_ok_def)
    qed
  qed
  moreover have "owners_ok s'"
  proof -
    have "owner_ok (ls_rlocks s' l) (calls_with (holds_lock l) s') (thread_of s')" for l
    proof -
      have "calls_with (holds_lock l) s' = calls_with (holds_lock l) s"
        by (simp add: s'_def calls_with_snoc holds_lock_def c_def)
      moreover have "thread_of s' i = thread_of s i" if "i \<in> calls_with P s" for i P
        using that by (simp add: calls_with_def s'_def nth_append thread_of_def)
      moreover have "owner_ok (ls_rlocks s l) (calls_with (holds_lock l) s) (thread_of s)"
        using inv(4) by (simp add: owners_ok_def)
      ultimately show ?thesis by (auto simp: owner_ok_def s'_def split: option.splits)
    qed
    then show ?thesis by (simp add: owners_ok_def)
  qed
  ultimately show ?thesis using ok(1) unfolding s' locks_inv_def by (simp add: s'_def)
qed

lemma entry_at: "call_ok g c \<Longrightarrow> e \<in> set (lc_entries c) \<Longrightarrow> \<exists>u. rg_entries g (fst e) = Some (snd e, u)"
  by (cases e) (auto simp: call_ok_def)

lemma locks_distinct:
  assumes "call_ok g c" "registry_ok g"
  shows "distinct (map snd (lc_entries c))"
proof -
  have keys: "distinct (map fst (lc_entries c))" using assms(1) by (simp add: call_ok_def strict_sorted_iff)
  have "x = y" if "x \<in> set (lc_entries c)" "y \<in> set (lc_entries c)" "snd x = snd y" for x y
  proof -
    note xy = that
    obtain u v where "rg_entries g (fst x) = Some (snd x, u)" "rg_entries g (fst y) = Some (snd y, v)"
      using entry_at [OF assms(1) xy(1)] entry_at [OF assms(1) xy(2)] by blast
    then have "fst x = fst y" using assms(2) xy(3) unfolding registry_ok_def by metis
    with xy keys show ?thesis by (metis eq_key_imp_eq_value prod.collapse)
  qed
  with keys show ?thesis by (auto simp: distinct_map inj_on_def)
qed

text \<open>A step that changes one call and the owners of one lock.\<close>

lemma owners_change:
  assumes "owners_ok s" "i < length (ls_calls s)" "lc_thread c = lc_thread (ls_calls s ! i)"
    and "\<And>m. m \<noteq> l \<Longrightarrow> holds_lock m c = holds_lock m (ls_calls s ! i)" "\<And>m. m \<noteq> l \<Longrightarrow> ls' m = ls_rlocks s m"
    and "owner_ok (ls' l) (calls_with (holds_lock l) (set_call i c s)) (thread_of s)"
  shows "owners_ok (set_call i c (s\<lparr>ls_rlocks := ls'\<rparr>))"
  unfolding owners_ok_def
proof
  fix m
  let ?s = "set_call i c (s\<lparr>ls_rlocks := ls'\<rparr>)"
  have same: "calls_with P ?s = calls_with P (set_call i c s)" "ls_rlocks ?s = ls'" "thread_of ?s = thread_of s" for P
    using assms(2,3) by (auto simp: calls_with_def set_call_def thread_of_def nth_list_update)
  show "owner_ok (ls_rlocks ?s m) (calls_with (holds_lock m) ?s) (thread_of ?s)"
  proof (cases "m = l")
    case True
    with assms(6) show ?thesis by (simp add: same)
  next
    case False
    then have "calls_with (holds_lock m) (set_call i c s) = calls_with (holds_lock m) s"
      using assms(2,4) by (intro calls_with_same) simp_all
    with False assms(1,5) show ?thesis by (simp add: same owners_ok_def)
  qed
qed

lemma inv_set_call:
  assumes "locks_inv s" "i < length (ls_calls s)" "lc_entries c = lc_entries (ls_calls s ! i)" "call_ok (ls_registry s) c"
    and "owners_ok (set_call i c (s\<lparr>ls_rlocks := ls'\<rparr>))"
  shows "locks_inv (set_call i c (s\<lparr>ls_rlocks := ls'\<rparr>))"
proof -
  let ?s = "set_call i c (s\<lparr>ls_rlocks := ls'\<rparr>)"
  have "calls_with (uses_key k) ?s = calls_with (uses_key k) s" for k
    using assms(2,3) by (auto simp: calls_with_def set_call_def uses_key_def nth_list_update)
  then have "counts_ok ?s" using assms(1) by (simp add: locks_inv_def counts_ok_def set_call_def)
  moreover have "call_ok (ls_registry s) d" if "d \<in> set (ls_calls ?s)" for d
    using that assms(1,4) set_update_subset_insert [of "ls_calls s" i c] by (auto simp: locks_inv_def set_call_def)
  ultimately show ?thesis using assms(1,5) by (simp add: locks_inv_def set_call_def)
qed

lemma call_at: "locks_inv s \<Longrightarrow> i < length (ls_calls s) \<Longrightarrow> call_ok (ls_registry s) (ls_calls s ! i)"
  by (simp add: locks_inv_def)

lemma owner_at: "locks_inv s \<Longrightarrow> owner_ok (ls_rlocks s l) (calls_with (holds_lock l) s) (thread_of s)"
  by (simp add: locks_inv_def owners_ok_def)

lemma inv_phase:
  assumes "locks_inv s" "i < length (ls_calls s)" "call_ok (ls_registry s) ((ls_calls s ! i)\<lparr>lc_phase := p\<rparr>)"
  shows "locks_inv (set_call i ((ls_calls s ! i)\<lparr>lc_phase := p\<rparr>) s)"
proof -
  let ?c = "(ls_calls s ! i)\<lparr>lc_phase := p\<rparr>"
  have holds: "holds_lock l ?c = holds_lock l (ls_calls s ! i)" for l by (simp add: holds_lock_def)
  have "owners_ok (set_call i ?c (s\<lparr>ls_rlocks := ls_rlocks s\<rparr>))"
    by (rule owners_change [where l = 0])
      (use assms(1,2) owner_at [of s 0] in \<open>simp_all add: holds calls_with_same locks_inv_def\<close>)
  from inv_set_call [OF assms(1,2) _ assms(3) this] show ?thesis by simp
qed

lemma held_take_Suc:
  assumes "n < length (lc_entries c)"
  shows "holds_lock m (c\<lparr>lc_acquired := Suc n\<rparr>) \<longleftrightarrow> holds_lock m (c\<lparr>lc_acquired := n\<rparr>) \<or> m = lock_at c n"
  using assms by (auto simp: holds_lock_def lock_at_def take_Suc_conv_app_nth)

lemma lock_not_held:
  assumes "distinct (map snd (lc_entries c))" "n < length (lc_entries c)"
  shows "\<not> holds_lock (lock_at c n) (c\<lparr>lc_acquired := n\<rparr>)"
proof
  assume "holds_lock (lock_at c n) (c\<lparr>lc_acquired := n\<rparr>)"
  then obtain e where "e \<in> set (take n (lc_entries c))" "snd e = snd (lc_entries c ! n)"
    by (auto simp: holds_lock_def lock_at_def)
  then obtain j where j: "j < n" "snd (lc_entries c ! j) = snd (lc_entries c ! n)"
    using assms(2) by (auto simp: in_set_conv_nth)
  then show False using assms nth_eq_iff_index_eq [OF assms(1), of j n] by simp
qed

lemma inv_acquire:
  assumes "locks_inv s" "i < length (ls_calls s)" "acquire_next i s = Some s'"
    and "lc_phase (ls_calls s ! i) = Acquiring" "lc_acquired (ls_calls s ! i) < length (lc_entries (ls_calls s ! i))"
  shows "locks_inv s'"
proof -
  define c where "c = ls_calls s ! i"
  define n l where "n = lc_acquired c" and "l = lock_at c n"
  have n: "n < length (lc_entries c)" using assms(5) by (simp add: c_def n_def)
  obtain ls where ls: "rlock_acquire (lc_thread c) l (ls_rlocks s) = Some ls"
    and s': "s' = set_call i (c\<lparr>lc_acquired := Suc n\<rparr>) (s\<lparr>ls_rlocks := ls\<rparr>)"
    using assms(3) by (auto simp: acquire_next_def Let_def c_def n_def l_def split: option.splits)
  have c: "c\<lparr>lc_acquired := n\<rparr> = c" by (simp add: n_def)
  have ok: "call_ok (ls_registry s) c" using call_at [OF assms(1,2)] by (simp add: c_def)
  have fresh: "\<not> holds_lock l c"
    using lock_not_held [OF locks_distinct [OF ok] n] assms(1) c by (simp add: locks_inv_def l_def)
  let ?S = "calls_with (holds_lock l) s"
  have S: "i \<notin> ?S" "calls_with (holds_lock l) (set_call i (c\<lparr>lc_acquired := Suc n\<rparr>) s) = insert i ?S"
    using fresh assms(2) held_take_Suc [OF n, of l]
    by (simp_all add: calls_with_set_call l_def) (simp add: calls_with_def c_def l_def)
  have own: "owner_ok (ls_rlocks s l) ?S (thread_of s)" by (rule owner_at [OF assms(1)])
  have "owner_ok (ls l) (insert i ?S) (thread_of s)"
    using ls own S(1) by (auto simp: rlock_acquire_def owner_ok_def thread_of_def c_def split: option.splits if_splits)
  then have "owners_ok s'" unfolding s'
    by (intro owners_change [where l = l])
      (use assms(1,2) ls S(2) held_take_Suc [OF n] c in
        \<open>auto simp: locks_inv_def c_def [symmetric] l_def rlock_acquire_def split: option.splits if_splits\<close>)
  then show ?thesis unfolding s'
    by (intro inv_set_call) (use assms(1,2,4) n ok in \<open>auto simp: c_def call_ok_def\<close>)
qed

lemma owner_drop:
  assumes "finite S" "i \<in> S" "k = card S" "\<forall>j \<in> S. thread j = t"
  shows "owner_ok (if k = 1 then None else Some (t, k - 1)) (S - {i}) thread"
    "entry_ok (if int k = 1 then None else Some (l, int k - 1)) (S - {i})"
proof -
  have S: "card (S - {i}) = k - 1" "k = 1 \<or> 1 < k" "k = 1 \<longleftrightarrow> S - {i} = {}"
    using assms(1-3) card_gt_0_iff [of S] card_0_eq [of "S - {i}"] by (auto simp: card_Diff_singleton)
  show "owner_ok (if k = 1 then None else Some (t, k - 1)) (S - {i}) thread"
  proof (cases "k = 1")
    case False
    with S(1,2) assms(4) show ?thesis by (simp add: owner_ok_def)
  qed (use S(3) in \<open>simp add: owner_ok_def\<close>)
  show "entry_ok (if int k = 1 then None else Some (l, int k - 1)) (S - {i})"
  proof (cases "k = 1")
    case False
    with S(1,2) show ?thesis by (simp add: entry_ok_def of_nat_diff)
  qed (use S(3) in \<open>simp add: entry_ok_def\<close>)
qed

lemma owner_held:
  assumes "owner_ok owner S thread" "i \<in> S"
  obtains k where "owner = Some (thread i, k)" "k = card S" "0 < k" "\<forall>j \<in> S. thread j = thread i"
proof (cases owner)
  case None
  with assms show ?thesis by (simp add: owner_ok_def)
next
  case (Some x)
  obtain t k where "x = (t, k)" by (cases x)
  with assms Some have "owner = Some (thread i, k)" "k = card S" "0 < k" "\<forall>j \<in> S. thread j = thread i"
    by (simp_all add: owner_ok_def)
  then show ?thesis by (rule that)
qed

lemma inv_release:
  assumes "locks_inv s" "i < length (ls_calls s)" "0 < lc_acquired (ls_calls s ! i)" "lc_phase (ls_calls s ! i) = Releasing"
  shows "\<exists>s'. release_last i s = Inr s' \<and> locks_inv s'"
proof -
  define c where "c = ls_calls s ! i"
  define n l where "n = lc_acquired c - 1" and "l = lock_at c n"
  have ok: "call_ok (ls_registry s) c" using call_at [OF assms(1,2)] by (simp add: c_def)
  have acq: "lc_acquired c = Suc n" using assms(3) by (simp add: n_def c_def)
  then have n: "n < length (lc_entries c)" using ok by (simp add: call_ok_def)
  have c: "c\<lparr>lc_acquired := Suc n\<rparr> = c" using acq [symmetric] by simp
  let ?c = "c\<lparr>lc_acquired := n\<rparr>" and ?S = "calls_with (holds_lock l) s"
  have fresh: "\<not> holds_lock l ?c"
    using lock_not_held [OF locks_distinct [OF ok] n] assms(1) by (simp add: locks_inv_def l_def)
  have holds: "holds_lock m c \<longleftrightarrow> holds_lock m ?c \<or> m = l" for m
    using held_take_Suc [OF n, of m] c by (simp add: l_def)
  have S: "i \<in> ?S" "calls_with (holds_lock l) (set_call i ?c s) = ?S - {i}"
    using holds [of l] fresh assms(2) by (simp_all add: calls_with_set_call) (simp add: calls_with_def c_def)
  have own: "owner_ok (ls_rlocks s l) ?S (thread_of s)" by (rule owner_at [OF assms(1)])
  have t: "thread_of s i = lc_thread c" by (simp add: thread_of_def c_def)
  from own S(1) obtain k where k: "ls_rlocks s l = Some (lc_thread c, k)" "k = card ?S" "0 < k"
    "\<forall>j \<in> ?S. thread_of s j = lc_thread c"
    by (rule owner_held) (simp only: t)
  define ls where "ls = (if k = 1 then (ls_rlocks s)(l := None) else (ls_rlocks s)(l \<mapsto> (lc_thread c, k - 1)))"
  have rel: "rlock_release (lc_thread c) l (ls_rlocks s) = Inr ls" using k by (simp add: rlock_release_def ls_def)
  have lsl: "ls l = (if k = 1 then None else Some (lc_thread c, k - 1))" by (simp add: ls_def)
  have "owner_ok (ls l) (?S - {i}) (thread_of s)" unfolding lsl by (rule owner_drop(1) [OF finite_calls S(1) k(2,4)])
  then have "owners_ok (set_call i ?c (s\<lparr>ls_rlocks := ls\<rparr>))"
    by (intro owners_change [where l = l])
      (use assms(1,2) in \<open>simp_all add: S(2) holds locks_inv_def c_def [symmetric] ls_def\<close>)
  then have "locks_inv (set_call i ?c (s\<lparr>ls_rlocks := ls\<rparr>))"
    by (intro inv_set_call) (use assms(1,2,4) n ok in \<open>auto simp: c_def call_ok_def\<close>)
  then show ?thesis using rel by (simp add: release_last_def Let_def c_def n_def l_def)
qed

lemma counts_drop:
  assumes "counts_ok s" "i \<in> calls_with (uses_key k) s" "rg_entries (ls_registry s) k = Some (l, u)"
  shows "entry_ok (if u = 1 then None else Some (l, u - 1)) (calls_with (uses_key k) s - {i})"
    "j \<in> calls_with (uses_key k) s \<Longrightarrow> j \<noteq> i \<Longrightarrow> u \<noteq> 1"
proof -
  let ?S = "calls_with (uses_key k) s"
  have u: "u = int (card ?S)" "0 < u" using assms by (auto simp: counts_ok_def entry_ok_def split: option.splits dest!: spec [of _ k])
  have one: "?S = {i}" if "u = 1" using that u(1) assms(2) by (metis card_1_singletonE of_nat_1_eq_iff singletonD)
  then show "j \<in> ?S \<Longrightarrow> j \<noteq> i \<Longrightarrow> u \<noteq> 1" by blast
  show "entry_ok (if u = 1 then None else Some (l, u - 1)) (?S - {i})"
    unfolding u(1) by (rule owner_drop(2) [OF finite_calls assms(2) refl, where thread = "\<lambda>_. 0" and t = 0]) simp
qed

lemma inv_exit:
  assumes "locks_inv s" "i < length (ls_calls s)" "lc_acquired (ls_calls s ! i) = 0"
  shows "\<exists>s'. sync_exit i s = Inr s' \<and> locks_inv s'"
proof -
  define c where "c = ls_calls s ! i"
  let ?g = "ls_registry s"
  have inv: "registry_ok ?g" "\<forall>c \<in> set (ls_calls s). call_ok ?g c" "counts_ok s" "owners_ok s"
    using assms by (simp_all add: locks_inv_def)
  have ok: "call_ok ?g c" using call_at [OF assms(1,2)] by (simp add: c_def)
  have "distinct (map fst (lc_entries c))" using ok by (simp add: call_ok_def strict_sorted_iff)
  moreover have "\<exists>u. rg_entries ?g k = Some (l, u)" if "(k, l) \<in> set (lc_entries c)" for k l
    using entry_at [OF ok that] by simp
  ultimately obtain g' where g': "unregister_keys (lc_entries c) ?g = Inr g'" "rg_next g' = rg_next ?g"
    "\<And>k. rg_entries g' k = (if uses_key k c
        then (case rg_entries ?g k of None \<Rightarrow> None | Some (l, u) \<Rightarrow> if u = 1 then None else Some (l, u - 1))
        else rg_entries ?g k)"
    using unregister_keys_ok [of "lc_entries c" ?g] unfolding uses_key_def by blast
  define d s' where "d = c\<lparr>lc_entries := [], lc_phase := Gone\<rparr>" and "s' = set_call i d (s\<lparr>ls_registry := g'\<rparr>)"
  have user: "i \<in> calls_with (uses_key k) s" if "uses_key k c" for k
    using that assms(2) by (simp add: calls_with_def c_def)
  have users: "calls_with (uses_key k) s' = calls_with (uses_key k) s - {i}" for k
    using assms(2) by (auto simp: s'_def d_def calls_with_def set_call_def nth_list_update uses_key_def)
  have "registry_ok g'"
    unfolding registry_ok_def g'(2)
  proof (intro conjI allI impI)
    have old: "\<exists>v. rg_entries ?g k = Some (l, v)" if "rg_entries g' k = Some (l, u)" for k l u
      using that g'(3) [of k] by (auto split: if_splits option.splits)
    show "l < rg_next ?g" if "rg_entries g' k = Some (l, u)" for k l u
      using old [OF that] inv(1) by (auto simp: registry_ok_def)
    show "k = k'" if "rg_entries g' k = Some (l, u)" "rg_entries g' k' = Some (l, u')" for k k' l u u'
      using old [OF that(1)] old [OF that(2)] inv(1) by (auto simp: registry_ok_def)
  qed
  moreover have "entry_ok (rg_entries g' k) (calls_with (uses_key k) s')" for k
  proof (cases "uses_key k c")
    case True
    then obtain e where e: "e \<in> set (lc_entries c)" "k = fst e" by (auto simp: uses_key_def)
    from entry_at [OF ok e(1)] obtain l u where "rg_entries ?g k = Some (l, u)" unfolding e(2) by blast
    with True counts_drop(1) [OF inv(3) user [OF True] this] g'(3) [of k] show ?thesis by (simp add: users)
  next
    case False
    then have "i \<notin> calls_with (uses_key k) s" by (simp add: calls_with_def c_def)
    with False inv(3) g'(3) [of k] show ?thesis by (simp add: users counts_ok_def)
  qed
  moreover have "call_ok g' e" if e: "e \<in> set (ls_calls s')" for e
  proof -
    obtain j where j: "j < length (ls_calls s)" "e = ls_calls s' ! j"
      using e by (auto simp: in_set_conv_nth s'_def set_call_def)
    show ?thesis
    proof (cases "j = i")
      case True
      then have "e = d" using j assms(2) by (simp add: s'_def set_call_def)
      with assms(3) show ?thesis by (simp add: call_ok_def d_def c_def)
    next
      case False
      then have ej: "e = ls_calls s ! j" using j by (simp add: s'_def set_call_def)
      have old: "call_ok ?g e" using call_at [OF assms(1) j(1)] ej by simp
      have "\<exists>u. rg_entries g' k = Some (l, u)" if kl: "(k, l) \<in> set (lc_entries e)" for k l
      proof -
        obtain u where u: "rg_entries ?g k = Some (l, u)" using entry_at [OF old kl] by auto
        have "j \<in> calls_with (uses_key k) s" using j(1) ej kl by (force simp: calls_with_def uses_key_def)
        with counts_drop(2) [OF inv(3) user u] False u g'(3) [of k] show ?thesis by auto
      qed
      with old show ?thesis unfolding call_ok_def by blast
    qed
  qed
  moreover have "owners_ok s'"
  proof -
    have "\<not> holds_lock l c" for l using assms(3) by (simp add: holds_lock_def c_def)
    then have "calls_with (holds_lock l) s' = calls_with (holds_lock l) s" for l
      using assms(2) by (auto simp: s'_def d_def calls_with_def set_call_def nth_list_update holds_lock_def c_def)
    moreover have "thread_of s' = thread_of s"
      using assms(2) by (auto simp: thread_of_def s'_def d_def c_def set_call_def nth_list_update)
    ultimately show ?thesis using inv(4) by (simp add: owners_ok_def s'_def set_call_def)
  qed
  ultimately have "locks_inv s'" by (simp add: locks_inv_def counts_ok_def s'_def set_call_def)
  then show ?thesis using g'(1) by (simp add: sync_exit_def Let_def c_def s'_def d_def)
qed

lemma inv_call_step:
  assumes "call_step i s s'" "locks_inv s"
  shows "locks_inv s'"
  using assms
proof cases
  case cs_enter
  then show ?thesis using inv_phase [OF assms(2), of i Inside] call_at [OF assms(2), of i] by (simp add: call_ok_def)
next
  case cs_leave
  then show ?thesis using inv_phase [OF assms(2), of i Releasing] call_at [OF assms(2), of i] by (simp add: call_ok_def)
next
  case cs_release
  then show ?thesis using inv_release [OF assms(2), of i] by auto
next
  case cs_exit
  then show ?thesis using inv_exit [OF assms(2), of i] by auto
qed (use assms inv_acquire in blast)

lemma inv_lock_step: "lock_step canonical s s' \<Longrightarrow> locks_inv s \<Longrightarrow> locks_inv s'"
proof (induction rule: lock_step.induct)
  case (step_interrupt i s)
  then show ?case using inv_phase [of s i Releasing] call_at [of s i] by (simp add: call_ok_def)
qed (auto intro: inv_enter inv_call_step)

lemma inv_locks_start: "locks_start s \<Longrightarrow> locks_inv s"
  by (simp add: locks_start_def locks_inv_def registry_ok_def counts_ok_def entry_ok_def owners_ok_def owner_ok_def calls_with_def)

lemma reach_locks_inv: "reach locks_start (lock_step canonical) s \<Longrightarrow> locks_inv s"
  by (erule reach_invariant) (auto intro: inv_locks_start inv_lock_step)

subsection \<open>Exclusion\<close>

lemma same_lock:
  assumes "locks_inv s" "i < length (ls_calls s)" "lc_phase (ls_calls s ! i) = Inside" "uses_key k (ls_calls s ! i)"
    "rg_entries (ls_registry s) k = Some (l, u)"
  shows "i \<in> calls_with (holds_lock l) s"
proof -
  have ok: "call_ok (ls_registry s) (ls_calls s ! i)" by (rule call_at [OF assms(1,2)])
  obtain e where e: "e \<in> set (lc_entries (ls_calls s ! i))" "k = fst e" using assms(4) by (auto simp: uses_key_def)
  then have "snd e = l" using entry_at [OF ok e(1)] assms(5) by simp
  with e ok assms(2,3) show ?thesis by (force simp: calls_with_def holds_lock_def call_ok_def)
qed

lemma uses_key_entry:
  assumes "locks_inv s" "i < length (ls_calls s)" "uses_key k (ls_calls s ! i)"
  obtains l u where "rg_entries (ls_registry s) k = Some (l, u)"
proof -
  obtain e where e: "e \<in> set (lc_entries (ls_calls s ! i))" "k = fst e" using assms(3) by (auto simp: uses_key_def)
  from entry_at [OF call_at [OF assms(1,2)] e(1)] show ?thesis unfolding e(2) [symmetric] using that by blast
qed

lemma entry_none:
  assumes "entry_ok e users"
  shows "e = None \<longleftrightarrow> users = {}"
proof (cases e)
  case (Some x)
  then have "0 < card users" using assms by (cases x) (simp add: entry_ok_def)
  with Some show ?thesis by (metis card.empty less_irrefl option.discI)
qed (use assms in \<open>simp add: entry_ok_def\<close>)

lemma table_exact:
  assumes "locks_inv s"
  shows "rg_entries (ls_registry s) k \<noteq> None \<longleftrightarrow> (\<exists>c \<in> set (ls_calls s). uses_key k c)"
proof -
  have e: "entry_ok (rg_entries (ls_registry s) k) (calls_with (uses_key k) s)"
    using assms by (simp add: locks_inv_def counts_ok_def)
  have "calls_with (uses_key k) s \<noteq> {} \<longleftrightarrow> (\<exists>j < length (ls_calls s). uses_key k (ls_calls s ! j))"
    by (simp add: calls_with_def)
  also have "\<dots> \<longleftrightarrow> (\<exists>c \<in> set (ls_calls s). uses_key k c)" by (metis in_set_conv_nth)
  finally have "calls_with (uses_key k) s \<noteq> {} \<longleftrightarrow> (\<exists>c \<in> set (ls_calls s). uses_key k c)" .
  moreover have "rg_entries (ls_registry s) k = None \<longleftrightarrow> calls_with (uses_key k) s = {}"
    by (rule entry_none [OF e])
  ultimately show ?thesis by simp
qed

text \<open>C37. The locks exclude: whatever threads call \<open>sync\<close> and however they interleave, two calls that
  are inside their bodies and share a canonical path belong to the same thread. The table holds
  exactly the paths some call uses, so nothing is leaked and no lock in use is replaced; and giving
  back never fails, neither a lock (\<open>RuntimeError\<close>) nor a table entry (\<open>KeyError\<close>).\<close>

theorem sync_exclusive:
  assumes "reach locks_start (lock_step canonical) s" "i < length (ls_calls s)" "j < length (ls_calls s)"
  shows "(lc_phase (ls_calls s ! i) = Inside \<and> lc_phase (ls_calls s ! j) = Inside \<and>
      uses_key k (ls_calls s ! i) \<and> uses_key k (ls_calls s ! j) \<longrightarrow>
      lc_thread (ls_calls s ! i) = lc_thread (ls_calls s ! j)) \<and>
    (rg_entries (ls_registry s) k \<noteq> None \<longleftrightarrow> (\<exists>c \<in> set (ls_calls s). uses_key k c)) \<and>
    (lc_phase (ls_calls s ! i) = Releasing \<longrightarrow>
      \<not> is_error (if lc_acquired (ls_calls s ! i) = 0 then sync_exit i s else release_last i s))"
proof (intro conjI impI)
  have inv: "locks_inv s" by (rule reach_locks_inv [OF assms(1)])
  show "rg_entries (ls_registry s) k \<noteq> None \<longleftrightarrow> (\<exists>c \<in> set (ls_calls s). uses_key k c)" by (rule table_exact [OF inv])
  show "lc_thread (ls_calls s ! i) = lc_thread (ls_calls s ! j)"
    if both: "lc_phase (ls_calls s ! i) = Inside \<and> lc_phase (ls_calls s ! j) = Inside \<and>
      uses_key k (ls_calls s ! i) \<and> uses_key k (ls_calls s ! j)"
  proof -
    obtain l u where l: "rg_entries (ls_registry s) k = Some (l, u)"
      using uses_key_entry [OF inv assms(2)] both by blast
    have "i \<in> calls_with (holds_lock l) s" "j \<in> calls_with (holds_lock l) s"
      using same_lock [OF inv _ _ _ l] assms(2,3) both by blast+
    then have "thread_of s i = thread_of s j" using owner_held [OF owner_at [OF inv, of l]] by metis
    then show ?thesis by (simp add: thread_of_def)
  qed
  show "\<not> is_error (if lc_acquired (ls_calls s ! i) = 0 then sync_exit i s else release_last i s)"
    if "lc_phase (ls_calls s ! i) = Releasing"
  proof (cases "lc_acquired (ls_calls s ! i) = 0")
    case True
    with inv_exit [OF inv assms(2)] show ?thesis by auto
  next
    case False
    with inv_release [OF inv assms(2) _ that] show ?thesis by auto
  qed
qed

subsection \<open>Progress\<close>

definition lock_weight :: "lock_call \<Rightarrow> nat" where
  "lock_weight c =
     (case lc_phase c of
        Acquiring \<Rightarrow> 2 * length (lc_entries c) - lc_acquired c + 3
      | Inside \<Rightarrow> length (lc_entries c) + 2
      | Releasing \<Rightarrow> lc_acquired c + 1
      | Gone \<Rightarrow> 0)"

definition lock_work :: "lock_state \<Rightarrow> nat" where
  "lock_work s = sum_list (map lock_weight (ls_calls s))"

text \<open>No thread is in two calls at once.\<close>

definition no_nesting :: "lock_state \<Rightarrow> bool" where
  "no_nesting s \<longleftrightarrow>
     (\<forall>i < length (ls_calls s). \<forall>j < length (ls_calls s). i \<noteq> j \<longrightarrow>
        lc_phase (ls_calls s ! i) \<noteq> Gone \<longrightarrow> lc_phase (ls_calls s ! j) \<noteq> Gone \<longrightarrow>
        lc_thread (ls_calls s ! i) \<noteq> lc_thread (ls_calls s ! j))"

definition some_call :: "lock_state \<Rightarrow> lock_state \<Rightarrow> bool" where
  "some_call s s' \<longleftrightarrow> (\<exists>i. call_step i s s')"

definition all_left :: "lock_state \<Rightarrow> bool" where
  "all_left s \<longleftrightarrow> list_all (\<lambda>c. lc_phase c = Gone) (ls_calls s)"

text \<open>What a step does to the call it belongs to.\<close>

lemma call_step_call:
  assumes "call_step i s s'"
  shows "i < length (ls_calls s)" "lc_phase (ls_calls s ! i) \<noteq> Gone"
    "ls_calls s' = (ls_calls s)[i := ls_calls s' ! i] \<and> lc_thread (ls_calls s' ! i) = lc_thread (ls_calls s ! i)"
    "call_ok (ls_registry s) (ls_calls s ! i) \<Longrightarrow> lock_weight (ls_calls s' ! i) < lock_weight (ls_calls s ! i)"
  using assms
  by (auto elim!: call_step.cases simp: acquire_next_def release_last_def sync_exit_def set_call_def Let_def bind_res_Inr
      lock_weight_def call_ok_def split: option.splits)

lemma call_step_work:
  assumes "call_step i s s'" "locks_inv s"
  shows "lock_work s' < lock_work s"
proof -
  note i = call_step_call(1) [OF assms(1)]
  obtain c where c: "ls_calls s' = (ls_calls s)[i := c]" "lock_weight c < lock_weight (ls_calls s ! i)"
    using call_step_call(3,4) [OF assms(1)] call_at [OF assms(2) i] by blast
  have "lock_weight (ls_calls s ! i) \<le> lock_work s"
    unfolding lock_work_def using i by (intro member_le_sum_list) auto
  moreover have "lock_work s' = lock_work s + lock_weight c - lock_weight (ls_calls s ! i)"
    using i by (simp add: lock_work_def c(1) map_update sum_list_update)
  ultimately show ?thesis using c(2) by simp
qed

lemma call_step_nesting: "call_step i s s' \<Longrightarrow> no_nesting s \<Longrightarrow> no_nesting s'"
proof -
  assume step: "call_step i s s'" and nest: "no_nesting s"
  from call_step_call(3) [OF step] obtain c where c: "ls_calls s' = (ls_calls s)[i := c]"
    "lc_thread c = lc_thread (ls_calls s ! i)" by blast
  have live: "lc_phase (ls_calls s ! j) \<noteq> Gone" "lc_thread (ls_calls s' ! j) = lc_thread (ls_calls s ! j)"
    if "j < length (ls_calls s)" "lc_phase (ls_calls s' ! j) \<noteq> Gone" for j
    using that c call_step_call(2) [OF step] by (cases "j = i"; simp)+
  show "no_nesting s'"
    unfolding no_nesting_def
  proof (intro allI impI)
    fix j k
    assume jk: "j < length (ls_calls s')" "k < length (ls_calls s')" "j \<noteq> k"
      "lc_phase (ls_calls s' ! j) \<noteq> Gone" "lc_phase (ls_calls s' ! k) \<noteq> Gone"
    then have n: "j < length (ls_calls s)" "k < length (ls_calls s)" using c(1) by simp_all
    show "lc_thread (ls_calls s' ! j) \<noteq> lc_thread (ls_calls s' ! k)"
      using nest jk(3) n live [OF n(1) jk(4)] live [OF n(2) jk(5)] by (simp add: no_nesting_def)
  qed
qed

lemma waiting_blocked_by_later:
  assumes "locks_inv s" "i < length (ls_calls s)" "lc_acquired (ls_calls s ! i) < length (lc_entries (ls_calls s ! i))"
    and "acquire_next i s = None"
  obtains j where "j < length (ls_calls s)" "lc_thread (ls_calls s ! j) \<noteq> lc_thread (ls_calls s ! i)"
    "\<exists>p < lc_acquired (ls_calls s ! j). fst (lc_entries (ls_calls s ! j) ! p) = fst (lc_entries (ls_calls s ! i) ! lc_acquired (ls_calls s ! i))"
proof -
  define c where "c = ls_calls s ! i"
  define e where "e = lc_entries c ! lc_acquired c"
  let ?S = "calls_with (holds_lock (snd e)) s"
  have e: "e \<in> set (lc_entries c)" using assms(3) by (simp add: e_def c_def)
  obtain t n where own: "ls_rlocks s (snd e) = Some (t, n)" "t \<noteq> lc_thread c"
    using assms(4)
    by (auto simp: acquire_next_def Let_def rlock_acquire_def lock_at_def e_def c_def split: option.splits if_splits)
  have ok: "n = card ?S" "0 < n" "\<forall>j \<in> ?S. thread_of s j = t"
    using owner_at [OF assms(1), of "snd e"] own(1) by (simp_all add: owner_ok_def)
  then obtain j where j: "j \<in> ?S" by (metis all_not_in_conv card.empty less_irrefl)
  then have jn: "j < length (ls_calls s)" "holds_lock (snd e) (ls_calls s ! j)" by (simp_all add: calls_with_def)
  then obtain x where x: "x \<in> set (take (lc_acquired (ls_calls s ! j)) (lc_entries (ls_calls s ! j)))" "snd x = snd e"
    by (auto simp: holds_lock_def)
  then obtain p where p: "p < lc_acquired (ls_calls s ! j)" "lc_entries (ls_calls s ! j) ! p = x"
    by (auto simp: in_set_conv_nth)
  have xin: "x \<in> set (lc_entries (ls_calls s ! j))" using x(1) by (rule in_set_takeD)
  obtain u v where "rg_entries (ls_registry s) (fst x) = Some (snd x, u)" "rg_entries (ls_registry s) (fst e) = Some (snd e, v)"
    using entry_at [OF call_at [OF assms(1) jn(1)] xin] entry_at [OF call_at [OF assms(1,2)], of e] e by (auto simp: c_def)
  moreover have "registry_ok (ls_registry s)" using assms(1) by (simp add: locks_inv_def)
  ultimately have "fst x = fst e" using x(2) unfolding registry_ok_def by metis
  moreover have "lc_thread (ls_calls s ! j) \<noteq> lc_thread (ls_calls s ! i)"
    using ok(3) j own(2) by (auto simp: thread_of_def c_def)
  ultimately show ?thesis using that [OF jn(1)] p by (auto simp: e_def c_def)
qed

lemma acquiring_progress:
  assumes inv: "locks_inv s" and nest: "no_nesting s"
    and all: "\<And>i. i < length (ls_calls s) \<Longrightarrow> lc_phase (ls_calls s ! i) \<in> {Acquiring, Gone}"
    and more: "\<And>i. i < length (ls_calls s) \<Longrightarrow> lc_phase (ls_calls s ! i) = Acquiring \<Longrightarrow>
      lc_acquired (ls_calls s ! i) < length (lc_entries (ls_calls s ! i))"
    and live: "k < length (ls_calls s)" "lc_phase (ls_calls s ! k) = Acquiring"
  shows "\<exists>i s'. call_step i s s'"
proof -
  define A where "A = {i. i < length (ls_calls s) \<and> lc_phase (ls_calls s ! i) = Acquiring}"
  define key where "key i = fst (lc_entries (ls_calls s ! i) ! lc_acquired (ls_calls s ! i))" for i
  have A: "finite A" "A \<noteq> {}" using live by (auto simp: A_def)
  then have "Max (key ` A) \<in> key ` A" by simp
  then obtain m where m: "m \<in> A" "key m = Max (key ` A)" by auto
  have mA: "m < length (ls_calls s)" "lc_phase (ls_calls s ! m) = Acquiring" using m(1) by (simp_all add: A_def)
  have "acquire_next m s \<noteq> None"
  proof
    assume "acquire_next m s = None"
    then obtain j p where j: "j < length (ls_calls s)" "lc_thread (ls_calls s ! j) \<noteq> lc_thread (ls_calls s ! m)"
      and p: "p < lc_acquired (ls_calls s ! j)" "fst (lc_entries (ls_calls s ! j) ! p) = key m"
      using waiting_blocked_by_later [OF inv mA(1) more [OF mA]] unfolding key_def by metis
    have ok: "call_ok (ls_registry s) (ls_calls s ! j)" by (rule call_at [OF inv j(1)])
    then have "lc_phase (ls_calls s ! j) \<noteq> Gone" using p(1) by (auto simp: call_ok_def)
    then have ph: "lc_phase (ls_calls s ! j) = Acquiring" using all [OF j(1)] by blast
    have "p < length (lc_entries (ls_calls s ! j))" using more [OF j(1) ph] p(1) by simp
    then have "fst (lc_entries (ls_calls s ! j) ! p) < key j"
      using ok p(1) more [OF j(1) ph] sorted_wrt_nth_less [of "(<)" "map fst (lc_entries (ls_calls s ! j))" p "lc_acquired (ls_calls s ! j)"]
      by (simp add: call_ok_def key_def)
    moreover have "key j \<le> key m" using m(2) A(1) j(1) ph by (simp add: A_def)
    ultimately show False using p(2) by simp
  qed
  then obtain s' where "acquire_next m s = Some s'" by blast
  with cs_acquire [OF mA more [OF mA]] show ?thesis by blast
qed

lemma some_call_progress:
  assumes "locks_inv s" "no_nesting s" "\<not> all_left s"
  shows "\<exists>s'. some_call s s'"
proof (rule ccontr)
  assume "\<nexists>s'. some_call s s'"
  then have none: "\<not> call_step i s s'" for i s' by (auto simp: some_call_def)
  have "lc_phase (ls_calls s ! i) \<in> {Acquiring, Gone}" if "i < length (ls_calls s)" for i
  proof (cases "lc_phase (ls_calls s ! i)")
    case Inside
    then show ?thesis using none cs_leave [OF that Inside] by blast
  next
    case Releasing
    then show ?thesis
      using none cs_exit [OF that Releasing] cs_release [OF that Releasing] inv_exit [OF assms(1) that] inv_release [OF assms(1) that]
      by (metis gr_zeroI)
  qed simp_all
  moreover have "lc_acquired (ls_calls s ! i) < length (lc_entries (ls_calls s ! i))"
    if i: "i < length (ls_calls s)" "lc_phase (ls_calls s ! i) = Acquiring" for i
    using none cs_enter [OF i] call_at [OF assms(1) i(1)] by (fastforce simp: call_ok_def le_neq_implies_less)
  moreover obtain k where "k < length (ls_calls s)" "lc_phase (ls_calls s ! k) \<noteq> Gone"
    using assms(3) by (auto simp: all_left_def list_all_iff in_set_conv_nth)
  ultimately show False using acquiring_progress [OF assms(1,2), of k] none by blast
qed

lemma all_left_empty:
  assumes "locks_inv s" "all_left s"
  shows "rg_entries (ls_registry s) = Map.empty" "ls_rlocks s = (\<lambda>_. None)"
proof -
  have gone: "lc_entries c = []" if "c \<in> set (ls_calls s)" for c
    using assms that by (auto simp: locks_inv_def all_left_def list_all_iff call_ok_def)
  then have "rg_entries (ls_registry s) k = None" for k
    using table_exact [OF assms(1), of k] unfolding uses_key_def by fastforce
  then show "rg_entries (ls_registry s) = Map.empty" by (rule ext)
  have "calls_with (holds_lock l) s = {}" for l
    using gone by (auto simp: calls_with_def holds_lock_def)
  then have "ls_rlocks s l = None" for l
    using owner_at [OF assms(1), of l] by (cases "ls_rlocks s l") (auto simp: owner_ok_def)
  then show "ls_rlocks s = (\<lambda>_. None)" by auto
qed

text \<open>C38. The locks never deadlock: from any reachable state in which no thread is inside a second
  call, the calls that were entered finish after a bounded number of steps, in whatever order they
  run; a run can only stop when all calls have left, and then the table is empty and every lock
  is free.\<close>

theorem sync_never_deadlocks:
  assumes "reach locks_start (lock_step canonical) s" "no_nesting s" "(some_call ^^ n) s s'"
  shows "n + lock_work s' \<le> lock_work s \<and>
    ((\<exists>s''. some_call s' s'') \<or>
     all_left s' \<and> rg_entries (ls_registry s') = Map.empty \<and> ls_rlocks s' = (\<lambda>_. None))"
proof -
  have run: "locks_inv s' \<and> no_nesting s' \<and> n + lock_work s' \<le> lock_work s"
    using assms(3)
  proof (induction n arbitrary: s')
    case 0
    then show ?case using reach_locks_inv [OF assms(1)] assms(2) by simp
  next
    case (Suc n)
    from Suc.prems obtain t where "(some_call ^^ n) s t" "some_call t s'" by auto
    then obtain i where t: "(some_call ^^ n) s t" "call_step i t s'" unfolding some_call_def by blast
    with Suc.IH [OF t(1)] call_step_work [OF t(2)] show ?case
      using inv_call_step [OF t(2)] call_step_nesting [OF t(2)] by auto
  qed
  with some_call_progress [of s'] all_left_empty [of s'] show ?thesis by blast
qed

subsection \<open>Examples\<close>

definition locks_zero :: lock_state where
  "locks_zero = \<lparr>ls_registry = \<lparr>rg_entries = Map.empty, rg_next = 0\<rparr>, ls_rlocks = (\<lambda>_. None), ls_calls = []\<rparr>"

lemma reach_zero: "reach locks_start (lock_step id) locks_zero"
  by (rule reach_start) (simp add: locks_start_def locks_zero_def)

lemma reach_enter: "reach locks_start (lock_step c) s \<Longrightarrow> reach locks_start (lock_step c) (sync_enter c t paths s)"
  by (erule reach_step) (rule step_enter)

lemma reach_lock_call: "reach locks_start (lock_step c) s \<Longrightarrow> call_step i s s' \<Longrightarrow> reach locks_start (lock_step c) s'"
  by (erule reach_step) (rule step_call)

text \<open>One thread twice inside calls for one file: a tool that holds a file and calls another one.\<close>

definition inside :: "nat \<Rightarrow> lock_state \<Rightarrow> lock_state" where
  "inside i s = set_call i ((ls_calls s ! i)\<lparr>lc_phase := Inside\<rparr>) s"

definition took :: "nat \<Rightarrow> lock_state \<Rightarrow> lock_state" where
  "took i s = the (acquire_next i s)"

definition outer_call :: lock_state where
  "outer_call = inside 0 (took 0 (sync_enter id 1 [''a''] locks_zero))"

definition nested_calls :: lock_state where
  "nested_calls = inside 1 (took 1 (sync_enter id 1 [''a''] outer_call))"

lemmas lock_example_simps =
  nested_calls_def outer_call_def took_def inside_def locks_zero_def sync_enter_def sync_keys_def register_key_def
  acquire_next_def rlock_acquire_def set_call_def lock_at_def

lemma outer_reach: "reach locks_start (lock_step id) outer_call"
proof -
  let ?s = "sync_enter id 1 [''a''] locks_zero"
  have "reach locks_start (lock_step id) (took 0 ?s)"
    by (rule reach_lock_call [OF reach_enter [OF reach_zero, of 1 "[''a'']"]], rule cs_acquire [of 0]) (simp_all add: lock_example_simps)
  then show ?thesis unfolding outer_call_def inside_def
    by (rule reach_lock_call) (rule cs_enter; simp add: lock_example_simps)
qed

lemma nested_reach: "reach locks_start (lock_step id) nested_calls"
proof -
  let ?s = "sync_enter id 1 [''a''] outer_call"
  have "reach locks_start (lock_step id) (took 1 ?s)"
    by (rule reach_lock_call [OF reach_enter [OF outer_reach, of 1 "[''a'']"]], rule cs_acquire [of 1]) (simp_all add: lock_example_simps)
  then show ?thesis unfolding nested_calls_def inside_def
    by (rule reach_lock_call) (rule cs_enter; simp add: lock_example_simps)
qed

theorem sync_exclusive_witness:
  "map lc_phase (ls_calls nested_calls) = [Inside, Inside] \<and>
   lc_thread (ls_calls nested_calls ! 0) = lc_thread (ls_calls nested_calls ! 1)"
proof -
  have n: "0 < length (ls_calls nested_calls)" "1 < length (ls_calls nested_calls)" by (simp_all add: lock_example_simps)
  have "lc_phase (ls_calls nested_calls ! 0) = Inside" "lc_phase (ls_calls nested_calls ! 1) = Inside"
    "uses_key ''a'' (ls_calls nested_calls ! 0)" "uses_key ''a'' (ls_calls nested_calls ! 1)"
    by (simp_all add: lock_example_simps uses_key_def)
  with sync_exclusive [OF nested_reach n, of "''a''"]
  have "lc_thread (ls_calls nested_calls ! 0) = lc_thread (ls_calls nested_calls ! 1)" by blast
  then show ?thesis by (simp add: lock_example_simps)
qed

text \<open>Two threads want the same file.\<close>

definition locks_two :: lock_state where
  "locks_two = sync_enter id 2 [''b''] (sync_enter id 1 [''b'', ''a''] locks_zero)"

theorem sync_never_deadlocks_witness:
  "lock_work locks_two = 12 \<and> no_nesting locks_two \<and> (\<exists>s. some_call locks_two s) \<and> \<not> all_left locks_two"
proof -
  have nest: "no_nesting locks_two"
    by (simp add: no_nesting_def locks_two_def lock_example_simps less_Suc_eq nth_append)
  have live: "\<not> all_left locks_two" by (simp add: all_left_def locks_two_def lock_example_simps)
  have work: "lock_work locks_two = 12" by (simp add: lock_work_def lock_weight_def locks_two_def lock_example_simps)
  have "reach locks_start (lock_step id) locks_two"
    unfolding locks_two_def by (intro reach_enter reach_zero)
  moreover have "(some_call ^^ 0) locks_two locks_two" by simp
  ultimately show ?thesis using sync_never_deadlocks [of id locks_two 0 locks_two] live nest work by blast
qed

end
