(* ===== verification/Single_Flight.thy ===== *)
theory Single_Flight
  imports Prelude
begin

text \<open>
  The refreshes of \<open>core/singleflight.py\<close>. The first caller of a key owns a flight and runs its
  operation; callers that come meanwhile wait for the flight's future, and a dirty one leaves its
  operation behind as the follow-up of the flight. Threads interleave between the blocks that hold
  the lock, each of which is one step; a thread may call again, for another key, from inside an
  operation, so every thread has a stack of calls. The clock is not part of the code: it numbers
  the calls and the runs of operations, so that their order can be stated.
\<close>

subsection \<open>Flights and calls\<close>

record ('o, 'v) flight =
  fl_owner :: nat
  fl_follow_up :: "'o option"
  fl_result :: "'v res option"
  fl_stamp :: nat

datatype ('k, 'o) frame =
    Own 'k nat 'o nat
  | Await 'k nat nat bool

record ('k, 'o, 'v) flights =
  sf_flights :: "'k \<rightharpoonup> nat"
  sf_heap :: "('o, 'v) flight list"
  sf_stacks :: "nat \<Rightarrow> ('k, 'o) frame list"
  sf_clock :: nat

text \<open>\<open>Own k a f t\<close>: the thread runs \<open>f\<close>, since \<open>t\<close>, for the flight at address \<open>a\<close>; \<open>Await k a t d\<close>: it waits for
  that flight since \<open>t\<close>, with the flag \<open>dirty\<close>. \<open>fl_stamp\<close> is the start of the run that gave the result.\<close>

definition sf_start :: "('k, 'o, 'v) flights \<Rightarrow> bool" where
  "sf_start s \<longleftrightarrow> sf_flights s = Map.empty \<and> sf_heap s = [] \<and> sf_stacks s = (\<lambda>_. [])"

definition push :: "nat \<Rightarrow> ('k, 'o) frame \<Rightarrow> ('k, 'o, 'v) flights \<Rightarrow> ('k, 'o, 'v) flights" where
  "push thread fr s = s\<lparr>sf_stacks := (sf_stacks s)(thread := fr # sf_stacks s thread), sf_clock := Suc (sf_clock s)\<rparr>"

text \<open>The block of \<open>run\<close> before the wait or the loop.\<close>

definition sf_enter :: "nat \<Rightarrow> 'k \<Rightarrow> 'o \<Rightarrow> bool \<Rightarrow> ('k, 'o, 'v) flights \<Rightarrow> ('k, 'o, 'v) flights res" where
  "sf_enter thread key operation dirty s =
     (case sf_flights s key of
        None \<Rightarrow>
          let a = length (sf_heap s);
              new = \<lparr>fl_owner = thread, fl_follow_up = None, fl_result = None, fl_stamp = 0\<rparr>
          in Inr (push thread (Own key a operation (sf_clock s))
                    (s\<lparr>sf_flights := (sf_flights s)(key \<mapsto> a), sf_heap := sf_heap s @ [new]\<rparr>))
      | Some a \<Rightarrow>
          let fl = sf_heap s ! a in
          if fl_owner fl = thread then Inl RuntimeError
          else
            Inr (push thread (Await key a (sf_clock s) dirty)
              (if dirty then s\<lparr>sf_heap := (sf_heap s)[a := fl\<lparr>fl_follow_up := Some operation\<rparr>]\<rparr> else s)))"

text \<open>The block after an operation returned \<open>v\<close>: publish it, or run the follow-up.\<close>

definition sf_returned :: "nat \<Rightarrow> 'v \<Rightarrow> ('k, 'o, 'v) flights \<Rightarrow> ('k, 'o, 'v) flights" where
  "sf_returned thread v s =
     (case sf_stacks s thread of
        Own key a f t # rest \<Rightarrow>
          let fl = sf_heap s ! a in
          (case fl_follow_up fl of
             None \<Rightarrow>
               s\<lparr>sf_flights := (sf_flights s)(key := None),
                 sf_heap := (sf_heap s)[a := fl\<lparr>fl_result := Some (Inr v), fl_stamp := t\<rparr>],
                 sf_stacks := (sf_stacks s)(thread := rest)\<rparr>
           | Some g \<Rightarrow>
               s\<lparr>sf_heap := (sf_heap s)[a := fl\<lparr>fl_follow_up := None\<rparr>],
                 sf_stacks := (sf_stacks s)(thread := Own key a g (sf_clock s) # rest),
                 sf_clock := Suc (sf_clock s)\<rparr>)
      | _ \<Rightarrow> s)"

definition sf_raised :: "nat \<Rightarrow> py_error \<Rightarrow> ('k, 'o, 'v) flights \<Rightarrow> ('k, 'o, 'v) flights" where
  "sf_raised thread e s =
     (case sf_stacks s thread of
        Own key a f t # rest \<Rightarrow>
          s\<lparr>sf_flights := (sf_flights s)(key := None),
            sf_heap := (sf_heap s)[a := (sf_heap s ! a)\<lparr>fl_result := Some (Inl e)\<rparr>],
            sf_stacks := (sf_stacks s)(thread := rest)\<rparr>
      | _ \<Rightarrow> s)"

text \<open>\<open>flight.result.result()\<close>: \<open>None\<close> while it blocks.\<close>

definition sf_wake :: "nat \<Rightarrow> ('k, 'o, 'v) flights \<Rightarrow> ('v res \<times> ('k, 'o, 'v) flights) option" where
  "sf_wake thread s =
     (case sf_stacks s thread of
        Await key a t dirty # rest \<Rightarrow>
          (case fl_result (sf_heap s ! a) of
             None \<Rightarrow> None
           | Some r \<Rightarrow> Some (r, s\<lparr>sf_stacks := (sf_stacks s)(thread := rest)\<rparr>))
      | _ \<Rightarrow> None)"

definition blocked :: "('k, 'o) frame list \<Rightarrow> bool" where
  "blocked stack \<longleftrightarrow> (case stack of Await _ _ _ _ # _ \<Rightarrow> True | _ \<Rightarrow> False)"

definition runs_operation :: "('k, 'o) frame list \<Rightarrow> bool" where
  "runs_operation stack \<longleftrightarrow> (case stack of Own _ _ _ _ # _ \<Rightarrow> True | _ \<Rightarrow> False)"

inductive sf_step :: "('k, 'o, 'v) flights \<Rightarrow> ('k, 'o, 'v) flights \<Rightarrow> bool" for s :: "('k, 'o, 'v) flights" where
  sf_call: "\<not> blocked (sf_stacks s thread) \<Longrightarrow> sf_enter thread key operation dirty s = Inr s' \<Longrightarrow> sf_step s s'"
| sf_return: "runs_operation (sf_stacks s thread) \<Longrightarrow> sf_step s (sf_returned thread v s)"
| sf_raise: "runs_operation (sf_stacks s thread) \<Longrightarrow> sf_step s (sf_raised thread e s)"
| sf_resume: "sf_wake thread s = Some (r, s') \<Longrightarrow> sf_step s s'"

subsection \<open>The invariant\<close>

definition served :: "('k, 'o, 'v) flights \<Rightarrow> nat \<Rightarrow> nat \<Rightarrow> bool" where
  "served s a asked \<longleftrightarrow>
     (let fl = sf_heap s ! a in
      case fl_result fl of
        None \<Rightarrow> fl_follow_up fl \<noteq> None \<or> (\<exists>k f t. Own k a f t \<in> set (sf_stacks s (fl_owner fl)) \<and> asked < t)
      | Some (Inl e) \<Rightarrow> True
      | Some (Inr v) \<Rightarrow> asked < fl_stamp fl)"

fun frame_ok :: "('k, 'o, 'v) flights \<Rightarrow> nat \<Rightarrow> ('k, 'o) frame \<Rightarrow> bool" where
  "frame_ok s thread (Own k a f t) \<longleftrightarrow> sf_flights s k = Some a \<and> fl_owner (sf_heap s ! a) = thread \<and> t < sf_clock s"
| "frame_ok s thread (Await k a t dirty) \<longleftrightarrow>
     a < length (sf_heap s) \<and> t < sf_clock s \<and> fl_owner (sf_heap s ! a) \<noteq> thread \<and>
     (fl_result (sf_heap s ! a) = None \<longrightarrow> sf_flights s k = Some a) \<and> (dirty \<longrightarrow> served s a t)"

definition flight_ok :: "('k, 'o, 'v) flights \<Rightarrow> 'k \<Rightarrow> nat \<Rightarrow> bool" where
  "flight_ok s k a \<longleftrightarrow>
     a < length (sf_heap s) \<and> fl_result (sf_heap s ! a) = None \<and>
     (\<exists>f t. Own k a f t \<in> set (sf_stacks s (fl_owner (sf_heap s ! a))))"

fun own_key :: "('k, 'o) frame \<Rightarrow> 'k list" where
  "own_key (Own k a f t) = [k]"
| "own_key (Await k a t d) = []"

definition own_keys :: "('k, 'o) frame list \<Rightarrow> 'k list" where
  "own_keys stack = concat (map own_key stack)"

definition sf_inv :: "('k, 'o, 'v) flights \<Rightarrow> bool" where
  "sf_inv s \<longleftrightarrow>
     (\<forall>k a. sf_flights s k = Some a \<longrightarrow> flight_ok s k a) \<and>
     (\<forall>k k' a. sf_flights s k = Some a \<longrightarrow> sf_flights s k' = Some a \<longrightarrow> k = k') \<and>
     (\<forall>thread. \<forall>fr \<in> set (sf_stacks s thread). frame_ok s thread fr) \<and>
     (\<forall>thread. distinct (own_keys (sf_stacks s thread)))"

lemma own_in_keys: "k \<in> set (own_keys stack) \<longleftrightarrow> (\<exists>a f t. Own k a f t \<in> set stack)"
proof -
  have "k \<in> set (own_key fr) \<longleftrightarrow> (\<exists>a f t. fr = Own k a f t)" for fr :: "('a, 'b) frame"
    by (cases fr) auto
  then show ?thesis by (auto simp: own_keys_def)
qed

lemma own_keys_simps [simp]:
  "own_keys [] = []" "own_keys (Own k a f t # st) = k # own_keys st" "own_keys (Await k a t d # st) = own_keys st"
  by (simp_all add: own_keys_def)

lemma own_once:
  assumes "distinct (own_keys stack)" "Own k a f t \<in> set stack" "Own k a' f' t' \<in> set stack"
  shows "a = a' \<and> f = f' \<and> t = t'"
  using assms
proof (induction stack)
  case (Cons fr stack)
  have none: "\<nexists>a f t. Own k a f t \<in> set stack" if "k \<notin> set (own_keys stack)" using that by (simp add: own_in_keys)
  show ?case using Cons none by (cases fr) auto
qed simp

lemma inv_frame: "sf_inv s \<Longrightarrow> fr \<in> set (sf_stacks s thread) \<Longrightarrow> frame_ok s thread fr"
  by (simp add: sf_inv_def)

lemma inv_own: "sf_inv s \<Longrightarrow> Own k a f t \<in> set (sf_stacks s thread) \<Longrightarrow>
    sf_flights s k = Some a \<and> fl_owner (sf_heap s ! a) = thread \<and> t < sf_clock s"
  using inv_frame by fastforce

lemma inv_flight:
  "sf_inv s \<Longrightarrow> sf_flights s k = Some a \<Longrightarrow> a < length (sf_heap s) \<and> fl_result (sf_heap s ! a) = None \<and>
     (\<exists>f t. Own k a f t \<in> set (sf_stacks s (fl_owner (sf_heap s ! a))))"
  by (auto simp: sf_inv_def flight_ok_def)

lemma inv_address: "sf_inv s \<Longrightarrow> sf_flights s k = Some a \<Longrightarrow> sf_flights s k' = Some a \<Longrightarrow> k = k'"
  by (auto simp: sf_inv_def)

lemma own_unique:
  assumes "sf_inv s" "Own k a f t \<in> set (sf_stacks s thread)" "Own k a' f' t' \<in> set (sf_stacks s thread')"
  shows "thread = thread' \<and> a = a' \<and> f = f' \<and> t = t'"
proof -
  have th: "thread = thread'"
  proof -
    have "a = a'" using inv_own [OF assms(1,2)] inv_own [OF assms(1,3)] by simp
    then show ?thesis using inv_own [OF assms(1,2)] inv_own [OF assms(1,3)] by simp
  qed
  have "distinct (own_keys (sf_stacks s thread))" using assms(1) by (simp add: sf_inv_def)
  from own_once [OF this assms(2) assms(3) [folded th]] th show ?thesis by simp
qed

text \<open>A run for one address is a run of one key.\<close>

lemma own_address:
  assumes "sf_inv s" "Own k a f t \<in> set (sf_stacks s thread)" "Own k' a f' t' \<in> set (sf_stacks s thread')"
  shows "thread = thread' \<and> k = k' \<and> f = f' \<and> t = t'"
proof -
  have "k = k'" using inv_own [OF assms(1,2)] inv_own [OF assms(1,3)] inv_address [OF assms(1)] by blast
  with own_unique [OF assms(1,2)] assms(3) show ?thesis by blast
qed

lemma served_None:
  "fl_result (sf_heap s ! a) = None \<Longrightarrow> served s a asked \<longleftrightarrow>
     fl_follow_up (sf_heap s ! a) \<noteq> None \<or> (\<exists>k f t. Own k a f t \<in> set (sf_stacks s (fl_owner (sf_heap s ! a))) \<and> asked < t)"
  by (simp add: served_def Let_def)

text \<open>What a step may do to a flight that is not its own.\<close>

lemma served_other:
  assumes "sf_heap s' ! a = sf_heap s ! a"
    "\<And>k f t. Own k a f t \<in> set (sf_stacks s (fl_owner (sf_heap s ! a))) \<Longrightarrow> Own k a f t \<in> set (sf_stacks s' (fl_owner (sf_heap s ! a)))"
  shows "served s a asked \<Longrightarrow> served s' a asked"
proof -
  assume old: "served s a asked"
  show "served s' a asked"
  proof (cases "fl_result (sf_heap s ! a)")
    case None
    with old assms(2) show ?thesis
      unfolding served_None [OF None] served_None [of s' a, unfolded assms(1), OF None] by blast
  next
    case (Some r)
    with old assms(1) show ?thesis by (simp add: served_def Let_def)
  qed
qed

lemma sf_inv_intro:
  assumes "\<And>k a. sf_flights s k = Some a \<Longrightarrow> flight_ok s k a"
    and "\<And>k k' a. sf_flights s k = Some a \<Longrightarrow> sf_flights s k' = Some a \<Longrightarrow> k = k'"
    and "\<And>thread fr. fr \<in> set (sf_stacks s thread) \<Longrightarrow> frame_ok s thread fr"
    and "\<And>thread. distinct (own_keys (sf_stacks s thread))"
  shows "sf_inv s"
  using assms unfolding sf_inv_def by blast

lemma inv_resume:
  assumes "sf_inv s" "sf_wake thread s = Some (r, s')"
  shows "sf_inv s'"
proof -
  obtain k a t d rest where st: "sf_stacks s thread = Await k a t d # rest"
    and s': "s' = s\<lparr>sf_stacks := (sf_stacks s)(thread := rest)\<rparr>"
    using assms(2) by (auto simp: sf_wake_def split: list.splits frame.splits option.splits)
  have own: "Own k a f t \<in> set (sf_stacks s' th) \<longleftrightarrow> Own k a f t \<in> set (sf_stacks s th)" for k a f t th
    by (simp add: s' st)
  have served: "served s a asked \<Longrightarrow> served s' a asked" for a asked
    by (rule served_other) (simp add: s', simp add: own)
  show ?thesis
  proof (rule sf_inv_intro)
    show "flight_ok s' k a" if "sf_flights s' k = Some a" for k a
      using inv_flight [OF assms(1), of k a] that own by (simp add: flight_ok_def s')
    show "k = k'" if "sf_flights s' k = Some a" "sf_flights s' k' = Some a" for k k' a
      using inv_address [OF assms(1)] that by (simp add: s')
    show "frame_ok s' th fr" if "fr \<in> set (sf_stacks s' th)" for th fr
    proof -
      have "fr \<in> set (sf_stacks s th)" using that st by (auto simp: s' split: if_splits)
      then have "frame_ok s th fr" by (rule inv_frame [OF assms(1)])
      then show ?thesis using served by (cases fr) (auto simp: s')
    qed
    have "distinct (own_keys (sf_stacks s th))" for th using assms(1) by (simp add: sf_inv_def)
    from this [of thread] this show "distinct (own_keys (sf_stacks s' th))" for th by (simp add: s' st)
  qed
qed

lemma inv_keys: "sf_inv s \<Longrightarrow> distinct (own_keys (sf_stacks s thread))"
  by (simp add: sf_inv_def)

lemma inv_enter_new:
  assumes "sf_inv s" "sf_flights s key = None" "sf_enter thread key f dirty s = Inr s'"
  shows "sf_inv s'"
proof -
  define a0 where "a0 = length (sf_heap s)"
  let ?new = "\<lparr>fl_owner = thread, fl_follow_up = None, fl_result = None, fl_stamp = 0\<rparr>"
  have s': "sf_flights s' = (sf_flights s)(key \<mapsto> a0)" "sf_heap s' = sf_heap s @ [?new]" "sf_clock s' = Suc (sf_clock s)"
    "sf_stacks s' = (sf_stacks s)(thread := Own key a0 f (sf_clock s) # sf_stacks s thread)"
    using assms(2,3) by (auto simp: sf_enter_def push_def Let_def a0_def)
  have len: "length (sf_heap s') = Suc (length (sf_heap s))" by (simp add: s')
  have old: "sf_heap s' ! a = sf_heap s ! a" if "a < length (sf_heap s)" for a using that by (simp add: s' nth_append)
  have new: "sf_heap s' ! a0 = ?new" by (simp add: s' a0_def)
  have mem: "set (sf_stacks s th) \<subseteq> set (sf_stacks s' th)" for th by (auto simp: s')
  have below: "a < length (sf_heap s)" if "sf_flights s k = Some a" for k a using inv_flight [OF assms(1) that] by blast
  have served: "served s a asked \<Longrightarrow> served s' a asked" if "a < length (sf_heap s)" for a asked
    by (rule served_other) (use old [OF that] mem in auto)
  show ?thesis
  proof (rule sf_inv_intro)
    show "flight_ok s' k a" if k: "sf_flights s' k = Some a" for k a
    proof (cases "k = key")
      case True
      with k have "a = a0" by (simp add: s')
      with True new show ?thesis by (auto simp: flight_ok_def s' a0_def)
    next
      case False
      with k have "sf_flights s k = Some a" by (simp add: s')
      then obtain g t where a: "a < length (sf_heap s)" "fl_result (sf_heap s ! a) = None"
        "Own k a g t \<in> set (sf_stacks s (fl_owner (sf_heap s ! a)))"
        using inv_flight [OF assms(1)] by blast
      then have "Own k a g t \<in> set (sf_stacks s' (fl_owner (sf_heap s ! a)))" using mem by blast
      with a(1,2) old [OF a(1)] show ?thesis by (auto simp: flight_ok_def len)
    qed
    show "k = k'" if "sf_flights s' k = Some a" "sf_flights s' k' = Some a" for k k' a
      using inv_address [OF assms(1), of k a k'] below that by (auto simp: s' a0_def split: if_splits)
    show "frame_ok s' th fr" if fr: "fr \<in> set (sf_stacks s' th)" for th fr
    proof (cases "fr \<in> set (sf_stacks s th)")
      case True
      then have ok: "frame_ok s th fr" by (rule inv_frame [OF assms(1)])
      show ?thesis
      proof (cases fr)
        case (Own k a g t)
        with ok assms(2) below [of k a] old [of a] show ?thesis by (auto simp: s')
      next
        case (Await k a t d)
        with ok old [of a] served [of a t] assms(2) show ?thesis by (auto simp: s')
      qed
    next
      case False
      with fr have "th = thread" "fr = Own key a0 f (sf_clock s)" by (auto simp: s' split: if_splits)
      with new show ?thesis by (simp add: s')
    qed
    have "key \<notin> set (own_keys (sf_stacks s thread))"
      using inv_own [OF assms(1)] assms(2) by (force simp: own_in_keys)
    then show "distinct (own_keys (sf_stacks s' th))" for th using inv_keys [OF assms(1)] by (simp add: s')
  qed
qed

lemma inv_enter_wait:
  assumes "sf_inv s" "sf_flights s key = Some a0" "sf_enter thread key f dirty s = Inr s'"
  shows "sf_inv s'"
proof -
  define fl where "fl = (if dirty then (sf_heap s ! a0)\<lparr>fl_follow_up := Some f\<rparr> else sf_heap s ! a0)"
  have flight: "a0 < length (sf_heap s)" "fl_result (sf_heap s ! a0) = None" using inv_flight [OF assms(1,2)] by simp_all
  have s': "sf_flights s' = sf_flights s" "sf_heap s' = (sf_heap s)[a0 := fl]" "sf_clock s' = Suc (sf_clock s)"
    "sf_stacks s' = (sf_stacks s)(thread := Await key a0 (sf_clock s) dirty # sf_stacks s thread)"
    and other: "fl_owner (sf_heap s ! a0) \<noteq> thread"
    using assms(2,3) by (auto simp: sf_enter_def push_def Let_def fl_def split: if_splits)
  have len: "length (sf_heap s') = length (sf_heap s)" by (simp add: s')
  have heap: "fl_owner (sf_heap s' ! a) = fl_owner (sf_heap s ! a)" "fl_result (sf_heap s' ! a) = fl_result (sf_heap s ! a)"
    "a \<noteq> a0 \<Longrightarrow> sf_heap s' ! a = sf_heap s ! a" for a
    using flight(1) by (auto simp: s' fl_def nth_list_update)
  have own: "Own k a g t \<in> set (sf_stacks s' th) \<longleftrightarrow> Own k a g t \<in> set (sf_stacks s th)" for k a g t th
    by (simp add: s')
  have a0: "sf_heap s' ! a0 = fl" using flight(1) by (simp add: s')
  have served: "served s a asked \<Longrightarrow> served s' a asked" for a asked
  proof (cases "a = a0 \<and> dirty")
    case True
    then have "fl_follow_up (sf_heap s' ! a) \<noteq> None" "fl_result (sf_heap s' ! a) = None"
      using a0 flight(2) heap(2) by (simp_all add: fl_def)
    then show "served s' a asked" by (simp add: served_None)
  next
    case False
    then have "sf_heap s' ! a = sf_heap s ! a" using heap(3) a0 by (cases "a = a0") (simp_all add: fl_def)
    then show "served s a asked \<Longrightarrow> served s' a asked" by (rule served_other) (simp add: own)
  qed
  show ?thesis
  proof (rule sf_inv_intro)
    show "flight_ok s' k a" if "sf_flights s' k = Some a" for k a
      using inv_flight [OF assms(1), of k a] that by (simp add: flight_ok_def heap own) (simp add: s')
    show "k = k'" if "sf_flights s' k = Some a" "sf_flights s' k' = Some a" for k k' a
      using inv_address [OF assms(1)] that by (simp add: s')
    show "frame_ok s' th fr" if fr: "fr \<in> set (sf_stacks s' th)" for th fr
    proof (cases "fr \<in> set (sf_stacks s th)")
      case True
      then have "frame_ok s th fr" by (rule inv_frame [OF assms(1)])
      then show ?thesis using served by (cases fr) (auto simp: heap len s'(1,3))
    next
      case False
      with fr have th: "th = thread" "fr = Await key a0 (sf_clock s) dirty" by (auto simp: s' split: if_splits)
      have "served s' a0 (sf_clock s)" if dirty
        using that a0 flight(2) heap(2) by (simp add: served_None fl_def)
      with th flight(1) other assms(2) show ?thesis by (simp add: heap) (simp add: s')
    qed
    show "distinct (own_keys (sf_stacks s' th))" for th using inv_keys [OF assms(1)] by (simp add: s')
  qed
qed

text \<open>An operation ends: the frame on top of the stack is the only run of its flight.\<close>

lemma top_run:
  assumes "sf_inv s" "sf_stacks s thread = Own key a0 f t # rest"
  shows "sf_flights s key = Some a0" "fl_owner (sf_heap s ! a0) = thread" "t < sf_clock s" "a0 < length (sf_heap s)"
    "fl_result (sf_heap s ! a0) = None"
    "Own k a0 g u \<in> set (sf_stacks s th) \<Longrightarrow> th = thread \<and> k = key \<and> g = f \<and> u = t"
    "Own key a g u \<in> set (sf_stacks s th) \<Longrightarrow> th = thread \<and> a = a0 \<and> g = f \<and> u = t"
    "Own k a0 g u \<notin> set rest" "Own key a g u \<notin> set rest"
proof -
  have top: "Own key a0 f t \<in> set (sf_stacks s thread)" by (simp add: assms(2))
  show fl: "sf_flights s key = Some a0" "fl_owner (sf_heap s ! a0) = thread" "t < sf_clock s"
    using inv_own [OF assms(1) top] by simp_all
  show "a0 < length (sf_heap s)" "fl_result (sf_heap s ! a0) = None" using inv_flight [OF assms(1) fl(1)] by simp_all
  show "Own k a0 g u \<in> set (sf_stacks s th) \<Longrightarrow> th = thread \<and> k = key \<and> g = f \<and> u = t"
    using own_address [OF assms(1) top] by blast
  show "Own key a g u \<in> set (sf_stacks s th) \<Longrightarrow> th = thread \<and> a = a0 \<and> g = f \<and> u = t"
    using own_unique [OF assms(1) top] by blast
  have "key \<notin> set (own_keys rest)" using inv_keys [OF assms(1), of thread] assms(2) by simp
  then have none: "Own key a g u \<notin> set rest" for a g u by (auto simp: own_in_keys)
  then show "Own key a g u \<notin> set rest" .
  show "Own k a0 g u \<notin> set rest"
  proof
    assume rest: "Own k a0 g u \<in> set rest"
    then have "Own k a0 g u \<in> set (sf_stacks s thread)" by (simp add: assms(2))
    then have "key = k" using own_address [OF assms(1) top] by blast
    with none rest show False by blast
  qed
qed

text \<open>A flight that ends: the result is set, the key is free, the frame is gone.\<close>

lemma inv_end:
  assumes inv: "sf_inv s" and st: "sf_stacks s thread = Own key a0 f t # rest"
    and s': "s' = s\<lparr>sf_flights := (sf_flights s)(key := None), sf_heap := (sf_heap s)[a0 := fl],
      sf_stacks := (sf_stacks s)(thread := rest)\<rparr>"
    and fl: "fl_owner fl = fl_owner (sf_heap s ! a0)" "fl_result fl = Some r"
    and stamp: "\<And>v. r = Inr v \<Longrightarrow> fl_stamp fl = t \<and> fl_follow_up (sf_heap s ! a0) = None"
  shows "sf_inv s'"
proof -
  note top = top_run [OF inv st]
  have a0: "sf_heap s' ! a0 = fl" using top(4) by (simp add: s')
  have other: "sf_heap s' ! a = sf_heap s ! a" if "a \<noteq> a0" for a using that by (simp add: s')
  have owner: "fl_owner (sf_heap s' ! a) = fl_owner (sf_heap s ! a)" for a using a0 other fl(1) by (cases "a = a0") simp_all
  have own: "Own k a g u \<in> set (sf_stacks s' th) \<longleftrightarrow> Own k a g u \<in> set (sf_stacks s th)" if "a \<noteq> a0" for k a g u th
    using that by (auto simp: s' st)
  have subset: "set (sf_stacks s' th) \<subseteq> set (sf_stacks s th)" for th by (auto simp: s' st)
  have away: "Own k a0 g u \<notin> set (sf_stacks s' th)" for k g u th
    using top(6,8) [of k g u] by (auto simp: s' split: if_splits)
  have served: "served s' a asked" if old: "served s a asked" for a asked
  proof (cases "a = a0")
    case True
    have run: "asked < t" if "fl_follow_up (sf_heap s ! a0) = None"
      using old that top(6) unfolding True served_None [OF top(5)] by auto
    with True a0 fl(2) stamp show ?thesis by (cases r) (simp_all add: served_def)
  next
    case False
    show ?thesis by (rule served_other [OF _ _ old]) (simp_all add: other own False)
  qed
  show ?thesis
  proof (rule sf_inv_intro)
    show "flight_ok s' k a" if k: "sf_flights s' k = Some a" for k a
    proof -
      have k: "k \<noteq> key" "sf_flights s k = Some a" using k by (auto simp: s' split: if_splits)
      then have "a \<noteq> a0" using inv_address [OF inv] top(1) by blast
      with inv_flight [OF inv k(2)] show ?thesis by (simp add: flight_ok_def other own) (simp add: s')
    qed
    show "k = k'" if "sf_flights s' k = Some a" "sf_flights s' k' = Some a" for k k' a
      using inv_address [OF inv, of k a k'] that by (auto simp: s' split: if_splits)
    show "frame_ok s' th fr" if fr: "fr \<in> set (sf_stacks s' th)" for th fr
    proof (cases fr)
      case (Own k a g u)
      then have "a \<noteq> a0" using away fr by blast
      moreover have "Own k a g u \<in> set (sf_stacks s th)" using subset fr Own by blast
      moreover have "k \<noteq> key" using top(1) calculation inv_own [OF inv] by fastforce
      ultimately show ?thesis using inv_own [OF inv] Own by (simp add: owner) (simp add: s')
    next
      case (Await k a u d)
      then have ok: "frame_ok s th (Await k a u d)" using subset fr inv_frame [OF inv] by blast
      moreover have "fl_result (sf_heap s' ! a) \<noteq> None \<or> sf_flights s' k = sf_flights s k \<and> fl_result (sf_heap s' ! a) = fl_result (sf_heap s ! a)"
        using ok a0 fl(2) other top(1) by (cases "a = a0") (auto simp: s')
      ultimately show ?thesis using served Await by (auto simp: owner) (simp_all add: s')
    qed
    show "distinct (own_keys (sf_stacks s' th))" for th
      using inv_keys [OF inv, of th] st by (auto simp: s')
  qed
qed

text \<open>The owner goes on with the follow-up: the flight stays, its run is a new one.\<close>

lemma inv_follow_up:
  assumes inv: "sf_inv s" and st: "sf_stacks s thread = Own key a0 f t # rest"
    and s': "s' = s\<lparr>sf_heap := (sf_heap s)[a0 := (sf_heap s ! a0)\<lparr>fl_follow_up := None\<rparr>],
      sf_stacks := (sf_stacks s)(thread := Own key a0 g (sf_clock s) # rest), sf_clock := Suc (sf_clock s)\<rparr>"
  shows "sf_inv s'"
proof -
  note top = top_run [OF inv st]
  have len: "length (sf_heap s') = length (sf_heap s)" by (simp add: s')
  have heap: "fl_owner (sf_heap s' ! a) = fl_owner (sf_heap s ! a)" "fl_result (sf_heap s' ! a) = fl_result (sf_heap s ! a)"
    "a \<noteq> a0 \<Longrightarrow> sf_heap s' ! a = sf_heap s ! a" for a
    using top(4) by (cases "a = a0"; simp add: s')+
  have new: "Own key a0 g (sf_clock s) \<in> set (sf_stacks s' thread)" by (simp add: s')
  have own: "Own k a h u \<in> set (sf_stacks s' th) \<longleftrightarrow> Own k a h u \<in> set (sf_stacks s th)" if "a \<noteq> a0" for k a h u th
    using that by (auto simp: s' st)
  have served: "served s' a asked" if old: "served s a asked" and asked: "asked < sf_clock s" for a asked
  proof (cases "a = a0")
    case True
    have "fl_result (sf_heap s' ! a0) = None" "fl_owner (sf_heap s' ! a0) = thread" using heap(1,2) top(2,5) by simp_all
    with True new asked show ?thesis by (auto simp: served_None)
  next
    case False
    show ?thesis by (rule served_other [OF _ _ old]) (simp_all add: heap(3) own False)
  qed
  show ?thesis
  proof (rule sf_inv_intro)
    show "flight_ok s' k a" if k: "sf_flights s' k = Some a" for k a
    proof (cases "a = a0")
      case True
      then have "k = key" using inv_address [OF inv _ top(1)] k by (simp add: s')
      with True top(2,4,5) new show ?thesis by (auto simp: flight_ok_def heap(1,2) len)
    next
      case False
      with k inv_flight [OF inv, of k a] show ?thesis by (simp add: flight_ok_def heap(1,2) len own) (simp add: s')
    qed
    show "k = k'" if "sf_flights s' k = Some a" "sf_flights s' k' = Some a" for k k' a
      using inv_address [OF inv, of k a k'] that by (simp add: s')
    show "frame_ok s' th fr" if fr: "fr \<in> set (sf_stacks s' th)" for th fr
    proof (cases "fr = Own key a0 g (sf_clock s) \<and> th = thread")
      case True
      with top(1,2) show ?thesis by (simp add: heap(1)) (simp add: s')
    next
      case False
      then have "fr \<in> set (sf_stacks s th)" using fr by (auto simp: s' st split: if_splits)
      then have ok: "frame_ok s th fr" by (rule inv_frame [OF inv])
      show ?thesis
      proof (cases fr)
        case (Own k a h u)
        with ok show ?thesis by (simp add: heap(1)) (simp add: s')
      next
        case (Await k a u d)
        with ok served [of a u] show ?thesis by (simp add: heap(1,2) len) (simp add: s')
      qed
    qed
    show "distinct (own_keys (sf_stacks s' th))" for th
      using inv_keys [OF inv, of th] st by (auto simp: s')
  qed
qed

lemma runs_operation_top: "runs_operation stack \<Longrightarrow> \<exists>key a f t rest. stack = Own key a f t # rest"
  by (auto simp: runs_operation_def split: list.splits frame.splits)

lemma inv_sf_step:
  assumes "sf_step s s'" "sf_inv s"
  shows "sf_inv s'"
  using assms(1)
proof cases
  case (sf_call thread key operation dirty)
  then show ?thesis using inv_enter_new [OF assms(2)] inv_enter_wait [OF assms(2)] by (cases "sf_flights s key") blast+
next
  case (sf_return thread v)
  obtain key a f t rest where st: "sf_stacks s thread = Own key a f t # rest" using runs_operation_top sf_return(2) by blast
  show ?thesis
  proof (cases "fl_follow_up (sf_heap s ! a)")
    case None
    show ?thesis
      by (rule inv_end [OF assms(2) st, where r = "Inr v" and
            fl = "(sf_heap s ! a)\<lparr>fl_result := Some (Inr v), fl_stamp := t\<rparr>"])
        (simp_all add: sf_return(1) sf_returned_def st Let_def None)
  next
    case (Some g)
    show ?thesis by (rule inv_follow_up [OF assms(2) st, of _ g]) (simp add: sf_return(1) sf_returned_def st Let_def Some)
  qed
next
  case (sf_raise thread e)
  obtain key a f t rest where st: "sf_stacks s thread = Own key a f t # rest" using runs_operation_top sf_raise(2) by blast
  show ?thesis
    by (rule inv_end [OF assms(2) st, where r = "Inl e" and fl = "(sf_heap s ! a)\<lparr>fl_result := Some (Inl e)\<rparr>"])
      (simp_all add: sf_raise(1) sf_raised_def st)
next
  case (sf_resume thread r)
  then show ?thesis using inv_resume [OF assms(2)] by blast
qed

lemma inv_sf_start: "sf_start s \<Longrightarrow> sf_inv s"
  by (simp add: sf_start_def sf_inv_def)

lemma reach_sf_inv: "reach sf_start sf_step s \<Longrightarrow> sf_inv s"
  by (erule reach_invariant) (auto intro: inv_sf_start inv_sf_step)

subsection \<open>What callers get\<close>

text \<open>A result that was set stays.\<close>

lemma result_fixed:
  assumes "sf_step s s'" "sf_inv s" "a < length (sf_heap s)" "fl_result (sf_heap s ! a) = Some r"
  shows "a < length (sf_heap s') \<and> fl_result (sf_heap s' ! a) = Some r \<and> fl_stamp (sf_heap s' ! a) = fl_stamp (sf_heap s ! a)"
  using assms(1)
proof cases
  case (sf_call thread key operation dirty)
  then show ?thesis
    using assms(3,4) inv_flight [OF assms(2), of key]
    by (auto simp: sf_enter_def push_def Let_def nth_append nth_list_update split: option.splits if_splits)
next
  case (sf_return thread v)
  obtain key b f t rest where st: "sf_stacks s thread = Own key b f t # rest" using runs_operation_top sf_return(2) by blast
  have "b \<noteq> a" using top_run(5) [OF assms(2) st] assms(4) by auto
  then show ?thesis using assms(3,4) by (auto simp: sf_return(1) sf_returned_def st Let_def split: option.splits)
next
  case (sf_raise thread e)
  obtain key b f t rest where st: "sf_stacks s thread = Own key b f t # rest" using runs_operation_top sf_raise(2) by blast
  have "b \<noteq> a" using top_run(5) [OF assms(2) st] assms(4) by auto
  then show ?thesis using assms(3,4) by (simp add: sf_raise(1) sf_raised_def st)
next
  case (sf_resume thread r)
  then show ?thesis using assms(3,4) by (auto simp: sf_wake_def split: list.splits frame.splits option.splits)
qed

text \<open>C36. Refreshes are shared and never stale: however threads interleave, a key has at most one running
  operation; a caller that waits is never forgotten, since as long as its flight has no result
  another thread runs an operation for the same key; once the result is set, no step changes it,
  so all callers of the flight get the same; and a dirty caller gets a result only from an
  operation that was started after its own call, or the exception of a run.\<close>

theorem single_flight_fresh:
  assumes "reach sf_start sf_step s"
  shows "(Own k a f t \<in> set (sf_stacks s th1) \<and> Own k b g u \<in> set (sf_stacks s th2) \<longrightarrow>
      th1 = th2 \<and> a = b \<and> f = g \<and> t = u) \<and>
    (Await k a asked dirty \<in> set (sf_stacks s th1) \<longrightarrow>
      (case fl_result (sf_heap s ! a) of
         None \<Rightarrow> \<exists>th2 f t. th2 \<noteq> th1 \<and> Own k a f t \<in> set (sf_stacks s th2)
       | Some r \<Rightarrow> (dirty \<and> \<not> is_error r \<longrightarrow> asked < fl_stamp (sf_heap s ! a)) \<and>
           (sf_step s s' \<longrightarrow> fl_result (sf_heap s' ! a) = Some r)))"
proof (intro conjI impI)
  have inv: "sf_inv s" by (rule reach_sf_inv [OF assms])
  show "th1 = th2" "a = b" "f = g" "t = u"
    if "Own k a f t \<in> set (sf_stacks s th1) \<and> Own k b g u \<in> set (sf_stacks s th2)"
    using own_unique [OF inv] that by blast+
  assume wait: "Await k a asked dirty \<in> set (sf_stacks s th1)"
  have ok: "a < length (sf_heap s)" "fl_owner (sf_heap s ! a) \<noteq> th1"
    "fl_result (sf_heap s ! a) = None \<Longrightarrow> sf_flights s k = Some a" "dirty \<Longrightarrow> served s a asked"
    using inv_frame [OF inv wait] by simp_all
  show "case fl_result (sf_heap s ! a) of
         None \<Rightarrow> \<exists>th2 f t. th2 \<noteq> th1 \<and> Own k a f t \<in> set (sf_stacks s th2)
       | Some r \<Rightarrow> (dirty \<and> \<not> is_error r \<longrightarrow> asked < fl_stamp (sf_heap s ! a)) \<and>
           (sf_step s s' \<longrightarrow> fl_result (sf_heap s' ! a) = Some r)"
  proof (cases "fl_result (sf_heap s ! a)")
    case None
    then show ?thesis using inv_flight [OF inv ok(3) [OF None]] ok(2) by auto
  next
    case (Some r)
    then show ?thesis
      using ok(4) result_fixed [OF _ inv ok(1) Some] by (cases r) (auto simp: served_def)
  qed
qed

subsection \<open>An example\<close>

text \<open>Thread 1 refreshes a key, thread 2 asks for a newer state meanwhile, and the owner runs both operations.\<close>

type_synonym example_flights = "(string, nat, nat) flights"

definition flights_zero :: example_flights where
  "flights_zero = \<lparr>sf_flights = Map.empty, sf_heap = [], sf_stacks = (\<lambda>_. []), sf_clock = 0\<rparr>"

definition entered :: "example_flights res \<Rightarrow> example_flights" where
  "entered r = (case r of Inl e \<Rightarrow> flights_zero | Inr s \<Rightarrow> s)"

definition both_called :: example_flights where
  "both_called = entered (sf_enter 2 ''k'' 20 True (entered (sf_enter 1 ''k'' 10 False flights_zero)))"

definition both_run :: example_flights where
  "both_run = sf_returned 1 7 (sf_returned 1 5 both_called)"

lemmas flight_example_simps =
  both_run_def both_called_def entered_def flights_zero_def sf_enter_def sf_returned_def push_def

lemma both_called_reach: "reach sf_start sf_step both_called"
proof -
  have "reach sf_start sf_step flights_zero" by (rule reach_start) (simp add: sf_start_def flights_zero_def)
  then have "reach sf_start sf_step (entered (sf_enter 1 ''k'' 10 False flights_zero))"
    by (rule reach_step) (rule sf_call [of _ 1 "''k''" 10 False]; simp add: blocked_def flight_example_simps)
  then show ?thesis unfolding both_called_def
    by (rule reach_step) (rule sf_call [of _ 2 "''k''" 20 True]; simp add: blocked_def flight_example_simps)
qed

lemma both_run_reach: "reach sf_start sf_step both_run"
proof -
  from both_called_reach have "reach sf_start sf_step (sf_returned 1 5 both_called)"
    by (rule reach_step) (rule sf_return; simp add: runs_operation_def flight_example_simps)
  then show ?thesis unfolding both_run_def
    by (rule reach_step) (rule sf_return; simp add: runs_operation_def flight_example_simps)
qed

theorem single_flight_fresh_witness:
  "sf_stacks both_run 2 = [Await ''k'' 0 1 True] \<and> fl_result (sf_heap both_run ! 0) = Some (Inr 7) \<and>
   1 < fl_stamp (sf_heap both_run ! 0)"
proof -
  have st: "sf_stacks both_run 2 = [Await ''k'' 0 1 True]" "fl_result (sf_heap both_run ! 0) = Some (Inr 7)"
    by (simp_all add: flight_example_simps)
  from single_flight_fresh [OF both_run_reach, where k = "''k''" and a = 0 and asked = 1 and dirty = True and ?th1.0 = 2] st
  show ?thesis by simp
qed

end
