(* ===== verification/Runtime_Lifecycle.thy ===== *)
theory Runtime_Lifecycle
  imports Operation_Journal
begin

text \<open>
  The drain handshake between a runtime (\<open>core/lifecycle.py\<close>) and its supervisor
  (\<open>drain_runtime\<close> of \<open>scripts/supervisor.py\<close>). The runtime counts its running mutations and publishes its
  state in a status file; the supervisor asks through a control file and kills the runtime when the
  status says that it is drained. Every block that holds the lock of \<open>RuntimeLifecycle\<close> is one step; the
  content of the control file is arbitrary, and whether a write of the status file succeeds and what
  the clock says are arguments.
\<close>

subsection \<open>The state of a runtime\<close>

datatype lifecycle_state = Running | Draining | Stopping

record lifecycle_status =
  st_pid :: int
  st_state :: lifecycle_state
  st_active_mutations :: int
  st_request_id :: "string option"
  st_deadline :: "json option"
  st_managed :: bool
  st_updated_at :: int

record lifecycle =
  lf_state :: lifecycle_state
  lf_active_mutations :: int
  lf_request_id :: "string option"
  lf_deadline :: "json option"
  lf_has_control :: bool
  lf_has_status :: bool
  lf_pid :: int
  lf_managed :: bool
  lf_status_dirty :: bool
  lf_status_file :: "lifecycle_status option"

definition lifecycle_snapshot :: "int \<Rightarrow> lifecycle \<Rightarrow> lifecycle_status" where
  "lifecycle_snapshot now lf =
     \<lparr>st_pid = lf_pid lf, st_state = lf_state lf, st_active_mutations = lf_active_mutations lf,
      st_request_id = lf_request_id lf, st_deadline = lf_deadline lf, st_managed = lf_managed lf, st_updated_at = now\<rparr>"

text \<open>\<open>written\<close>: the temporary file was written and renamed; otherwise an \<open>OSError\<close> leaves the old file.\<close>

definition publish :: "bool \<Rightarrow> int \<Rightarrow> lifecycle \<Rightarrow> lifecycle" where
  "publish written now lf =
     (if \<not> lf_has_status lf then lf\<lparr>lf_status_dirty := False\<rparr>
      else if written then lf\<lparr>lf_status_file := Some (lifecycle_snapshot now lf), lf_status_dirty := False\<rparr>
      else lf\<lparr>lf_status_dirty := True\<rparr>)"

definition configure_lifecycle :: "bool \<Rightarrow> bool \<Rightarrow> int \<Rightarrow> bool \<Rightarrow> int \<Rightarrow> lifecycle \<Rightarrow> lifecycle" where
  "configure_lifecycle has_control has_status pid written now lf =
     publish written now
       (lf\<lparr>lf_state := Running, lf_active_mutations := 0, lf_request_id := None, lf_deadline := None,
           lf_has_control := has_control, lf_has_status := has_status, lf_pid := pid,
           lf_managed := (has_control \<and> has_status)\<rparr>)"

subsection \<open>Requests of the supervisor\<close>

text \<open>What reading the control file gives: nothing readable, or its size and the JSON value.\<close>

type_synonym control_file = "(nat \<times> json) option"

definition MAX_CONTROL_BYTES :: nat where
  "MAX_CONTROL_BYTES = 16384"

definition lifecycle_control_request :: "string \<Rightarrow> string \<Rightarrow> json \<Rightarrow> json" where
  "lifecycle_control_request command request_id deadline =
     JObj [(''schema_version'', JInt 1), (''command'', JStr command), (''request_id'', JStr request_id), (''deadline'', deadline)]"

definition read_control :: "control_file \<Rightarrow> lifecycle \<Rightarrow> dict option" where
  "read_control file lf =
     (if \<not> lf_has_control lf then None
      else case file of
        Some (bytes, JObj d) \<Rightarrow>
          if MAX_CONTROL_BYTES < bytes then None
          else if current_schema d then Some d
          else None
      | _ \<Rightarrow> None)"

text \<open>\<open>float(deadline)\<close> of a number; a boolean is one, and an integer from \<open>2^1024 - 2^970\<close> on overflows.\<close>

definition parse_deadline :: "json option \<Rightarrow> json option res" where
  "parse_deadline v =
     (case v of
        Some (JInt i) \<Rightarrow> if 2 ^ 1024 - 2 ^ 970 \<le> \<bar>i\<bar> then Inl OverflowError else Inr (Some (JInt i))
      | Some (JBool b) \<Rightarrow> Inr (Some (JInt (if b then 1 else 0)))
      | Some (JFloat x) \<Rightarrow> Inr (Some (JFloat x))
      | _ \<Rightarrow> Inr None)"

definition requested_state :: "bool \<Rightarrow> lifecycle_state \<Rightarrow> lifecycle_state" where
  "requested_state stop state = (if stop then Stopping else if state = Running then Draining else state)"

text \<open>The second half of \<open>poll_control\<close>. A list or an object as command is not hashable.\<close>

definition apply_request :: "bool \<Rightarrow> int \<Rightarrow> dict \<Rightarrow> lifecycle \<Rightarrow> lifecycle res" where
  "apply_request written now request lf =
     (case lookup ''command'' request of
        Some (JList _) \<Rightarrow> Inl TypeError
      | Some (JObj _) \<Rightarrow> Inl TypeError
      | command \<Rightarrow>
          if command \<notin> {Some (JStr ''drain''), Some (JStr ''stop'')} then Inr lf
          else case get_str ''request_id'' request of
            None \<Rightarrow> Inr lf
          | Some request_id \<Rightarrow>
              if request_id = [] then Inr lf
              else
                bind_res (parse_deadline (lookup ''deadline'' request)) (\<lambda>deadline.
                  Inr (publish written now
                    (lf\<lparr>lf_request_id := Some request_id, lf_deadline := deadline,
                        lf_state := requested_state (command = Some (JStr ''stop'')) (lf_state lf)\<rparr>))))"

definition republish :: "bool \<Rightarrow> int \<Rightarrow> lifecycle \<Rightarrow> lifecycle" where
  "republish written now lf = (if lf_status_dirty lf then publish written now lf else lf)"

definition poll_control :: "bool \<Rightarrow> bool \<Rightarrow> int \<Rightarrow> control_file \<Rightarrow> lifecycle \<Rightarrow> lifecycle res" where
  "poll_control first second now file lf =
     (let lf = republish first now lf in
      case read_control file lf of None \<Rightarrow> Inr lf | Some request \<Rightarrow> apply_request second now request lf)"

subsection \<open>Mutations\<close>

definition admit_mutation :: "bool \<Rightarrow> int \<Rightarrow> lifecycle \<Rightarrow> lifecycle res" where
  "admit_mutation written now lf =
     (case lf_state lf of
        Running \<Rightarrow> Inr (publish written now (lf\<lparr>lf_active_mutations := lf_active_mutations lf + 1\<rparr>))
      | Draining \<Rightarrow> Inl (ToolError ''runtime_draining'')
      | Stopping \<Rightarrow> Inl (ToolError ''runtime_stopping''))"

definition enter_mutation :: "bool \<Rightarrow> bool \<Rightarrow> bool \<Rightarrow> int \<Rightarrow> control_file \<Rightarrow> lifecycle \<Rightarrow> lifecycle res" where
  "enter_mutation first second third now file lf =
     bind_res (poll_control first second now file lf) (admit_mutation third now)"

definition retire_mutation :: "bool \<Rightarrow> int \<Rightarrow> lifecycle \<Rightarrow> lifecycle res" where
  "retire_mutation written now lf =
     (if lf_active_mutations lf \<le> 0 then Inl RuntimeError
      else Inr (publish written now (lf\<lparr>lf_active_mutations := lf_active_mutations lf - 1\<rparr>)))"

definition exit_mutation :: "bool \<Rightarrow> bool \<Rightarrow> bool \<Rightarrow> int \<Rightarrow> control_file \<Rightarrow> lifecycle \<Rightarrow> lifecycle res" where
  "exit_mutation first second third now file lf =
     bind_res (retire_mutation first now lf) (poll_control second third now file)"

definition mark_stopping :: "bool \<Rightarrow> int \<Rightarrow> lifecycle \<Rightarrow> lifecycle" where
  "mark_stopping written now lf =
     (if \<not> lf_managed lf then lf
      else if lf_state lf \<noteq> Stopping then publish written now (lf\<lparr>lf_state := Stopping\<rparr>) else lf)"

subsection \<open>The supervisor\<close>

text \<open>What ends the wait of \<open>drain_runtime\<close> with \<open>drained = True\<close>.\<close>

definition drain_acknowledged :: "string \<Rightarrow> lifecycle_status option \<Rightarrow> bool" where
  "drain_acknowledged request_id status \<longleftrightarrow>
     (case status of
        None \<Rightarrow> False
      | Some st \<Rightarrow> st_request_id st = Some request_id \<and> st_state st \<in> {Draining, Stopping})"

definition sees_drained :: "string \<Rightarrow> lifecycle_status option \<Rightarrow> bool" where
  "sees_drained request_id status \<longleftrightarrow>
     drain_acknowledged request_id status \<and> (case status of None \<Rightarrow> False | Some st \<Rightarrow> st_active_mutations st = 0)"

subsection \<open>Steps\<close>

record managed_runtime =
  mr_lifecycle :: lifecycle
  mr_inside :: nat

text \<open>A managed runtime starts with status and control files of its own generation; \<open>mr_inside\<close> counts the
  tools that are inside \<open>mutation\<close>.\<close>

definition runtime_start :: "managed_runtime \<Rightarrow> bool" where
  "runtime_start s \<longleftrightarrow>
     mr_inside s = 0 \<and>
     (\<exists>pid written now lf. lf_status_file lf = None \<and> mr_lifecycle s = configure_lifecycle True True pid written now lf)"

inductive runtime_step :: "managed_runtime \<Rightarrow> managed_runtime \<Rightarrow> bool" for s :: managed_runtime where
  rs_republish: "runtime_step s (s\<lparr>mr_lifecycle := republish written now (mr_lifecycle s)\<rparr>)"
| rs_request: "apply_request written now request (mr_lifecycle s) = Inr lf \<Longrightarrow> runtime_step s (s\<lparr>mr_lifecycle := lf\<rparr>)"
| rs_admit: "admit_mutation written now (mr_lifecycle s) = Inr lf \<Longrightarrow>
    runtime_step s (s\<lparr>mr_lifecycle := lf, mr_inside := Suc (mr_inside s)\<rparr>)"
| rs_retire: "0 < mr_inside s \<Longrightarrow> retire_mutation written now (mr_lifecycle s) = Inr lf \<Longrightarrow>
    runtime_step s (s\<lparr>mr_lifecycle := lf, mr_inside := mr_inside s - 1\<rparr>)"
| rs_stop: "runtime_step s (s\<lparr>mr_lifecycle := mark_stopping written now (mr_lifecycle s)\<rparr>)"

subsection \<open>The invariant\<close>

definition status_current :: "lifecycle_status \<Rightarrow> lifecycle \<Rightarrow> bool" where
  "status_current st lf \<longleftrightarrow>
     st_state st = lf_state lf \<and> st_active_mutations st = lf_active_mutations lf \<and> st_request_id st = lf_request_id lf"

definition status_ok :: "lifecycle \<Rightarrow> bool" where
  "status_ok lf \<longleftrightarrow>
     lf_has_control lf \<and> lf_has_status lf \<and> lf_managed lf \<and>
     (case lf_status_file lf of
        None \<Rightarrow> lf_status_dirty lf
      | Some st \<Rightarrow>
          (st_state st \<noteq> Running \<longrightarrow> lf_state lf \<noteq> Running \<and> lf_active_mutations lf \<le> st_active_mutations st) \<and>
          (\<not> lf_status_dirty lf \<longrightarrow> status_current st lf))"

lemma publish_fields [simp]:
  "lf_state (publish w now lf) = lf_state lf" "lf_active_mutations (publish w now lf) = lf_active_mutations lf"
  "lf_has_status (publish w now lf) = lf_has_status lf" "lf_managed (publish w now lf) = lf_managed lf"
  "lf_has_control (publish w now lf) = lf_has_control lf"
  by (simp_all add: publish_def)

text \<open>A published change is safe when it leaves \<open>Running\<close> for good or lets a mutation end.\<close>

lemma publish_ok:
  assumes "status_ok lf" "lf_has_control lf' = lf_has_control lf" "lf_has_status lf' = lf_has_status lf" "lf_managed lf' = lf_managed lf"
    "lf_status_file lf' = lf_status_file lf"
    "lf_state lf \<noteq> Running \<Longrightarrow> lf_state lf' \<noteq> Running \<and> lf_active_mutations lf' \<le> lf_active_mutations lf"
  shows "status_ok (publish written now lf')"
  using assms
  by (cases "lf_status_file lf")
     (auto simp: status_ok_def publish_def lifecycle_snapshot_def status_current_def)

lemma apply_request_cases:
  assumes "apply_request written now request lf = Inr lf'"
  obtains "lf' = lf" | rid deadline stop where
    "lf' = publish written now (lf\<lparr>lf_request_id := rid, lf_deadline := deadline, lf_state := requested_state stop (lf_state lf)\<rparr>)"
  using assms
  by (auto simp: apply_request_def bind_res_Inr split: option.splits json.splits if_splits)

definition runtime_inv :: "managed_runtime \<Rightarrow> bool" where
  "runtime_inv s \<longleftrightarrow> status_ok (mr_lifecycle s) \<and> lf_active_mutations (mr_lifecycle s) = int (mr_inside s)"

lemma runtime_inv_start: "runtime_start s \<Longrightarrow> runtime_inv s"
  by (auto simp: runtime_start_def runtime_inv_def configure_lifecycle_def publish_def status_ok_def
      lifecycle_snapshot_def status_current_def)

lemma runtime_inv_step:
  assumes "runtime_step s s'" "runtime_inv s"
  shows "runtime_inv s'"
    "lf_state (mr_lifecycle s) \<noteq> Running \<Longrightarrow> lf_state (mr_lifecycle s') \<noteq> Running \<and> mr_inside s' \<le> mr_inside s"
proof -
  have ok: "status_ok (mr_lifecycle s)" and n: "lf_active_mutations (mr_lifecycle s) = int (mr_inside s)"
    using assms(2) by (simp_all add: runtime_inv_def)
  have pub: "status_ok (publish w now lf)"
    if "lf_has_control lf = lf_has_control (mr_lifecycle s)" "lf_has_status lf = lf_has_status (mr_lifecycle s)" "lf_managed lf = lf_managed (mr_lifecycle s)"
      "lf_status_file lf = lf_status_file (mr_lifecycle s)"
      "lf_state (mr_lifecycle s) \<noteq> Running \<Longrightarrow>
         lf_state lf \<noteq> Running \<and> lf_active_mutations lf \<le> lf_active_mutations (mr_lifecycle s)" for w now lf
    by (rule publish_ok [OF ok that])
  have "runtime_inv s' \<and> (lf_state (mr_lifecycle s) \<noteq> Running \<longrightarrow>
      lf_state (mr_lifecycle s') \<noteq> Running \<and> mr_inside s' \<le> mr_inside s)"
    using assms(1)
  proof cases
    case (rs_republish written now)
    then show ?thesis using ok n pub [of "mr_lifecycle s"] by (simp add: runtime_inv_def republish_def)
  next
    case (rs_request written now request lf)
    from rs_request(2) show ?thesis
      by (rule apply_request_cases) (use ok n pub in \<open>simp_all add: rs_request(1) runtime_inv_def requested_state_def\<close>)
  next
    case (rs_admit written now lf)
    then show ?thesis using n pub by (auto simp: admit_mutation_def runtime_inv_def split: lifecycle_state.splits)
  next
    case (rs_retire written now lf)
    then show ?thesis using n pub by (auto simp: retire_mutation_def runtime_inv_def split: if_splits)
  next
    case (rs_stop written now)
    then show ?thesis using ok n pub by (simp add: runtime_inv_def mark_stopping_def)
  qed
  then show "runtime_inv s'"
    "lf_state (mr_lifecycle s) \<noteq> Running \<Longrightarrow> lf_state (mr_lifecycle s') \<noteq> Running \<and> mr_inside s' \<le> mr_inside s"
    by blast+
qed

lemma reach_runtime_inv: "reach runtime_start runtime_step s \<Longrightarrow> runtime_inv s"
  by (erule reach_invariant) (auto intro: runtime_inv_start runtime_inv_step(1))

lemma drained_for_good:
  assumes "runtime_step\<^sup>*\<^sup>* s s'" "runtime_inv s" "lf_state (mr_lifecycle s) \<noteq> Running"
  shows "runtime_inv s' \<and> lf_state (mr_lifecycle s') \<noteq> Running \<and> mr_inside s' \<le> mr_inside s"
  using assms
proof (induction rule: rtranclp_induct)
  case (step t u)
  with runtime_inv_step [OF step(2)] show ?case by auto
qed simp

text \<open>The calls of a runtime are sequences of steps.\<close>

lemma poll_control_steps:
  assumes "poll_control first second now file (mr_lifecycle s) = Inr lf"
  shows "runtime_step\<^sup>*\<^sup>* s (s\<lparr>mr_lifecycle := lf\<rparr>)"
proof -
  let ?s = "s\<lparr>mr_lifecycle := republish first now (mr_lifecycle s)\<rparr>"
  have first: "runtime_step s ?s" by (rule rs_republish)
  show ?thesis
  proof (cases "read_control file (mr_lifecycle ?s)")
    case None
    then show ?thesis using assms first by (auto simp: poll_control_def Let_def)
  next
    case (Some request)
    then have "apply_request second now request (mr_lifecycle ?s) = Inr lf"
      using assms by (simp add: poll_control_def Let_def)
    from rs_request [OF this] have "runtime_step ?s (s\<lparr>mr_lifecycle := lf\<rparr>)" by simp
    with first show ?thesis by (blast intro: converse_rtranclp_into_rtranclp)
  qed
qed

lemma exit_mutation_steps:
  assumes "exit_mutation first second third now file (mr_lifecycle s) = Inr lf" "0 < mr_inside s"
  shows "runtime_step\<^sup>*\<^sup>* s (s\<lparr>mr_lifecycle := lf, mr_inside := mr_inside s - 1\<rparr>)"
proof -
  obtain mid where mid: "retire_mutation first now (mr_lifecycle s) = Inr mid" "poll_control second third now file mid = Inr lf"
    using assms(1) by (auto simp: exit_mutation_def bind_res_Inr)
  have "runtime_step s (s\<lparr>mr_lifecycle := mid, mr_inside := mr_inside s - 1\<rparr>)" by (rule rs_retire [OF assms(2) mid(1)])
  moreover have "runtime_step\<^sup>*\<^sup>* (s\<lparr>mr_lifecycle := mid, mr_inside := mr_inside s - 1\<rparr>)
      ((s\<lparr>mr_lifecycle := mid, mr_inside := mr_inside s - 1\<rparr>)\<lparr>mr_lifecycle := lf\<rparr>)"
    by (rule poll_control_steps [of second third now "file"]) (simp add: mid(2))
  moreover have "(s\<lparr>mr_lifecycle := mid, mr_inside := mr_inside s - 1\<rparr>)\<lparr>mr_lifecycle := lf\<rparr> =
      s\<lparr>mr_lifecycle := lf, mr_inside := mr_inside s - 1\<rparr>" by (cases s) simp
  ultimately show ?thesis by (metis converse_rtranclp_into_rtranclp)
qed

lemma enter_mutation_refused:
  assumes "runtime_inv s" "lf_state (mr_lifecycle s) \<noteq> Running"
  shows "is_error (enter_mutation first second third now file (mr_lifecycle s))"
proof (cases "poll_control first second now file (mr_lifecycle s)")
  case (Inr lf)
  from drained_for_good [OF poll_control_steps [OF Inr] assms] have "lf_state lf \<noteq> Running" by simp
  then show ?thesis by (simp add: enter_mutation_def Inr admit_mutation_def split: lifecycle_state.splits)
qed (simp add: enter_mutation_def)

lemma republish_fields [simp]:
  "lf_state (republish w now lf) = lf_state lf" "lf_active_mutations (republish w now lf) = lf_active_mutations lf"
  "lf_has_status (republish w now lf) = lf_has_status lf" "lf_has_control (republish w now lf) = lf_has_control lf"
  by (simp_all add: republish_def)

lemma poll_acknowledges:
  assumes "lf_has_control lf" "lf_has_status lf" "bytes \<le> MAX_CONTROL_BYTES" "request_id \<noteq> []" "command \<in> {''drain'', ''stop''}"
  shows "\<exists>lf'. poll_control first True now (Some (bytes, lifecycle_control_request command request_id (JFloat deadline))) lf = Inr lf' \<and>
    drain_acknowledged request_id (lf_status_file lf') \<and>
    (sees_drained request_id (lf_status_file lf') \<longleftrightarrow> lf_active_mutations lf = 0)"
  using assms
  by (cases "lf_state lf")
     (auto simp: poll_control_def Let_def read_control_def lifecycle_control_request_def current_schema_def lookup_simps
      apply_request_def get_str_def parse_deadline_def publish_def lifecycle_snapshot_def drain_acknowledged_def
      sees_drained_def requested_state_def)

text \<open>C39. The drain handshake is sound: whenever the status file of a managed runtime shows what the supervisor
  takes for drained, even if later writes of the file failed, no tool is inside a mutation, none
  is ever after, and every attempt to enter one is refused. The counter never underflows. A poll that reads the
  supervisor's request and can write the status acknowledges it, and then shows the runtime as drained
  exactly if no tool is inside a mutation.\<close>

theorem drain_sound:
  assumes "reach runtime_start runtime_step s"
  shows "(sees_drained request_id (lf_status_file (mr_lifecycle s)) \<and> runtime_step\<^sup>*\<^sup>* s s' \<longrightarrow>
      mr_inside s' = 0 \<and> is_error (enter_mutation first second third now file (mr_lifecycle s'))) \<and>
    (0 < mr_inside s \<longrightarrow> \<not> is_error (retire_mutation written now (mr_lifecycle s))) \<and>
    (bytes \<le> MAX_CONTROL_BYTES \<and> request_id \<noteq> [] \<and> command \<in> {''drain'', ''stop''} \<longrightarrow>
     (\<exists>lf. poll_control first True now (Some (bytes, lifecycle_control_request command request_id (JFloat deadline)))
         (mr_lifecycle s) = Inr lf \<and>
      drain_acknowledged request_id (lf_status_file lf) \<and>
      (sees_drained request_id (lf_status_file lf) \<longleftrightarrow> mr_inside s = 0)))"
proof (intro conjI impI)
  have inv: "runtime_inv s" by (rule reach_runtime_inv [OF assms])
  then have ok: "status_ok (mr_lifecycle s)" "lf_active_mutations (mr_lifecycle s) = int (mr_inside s)"
    by (simp_all add: runtime_inv_def)
  show "\<not> is_error (retire_mutation written now (mr_lifecycle s))" if "0 < mr_inside s"
    using that ok by (simp add: retire_mutation_def)
  assume seen: "sees_drained request_id (lf_status_file (mr_lifecycle s)) \<and> runtime_step\<^sup>*\<^sup>* s s'"
  then have "lf_state (mr_lifecycle s) \<noteq> Running" "mr_inside s = 0"
    using ok by (auto simp: sees_drained_def drain_acknowledged_def status_ok_def split: option.splits)
  with drained_for_good [OF conjunct2 [OF seen] inv] show "mr_inside s' = 0"
    "is_error (enter_mutation first second third now file (mr_lifecycle s'))"
    by (auto intro: enter_mutation_refused)
next
  have inv: "runtime_inv s" by (rule reach_runtime_inv [OF assms])
  then have ok: "lf_has_control (mr_lifecycle s)" "lf_has_status (mr_lifecycle s)" "lf_active_mutations (mr_lifecycle s) = int (mr_inside s)"
    by (simp_all add: runtime_inv_def status_ok_def)
  assume "bytes \<le> MAX_CONTROL_BYTES \<and> request_id \<noteq> [] \<and> command \<in> {''drain'', ''stop''}"
  with poll_acknowledges [OF ok(1,2), of bytes request_id command first now deadline] ok(3)
  show "\<exists>lf. poll_control first True now (Some (bytes, lifecycle_control_request command request_id (JFloat deadline)))
         (mr_lifecycle s) = Inr lf \<and> drain_acknowledged request_id (lf_status_file lf) \<and>
       (sees_drained request_id (lf_status_file lf) \<longleftrightarrow> mr_inside s = 0)"
    by simp
qed

subsection \<open>An example\<close>

definition lifecycle_zero :: lifecycle where
  "lifecycle_zero =
     \<lparr>lf_state = Running, lf_active_mutations = 0, lf_request_id = None, lf_deadline = None, lf_has_control = False,
      lf_has_status = False, lf_pid = 0, lf_managed = False, lf_status_dirty = False, lf_status_file = None\<rparr>"

definition drain_request :: dict where
  "drain_request = [(''schema_version'', JInt 1), (''command'', JStr ''drain''), (''request_id'', JStr ''r1''), (''deadline'', JInt 9)]"

definition drained_runtime :: managed_runtime where
  "drained_runtime =
     \<lparr>mr_lifecycle = (case apply_request True 2 drain_request (configure_lifecycle True True 7 True 1 lifecycle_zero) of
        Inl _ \<Rightarrow> lifecycle_zero | Inr lf \<Rightarrow> lf), mr_inside = 0\<rparr>"

lemma drained_runtime_reach: "reach runtime_start runtime_step drained_runtime"
proof -
  let ?lf = "configure_lifecycle True True 7 True 1 lifecycle_zero"
  have "runtime_start \<lparr>mr_lifecycle = ?lf, mr_inside = 0\<rparr>"
    unfolding runtime_start_def
    by (intro conjI exI [of _ 7] exI [of _ True] exI [of _ 1] exI [of _ lifecycle_zero]) (simp_all add: lifecycle_zero_def)
  then have "reach runtime_start runtime_step \<lparr>mr_lifecycle = ?lf, mr_inside = 0\<rparr>" by (rule reach_start)
  moreover have "\<not> is_error (apply_request True 2 drain_request ?lf)" by code_simp
  then have "runtime_step \<lparr>mr_lifecycle = ?lf, mr_inside = 0\<rparr> drained_runtime"
    using rs_request [of True 2 drain_request "\<lparr>mr_lifecycle = ?lf, mr_inside = 0\<rparr>"]
    by (cases "apply_request True 2 drain_request ?lf") (simp_all add: drained_runtime_def)
  ultimately show ?thesis by (rule reach_step)
qed

theorem drain_sound_witness:
  "sees_drained ''r1'' (lf_status_file (mr_lifecycle drained_runtime)) \<and>
   is_error (enter_mutation True True True 3 None (mr_lifecycle drained_runtime))"
proof -
  have "sees_drained ''r1'' (lf_status_file (mr_lifecycle drained_runtime))" by code_simp
  with drain_sound [OF drained_runtime_reach, of "''r1''" drained_runtime True True True 3 None] show ?thesis by simp
qed

end
