(* ===== verification/Spec2Isabelle.thy ===== *)
theory Spec2Isabelle
  imports Workflow_Models Store_Steps Job_Views Job_Retention Workflow_Retention Artifact_Retention Retention_Manager
    Runtime_Capacity Execution_Router Journal_Properties Journal_Invalid Resource_Locks Single_Flight
    Runtime_Lifecycle
begin

text \<open>
  Verification of the durable execution core of ComputerPilot: workflows, jobs, routing and the recovery journal.

  \<^bold>\<open>The program.\<close> A server lets a model run workflows and commands on a computer. Several processes share
  SQLite databases: the store of workflows (\<open>core/workflow_store.py\<close>) and the store of jobs
  (\<open>core/jobs.py\<close>). A workflow is a graph of steps; a worker takes its lease, claims operations that are ready,
  reserves the resources an operation touches, crosses a dispatch barrier right before the outside effect, and
  completes the attempt. Processes crash at any point, so recovery must never repeat an effect that may have
  happened. Capacity permits bound what runs at once, and background threads prune the histories.

  \<^bold>\<open>How it is modelled.\<close> A database is a record of tables, a table a list of rows, a row a record with
  the columns of the schema. A statement is a function on rows (\<open>sql_update\<close>, \<open>sql_delete\<close>, \<open>sql_one\<close>, ... in
  \<open>Prelude\<close>), a method of a store a function from the database to an error or to the new database and the answer;
  an exception rolls back, so an error carries no database. Times of the workflow store are milliseconds
  (\<open>int\<close>), those of the jobs seconds (\<open>rat\<close>); clocks, fresh identifiers, hashes, the codecs, the processes of the
  operating system and the files are parameters. What several processes do is a step relation whose steps are
  whole transactions (\<open>store_call\<close>, \<open>job_call\<close>, \<open>manager_step\<close>); reachable states are those of \<open>reach\<close>.

  \<^bold>\<open>Theories, sources and results.\<close>

  \<^item> \<open>Prelude\<close>: errors as values, the statements on tables and their laws, reachability, and the two interfaces
    the stores are used through: \<open>exclusive_holding\<close> (holders are pairwise compatible because a grant checks them)
    and \<open>bounded_load\<close> (a load stays within its limit because a grant checks it); the arithmetic of polling.
  \<^item> \<open>Workflow_Models\<close> (\<open>core/workflow_models.py\<close>): states, transition tables, definitions, and
    \<open>workflow_topological_order\<close>: sound, complete for acyclic graphs, and stable.
  \<^item> \<open>Resource_Claims\<close> (\<open>core/resource_claims.py\<close>): overlap, conflict and coverage of claims, equal to sharing a
    location of which one side writes.
  \<^item> \<open>Workflow_Db\<close>: the tables, redaction, canonical JSON and digests of \<open>core/workflow_store.py\<close>.
  \<^item> \<open>Resource_Admission\<close>: reserving, binding, releasing, quarantining and resolving resource requests, with the
    triggers of the schema and the record quota; exact conditions of admission.
  \<^item> \<open>Capacity\<close>, \<open>Runtime_Capacity\<close> (\<open>core/runtime_capacity.py\<close>): weighted permits in ticket order, and the client
    that waits for one under a deadline and leaves nothing behind.
  \<^item> \<open>Leases\<close>, \<open>Attempts\<close>: leases with takeover, and the claim, preparation, dispatch and completion of one attempt;
    stale workers are fenced, an attempt settles once, the barrier is crossed under a live lease only.
  \<^item> \<open>Aggregate\<close>, \<open>Lifecycle\<close>: the derived state of a workflow, transitions under a version, cancellation, resuming,
    routes, checkpoints and manual resolution.
  \<^item> \<open>Recovery\<close>: what a restart does to interrupted workflows; nothing that may have been dispatched is ready again.
  \<^item> \<open>Workflow_Actions\<close> (\<open>core/workflow_actions.py\<close>): the table of actions, their validation and derived claims.
  \<^item> \<open>Workflow_Create\<close>: creation with its idempotency key, and the view whose ready list agrees with claiming.
  \<^item> \<open>Store_Steps\<close>: all calls of the store as a transition system. The interfaces are interpreted on it: active
    requests exclude each other, capacity and parallelism stay bounded, tables stay well formed, and a quarantine
    ends only by resolution, in every reachable state.
  \<^item> \<open>Jobs\<close>, \<open>Job_Views\<close> (\<open>core/jobs.py\<close>): the jobs table and every statement on it as a transition system; slots
    stay bounded, request keys are idempotent, cancellation and dispatch exclude each other, the version counts
    every change; the long poll returns and the output cursors lose nothing.
  \<^item> \<open>Job_Retention\<close>, \<open>Workflow_Retention\<close>, \<open>Artifact_Retention\<close> (\<open>core/job_retention.py\<close>,
    \<open>core/workflow_retention.py\<close>, \<open>core/artifact_retention.py\<close>): the cleanups spare what is live or in doubt and
    meet their policies. \<open>Retention_Manager\<close>: the thread that runs them loses no request.
  \<^item> \<open>Execution_Models\<close>, \<open>Tool_Catalog\<close>, \<open>Execution_Router\<close> (\<open>core/execution_models.py\<close>, \<open>core/tool_catalog.py\<close>,
    \<open>core/execution_router.py\<close>, \<open>core/router_metrics.py\<close>): from an intent to the candidates, their screening, their
    order and the decision. Planning is type sound and safe, the choice is the least admissible route and does not
    depend on the order of the offers, and the counters add up. The order is an instance of \<open>total_rank\<close>.
  \<^item> \<open>Journal_Records\<close>, \<open>Operation_Journal\<close> (\<open>core/recovery.py\<close>, \<open>core/recovery_models.py\<close>): the records of the recovery
    journal, the file as lines of which a crash may tear the last, the state the records denote, and every method.
    \<open>Journal_Safety\<close> abstracts a method to the record it writes and its guard (\<open>writes\<close>), \<open>Journal_Calls\<close> shows that
    the methods refine those steps, \<open>Journal_Dispatch\<close> that the mark of a dispatch is carried by every later record,
    and \<open>Journal_Properties\<close> draws the conclusions for all files that runtimes and crashes can produce. \<open>Journal_Invalid\<close> shows
    which writes leave a journal that no later start accepts.
  \<^item> \<open>Resource_Locks\<close> (\<open>core/resource_locks.py\<close>), \<open>Single_Flight\<close> (\<open>core/singleflight.py\<close>): coordination of the threads
    of one process, as steps that interleave: locks on paths that exclude and never deadlock, and refreshes that are
    shared without ever giving a caller a result older than its request.
  \<^item> \<open>Runtime_Lifecycle\<close> (\<open>core/lifecycle.py\<close>, the drain test of \<open>scripts/supervisor.py\<close>): the handshake by which a
    supervisor learns through a status file that no mutation runs or will run.

  \<^bold>\<open>Fuel.\<close> Two loops that poll take fuel: \<open>wait_loop\<close> and \<open>acquire_loop\<close>. For a clock that does not run backwards and
  sleeps that last as long as asked, \<open>\<lceil>20 t\<rceil> + 1\<close> rounds are enough for a timeout of \<open>t\<close> seconds (the shortest
  pause is a twentieth) and \<open>\<lceil>(deadline - start) / poll\<rceil> + 1\<close> for a permit; both are proved. The limit loop of the
  artifact cleanup and the topological order terminate by a measure. \<open>read_end\<close> needs one call per byte at most.

  \<^bold>\<open>Not modelled.\<close> Schema migrations, connection handling and tracing; capability tokens (base64 JSON) and claims of
  the managed tools; listings and health counts, which only read; the handlers of actions, which run git, HTTP,
  tests and patches; threads and child processes of the executor, the job scheduler and the worker, of which
  only the calls on the stores are steps; delivery of output as files; of the recovery journal, the cache of the
  count of open operations, the HMAC correlation and the context managers that bind an operation to a thread; tools,
  extensions and scripts. \<open>release_dead_resource_capacity\<close> inspects processes of the operating system. The retention
  cleanups are functions on their tables and are not steps of \<open>store_call\<close> and \<open>job_call\<close>.
\<close>

end
